(* ===== verification/Prelude.thy ===== *)
theory Prelude
  imports Main "HOL-Library.Word" "HOL-Library.Multiset" "HOL-Library.Sublist"
begin

text \<open>
  What the components share: the C library's character classes and number
  conversions the sources call, the \<^verbatim>\<open>errno\<close> values they return, decimal
  printing (\<^verbatim>\<open>snprintf\<close> with \<^verbatim>\<open>%zu\<close> and \<^verbatim>\<open>%lld\<close>), and generic
  facts on lists.  A C string is a HOL \<^verbatim>\<open>string\<close>, a list of 8-bit characters;
  C comparisons of characters go through their codes.
\<close>

named_theorems ctype_simps \<open>character classes of the C locale\<close>
named_theorems dec_simps \<open>decimal printing and reading\<close>

section \<open>Error numbers\<close>

abbreviation EINVAL :: int where "EINVAL \<equiv> 22"
abbreviation ENOMEM :: int where "ENOMEM \<equiv> 12"
abbreviation ENOSPC :: int where "ENOSPC \<equiv> 28"
abbreviation ERANGE :: int where "ERANGE \<equiv> 34"

section \<open>Characters\<close>

abbreviation chr_code :: "char \<Rightarrow> nat" where "chr_code c \<equiv> of_char c"

abbreviation NUL :: char where "NUL \<equiv> CHR 0x00"

definition isdigit :: "char \<Rightarrow> bool" where
  "isdigit c \<longleftrightarrow> 48 \<le> chr_code c \<and> chr_code c \<le> 57"

definition isxdigit :: "char \<Rightarrow> bool" where
  "isxdigit c \<longleftrightarrow> isdigit c \<or> (65 \<le> chr_code c \<and> chr_code c \<le> 70)
     \<or> (97 \<le> chr_code c \<and> chr_code c \<le> 102)"

definition isspace :: "char \<Rightarrow> bool" where
  "isspace c \<longleftrightarrow> chr_code c = 32 \<or> (9 \<le> chr_code c \<and> chr_code c \<le> 13)"

lemma not_isdigit_NUL [simp]: "\<not> isdigit NUL"
  by (simp add: isdigit_def)

lemma not_isxdigit_NUL [simp]: "\<not> isxdigit NUL"
  by (simp add: isxdigit_def)

lemma not_isspace_NUL [simp]: "\<not> isspace NUL"
  by (simp add: isspace_def)

lemma isdigit_not_space: "isdigit c \<Longrightarrow> \<not> isspace c"
  by (auto simp: isdigit_def isspace_def)

section \<open>Decimal numerals\<close>

definition digit_char :: "nat \<Rightarrow> char" where
  "digit_char d = char_of (48 + d)"

definition digit_val :: "char \<Rightarrow> nat" where
  "digit_val c = chr_code c - 48"

lemma chr_code_digit_char [dec_simps]: "d < 10 \<Longrightarrow> chr_code (digit_char d) = 48 + d"
  by (simp add: digit_char_def)

lemma isdigit_digit_char [simp]: "d < 10 \<Longrightarrow> isdigit (digit_char d)"
  by (simp add: isdigit_def chr_code_digit_char)

lemma digit_val_digit_char [simp]: "d < 10 \<Longrightarrow> digit_val (digit_char d) = d"
  by (simp add: digit_val_def chr_code_digit_char)

text \<open>The characters \<^verbatim>\<open>snprintf\<close> writes for \<^verbatim>\<open>%zu\<close>.\<close>

fun dec :: "nat \<Rightarrow> string" where
  "dec n = (if n < 10 then [digit_char n] else dec (n div 10) @ [digit_char (n mod 10)])"

declare dec.simps [simp del]

lemma dec_small: "n < 10 \<Longrightarrow> dec n = [digit_char n]"
  by (simp add: dec.simps)

lemma dec_big: "10 \<le> n \<Longrightarrow> dec n = dec (n div 10) @ [digit_char (n mod 10)]"
  by (subst dec.simps) simp

lemma dec_nonempty [simp]: "dec n \<noteq> []"
  by (subst dec.simps) simp

lemma dec_digits: "c \<in> set (dec n) \<Longrightarrow> isdigit c"
proof (induction n rule: dec.induct)
  case (1 n)
  then show ?case
    by (cases "n < 10") (auto simp: dec_small dec_big)
qed

text \<open>The characters of a signed number: \<^verbatim>\<open>%d\<close> and \<^verbatim>\<open>%lld\<close>.\<close>

definition dec_int :: "int \<Rightarrow> string" where
  "dec_int i = (if i < 0 then CHR ''-'' # dec (nat (- i)) else dec (nat i))"

text \<open>A bound on the number of digits.\<close>

lemma length_dec_le: "n < 10 ^ k \<Longrightarrow> 0 < k \<Longrightarrow> length (dec n) \<le> k"
proof (induction k arbitrary: n)
  case 0
  then show ?case by simp
next
  case (Suc k)
  show ?case
  proof (cases "n < 10")
    case True
    then show ?thesis by (simp add: dec_small)
  next
    case False
    then have "k \<noteq> 0" using Suc.prems by (cases k) auto
    moreover have "n div 10 < 10 ^ k" using Suc.prems(1) by (simp add: less_mult_imp_div_less)
    ultimately have "length (dec (n div 10)) \<le> k" using Suc.IH by simp
    with False show ?thesis by (simp add: dec_big)
  qed
qed

lemma length_dec_pos: "0 < length (dec n)"
  by simp

section \<open>Reading decimal numerals\<close>

text \<open>The digits at the start of a string, read left to right.\<close>

fun read_digits :: "nat \<Rightarrow> string \<Rightarrow> nat \<times> string" where
  "read_digits acc [] = (acc, [])"
| "read_digits acc (c # cs) =
     (if isdigit c then read_digits (10 * acc + digit_val c) cs else (acc, c # cs))"

definition digits_value :: "string \<Rightarrow> nat" where
  "digits_value ds = fold (\<lambda>c acc. 10 * acc + digit_val c) ds 0"

lemma read_digits_append:
  "\<forall>c \<in> set ds. isdigit c \<Longrightarrow>
    read_digits acc (ds @ rest) = read_digits (fold (\<lambda>c a. 10 * a + digit_val c) ds acc) rest"
  by (induction ds arbitrary: acc) auto

lemma read_digits_stop: "rest = [] \<or> \<not> isdigit (hd rest) \<Longrightarrow> read_digits acc rest = (acc, rest)"
  by (cases rest) auto

lemma digits_value_dec: "fold (\<lambda>c a. 10 * a + digit_val c) (dec n) 0 = n"
proof (induction n rule: dec.induct)
  case (1 n)
  then show ?case
    by (cases "n < 10") (simp_all add: dec_small dec_big)
qed

lemma read_digits_dec:
  "rest = [] \<or> \<not> isdigit (hd rest) \<Longrightarrow> read_digits 0 (dec n @ rest) = (n, rest)"
  by (simp add: read_digits_append dec_digits digits_value_dec read_digits_stop)

lemma read_digits_suffix: "read_digits acc s = (v, r) \<Longrightarrow> \<exists>ds. s = ds @ r \<and> (\<forall>c \<in> set ds. isdigit c)"
proof (induction acc s rule: read_digits.induct)
  case (1 acc)
  then show ?case by simp
next
  case (2 acc c cs)
  show ?case
  proof (cases "isdigit c")
    case True
    with 2 obtain ds where "cs = ds @ r" "\<forall>c \<in> set ds. isdigit c" by auto
    with True show ?thesis by (intro exI [of _ "c # ds"]) auto
  next
    case False
    with 2 show ?thesis by (intro exI [of _ "[]"]) auto
  qed
qed

text \<open>
  \<^verbatim>\<open>strtol\<close> with base 10 on the 64-bit \<^verbatim>\<open>long\<close> of the target: leading white
  space, an optional sign, digits; the unread rest; the value saturated to the range of
  \<^verbatim>\<open>long\<close> with a range error (\<^verbatim>\<open>errno\<close> set to \<^verbatim>\<open>ERANGE\<close>) when it does not
  fit.  With no digit, nothing is read and the value is 0.
\<close>

definition LONG_MAX :: int where "LONG_MAX = 2 ^ 63 - 1"
definition LONG_MIN :: int where "LONG_MIN = - (2 ^ 63)"

definition strtol10 :: "string \<Rightarrow> int \<times> string \<times> bool" where
  "strtol10 s =
     (let s1 = dropWhile isspace s;
          neg = (s1 \<noteq> [] \<and> hd s1 = CHR ''-'');
          s2 = (if s1 \<noteq> [] \<and> (hd s1 = CHR ''-'' \<or> hd s1 = CHR ''+'') then tl s1 else s1)
      in if s2 = [] \<or> \<not> isdigit (hd s2) then (0, s, False)
         else (let (v, r) = read_digits 0 s2;
                   i = (if neg then - int v else int v)
               in if i < LONG_MIN then (LONG_MIN, r, True)
                  else if LONG_MAX < i then (LONG_MAX, r, True)
                  else (i, r, False)))"

text \<open>
  The string as memory holds it may run on past what the code means to read; the reader
  stops at the first character that is not a digit.  Values are truncated to
  \<^verbatim>\<open>int\<close> (\<^verbatim>\<open>atoi\<close> is \<^verbatim>\<open>(int) strtol\<close> in the C library of the target).
\<close>

definition to_int32 :: "int \<Rightarrow> int" where
  "to_int32 v = (v + 2 ^ 31) mod 2 ^ 32 - 2 ^ 31"

definition atoi :: "string \<Rightarrow> int" where
  "atoi s = to_int32 (fst (strtol10 s))"

lemma to_int32_id: "- (2 ^ 31) \<le> v \<Longrightarrow> v < 2 ^ 31 \<Longrightarrow> to_int32 v = v"
  by (simp add: to_int32_def)

lemma to_int32_range: "- (2 ^ 31) \<le> to_int32 v \<and> to_int32 v < 2 ^ 31"
  by (simp add: to_int32_def)

lemma hd_dec_digit: "isdigit (hd (dec n @ rest))"
  using dec_digits [of "hd (dec n)" n] by simp

lemma hd_dec_not_sign: "hd (dec n @ rest) \<noteq> CHR ''-''" "hd (dec n @ rest) \<noteq> CHR ''+''"
  using hd_dec_digit [of n rest] by (auto simp: isdigit_def)

lemma dropWhile_hd: "xs \<noteq> [] \<Longrightarrow> \<not> P (hd xs) \<Longrightarrow> dropWhile P xs = xs"
  by (cases xs) auto

lemma strtol10_dec_int:
  assumes "LONG_MIN \<le> i" "i \<le> LONG_MAX" "rest = [] \<or> \<not> isdigit (hd rest)"
  shows "strtol10 (dec_int i @ rest) = (i, rest, False)"
proof (cases "i < 0")
  case True
  have "dropWhile isspace (CHR ''-'' # dec (nat (- i)) @ rest) = CHR ''-'' # dec (nat (- i)) @ rest"
    by (simp add: isspace_def)
  with True assms show ?thesis
    using hd_dec_digit [of "nat (- i)" rest]
    by (simp add: strtol10_def dec_int_def Let_def read_digits_dec)
next
  case False
  have "dropWhile isspace (dec (nat i) @ rest) = dec (nat i) @ rest"
    using hd_dec_digit [of "nat i" rest] by (intro dropWhile_hd) (auto dest: isdigit_not_space)
  with False assms show ?thesis
    using hd_dec_digit [of "nat i" rest] hd_dec_not_sign [of "nat i" rest]
    by (simp add: strtol10_def dec_int_def Let_def read_digits_dec)
qed

lemma strtol10_dec_int_any:
  "strtol10 (dec_int i) =
    (if i < LONG_MIN then (LONG_MIN, [], True) else if LONG_MAX < i then (LONG_MAX, [], True) else (i, [], False))"
proof (cases "i < 0")
  case True
  have "dropWhile isspace (CHR ''-'' # dec (nat (- i))) = CHR ''-'' # dec (nat (- i))"
    by (simp add: isspace_def)
  with True show ?thesis
    using hd_dec_digit [of "nat (- i)" "[]"] read_digits_dec [of "[]" "nat (- i)"]
    by (simp add: strtol10_def dec_int_def Let_def)
next
  case False
  have "dropWhile isspace (dec (nat i)) = dec (nat i)"
    using hd_dec_digit [of "nat i" "[]"] by (intro dropWhile_hd) (auto dest: isdigit_not_space)
  with False show ?thesis
    using hd_dec_digit [of "nat i" "[]"] hd_dec_not_sign [of "nat i" "[]"] read_digits_dec [of "[]" "nat i"]
    by (simp add: strtol10_def dec_int_def Let_def)
qed

section \<open>Lists\<close>

lemma take_Suc_nth_snoc: "i < length xs \<Longrightarrow> take (Suc i) xs = take i xs @ [xs ! i]"
  by (rule take_Suc_conv_app_nth)

lemma filter_cong_stable:
  "(\<And>x. x \<in> set xs \<Longrightarrow> P x = Q x) \<Longrightarrow> filter P xs = filter Q xs"
  by (rule filter_cong) auto

lemma mset_eq_set: "mset xs = mset ys \<Longrightarrow> set xs = set ys"
  by (metis set_mset_mset)

section \<open>Memory\<close>

text \<open>Bytes by address, and a string at an address.\<close>

type_synonym memory = "nat \<Rightarrow> char"

definition at_mem :: "memory \<Rightarrow> nat \<Rightarrow> string \<Rightarrow> bool" where
  "at_mem mem p s \<longleftrightarrow> (\<forall>i < length s. mem (p + i) = s ! i)"

lemma at_mem_Nil [simp]: "at_mem mem p []"
  by (simp add: at_mem_def)

lemma at_mem_Cons [simp]: "at_mem mem p (c # s) \<longleftrightarrow> mem p = c \<and> at_mem mem (Suc p) s"
  by (auto simp: at_mem_def nth_Cons split: nat.splits)

lemma at_mem_append [simp]: "at_mem mem p (s @ s') \<longleftrightarrow> at_mem mem p s \<and> at_mem mem (p + length s) s'"
  by (induction s arbitrary: p) auto

lemma at_mem_cong: "at_mem mem p s \<Longrightarrow> (\<And>i. p \<le> i \<Longrightarrow> i < p + length s \<Longrightarrow> mem' i = mem i) \<Longrightarrow> at_mem mem' p s"
  by (simp add: at_mem_def)

end
