(* ===== verification/Compare.thy ===== *)
theory Compare
  imports Prelude
begin

text \<open>
  Comparing and sorting as the C library does: comparison functions of \<^verbatim>\<open>qsort\<close> and of the
  list sort of the h2o application, \<^verbatim>\<open>memcmp\<close> and \<^verbatim>\<open>strcmp\<close>.
\<close>

section \<open>Comparison functions\<close>

type_synonym 'a cmp = "'a \<Rightarrow> 'a \<Rightarrow> int"

text \<open>What a sort asks of its comparison function: a total preorder.\<close>

locale comparator =
  fixes compare :: "'a cmp"
  assumes total: "compare x y \<le> 0 \<or> compare y x \<le> 0"
    and trans: "compare x y \<le> 0 \<Longrightarrow> compare y z \<le> 0 \<Longrightarrow> compare x z \<le> 0"
begin

lemma not_le_le: "\<not> compare x y \<le> 0 \<Longrightarrow> compare y x \<le> 0"
  using total by blast

end

text \<open>\<^verbatim>\<open>qsort\<close>: a list sorted by the comparison, here by insertion.\<close>

fun insert_cmp :: "('a \<Rightarrow> 'a \<Rightarrow> int) \<Rightarrow> 'a \<Rightarrow> 'a list \<Rightarrow> 'a list" where
  "insert_cmp cmp x [] = [x]"
| "insert_cmp cmp x (y # ys) = (if cmp x y \<le> 0 then x # y # ys else y # insert_cmp cmp x ys)"

definition qsort :: "('a \<Rightarrow> 'a \<Rightarrow> int) \<Rightarrow> 'a list \<Rightarrow> 'a list" where
  "qsort cmp xs = foldr (insert_cmp cmp) xs []"

lemma mset_insert_cmp [simp]: "mset (insert_cmp cmp x ys) = add_mset x (mset ys)"
  by (induction ys) auto

lemma mset_qsort [simp]: "mset (qsort cmp xs) = mset xs"
  by (induction xs) (simp_all add: qsort_def)

context comparator
begin

lemma sorted_insert_cmp:
  "sorted_wrt (\<lambda>a b. compare a b \<le> 0) ys \<Longrightarrow> sorted_wrt (\<lambda>a b. compare a b \<le> 0) (insert_cmp compare x ys)"
proof (induction ys)
  case (Cons y ys)
  have "set (insert_cmp compare x ys) = insert x (set ys)"
    using mset_eq_set [of "insert_cmp compare x ys" "x # ys"] by simp
  with Cons show ?case by (auto intro: trans dest: not_le_le)
qed simp

lemma qsort_sorted: "sorted_wrt (\<lambda>a b. compare a b \<le> 0) (qsort compare xs)"
  by (induction xs) (simp_all add: qsort_def sorted_insert_cmp)

end

text \<open>In an order, only one list of the elements of a multiset is sorted.\<close>

lemma sorted_wrt_unique:
  assumes "\<And>x y. x \<in> set xs \<Longrightarrow> y \<in> set xs \<Longrightarrow> le x y \<Longrightarrow> le y x \<Longrightarrow> x = y"
  shows "sorted_wrt le xs \<Longrightarrow> sorted_wrt le ys \<Longrightarrow> mset xs = mset ys \<Longrightarrow> xs = ys"
  using assms
proof (induction xs arbitrary: ys)
  case (Cons x xs)
  then obtain y ys' where ys: "ys = y # ys'" by (cases ys) auto
  have sets: "set (x # xs) = set (y # ys')" using Cons.prems(3) unfolding ys by (rule mset_eq_setD)
  have "x = y"
  proof (rule ccontr)
    assume "x \<noteq> y"
    with sets have "x \<in> set ys'" "y \<in> set xs" by auto
    then have "le y x" "le x y" using Cons.prems(1,2) ys by auto
    with Cons.prems(4) \<open>y \<in> set xs\<close> \<open>x \<noteq> y\<close> show False by auto
  qed
  with Cons ys show ?case by auto
qed simp

section \<open>Bytes\<close>

text \<open>\<^verbatim>\<open>memcmp\<close>: the sign of the first difference, on unsigned bytes.\<close>

fun memcmp :: "nat \<Rightarrow> string \<Rightarrow> string \<Rightarrow> int" where
  "memcmp 0 a b = 0"
| "memcmp (Suc n) (x # a) (y # b) = (if x = y then memcmp n a b else int (chr_code x) - int (chr_code y))"
| "memcmp (Suc n) a b = 0"

text \<open>The order it stands for: by the bytes, a prefix first.\<close>

fun bytes_le :: "string \<Rightarrow> string \<Rightarrow> bool" where
  "bytes_le [] b = True"
| "bytes_le (x # a) [] = False"
| "bytes_le (x # a) (y # b) = (chr_code x < (chr_code y :: nat) \<or> x = y \<and> bytes_le a b)"

lemma bytes_le_total: "bytes_le a b \<or> bytes_le b a"
proof (induction a b rule: bytes_le.induct)
  case (3 x a y b)
  then show ?case by (cases "chr_code x < (chr_code y :: nat)"; cases "chr_code y < (chr_code x :: nat)")
      (auto simp: not_less dest: antisym)
qed auto

lemma bytes_le_trans: "bytes_le a b \<Longrightarrow> bytes_le b c \<Longrightarrow> bytes_le a c"
proof (induction a arbitrary: b c)
  case (Cons x a)
  then obtain y b' where b: "b = y # b'" by (cases b) auto
  with Cons.prems obtain z c' where c: "c = z # c'" by (cases c) auto
  show ?case using Cons.prems Cons.IH [of b' c'] unfolding b c by auto
qed simp

lemma bytes_le_antisym: "bytes_le a b \<Longrightarrow> bytes_le b a \<Longrightarrow> a = b"
  by (induction a b rule: bytes_le.induct) (auto elim: bytes_le.elims)

lemma chr_code_less: "x \<noteq> y \<Longrightarrow> chr_code x < (chr_code y :: nat) \<longleftrightarrow> chr_code x \<le> (chr_code y :: nat)"
  using of_char_eq_iff [where 'a = nat, of x y] by (simp add: order_less_le)

lemma memcmp_le:
  "(let ret = memcmp (min (length a) (length b)) a b
    in (if ret = 0 then (if length a < length b then - 1 else if length b < length a then 1 else 0) else ret) \<le> 0)
    \<longleftrightarrow> bytes_le a b"
proof (induction a b rule: bytes_le.induct)
  case (3 x a y b)
  then show ?case using chr_code_less [of x y] by (auto simp: Let_def)
qed (auto simp: Let_def)

text \<open>
  \<^verbatim>\<open>strcmp\<close>: the sign of the first difference of the characters before the first zero, as
  unsigned bytes.
\<close>

fun compare_chars :: "string \<Rightarrow> string \<Rightarrow> int" where
  "compare_chars [] [] = 0"
| "compare_chars (x # a) [] = int (chr_code x)"
| "compare_chars [] (y # b) = - int (chr_code y)"
| "compare_chars (x # a) (y # b) = (if x = y then compare_chars a b else int (chr_code x) - int (chr_code y))"

definition strcmp :: "string \<Rightarrow> string \<Rightarrow> int" where
  "strcmp a b = compare_chars (takeWhile (\<lambda>c. c \<noteq> NUL) a) (takeWhile (\<lambda>c. c \<noteq> NUL) b)"

lemma chr_code_pos: "c \<noteq> NUL \<Longrightarrow> 0 < (chr_code c :: nat)"
  using of_char_eq_iff [where 'a = nat, of c NUL] by simp

lemma compare_chars_le: "NUL \<notin> set a \<Longrightarrow> compare_chars a b \<le> 0 \<longleftrightarrow> bytes_le a b"
proof (induction a b rule: compare_chars.induct)
  case (2 x a)
  then show ?case using chr_code_pos [of x] by auto
next
  case (4 x a y b)
  then show ?case using chr_code_less [of x y] by auto
qed auto

lemma no_NUL_takeWhile: "NUL \<notin> set (takeWhile (\<lambda>c. c \<noteq> NUL) s)"
  by (auto dest: set_takeWhileD)

lemma strcmp_le: "strcmp a b \<le> 0 \<longleftrightarrow> bytes_le (takeWhile (\<lambda>c. c \<noteq> NUL) a) (takeWhile (\<lambda>c. c \<noteq> NUL) b)"
  by (simp add: strcmp_def compare_chars_le no_NUL_takeWhile)

lemma takeWhile_no_NUL: "NUL \<notin> set s \<Longrightarrow> takeWhile (\<lambda>c. c \<noteq> NUL) s = s"
  by (auto simp: takeWhile_eq_all_conv)

lemma strcmp_le_bytes: "NUL \<notin> set a \<Longrightarrow> NUL \<notin> set b \<Longrightarrow> strcmp a b \<le> 0 \<longleftrightarrow> bytes_le a b"
  by (simp add: strcmp_le takeWhile_no_NUL)

end
