(* ===== verification/Ffead_Rows.thy ===== *)
theory Ffead_Rows
  imports Compare "HOL-Library.Word"
begin

text \<open>
  What the ffead-cpp applications (\<^verbatim>\<open>t2\<close>, \<^verbatim>\<open>t3\<close>, \<^verbatim>\<open>t4\<close> and
  \<^verbatim>\<open>t5\<close>) share: rows of the table World, how many of them a request asks for, new random
  numbers, the texts of their queries, the cache of rows and the list of fortunes.  A value
  \<^verbatim>\<open>fastrand\<close> gave is a natural number; \<^verbatim>\<open>fastStrToNum\<close>, the cache and the
  writer of JSON are parameters.
\<close>

section \<open>Rows\<close>

record world_row =
  row_id :: int
  row_number :: int

text \<open>The constructors with no, one and two arguments.\<close>

definition new_row0 :: world_row where "new_row0 = \<lparr>row_id = 0, row_number = 0\<rparr>"
definition new_row :: "int \<Rightarrow> world_row" where "new_row i = \<lparr>row_id = i, row_number = 0\<rparr>"
definition new_row2 :: "int \<Rightarrow> int \<Rightarrow> world_row" where "new_row2 i n = \<lparr>row_id = i, row_number = n\<rparr>"

text \<open>What \<^verbatim>\<open>toJson\<close> asks of the writer of JSON.\<close>

datatype json_event = StartObject | EndObject | StartArray | EndArray | JString string | JInt int

definition row_json :: "world_row \<Rightarrow> json_event list" where
  "row_json w = [StartObject, JString ''id'', JInt (row_id w), JString ''randomNumber'', JInt (row_number w), EndObject]"

definition rows_json :: "world_row list \<Rightarrow> json_event list" where
  "rows_json vec = [StartArray] @ concat (map row_json vec) @ [EndArray]"

definition message_json :: "string \<Rightarrow> json_event list" where
  "message_json m = [StartObject, JString ''message'', JString m, EndObject]"

section \<open>Numbers\<close>

definition query_count :: "int \<Rightarrow> int" where
  "query_count n = max 1 (min n 500)"

lemma query_count_bounds: "1 \<le> query_count n \<and> query_count n \<le> 500"
  by (simp add: query_count_def)

text \<open>
  \<^verbatim>\<open>strToNum\<close> of \<^verbatim>\<open>t2\<close>: what it returns and what it leaves in its argument; a number
  that an \<^verbatim>\<open>int\<close> cannot hold is undefined.
\<close>

definition INT_MAX :: int where "INT_MAX = 2 ^ 31 - 1"

fun str_to_num_loop :: "string \<Rightarrow> int \<Rightarrow> (bool \<times> int) option" where
  "str_to_num_loop [] ret = Some (True, ret)"
| "str_to_num_loop (c # s) ret =
     (if \<not> isdigit c then Some (False, ret)
      else (let ret = ret * 10 + int (digit_val c) in if INT_MAX < ret then None else str_to_num_loop s ret))"

definition strToNum :: "string \<Rightarrow> (bool \<times> int) option" where
  "strToNum s = str_to_num_loop s 0"

text \<open>The bounds \<^verbatim>\<open>t2\<close> puts on the number.\<close>

definition t2_query_count :: "string \<Rightarrow> int option" where
  "t2_query_count q = map_option (\<lambda>(ok, n). if n < 1 then 1 else if 500 < n then 500 else n) (strToNum q)"

lemma str_to_num_loop_eq:
  assumes "0 \<le> ret" "ret \<le> INT_MAX"
  shows "str_to_num_loop s ret =
    (let v = fold (\<lambda>c a. 10 * a + digit_val c) (takeWhile isdigit s) (nat ret)
     in if INT_MAX < int v then None else Some (dropWhile isdigit s = [], int v))"
  using assms
proof (induction s arbitrary: ret)
  case (Cons c s)
  show ?case
  proof (cases "isdigit c")
    case True
    let ?r = "ret * 10 + int (digit_val c)"
    have r: "nat ?r = 10 * nat ret + digit_val c" using Cons.prems by simp
    show ?thesis
    proof (cases "INT_MAX < ?r")
      case True
      have grow: "v \<le> fold (\<lambda>c a. 10 * a + digit_val c) xs v" for v and xs :: string
      proof (induction xs arbitrary: v)
        case (Cons x xs)
        show ?case using Cons.IH [of "10 * v + digit_val x"] by simp
      qed simp
      have "INT_MAX < int (nat ?r)" using True Cons.prems by simp
      also have "\<dots> \<le> int (fold (\<lambda>c a. 10 * a + digit_val c) (takeWhile isdigit s) (nat ?r))" using grow by (simp only: of_nat_le_iff)
      finally show ?thesis using True \<open>isdigit c\<close> r by (simp add: Let_def)
    next
      case False
      then show ?thesis using \<open>isdigit c\<close> Cons.IH [of ?r] Cons.prems r by (simp add: Let_def)
    qed
  qed (use Cons.prems in \<open>simp add: Let_def\<close>)
qed simp

text \<open>The number of rows of \<^verbatim>\<open>t2\<close> comes from the digits in front; a text that starts with other characters means one row.\<close>

lemma t2_query_count_eq:
  "t2_query_count q =
     (let v = digits_value (takeWhile isdigit q) in if INT_MAX < int v then None else Some (query_count (int v)))"
  by (auto simp: t2_query_count_def strToNum_def str_to_num_loop_eq INT_MAX_def digits_value_def query_count_def Let_def)

text \<open>The id of a random row, and the new number of a row.\<close>

definition random_id :: "nat \<Rightarrow> int" where
  "random_id draw = int (draw mod 10000) + 1"

definition new_number :: "int \<Rightarrow> nat \<Rightarrow> int" where
  "new_number old draw =
     (let n = int (draw mod 10000) + 1
      in if old = n then (let n = n + 1 in if n \<ge> 10000 then 1 else n) else n)"

lemma random_id_bounds: "1 \<le> random_id draw \<and> random_id draw \<le> 10000"
  using mod_less_divisor [of 10000 draw] unfolding random_id_def by linarith

lemma new_number_bounds: "1 \<le> new_number old draw \<and> new_number old draw \<le> 10000 \<and> new_number old draw \<noteq> old"
  using mod_less_divisor [of 10000 draw] by (auto simp: new_number_def Let_def)

section \<open>Texts of queries\<close>

fun when_loop :: "nat \<Rightarrow> nat \<Rightarrow> string \<Rightarrow> string \<times> nat" where
  "when_loop 0 pc ss = (ss, pc)"
| "when_loop (Suc c) pc ss = when_loop c (pc + 2) (ss @ '' when $'' @ dec pc @ '' then $'' @ dec (pc + 1))"

fun in_loop :: "nat \<Rightarrow> nat \<Rightarrow> string \<Rightarrow> string" where
  "in_loop 0 pc ss = ss"
| "in_loop (Suc c) pc ss = in_loop c (pc + 1) (ss @ ''$'' @ dec pc @ '','')"

definition upd_query_text :: "nat \<Rightarrow> string" where
  "upd_query_text n =
     (let (ss, pc) = when_loop n 1 ''update world as t set randomnumber = case id'';
          q = in_loop n pc (ss @ '' else randomnumber end where id in ('')
      in butlast q @ '')'')"

text \<open>\<^verbatim>\<open>getUpdQuery\<close> keeps the texts it made.\<close>

definition getUpdQuery :: "nat \<Rightarrow> (nat \<Rightarrow> string option) \<Rightarrow> string \<times> (nat \<Rightarrow> string option)" where
  "getUpdQuery n qC =
     (case qC n of
        Some q \<Rightarrow> (q, qC)
      | None \<Rightarrow> (let q = upd_query_text n in (q, qC(n \<mapsto> q))))"

definition texts_ok :: "(nat \<Rightarrow> string option) \<Rightarrow> bool" where
  "texts_ok qC \<longleftrightarrow> (\<forall>n q. qC n = Some q \<longrightarrow> q = upd_query_text n)"

lemma getUpdQuery_ok:
  assumes "texts_ok qC"
  shows "fst (getUpdQuery n qC) = upd_query_text n" "texts_ok (snd (getUpdQuery n qC))"
  using assms by (auto simp: getUpdQuery_def texts_ok_def Let_def split: option.splits)

definition multi_select_text :: "int list \<Rightarrow> string" where
  "multi_select_text ids = concat (map (\<lambda>i. ''select id, randomnumber from world where id = '' @ dec_int i @ '';'') ids)"

lemma read_digits_length: "read_digits acc s = (v, r) \<Longrightarrow> length r \<le> length s"
  using read_digits_suffix by fastforce

text \<open>The numbers of the parameters a statement mentions, in their order.\<close>

function placeholders :: "string \<Rightarrow> nat list" where
  "placeholders [] = []"
| "placeholders (c # s) =
     (if c = CHR ''$'' then (case read_digits 0 s of (v, rest) \<Rightarrow> v # placeholders rest) else placeholders s)"
  by pat_completeness auto
termination
  by (relation "measure length") (auto dest!: read_digits_length [OF sym] simp: less_Suc_eq_le)

lemma placeholders_skip: "CHR ''$'' \<notin> set p \<Longrightarrow> placeholders (p @ s) = placeholders s"
  by (induction p) auto

lemma placeholders_number:
  assumes "rest = [] \<or> \<not> isdigit (hd rest)"
  shows "placeholders (CHR ''$'' # dec n @ rest) = n # placeholders rest"
  using read_digits_dec [of rest n] assms by simp

lemma when_loop_eq:
  "when_loop n pc ss =
     (ss @ concat (map (\<lambda>c. '' when $'' @ dec (pc + 2 * c) @ '' then $'' @ dec (pc + 2 * c + 1)) [0..<n]), pc + 2 * n)"
proof (induction n arbitrary: pc ss)
  case (Suc n)
  have "[0..<Suc n] = 0 # map Suc [0..<n]" by (simp only: upt_conv_Cons [of 0 "Suc n"] map_Suc_upt zero_less_Suc)
  then show ?case using Suc by (simp add: comp_def)
qed simp

lemma in_loop_eq: "in_loop n pc ss = ss @ concat (map (\<lambda>c. ''$'' @ dec (pc + c) @ '','') [0..<n])"
proof (induction n arbitrary: pc ss)
  case (Suc n)
  have "[0..<Suc n] = 0 # map Suc [0..<n]" by (simp only: upt_conv_Cons [of 0 "Suc n"] map_Suc_upt zero_less_Suc)
  then show ?case using Suc by (simp add: comp_def)
qed simp

text \<open>The text, piece by piece.\<close>

lemma upd_query_text_eq:
  assumes "0 < n"
  shows "upd_query_text n = ''update world as t set randomnumber = case id'' @
    concat (map (\<lambda>c. '' when $'' @ dec (2 * c + 1) @ '' then $'' @ dec (2 * c + 2)) [0..<n]) @
    '' else randomnumber end where id in ('' @ concat (map (\<lambda>c. ''$'' @ dec (2 * n + 1 + c) @ '','') [0..<n - 1]) @
    ''$'' @ dec (3 * n) @ '')''"
proof -
  obtain m where n: "n = Suc m" using assms by (cases n) auto
  show ?thesis
    by (simp add: upd_query_text_def when_loop_eq in_loop_eq n butlast_append Let_def) (rule arg_cong [of _ _ dec], simp)
qed

lemma dec_no_dollar: "CHR ''$'' \<notin> set (dec n)"
  using dec_digits [of "CHR ''$''" n] by (auto simp: isdigit_def)

lemma placeholders_piece:
  assumes "CHR ''$'' \<notin> set p" "rest = [] \<or> \<not> isdigit (hd rest)"
  shows "placeholders (p @ CHR ''$'' # dec n @ rest) = n # placeholders rest"
  using assms placeholders_skip placeholders_number by metis

lemma placeholders_whens:
  assumes "rest = [] \<or> \<not> isdigit (hd rest)"
  shows "placeholders (concat (map (\<lambda>c. '' when $'' @ dec (2 * c + 1) @ '' then $'' @ dec (2 * c + 2)) [0..<n]) @ rest) =
    [1..<2 * n + 1] @ placeholders rest"
  using assms
proof (induction n arbitrary: rest)
  case (Suc n)
  let ?rest = "'' when $'' @ dec (2 * n + 1) @ '' then $'' @ dec (2 * n + 2) @ rest"
  have "\<not> isdigit (CHR '' '')" by (simp add: isdigit_def)
  then have "placeholders ?rest = (2 * n + 1) # (2 * n + 2) # placeholders rest"
    using placeholders_piece [of "'' when ''" "'' then $'' @ dec (2 * n + 2) @ rest" "2 * n + 1"]
      placeholders_piece [of "'' then ''" rest "2 * n + 2"] Suc.prems by simp
  moreover have "?rest = [] \<or> \<not> isdigit (hd ?rest)" by (simp add: isdigit_def)
  ultimately show ?case using Suc.IH [of ?rest] by simp
qed simp

lemma placeholders_ins:
  "placeholders (concat (map (\<lambda>c. ''$'' @ dec (k + c) @ '','') [0..<n]) @ rest) = [k..<k + n] @ placeholders rest"
proof (induction n arbitrary: rest)
  case (Suc n)
  have "\<not> isdigit (CHR '','')" by (simp add: isdigit_def)
  then have "placeholders (''$'' @ dec (k + n) @ '','' @ rest) = (k + n) # placeholders rest"
    using placeholders_piece [of "[]" "'','' @ rest" "k + n"] by simp
  then show ?case using Suc.IH [of "''$'' @ dec (k + n) @ '','' @ rest"] by simp
qed simp

text \<open>The parameters of the update are mentioned once each, in order.\<close>

lemma placeholders_update:
  assumes "0 < n"
  shows "placeholders (upd_query_text n) = [1..<3 * n + 1]"
proof -
  let ?in = "concat (map (\<lambda>c. ''$'' @ dec (2 * n + 1 + c) @ '','') [0..<n - 1]) @ CHR ''$'' # dec (3 * n) @ '')''"
  let ?else = "'' else randomnumber end where id in (''"
  have "\<not> isdigit (CHR '')'')" by (simp add: isdigit_def)
  then have last: "placeholders (CHR ''$'' # dec (3 * n) @ '')'') = [3 * n]"
    using placeholders_number [of "'')''" "3 * n"] by simp
  have "placeholders ?in = [2 * n + 1..<3 * n] @ [3 * n]"
    using placeholders_ins [of "2 * n + 1" "n - 1" "CHR ''$'' # dec (3 * n) @ '')''"] last assms by simp
  then have "placeholders (?else @ ?in) = [2 * n + 1..<3 * n] @ [3 * n]" by (subst placeholders_skip) simp_all
  moreover have "?else @ ?in = [] \<or> \<not> isdigit (hd (?else @ ?in))" by (simp add: isdigit_def)
  ultimately have "placeholders (upd_query_text n) = [1..<2 * n + 1] @ [2 * n + 1..<3 * n] @ [3 * n]"
    unfolding upd_query_text_eq [OF assms]
    by (subst placeholders_skip, simp, subst placeholders_whens) simp_all
  also have "\<dots> = [1..<3 * n + 1]"
    using assms upt_add_eq_append [of 1 "2 * n + 1" "n - 1"] by simp
  finally show ?thesis .
qed

section \<open>The cache of rows\<close>

text \<open>
  \<^verbatim>\<open>sprintf\<close> into an array of twelve characters, the last of which it needs for the end
  of the string; a longer text would be written past it.
\<close>

definition cache_text :: "world_row \<Rightarrow> string option" where
  "cache_text w =
     (let s = dec_int (row_id w) @ '';'' @ dec_int (row_number w) in if length s < 12 then Some s else None)"

text \<open>\<^verbatim>\<open>updateCache\<close>, once all rows have been read.\<close>

fun set_raws :: "world_row list \<Rightarrow> (int \<Rightarrow> string option) \<Rightarrow> (int \<Rightarrow> string option) option" where
  "set_raws [] cchi = Some cchi"
| "set_raws (w # ws) cchi = Option.bind (cache_text w) (\<lambda>s. set_raws ws (cchi(row_id w \<mapsto> s)))"

fun find_char :: "char \<Rightarrow> string \<Rightarrow> nat option" where
  "find_char c [] = None"
| "find_char c (d # s) = (if d = c then Some 0 else map_option Suc (find_char c s))"

text \<open>
  Reading an entry, with \<^verbatim>\<open>fastStrToNum\<close>; without a semicolon \<^verbatim>\<open>fn\<close> is the
  largest \<^verbatim>\<open>size_t\<close>, which is \<^verbatim>\<open>-1\<close> as a length, and one more is zero.
\<close>

definition read_cached :: "(string \<Rightarrow> int \<Rightarrow> int) \<Rightarrow> string \<Rightarrow> world_row" where
  "read_cached fastStrToNum v =
     (case find_char (CHR '';'') v of
        Some fn \<Rightarrow> new_row2 (fastStrToNum (take fn v) (int fn)) (fastStrToNum (drop (fn + 1) v) (int (length v) - int fn - 1))
      | None \<Rightarrow> new_row2 (fastStrToNum v (-1)) (fastStrToNum v (int (length v))))"

text \<open>
  \<^verbatim>\<open>cachedWorlds\<close>: the rows, or no value when the cache gives fewer values than it was
  asked for and \<^verbatim>\<open>at\<close> raises an exception.
\<close>

definition cachedWorlds ::
    "(string \<Rightarrow> int \<Rightarrow> int) \<Rightarrow> (int list \<Rightarrow> string list) \<Rightarrow> int \<Rightarrow> (nat \<Rightarrow> nat) \<Rightarrow> world_row list option" where
  "cachedWorlds fastStrToNum getValues n draws =
     (let keys = map (\<lambda>c. random_id (draws c)) [0..<nat (query_count n)];
          values = getValues keys
      in if length values < nat (query_count n) then None
         else Some (map (read_cached fastStrToNum) (take (nat (query_count n)) values)))"

text \<open>What is asked of \<^verbatim>\<open>fastStrToNum\<close>, and of the cache.\<close>

definition reads_numbers :: "(string \<Rightarrow> int \<Rightarrow> int) \<Rightarrow> bool" where
  "reads_numbers fastStrToNum \<longleftrightarrow> (\<forall>n. n < 2 ^ 31 \<longrightarrow> fastStrToNum (dec n) (int (length (dec n))) = int n)"

definition gives_values :: "(int \<Rightarrow> string option) \<Rightarrow> (int list \<Rightarrow> string list) \<Rightarrow> bool" where
  "gives_values cchi getValues \<longleftrightarrow> (\<forall>ks. set ks \<subseteq> dom cchi \<longrightarrow> getValues ks = map (\<lambda>k. the (cchi k)) ks)"

definition table_row :: "world_row \<Rightarrow> bool" where
  "table_row w \<longleftrightarrow> 1 \<le> row_id w \<and> row_id w \<le> 10000 \<and> 1 \<le> row_number w \<and> row_number w \<le> 10000"

lemma find_char_append: "c \<notin> set s \<Longrightarrow> find_char c (s @ c # t) = Some (length s)"
  by (induction s) auto

lemma cache_text_table_row:
  assumes "table_row w"
  shows "cache_text w = Some (dec (nat (row_id w)) @ '';'' @ dec (nat (row_number w)))"
proof -
  have "length (dec (nat (row_id w))) \<le> 5" "length (dec (nat (row_number w))) \<le> 5"
    using assms length_dec_le [of "nat (row_id w)" 5] length_dec_le [of "nat (row_number w)" 5] by (auto simp: table_row_def)
  moreover have "dec_int (row_id w) = dec (nat (row_id w))" "dec_int (row_number w) = dec (nat (row_number w))"
    using assms by (simp_all add: table_row_def dec_int_def)
  ultimately show ?thesis by (simp add: cache_text_def Let_def)
qed

lemma read_cached_table_row:
  assumes "table_row w" "reads_numbers fastStrToNum" "cache_text w = Some s"
  shows "read_cached fastStrToNum s = w"
proof -
  let ?i = "dec (nat (row_id w))" and ?n = "dec (nat (row_number w))"
  have s: "s = ?i @ CHR '';'' # ?n" using assms(3) cache_text_table_row [OF assms(1)] by simp
  have "CHR '';'' \<notin> set ?i" using dec_digits [of "CHR '';''"] by (auto simp: isdigit_def)
  then have "find_char (CHR '';'') s = Some (length ?i)" unfolding s by (rule find_char_append)
  moreover have "fastStrToNum ?i (int (length ?i)) = row_id w" "fastStrToNum ?n (int (length ?n)) = row_number w"
    using assms(1,2) unfolding reads_numbers_def table_row_def
    by (auto dest: spec [of _ "nat (row_id w)"] spec [of _ "nat (row_number w)"])
  ultimately show ?thesis by (simp add: read_cached_def s new_row2_def)
qed

lemma set_raws_table:
  assumes "\<forall>w \<in> set ws. table_row w"
  shows "\<exists>cchi'. set_raws ws cchi = Some cchi' \<and> dom cchi' = dom cchi \<union> row_id ` set ws \<and>
    (\<forall>k s. cchi' k = Some s \<longrightarrow> cchi k = Some s \<or> (\<exists>w \<in> set ws. row_id w = k \<and> cache_text w = Some s))"
  using assms
proof (induction ws arbitrary: cchi)
  case (Cons w ws)
  obtain s where s: "cache_text w = Some s" using cache_text_table_row [of w] Cons.prems by auto
  from Cons.IH [of "cchi(row_id w \<mapsto> s)"] Cons.prems obtain c where
    c: "set_raws ws (cchi(row_id w \<mapsto> s)) = Some c" "dom c = dom (cchi(row_id w \<mapsto> s)) \<union> row_id ` set ws"
      "\<forall>k t. c k = Some t \<longrightarrow> (cchi(row_id w \<mapsto> s)) k = Some t \<or> (\<exists>v \<in> set ws. row_id v = k \<and> cache_text v = Some t)"
    by (auto simp del: fun_upd_apply dom_fun_upd)
  show ?case
  proof (intro exI conjI allI impI)
    show "set_raws (w # ws) cchi = Some c" using s c(1) by simp
    show "dom c = dom cchi \<union> row_id ` set (w # ws)" using c(2) by auto
    fix k t assume "c k = Some t"
    then show "cchi k = Some t \<or> (\<exists>v \<in> set (w # ws). row_id v = k \<and> cache_text v = Some t)"
      using c(3) s by (auto split: if_splits)
  qed
qed simp

text \<open>
  Once the whole table is in the cache, a request for cached rows gets as many rows as it may ask
  for, each of them a row of the table.
\<close>

lemma cached_rows_of_table:
  assumes "\<forall>w \<in> set table. table_row w" "row_id ` set table = {1..10000}" "set_raws table (\<lambda>_. None) = Some cchi"
    "reads_numbers fastStrToNum" "gives_values cchi getValues"
  shows "\<exists>ws. cachedWorlds fastStrToNum getValues n draws = Some ws \<and> length ws = nat (query_count n) \<and>
    map row_id ws = map (\<lambda>c. random_id (draws c)) [0..<nat (query_count n)] \<and> set ws \<subseteq> set table"
proof -
  let ?keys = "map (\<lambda>c. random_id (draws c)) [0..<nat (query_count n)]"
  obtain c where "set_raws table (\<lambda>_. None) = Some c" "dom c = row_id ` set table"
    "\<forall>k s. c k = Some s \<longrightarrow> (\<exists>w \<in> set table. row_id w = k \<and> cache_text w = Some s)"
    using set_raws_table [OF assms(1), of "\<lambda>_. None"] by auto
  with assms(2,3) have dom: "dom cchi = {1..10000}"
    and entries: "\<forall>k s. cchi k = Some s \<longrightarrow> (\<exists>w \<in> set table. row_id w = k \<and> cache_text w = Some s)" by auto
  have "set ?keys \<subseteq> dom cchi" using random_id_bounds dom by auto
  then have vals: "getValues ?keys = map (\<lambda>k. the (cchi k)) ?keys" using assms(5) by (simp add: gives_values_def)
  have row: "read_cached fastStrToNum (the (cchi (random_id d))) \<in> set table \<and>
    row_id (read_cached fastStrToNum (the (cchi (random_id d)))) = random_id d" for d
  proof -
    obtain s where s: "cchi (random_id d) = Some s" using random_id_bounds [of d] dom by (metis atLeastAtMost_iff domD)
    with entries obtain w where "w \<in> set table" "row_id w = random_id d" "cache_text w = Some s" by blast
    then show ?thesis using read_cached_table_row [OF _ assms(4)] assms(1) s by auto
  qed
  have "cachedWorlds fastStrToNum getValues n draws = Some (map (read_cached fastStrToNum) (map (\<lambda>k. the (cchi k)) ?keys))"
    unfolding cachedWorlds_def Let_def vals by simp
  then show ?thesis using row by (auto simp: comp_def)
qed

end
