(* ===== verification/Async_Server.thy ===== *)
theory Async_Server
  imports "HOL-Library.Multiset"
begin

text \<open>
  Servers that answer requests later.  A request comes from a socket, which is kept in use until the
  request has been answered; meanwhile the request waits.  The contract of such a server is that
  each of its steps conserves requests; a step may also lose some, and says which.
\<close>

text \<open>
  A run: the requests that were accepted and those that were lost, each by its socket, and the
  state.
\<close>

inductive serving ::
    "('s \<Rightarrow> nat \<Rightarrow> 's \<Rightarrow> bool) \<Rightarrow> ('s \<Rightarrow> nat multiset \<Rightarrow> 's \<Rightarrow> bool) \<Rightarrow> 's \<Rightarrow> nat multiset \<Rightarrow> nat multiset \<Rightarrow> 's \<Rightarrow> bool"
  for accept progress s0 where
  start: "serving accept progress s0 {#} {#} s0"
| accept: "serving accept progress s0 reqs lost s \<Longrightarrow> accept s sock s' \<Longrightarrow>
     serving accept progress s0 (add_mset sock reqs) lost s'"
| progress: "serving accept progress s0 reqs lost s \<Longrightarrow> progress s l s' \<Longrightarrow>
     serving accept progress s0 reqs (lost + l) s'"

locale async_server =
  fixes accept :: "'s \<Rightarrow> nat \<Rightarrow> 's \<Rightarrow> bool" and progress :: "'s \<Rightarrow> nat multiset \<Rightarrow> 's \<Rightarrow> bool" and s0 :: 's
    and waiting :: "'s \<Rightarrow> nat multiset" and answered :: "'s \<Rightarrow> nat multiset" and in_use :: "'s \<Rightarrow> nat \<Rightarrow> int"
  assumes at_start: "waiting s0 = {#}" "answered s0 = {#}" "in_use s0 = (\<lambda>_. 0)"
    and accept_conserves: "accept s sock s' \<Longrightarrow> waiting s' + answered s' = add_mset sock (waiting s + answered s)"
    and accept_uses: "accept s sock s' \<Longrightarrow>
      in_use s' k - int (count (waiting s') k) = in_use s k - int (count (waiting s) k)"
    and progress_conserves: "progress s l s' \<Longrightarrow> waiting s' + answered s' + l = waiting s + answered s"
    and progress_uses: "progress s l s' \<Longrightarrow>
      in_use s' k - int (count (waiting s') k) - int (count l k) = in_use s k - int (count (waiting s) k)"
begin

text \<open>
  Every request was answered once, waits or was lost; a socket is in use as often as its requests wait
  or were lost.
\<close>

lemma requests_conserved:
  "serving accept progress s0 reqs lost s \<Longrightarrow>
    reqs = answered s + waiting s + lost \<and> (\<forall>k. in_use s k = int (count (waiting s) k) + int (count lost k))"
proof (induction rule: serving.induct)
  case start
  then show ?case by (simp add: at_start)
next
  case (accept reqs lost s sock s')
  have "add_mset sock (answered s + waiting s + lost) = answered s' + waiting s' + lost"
    using accept_conserves [OF accept(2)] by (simp add: add.commute)
  moreover have "in_use s' k = int (count (waiting s') k) + int (count lost k)" for k
    using accept_uses [OF accept(2), of k] accept.IH by simp
  ultimately show ?case using accept.IH by simp
next
  case (progress reqs lost s l s')
  have "answered s + waiting s + lost = answered s' + waiting s' + (lost + l)"
    using progress_conserves [OF progress(2)] by (metis add.assoc add.commute)
  moreover have "in_use s' k = int (count (waiting s') k) + int (count (lost + l) k)" for k
    using progress_uses [OF progress(2), of k] progress.IH by simp
  ultimately show ?case using progress.IH by simp
qed

lemma all_answered:
  "serving accept progress s0 reqs {#} s \<Longrightarrow> waiting s = {#} \<Longrightarrow> answered s = reqs \<and> in_use s = (\<lambda>_. 0)"
  using requests_conserved [of reqs "{#}" s] by auto

end

end
