(* ===== verification/Ffead_Posts.thy ===== *)
theory Ffead_Posts
  imports Ffead_Rows Async_Server
begin

text \<open>
  What the two asynchronous applications of ffead-cpp (\<^verbatim>\<open>t4\<close> and \<^verbatim>\<open>t5\<close>) have in
  common: reading results, posting queries with a callback, the updates and the list of fortunes.
  The library runs what was posted and calls back in any order.  The library of ffead-cpp, libpq,
  the writer of JSON and the templates are parameters.
\<close>

section \<open>Results of queries\<close>

text \<open>The fields of a result are bytes; a row that does not exist is a null pointer.\<close>

record pgresult =
  nfields :: nat
  tuples :: "string list list"

definition ntohl_int :: "string \<Rightarrow> int option" where
  "ntohl_int value =
     (case value of
        a # b # c # d # _ \<Rightarrow> Some (to_int32 (int (((chr_code a * 256 + chr_code b) * 256 + chr_code c) * 256 + chr_code d)))
      | _ \<Rightarrow> None)"

definition get_row :: "pgresult \<Rightarrow> nat \<Rightarrow> string list option" where
  "get_row res i = (if nfields res = 0 then Some [] else if i < length (tuples res) then Some (take (nfields res) (tuples res ! i)) else None)"

text \<open>
  The loop over the columns of a row: the first makes a row of the table at the end of the vector,
  each of the others sets the number of the last.
\<close>

definition set_back :: "int \<Rightarrow> world_row list \<Rightarrow> world_row list" where
  "set_back n vec = butlast vec @ [(last vec)\<lparr>row_number := n\<rparr>]"

fun set_backs :: "(string \<Rightarrow> int option) \<Rightarrow> string list \<Rightarrow> world_row list \<Rightarrow> world_row list option" where
  "set_backs conv [] vec = Some vec"
| "set_backs conv (v # vs) vec = Option.bind (conv v) (\<lambda>n. set_backs conv vs (set_back n vec))"

fun read_cells :: "(string \<Rightarrow> int option) \<Rightarrow> string list \<Rightarrow> world_row list \<Rightarrow> world_row list option" where
  "read_cells conv [] vec = Some vec"
| "read_cells conv (v # vs) vec = Option.bind (conv v) (\<lambda>i. set_backs conv vs (vec @ [new_row i]))"

fun read_results :: "(string \<Rightarrow> int option) \<Rightarrow> pgresult list \<Rightarrow> world_row list \<Rightarrow> world_row list option" where
  "read_results conv [] vec = Some vec"
| "read_results conv (res # results) vec =
     Option.bind (Option.bind (get_row res 0) (\<lambda>cells. read_cells conv cells vec)) (read_results conv results)"

text \<open>
  The callbacks that get the cells one by one, each with its column; \<^verbatim>\<open>back\<close> of an empty vector is
  undefined.
\<close>

fun cell_rows :: "(string \<Rightarrow> int option) \<Rightarrow> (nat \<times> string) list \<Rightarrow> world_row list \<Rightarrow> world_row list option" where
  "cell_rows conv [] vec = Some vec"
| "cell_rows conv ((col, value) # cells) vec =
     Option.bind (conv value) (\<lambda>n.
       if col = 0 then cell_rows conv cells (vec @ [new_row n])
       else if vec = [] then None else cell_rows conv cells (set_back n vec))"

text \<open>The first row of a result, read into an object that has been made before.\<close>

definition read_one_row :: "pgresult \<Rightarrow> world_row option" where
  "read_one_row res = map_option (\<lambda>ws. if ws = [] then new_row0 else hd ws) (Option.bind (get_row res 0) (\<lambda>cells. read_cells ntohl_int cells []))"

section \<open>State\<close>

datatype content_kind = Text_plain | Application_json | Text_html
datatype http_code = Code_ok | Code_internal | Code_not_found

text \<open>
  The calls of \<^verbatim>\<open>generateHeadResponse\<close>: with the kind and the length; with the kind, the version, whether the
  connection is closed, and the length if it is given; without a kind; with the kind only.
\<close>

datatype head_call =
    Head_sized content_kind nat
  | Head_full content_kind string bool "nat option"
  | Head_bare string bool
  | Head_default content_kind

record answer =
  answer_code :: http_code
  answer_head :: head_call
  answer_body :: string

datatype pg_query = Query string "int list" | Multi_query string | Begin_query | Commit_query

record areq =
  httpVers :: string
  conn_clos :: bool
  sif :: nat
  req_rows :: "world_row list"

record fortune_row =
  fid :: int
  fmessage :: string

record ffead_lib =
  fastrand :: "nat \<Rightarrow> nat"
  fastStrToNum :: "string \<Rightarrow> int \<Rightarrow> int"
  write_json :: "json_event list \<Rightarrow> string"
  sanitizeHtmlFast :: "string \<Rightarrow> string"
  tmplFunc :: "fortune_row list \<Rightarrow> string"
  parse_query :: "string \<Rightarrow> string option"
  cached :: "int list \<Rightarrow> string list"

text \<open>
  What was posted and not called back yet, each with its callback and the number of results it
  expects if that was given; what was written to each socket; how often each socket is in use; how
  many \<^verbatim>\<open>AsyncUpdatesReq\<close> there are; the texts of updates; the random numbers drawn.
\<close>

record 'c ff_app =
  pending :: "('c \<times> pg_query list \<times> nat option) list"
  written :: "(nat \<times> answer) list"
  in_use :: "nat \<Rightarrow> int"
  live_reqs :: int
  qC :: "nat \<Rightarrow> string option"
  drawn :: nat

definition initial_app :: "'c ff_app" where
  "initial_app = \<lparr>pending = [], written = [], in_use = (\<lambda>_. 0), live_reqs = 0, qC = (\<lambda>_. None), drawn = 0\<rparr>"

definition postAsync :: "'c \<Rightarrow> pg_query list \<Rightarrow> nat option \<Rightarrow> ('c, 'z) ff_app_scheme \<Rightarrow> ('c, 'z) ff_app_scheme" where
  "postAsync ctx qs n s = s\<lparr>pending := pending s @ [(ctx, qs, n)]\<rparr>"

definition use :: "nat \<Rightarrow> ('c, 'z) ff_app_scheme \<Rightarrow> ('c, 'z) ff_app_scheme" where
  "use sock s = s\<lparr>in_use := (in_use s)(sock := in_use s sock + 1)\<rparr>"

definition unUse :: "nat \<Rightarrow> ('c, 'z) ff_app_scheme \<Rightarrow> ('c, 'z) ff_app_scheme" where
  "unUse sock s = s\<lparr>in_use := (in_use s)(sock := in_use s sock - 1)\<rparr>"

definition writeDirect :: "nat \<Rightarrow> answer \<Rightarrow> ('c, 'z) ff_app_scheme \<Rightarrow> ('c, 'z) ff_app_scheme" where
  "writeDirect sock a s = s\<lparr>written := written s @ [(sock, a)]\<rparr>"

definition finish :: "nat \<Rightarrow> answer \<Rightarrow> ('c, 'z) ff_app_scheme \<Rightarrow> ('c, 'z) ff_app_scheme" where
  "finish sock a s = unUse sock (writeDirect sock a s)"

section \<open>Answers\<close>

definition json_answer :: "ffead_lib \<Rightarrow> json_event list \<Rightarrow> answer" where
  "json_answer lib events =
     (let s = write_json lib events
      in \<lparr>answer_code = Code_ok, answer_head = Head_full Application_json ''1.1'' False (Some (length s)), answer_body = s\<rparr>)"

definition failure_answer :: "areq \<Rightarrow> answer" where
  "failure_answer req = \<lparr>answer_code = Code_internal, answer_head = Head_full Application_json (httpVers req) True None, answer_body = []\<rparr>"

definition HELLO_WORLD :: string where "HELLO_WORLD = ''Hello, World!''"
definition WORLD_ONE_QUERY :: string where "WORLD_ONE_QUERY = ''select id,randomnumber from world where id=$1''"
definition FORTUNE_ALL_QUERY :: string where "FORTUNE_ALL_QUERY = ''select id,message from fortune''"

section \<open>Posting queries\<close>

text \<open>The loop that draws the ids of rows.\<close>

definition draw_ids :: "ffead_lib \<Rightarrow> nat \<Rightarrow> ('c, 'z) ff_app_scheme \<Rightarrow> int list" where
  "draw_ids lib n s = map (\<lambda>c. random_id (fastrand lib (drawn s + c))) [0..<n]"

definition number_of_queries :: "ffead_lib \<Rightarrow> string \<Rightarrow> nat" where
  "number_of_queries lib q = nat (query_count (fastStrToNum lib q (int (length q))))"

definition post_one_query :: "ffead_lib \<Rightarrow> 'c \<Rightarrow> ('c, 'z) ff_app_scheme \<Rightarrow> ('c, 'z) ff_app_scheme" where
  "post_one_query lib ctx s =
     postAsync ctx [Query WORLD_ONE_QUERY [random_id (fastrand lib (drawn s))]] None (s\<lparr>drawn := drawn s + 1\<rparr>)"

definition post_queries :: "ffead_lib \<Rightarrow> string \<Rightarrow> 'c \<Rightarrow> ('c, 'z) ff_app_scheme \<Rightarrow> ('c, 'z) ff_app_scheme" where
  "post_queries lib q ctx s =
     (let n = number_of_queries lib q
      in postAsync ctx (map (\<lambda>i. Query WORLD_ONE_QUERY [i]) (draw_ids lib n s)) None (s\<lparr>drawn := drawn s + n\<rparr>))"

definition post_multi :: "ffead_lib \<Rightarrow> string \<Rightarrow> 'c \<Rightarrow> ('c, 'z) ff_app_scheme \<Rightarrow> ('c, 'z) ff_app_scheme" where
  "post_multi lib q ctx s =
     (let n = number_of_queries lib q
      in postAsync ctx [Multi_query (multi_select_text (draw_ids lib n s))] (Some n) (s\<lparr>drawn := drawn s + n\<rparr>))"

definition post_fortunes :: "'c \<Rightarrow> ('c, 'z) ff_app_scheme \<Rightarrow> ('c, 'z) ff_app_scheme" where
  "post_fortunes ctx s = postAsync ctx [Query FORTUNE_ALL_QUERY []] None s"

section \<open>Updates\<close>

text \<open>
  The loop of the three kinds of updates: each column after the first of a row draws a new number,
  which becomes the number of the last row; \<^verbatim>\<open>emit\<close> is what is done with that row.
\<close>

fun update_cells :: "ffead_lib \<Rightarrow> (string \<Rightarrow> int option) \<Rightarrow> string list \<Rightarrow> world_row list \<times> world_row list \<times> nat \<Rightarrow>
    (world_row list \<times> world_row list \<times> nat) option" where
  "update_cells lib conv [] st = Some st"
| "update_cells lib conv (v # vs) (vec, emitted, pos) =
     Option.bind (conv v) (\<lambda>tmp.
       let vec = set_back (new_number tmp (fastrand lib pos)) vec
       in update_cells lib conv vs (vec, emitted @ [last vec], pos + 1))"

definition update_row :: "ffead_lib \<Rightarrow> (string \<Rightarrow> int option) \<Rightarrow> pgresult \<Rightarrow> world_row list \<times> world_row list \<times> nat \<Rightarrow>
    (world_row list \<times> world_row list \<times> nat) option" where
  "update_row lib conv res st =
     (case st of (vec, emitted, pos) \<Rightarrow>
       Option.bind (get_row res 0) (\<lambda>cells. case cells of
           [] \<Rightarrow> Some st
         | v # vs \<Rightarrow> Option.bind (conv v) (\<lambda>i. update_cells lib conv vs (vec @ [new_row i], emitted, pos))))"

fun update_rows :: "ffead_lib \<Rightarrow> (string \<Rightarrow> int option) \<Rightarrow> pgresult list \<Rightarrow> world_row list \<times> world_row list \<times> nat \<Rightarrow>
    (world_row list \<times> world_row list \<times> nat) option" where
  "update_rows lib conv [] st = Some st"
| "update_rows lib conv (res # results) st = Option.bind (update_row lib conv res st) (update_rows lib conv results)"

definition multi_update_text :: "world_row list \<Rightarrow> string" where
  "multi_update_text ws = concat (map (\<lambda>w. ''begin;update world set randomnumber = '' @ dec_int (row_number w) @
     '' where id = '' @ dec_int (row_id w) @ '';commit;'') ws)"

definition one_update :: "world_row \<Rightarrow> pg_query list" where
  "one_update w = [Begin_query,
     Query (''update world set randomnumber = '' @ dec_int (row_number w) @ '' where id = '' @ dec_int (row_id w)) [], Commit_query]"

text \<open>The parameters of the update of \<^verbatim>\<open>updatesAsyncb\<close>.\<close>

definition update_params :: "world_row list \<Rightarrow> world_row list \<Rightarrow> int list" where
  "update_params emitted vec = concat (map (\<lambda>w. [row_id w, row_number w]) emitted) @ map row_id vec"

definition text_number :: "ffead_lib \<Rightarrow> string \<Rightarrow> int option" where
  "text_number lib v = Some (fastStrToNum lib v (int (length v)))"

text \<open>What is posted when the rows have been read; \<^verbatim>\<open>ctx\<close> is the callback with the rows it gets.\<close>

definition post_multi_update ::
    "ffead_lib \<Rightarrow> areq \<Rightarrow> (areq \<Rightarrow> 'c) \<Rightarrow> pgresult list \<Rightarrow> ('c, 'z) ff_app_scheme \<Rightarrow> ('c, 'z) ff_app_scheme option" where
  "post_multi_update lib req ctx results s =
     map_option (\<lambda>(vec', emitted, pos).
         postAsync (ctx (req\<lparr>req_rows := vec'\<rparr>)) [Multi_query (multi_update_text emitted)] (Some (length results * 3)) (s\<lparr>drawn := pos\<rparr>))
       (update_rows lib (text_number lib) results (req_rows req, [], drawn s))"

definition post_bulk_update ::
    "ffead_lib \<Rightarrow> areq \<Rightarrow> (areq \<Rightarrow> 'c) \<Rightarrow> pgresult list \<Rightarrow> ('c, 'z) ff_app_scheme \<Rightarrow> ('c, 'z) ff_app_scheme option" where
  "post_bulk_update lib req ctx results s =
     (case getUpdQuery (length results) (qC s) of (text, texts) \<Rightarrow>
        map_option (\<lambda>(vec', emitted, pos).
            postAsync (ctx (req\<lparr>req_rows := vec'\<rparr>)) [Begin_query, Query text (update_params emitted vec'), Commit_query] None
              (s\<lparr>drawn := pos, qC := texts\<rparr>))
          (update_rows lib ntohl_int results (req_rows req, [], drawn s)))"

definition post_single_updates ::
    "ffead_lib \<Rightarrow> areq \<Rightarrow> (areq \<Rightarrow> 'c) \<Rightarrow> pgresult list \<Rightarrow> ('c, 'z) ff_app_scheme \<Rightarrow> ('c, 'z) ff_app_scheme option" where
  "post_single_updates lib req ctx results s =
     map_option (\<lambda>(vec', emitted, pos).
         postAsync (ctx (req\<lparr>req_rows := vec'\<rparr>)) (concat (map one_update emitted)) None (s\<lparr>drawn := pos\<rparr>))
       (update_rows lib ntohl_int results (req_rows req, [], drawn s))"

section \<open>Fortunes\<close>

text \<open>\<^verbatim>\<open>operator <\<close> compares the bytes of the messages; \<^verbatim>\<open>std::list::sort\<close> is stable.\<close>

definition fortune_cmp :: "fortune_row \<Rightarrow> fortune_row \<Rightarrow> int" where
  "fortune_cmp f g = (if bytes_le (fmessage f) (fmessage g) then -1 else 1)"

fun read_fortune_cells :: "ffead_lib \<Rightarrow> string list \<Rightarrow> fortune_row list \<Rightarrow> fortune_row list option" where
  "read_fortune_cells lib [] flst = Some flst"
| "read_fortune_cells lib (v # vs) flst =
     Option.bind (ntohl_int v) (\<lambda>i. Some (flst @ [fold (\<lambda>m f. f\<lparr>fmessage := sanitizeHtmlFast lib m\<rparr>) vs \<lparr>fid = i, fmessage = []\<rparr>]))"

fun read_fortune_rows :: "ffead_lib \<Rightarrow> pgresult \<Rightarrow> nat list \<Rightarrow> fortune_row list \<Rightarrow> fortune_row list option" where
  "read_fortune_rows lib res [] flst = Some flst"
| "read_fortune_rows lib res (i # is) flst =
     Option.bind (Option.bind (get_row res i) (\<lambda>cells. read_fortune_cells lib cells flst)) (read_fortune_rows lib res is)"

definition read_fortune_list :: "ffead_lib \<Rightarrow> pgresult \<Rightarrow> fortune_row list option" where
  "read_fortune_list lib res = read_fortune_rows lib res [0..<length (tuples res)] []"

definition fortunes_answer :: "ffead_lib \<Rightarrow> fortune_row list \<Rightarrow> answer" where
  "fortunes_answer lib flst =
     (let out = tmplFunc lib (qsort fortune_cmp (flst @ [\<lparr>fid = 0, fmessage = ''Additional fortune added at request time.''\<rparr>]))
      in \<lparr>answer_code = Code_ok, answer_head = Head_full Text_html ''1.1'' False (Some (length out)), answer_body = out\<rparr>)"

section \<open>Callbacks\<close>

datatype callback_ctx =
    Cb_db nat
  | Cb_queries nat
  | Cb_queries_multi nat
  | Cb_fortunes nat
  | Cb_updates_multi areq
  | Cb_updates_bulk areq
  | Cb_updates areq
  | Cb_updated areq

fun ctx_sock :: "callback_ctx \<Rightarrow> nat" where
  "ctx_sock (Cb_db sock) = sock"
| "ctx_sock (Cb_queries sock) = sock"
| "ctx_sock (Cb_queries_multi sock) = sock"
| "ctx_sock (Cb_fortunes sock) = sock"
| "ctx_sock (Cb_updates_multi req) = sif req"
| "ctx_sock (Cb_updates_bulk req) = sif req"
| "ctx_sock (Cb_updates req) = sif req"
| "ctx_sock (Cb_updated req) = sif req"

fun has_req :: "callback_ctx \<Rightarrow> bool" where
  "has_req (Cb_updates_multi req) = True"
| "has_req (Cb_updates_bulk req) = True"
| "has_req (Cb_updates req) = True"
| "has_req (Cb_updated req) = True"
| "has_req _ = False"

section \<open>Paths\<close>

definition endsWith :: "string \<Rightarrow> string \<Rightarrow> bool" where
  "endsWith s t \<longleftrightarrow> length t \<le> length s \<and> drop (length s - length t) s = t"

definition with_new_req :: "(areq \<Rightarrow> ('c, 'z) ff_app_scheme \<Rightarrow> ('c, 'z) ff_app_scheme) \<Rightarrow> string \<Rightarrow> bool \<Rightarrow> nat \<Rightarrow> ('c, 'z) ff_app_scheme \<Rightarrow> ('c, 'z) ff_app_scheme" where
  "with_new_req f vers clos sock s = f \<lparr>httpVers = vers, conn_clos = clos, sif = sock, req_rows = []\<rparr> (s\<lparr>live_reqs := live_reqs s + 1\<rparr>)"

lemma other_ending:
  assumes "endsWith p t" "\<not> endsWith t u" "\<not> endsWith u t"
  shows "\<not> endsWith p u"
proof
  assume u: "endsWith p u"
  have e: "endsWith s r \<longleftrightarrow> (\<exists>q. s = q @ r)" for s r
  proof
    assume "endsWith s r"
    then have "s = take (length s - length r) s @ r" unfolding endsWith_def by (metis append_take_drop_id)
    then show "\<exists>q. s = q @ r" ..
  qed (auto simp: endsWith_def)
  have "(\<exists>us. t = us @ u) \<or> (\<exists>us. u = us @ t)"
    using assms(1) u unfolding e by (auto simp: append_eq_append_conv2)
  with assms(2,3) show False by (simp add: e)
qed

section \<open>Results as the database gives them\<close>

text \<open>An \<^verbatim>\<open>int4\<close> in the order of bytes of the network.\<close>

definition int4_bytes :: "int \<Rightarrow> string" where
  "int4_bytes v = (let n = nat (v mod 2 ^ 32)
     in [char_of (n div 16777216), char_of (n div 65536 mod 256), char_of (n div 256 mod 256), char_of (n mod 256)])"

definition fits_int4 :: "int \<Rightarrow> bool" where
  "fits_int4 v \<longleftrightarrow> - (2 ^ 31) \<le> v \<and> v < 2 ^ 31"

lemma ntohl_int4_bytes:
  assumes "fits_int4 v"
  shows "ntohl_int (int4_bytes v) = Some v"
proof -
  define n where "n = nat (v mod 2 ^ 32)"
  have n: "n < 2 ^ 32" and v: "int n = v mod 2 ^ 32" by (simp_all add: n_def nat_less_iff)
  have "((n div 16777216 * 256 + n div 65536 mod 256) * 256 + n div 256 mod 256) * 256 + n mod 256 = n"
    (is "?l = n")
  proof -
    have q: "n div 16777216 = n div 65536 div 256" "n div 65536 = n div 256 div 256" using div_mult2_eq [of n 65536 256] div_mult2_eq [of n 256 256] by simp_all
    then have "n div 16777216 * 256 + n div 65536 mod 256 = n div 65536" by (simp only: div_mult_mod_eq)
    then have "?l = (n div 65536 * 256 + n div 256 mod 256) * 256 + n mod 256" by simp
    also have "\<dots> = n" by (simp only: q(2) div_mult_mod_eq)
    finally show ?thesis .
  qed
  moreover have "n div 16777216 < 256" using n by (simp add: less_mult_imp_div_less)
  moreover have "to_int32 (v mod 2 ^ 32) = v"
    using assms by (simp add: to_int32_def fits_int4_def mod_add_left_eq)
  moreover have "ntohl_int (int4_bytes v) = Some (to_int32 (int (((n div 16777216 mod 256 * 256 + n div 65536 mod 256) * 256 +
      n div 256 mod 256) * 256 + n mod 256)))"
    unfolding ntohl_int_def int4_bytes_def Let_def n_def [symmetric]
    by (simp only: list.case of_char_of mod_mod_trivial)
  ultimately show ?thesis by (simp only: mod_less v)
qed

definition row_result :: "(int \<Rightarrow> string) \<Rightarrow> world_row \<Rightarrow> pgresult" where
  "row_result enc w = \<lparr>nfields = 2, tuples = [[enc (row_id w), enc (row_number w)]]\<rparr>"

definition readable :: "(string \<Rightarrow> int option) \<Rightarrow> (int \<Rightarrow> string) \<Rightarrow> world_row \<Rightarrow> bool" where
  "readable conv enc w \<longleftrightarrow> conv (enc (row_id w)) = Some (row_id w) \<and> conv (enc (row_number w)) = Some (row_number w)"

lemma readable_int4: "fits_int4 (row_id w) \<Longrightarrow> fits_int4 (row_number w) \<Longrightarrow> readable ntohl_int int4_bytes w"
  by (simp add: readable_def ntohl_int4_bytes)

lemma get_row_result [simp]: "get_row (row_result enc w) 0 = Some [enc (row_id w), enc (row_number w)]"
  by (simp add: get_row_def row_result_def)

lemma set_back_last [simp]: "set_back n (vec @ [w]) = vec @ [w\<lparr>row_number := n\<rparr>]"
  by (simp add: set_back_def)

lemma read_rows:
  assumes "\<forall>w \<in> set ws. readable conv enc w"
  shows "read_results conv (map (row_result enc) ws) vec = Some (vec @ ws)"
  using assms
proof (induction ws arbitrary: vec)
  case (Cons w ws)
  have "(new_row (row_id w))\<lparr>row_number := row_number w\<rparr> = w" by (simp add: new_row_def)
  then show ?case using Cons by (simp add: readable_def)
qed simp

lemma cell_rows_table:
  assumes "\<forall>w \<in> set ws. readable conv enc w"
  shows "cell_rows conv (concat (map (\<lambda>w. [(0, enc (row_id w)), (1, enc (row_number w))]) ws)) vec = Some (vec @ ws)"
  using assms
proof (induction ws arbitrary: vec)
  case (Cons w ws)
  have "(new_row (row_id w))\<lparr>row_number := row_number w\<rparr> = w" by (simp add: new_row_def)
  then show ?case using Cons by (simp add: readable_def)
qed simp

text \<open>The rows with their new numbers.\<close>

fun renumber :: "ffead_lib \<Rightarrow> nat \<Rightarrow> world_row list \<Rightarrow> world_row list" where
  "renumber lib pos [] = []"
| "renumber lib pos (w # ws) = new_row2 (row_id w) (new_number (row_number w) (fastrand lib pos)) # renumber lib (pos + 1) ws"

lemma renumber_rows: "length (renumber lib pos ws) = length ws" "map row_id (renumber lib pos ws) = map row_id ws"
  by (induction ws arbitrary: pos) (simp_all add: new_row2_def)

lemma renumber_numbers:
  "list_all2 (\<lambda>w w'. 1 \<le> row_number w' \<and> row_number w' \<le> 10000 \<and> row_number w' \<noteq> row_number w) ws (renumber lib pos ws)"
  by (induction ws arbitrary: pos) (simp_all add: new_row2_def new_number_bounds)

lemma updated_rows:
  assumes "\<forall>w \<in> set ws. readable conv enc w"
  shows "update_rows lib conv (map (row_result enc) ws) (vec, emitted, pos) =
    Some (vec @ renumber lib pos ws, emitted @ renumber lib pos ws, pos + length ws)"
  using assms
proof (induction ws arbitrary: vec emitted pos)
  case (Cons w ws)
  have "(new_row (row_id w))\<lparr>row_number := n\<rparr> = new_row2 (row_id w) n" for n by (simp add: new_row_def new_row2_def)
  then show ?case using Cons by (simp add: readable_def update_row_def Let_def)
qed simp

lemma update_params_length: "length (update_params emitted vec) = 2 * length emitted + length vec"
proof -
  have "length (concat (map (\<lambda>w. [row_id w, row_number w]) emitted)) = 2 * length emitted" by (induction emitted) auto
  then show ?thesis by (simp add: update_params_def)
qed

lemma update_params_nth:
  assumes "c < length ws"
  shows "update_params ws ws ! (2 * c) = row_id (ws ! c)" "update_params ws ws ! (2 * c + 1) = row_number (ws ! c)"
    "update_params ws ws ! (2 * length ws + c) = row_id (ws ! c)"
proof -
  define l where "l = concat (map (\<lambda>w. [row_id w, row_number w]) ws)"
  have "length l = 2 * length ws" unfolding l_def by (induction ws) auto
  moreover have "update_params ws ws = l @ map row_id ws" by (simp add: update_params_def l_def)
  moreover have "l ! (2 * c) = row_id (ws ! c) \<and> l ! (2 * c + 1) = row_number (ws ! c)"
    unfolding l_def using assms
  proof (induction ws arbitrary: c)
    case (Cons w ws)
    then show ?case by (cases c) auto
  qed simp
  ultimately show "update_params ws ws ! (2 * c) = row_id (ws ! c)" "update_params ws ws ! (2 * c + 1) = row_number (ws ! c)"
    "update_params ws ws ! (2 * length ws + c) = row_id (ws ! c)"
    using assms by (simp_all add: nth_append)
qed

end
