(* ===== verification/Ffead_T2.thy ===== *)
theory Ffead_T2
  imports Ffead_Posts
begin

text \<open>
  The application \<^verbatim>\<open>t2\<close> of ffead-cpp (\<^verbatim>\<open>TeBkUmMgr.cpp\<close>), which has its rows in
  MongoDB.  What the connection answers is a parameter; its state is passed through.
\<close>

section \<open>State and library\<close>

text \<open>
  A field of a document: its name, its value as a number with a fraction, cut to an integer, as a long integer, and as a
  text.
\<close>

record mg_field =
  mg_name :: string
  mg_double :: int
  mg_long :: int
  mg_text :: string

text \<open>
  The documents of a collection, all or the one with an id, each of which goes to the callback; a bulk of updates,
  each with the id it selects and the number it sets.
\<close>

record 'd mg_conn =
  mg_query :: "string \<Rightarrow> int option \<Rightarrow> 'd \<Rightarrow> mg_field list list \<times> 'd"
  mg_bulk :: "string \<Rightarrow> (int \<times> int) list \<Rightarrow> 'd \<Rightarrow> 'd"

record t2_lib = ffead_lib +
  serialize_message :: "string \<Rightarrow> string"
  serialize_world :: "world_row \<Rightarrow> string"
  serialize_worlds :: "world_row list \<Rightarrow> string"
  sanitizeHtml :: "string \<Rightarrow> string"
  sort_fortunes :: "fortune_row list \<Rightarrow> fortune_row list"
  has_template :: bool

record 'd t2_state =
  mg :: 'd
  rands :: nat

definition next_rand :: "t2_lib \<Rightarrow> 'd t2_state \<Rightarrow> nat \<times> 'd t2_state" where
  "next_rand lib s = (fastrand lib (rands s), s\<lparr>rands := rands s + 1\<rparr>)"

section \<open>Reading documents\<close>

definition dbUtil :: "mg_field list \<Rightarrow> world_row \<Rightarrow> world_row" where
  "dbUtil data w = fold (\<lambda>f w.
     let w = (if mg_name f = ''_id'' then (if mg_double f \<le> 0 then w\<lparr>row_id := to_int32 (mg_long f)\<rparr> else w\<lparr>row_id := mg_double f\<rparr>) else w)
     in if mg_name f = ''randomNumber'' then (if mg_double f = 0 then w\<lparr>row_number := to_int32 (mg_long f)\<rparr> else w\<lparr>row_number := mg_double f\<rparr>) else w) data w"

definition updateCacheUtil :: "mg_field list \<Rightarrow> world_row list \<Rightarrow> world_row list" where
  "updateCacheUtil data wlist = wlist @ [fold (\<lambda>f w.
     let w = (if mg_name f = ''_id'' then (if mg_double f \<le> 0 then w\<lparr>row_id := to_int32 (mg_long f)\<rparr> else w\<lparr>row_id := mg_double f\<rparr>) else w)
     in if mg_name f = ''randomNumber'' then (if mg_double f \<le> 0 then w\<lparr>row_number := to_int32 (mg_long f)\<rparr> else w\<lparr>row_number := mg_double f\<rparr>) else w)
     data new_row0]"

definition getContextUtil :: "t2_lib \<Rightarrow> mg_field list \<Rightarrow> fortune_row list \<Rightarrow> fortune_row list" where
  "getContextUtil lib data flst = flst @ [fold (\<lambda>f w.
     let w = (if mg_name f = ''_id'' then (if mg_double f \<le> 0 then w\<lparr>fid := to_int32 (mg_long f)\<rparr> else w\<lparr>fid := mg_double f\<rparr>) else w)
     in if mg_name f = ''message'' then w\<lparr>fmessage := sanitizeHtml lib (mg_text f)\<rparr> else w) data \<lparr>fid = 0, fmessage = []\<rparr>]"

section \<open>Handlers\<close>

definition query_world :: "'d mg_conn \<Rightarrow> int \<Rightarrow> world_row \<Rightarrow> 'd t2_state \<Rightarrow> world_row \<times> 'd t2_state" where
  "query_world ops rid w s = (case mg_query ops ''world'' (Some rid) (mg s) of (docs, d) \<Rightarrow> (fold dbUtil docs w, s\<lparr>mg := d\<rparr>))"

definition t2_db :: "t2_lib \<Rightarrow> 'd mg_conn \<Rightarrow> 'd t2_state \<Rightarrow> world_row \<times> 'd t2_state" where
  "t2_db lib ops s = (case next_rand lib s of (r, s) \<Rightarrow> query_world ops (random_id r) new_row0 s)"

text \<open>All queries read into the same object.\<close>

fun t2_queries_loop :: "t2_lib \<Rightarrow> 'd mg_conn \<Rightarrow> nat \<Rightarrow> world_row \<Rightarrow> world_row list \<Rightarrow> 'd t2_state \<Rightarrow> world_row list \<times> 'd t2_state" where
  "t2_queries_loop lib ops 0 w wlst s = (wlst, s)"
| "t2_queries_loop lib ops (Suc c) w wlst s =
     (let (r, s) = next_rand lib s; (w, s) = query_world ops (random_id r) w s
      in t2_queries_loop lib ops c w (wlst @ [w]) s)"

definition t2_queries :: "t2_lib \<Rightarrow> 'd mg_conn \<Rightarrow> string \<Rightarrow> 'd t2_state \<Rightarrow> (world_row list \<times> 'd t2_state) option" where
  "t2_queries lib ops q s = map_option (\<lambda>n. t2_queries_loop lib ops (nat n) new_row0 [] s) (t2_query_count q)"

fun t2_updates_loop ::
    "t2_lib \<Rightarrow> 'd mg_conn \<Rightarrow> nat \<Rightarrow> (int \<times> int) list \<Rightarrow> world_row list \<Rightarrow> 'd t2_state \<Rightarrow> (int \<times> int) list \<times> world_row list \<times> 'd t2_state" where
  "t2_updates_loop lib ops 0 bulk wlst s = (bulk, wlst, s)"
| "t2_updates_loop lib ops (Suc c) bulk wlst s =
     (let (r, s) = next_rand lib s;
          rid = random_id r;
          (w, s) = query_world ops rid new_row0 s;
          (r, s) = next_rand lib s;
          w = w\<lparr>row_number := new_number (row_number w) r\<rparr>
      in t2_updates_loop lib ops c (bulk @ [(rid, row_number w)]) (wlst @ [w]) s)"

definition t2_updates :: "t2_lib \<Rightarrow> 'd mg_conn \<Rightarrow> string \<Rightarrow> 'd t2_state \<Rightarrow> (world_row list \<times> 'd t2_state) option" where
  "t2_updates lib ops q s =
     map_option (\<lambda>n. case t2_updates_loop lib ops (nat n) [] [] s of
         (bulk, wlst, s) \<Rightarrow> (wlst, s\<lparr>mg := mg_bulk ops ''world'' bulk (mg s)\<rparr>))
       (t2_query_count q)"

text \<open>The cache, if each entry fits its array.\<close>

definition t2_updateCache :: "'d mg_conn \<Rightarrow> (int \<Rightarrow> string option) \<Rightarrow> 'd t2_state \<Rightarrow> ((int \<Rightarrow> string option) \<times> 'd t2_state) option" where
  "t2_updateCache ops cchi s =
     (case mg_query ops ''world'' None (mg s) of (docs, d) \<Rightarrow>
        map_option (\<lambda>c. (c, s\<lparr>mg := d\<rparr>)) (set_raws (fold updateCacheUtil docs []) cchi))"

definition t2_cachedWorlds :: "t2_lib \<Rightarrow> string \<Rightarrow> 'd t2_state \<Rightarrow> (world_row list \<times> 'd t2_state) option" where
  "t2_cachedWorlds lib q s =
     Option.bind (t2_query_count q) (\<lambda>n.
       map_option (\<lambda>ws. (ws, s\<lparr>rands := rands s + nat n\<rparr>)) (cachedWorlds (fastStrToNum lib) (cached lib) n (\<lambda>c. fastrand lib (rands s + c))))"

definition t2_getContext :: "t2_lib \<Rightarrow> 'd mg_conn \<Rightarrow> 'd t2_state \<Rightarrow> fortune_row list \<times> 'd t2_state" where
  "t2_getContext lib ops s =
     (case mg_query ops ''fortune'' None (mg s) of (docs, d) \<Rightarrow>
        (sort_fortunes lib (fold (getContextUtil lib) docs [] @ [\<lparr>fid = 0, fmessage = ''Additional fortune added at request time.''\<rparr>]), s\<lparr>mg := d\<rparr>))"

section \<open>Routes\<close>

record t2_response =
  t2_status :: "http_code option"
  t2_type :: "content_kind option"
  t2_content :: string

definition t2_ok :: "content_kind \<Rightarrow> string \<Rightarrow> t2_response" where
  "t2_ok k t = \<lparr>t2_status = Some Code_ok, t2_type = Some k, t2_content = t\<rparr>"

text \<open>Without a template the response to a request for fortunes stays as it was made.\<close>

definition t2_route :: "t2_lib \<Rightarrow> 'd mg_conn \<Rightarrow> string \<Rightarrow> string \<Rightarrow> 'd t2_state \<Rightarrow> (t2_response \<times> 'd t2_state) option" where
  "t2_route lib ops path queryStr s =
     (let param = parse_query lib queryStr;
          rows_answer = map_option (\<lambda>(ws, s). (t2_ok Application_json (serialize_worlds lib ws), s))
      in if endsWith path ''/plaint'' then Some (t2_ok Text_plain HELLO_WORLD, s)
         else if endsWith path ''/j'' then Some (t2_ok Application_json (serialize_message lib HELLO_WORLD), s)
         else if endsWith path ''/d'' then (case t2_db lib ops s of (w, s) \<Rightarrow> Some (t2_ok Application_json (serialize_world lib w), s))
         else if endsWith path ''/quer'' then Option.bind param (\<lambda>q. rows_answer (t2_queries lib ops q s))
         else if endsWith path ''/fortu''
         then (case t2_getContext lib ops s of (flst, s) \<Rightarrow>
                 Some (if has_template lib then t2_ok Text_html (tmplFunc lib flst) else \<lparr>t2_status = None, t2_type = None, t2_content = []\<rparr>, s))
         else if endsWith path ''/updt'' then Option.bind param (\<lambda>q. rows_answer (t2_updates lib ops q s))
         else if endsWith path ''/cached-wld'' then Option.bind param (\<lambda>q. rows_answer (t2_cachedWorlds lib q s))
         else Some (\<lparr>t2_status = Some Code_not_found, t2_type = None, t2_content = []\<rparr>, s))"

section \<open>What is asked of the connection\<close>

definition world_doc :: "int \<Rightarrow> int \<Rightarrow> mg_field list" where
  "world_doc i n = [\<lparr>mg_name = ''_id'', mg_double = i, mg_long = 0, mg_text = []\<rparr>, \<lparr>mg_name = ''randomNumber'', mg_double = n, mg_long = 0, mg_text = []\<rparr>]"

text \<open>A query by id gives the document of the id; the updates of a bulk are done in their order.\<close>

definition table_mg :: "'d mg_conn \<Rightarrow> ('d \<Rightarrow> int \<Rightarrow> int) \<Rightarrow> bool" where
  "table_mg ops table \<longleftrightarrow>
     (\<forall>i d. mg_query ops ''world'' (Some i) d = ([world_doc i (table d i)], d)) \<and>
     (\<forall>us d. table (mg_bulk ops ''world'' us d) = fold (\<lambda>(i, n) t. t(i := n)) us (table d))"

lemma dbUtil_doc:
  assumes "1 \<le> i"
  shows "dbUtil (world_doc i n) w = new_row2 i n"
  using assms by (cases "n = 0") (simp_all add: dbUtil_def world_doc_def new_row2_def to_int32_def)

lemma query_world_table:
  assumes "table_mg ops table" "1 \<le> i"
  shows "query_world ops i w s = (new_row2 i (table (mg s) i), s)"
  using assms dbUtil_doc by (simp add: query_world_def table_mg_def)

lemma t2_updates_loop_table:
  assumes "table_mg ops table"
  shows "\<exists>ws. t2_updates_loop lib ops c bulk wlst s =
      (bulk @ map (\<lambda>w. (row_id w, row_number w)) ws, wlst @ ws, s\<lparr>rands := rands s + 2 * c\<rparr>) \<and> length ws = c \<and>
    (\<forall>w \<in> set ws. 1 \<le> row_id w \<and> row_id w \<le> 10000 \<and> 1 \<le> row_number w \<and> row_number w \<le> 10000 \<and> row_number w \<noteq> table (mg s) (row_id w))"
proof (induction c arbitrary: bulk wlst s)
  case (Suc c)
  define i where "i = random_id (fastrand lib (rands s))"
  define n where "n = new_number (table (mg s) i) (fastrand lib (rands s + 1))"
  have w: "1 \<le> i \<and> i \<le> 10000 \<and> 1 \<le> n \<and> n \<le> 10000 \<and> n \<noteq> table (mg s) i"
    using random_id_bounds new_number_bounds by (simp add: i_def n_def)
  from Suc.IH [of "bulk @ [(i, n)]" "wlst @ [new_row2 i n]" "s\<lparr>rands := rands s + 2\<rparr>"] obtain ws where
    ws: "t2_updates_loop lib ops c (bulk @ [(i, n)]) (wlst @ [new_row2 i n]) (s\<lparr>rands := rands s + 2\<rparr>) =
      (bulk @ map (\<lambda>w. (row_id w, row_number w)) (new_row2 i n # ws), wlst @ new_row2 i n # ws, s\<lparr>rands := rands s + 2 * Suc c\<rparr>)"
      "length ws = c"
      "\<forall>w \<in> set ws. 1 \<le> row_id w \<and> row_id w \<le> 10000 \<and> 1 \<le> row_number w \<and> row_number w \<le> 10000 \<and> row_number w \<noteq> table (mg s) (row_id w)"
    by (auto simp: new_row2_def)
  have "t2_updates_loop lib ops (Suc c) bulk wlst s =
      t2_updates_loop lib ops c (bulk @ [(i, n)]) (wlst @ [new_row2 i n]) (s\<lparr>rands := rands s + 2\<rparr>)"
    using query_world_table [OF assms, of i] w by (simp add: next_rand_def new_row2_def n_def flip: i_def)
  then show ?case using ws w by (intro exI [of _ "new_row2 i n # ws"]) (simp add: new_row2_def)
qed auto

lemma fold_updates:
  "fold (\<lambda>(i, n) t. t(i := n)) (map (\<lambda>w. (row_id w, row_number w)) ws) t i =
     (case find (\<lambda>w. row_id w = i) (rev ws) of Some w \<Rightarrow> row_number w | None \<Rightarrow> t i)"
proof (induction ws rule: rev_induct)
  case (snoc w ws)
  then show ?case by (auto simp: )
qed simp

section \<open>Properties\<close>

text \<open>C15. A request for updates of the application with MongoDB changes the table to what it answers: as many rows as the
  clamped number in front of the parameter says, each with a new number from 1 to 10000 that is not the old
  one; every row whose id was drawn then holds the number of the last answered row with that id, and all others
  are as before.\<close>

theorem t2_updates_stored:
  assumes "table_mg ops table" "int (digits_value (takeWhile isdigit q)) \<le> INT_MAX"
  shows "\<exists>wlst s'. t2_updates lib ops q s = Some (wlst, s') \<and>
    length wlst = nat (query_count (int (digits_value (takeWhile isdigit q)))) \<and>
    (\<forall>w \<in> set wlst. 1 \<le> row_id w \<and> row_id w \<le> 10000 \<and> 1 \<le> row_number w \<and> row_number w \<le> 10000 \<and> row_number w \<noteq> table (mg s) (row_id w)) \<and>
    (\<forall>i. table (mg s') i = (case find (\<lambda>w. row_id w = i) (rev wlst) of Some w \<Rightarrow> row_number w | None \<Rightarrow> table (mg s) i))"
proof -
  define n where "n = query_count (int (digits_value (takeWhile isdigit q)))"
  have n: "t2_query_count q = Some n" using assms(2) by (simp add: t2_query_count_eq n_def Let_def)
  from t2_updates_loop_table [OF assms(1), of lib "nat n" "[]" "[]" s] obtain ws where
    ws: "t2_updates_loop lib ops (nat n) [] [] s = (map (\<lambda>w. (row_id w, row_number w)) ws, ws, s\<lparr>rands := rands s + 2 * nat n\<rparr>)" "length ws = nat n"
      "\<forall>w \<in> set ws. 1 \<le> row_id w \<and> row_id w \<le> 10000 \<and> 1 \<le> row_number w \<and> row_number w \<le> 10000 \<and> row_number w \<noteq> table (mg s) (row_id w)"
    by auto
  then show ?thesis
    using assms(1) n fold_updates [of ws "table (mg s)"] by (auto simp: t2_updates_def table_mg_def n_def)
qed

text \<open>An example: a collection in memory, and one without documents.\<close>

definition sample_mg :: "(int \<Rightarrow> int) mg_conn" where
  "sample_mg = \<lparr>mg_query = (\<lambda>c i d. case i of Some i \<Rightarrow> ([world_doc i (d i)], d) | None \<Rightarrow> ([], d)),
     mg_bulk = (\<lambda>c us d. fold (\<lambda>(i, n) t. t(i := n)) us d)\<rparr>"

definition sample_t2 :: t2_lib where
  "sample_t2 = \<lparr>fastrand = (\<lambda>k. 5 * k), fastStrToNum = (\<lambda>s n. int (digits_value (take (nat n) s))), write_json = (\<lambda>_. ''json''),
     sanitizeHtmlFast = (\<lambda>s. s), tmplFunc = (\<lambda>_. ''page''), parse_query = (\<lambda>s. Some (drop 2 s)), cached = (\<lambda>_. []),
     serialize_message = (\<lambda>_. ''m''), serialize_world = (\<lambda>_. ''w''), serialize_worlds = (\<lambda>_. ''ws''), sanitizeHtml = (\<lambda>s. s),
     sort_fortunes = (\<lambda>xs. xs), has_template = True\<rparr>"

definition sample_t2_state :: "(int \<Rightarrow> int) t2_state" where
  "sample_t2_state = \<lparr>mg = (\<lambda>i. 7), rands = 0\<rparr>"

theorem t2_updates_stored_witness:
  "\<exists>wlst s'. t2_updates sample_t2 sample_mg ''20'' sample_t2_state = Some (wlst, s') \<and>
    length wlst = nat (query_count (int (digits_value (takeWhile isdigit ''20'')))) \<and>
    (\<forall>w \<in> set wlst. 1 \<le> row_id w \<and> row_id w \<le> 10000 \<and> 1 \<le> row_number w \<and> row_number w \<le> 10000 \<and>
      row_number w \<noteq> mg sample_t2_state (row_id w)) \<and>
    (\<forall>i. mg s' i = (case find (\<lambda>w. row_id w = i) (rev wlst) of Some w \<Rightarrow> row_number w | None \<Rightarrow> mg sample_t2_state i))"
proof (rule t2_updates_stored [where table = "\<lambda>d. d"])
  show "table_mg sample_mg (\<lambda>d. d)" by (simp add: table_mg_def sample_mg_def)
  show "int (digits_value (takeWhile isdigit ''20'')) \<le> INT_MAX"
    by (simp add: isdigit_def digits_value_def digit_val_def INT_MAX_def)
qed

text \<open>A row that does not exist is answered with the row before it, since all queries read into the same object.\<close>

lemma row_before:
  assumes "mg_query ops ''world'' (Some (random_id (fastrand lib (rands s)))) (mg s) = ([], d)"
  shows "t2_queries_loop lib ops (Suc c) w wlst s = t2_queries_loop lib ops c w (wlst @ [w]) (s\<lparr>rands := rands s + 1, mg := d\<rparr>)"
  using assms by (simp add: next_rand_def query_world_def)

end
