(* ===== verification/Ffead_T3.thy ===== *)
theory Ffead_T3
  imports Ffead_Posts
begin

text \<open>
  The application \<^verbatim>\<open>t3\<close> of ffead-cpp (\<^verbatim>\<open>TeBkUmLpq.cpp\<close>), whose
  handlers wait for the results of their queries.  What the connection answers is a parameter; its
  state is passed through.  \<^verbatim>\<open>std::sort\<close> is a parameter too, since it leaves the order of equal
  rows open.
\<close>

section \<open>State and library\<close>

text \<open>
  The result that the callback of a query gets, if it is called; the columns and texts that the callback
  of several queries gets, with the status the last callback gets, if that is called.
\<close>

record 'd pg_conn =
  executeQuery :: "string \<Rightarrow> int list \<Rightarrow> 'd \<Rightarrow> pgresult option \<times> 'd"
  executeMultiQuery :: "string \<Rightarrow> 'd \<Rightarrow> (nat \<times> string) list \<times> bool option \<times> 'd"
  executeUpdateQuery :: "string \<Rightarrow> int list \<Rightarrow> 'd \<Rightarrow> 'd"
  executeUpdateMultiQuery :: "string \<Rightarrow> 'd \<Rightarrow> 'd"
  begin_transaction :: "'d \<Rightarrow> 'd"
  commit_transaction :: "'d \<Rightarrow> 'd"

record t3_lib = ffead_lib +
  serializeMessage :: "string \<Rightarrow> string"
  serializeWorld :: "world_row \<Rightarrow> string"
  serializeWorlds :: "world_row list \<Rightarrow> string"
  std_sort :: "world_row list \<Rightarrow> world_row list"

record 'd t3_state =
  conn :: 'd
  draws :: nat
  upd_texts :: "nat \<Rightarrow> string option"

definition draw :: "t3_lib \<Rightarrow> 'd t3_state \<Rightarrow> nat \<times> 'd t3_state" where
  "draw lib s = (fastrand lib (draws s), s\<lparr>draws := draws s + 1\<rparr>)"

definition t3_count :: "t3_lib \<Rightarrow> string \<Rightarrow> nat" where
  "t3_count lib q = nat (query_count (fastStrToNum lib q (int (length q))))"

section \<open>Handlers\<close>

text \<open>A query for a row that is read into an object; without a call of the callback the object stays as it was made.\<close>

definition query_into_row :: "t3_lib \<Rightarrow> 'd pg_conn \<Rightarrow> int \<Rightarrow> 'd t3_state \<Rightarrow> (world_row \<times> 'd t3_state) option" where
  "query_into_row lib ops rid s =
     (case executeQuery ops WORLD_ONE_QUERY [rid] (conn s) of
        (None, d) \<Rightarrow> Some (new_row0, s\<lparr>conn := d\<rparr>)
      | (Some res, d) \<Rightarrow> map_option (\<lambda>w. (w, s\<lparr>conn := d\<rparr>)) (read_one_row res))"

definition t3_db :: "t3_lib \<Rightarrow> 'd pg_conn \<Rightarrow> 'd t3_state \<Rightarrow> (world_row \<times> 'd t3_state) option" where
  "t3_db lib ops s = (case draw lib s of (r, s) \<Rightarrow> query_into_row lib ops (random_id r) s)"

fun t3_queries_loop :: "t3_lib \<Rightarrow> 'd pg_conn \<Rightarrow> nat \<Rightarrow> world_row list \<Rightarrow> 'd t3_state \<Rightarrow> (world_row list \<times> 'd t3_state) option" where
  "t3_queries_loop lib ops 0 wlst s = Some (wlst, s)"
| "t3_queries_loop lib ops (Suc c) wlst s =
     (case draw lib s of (r, s) \<Rightarrow>
       (case executeQuery ops WORLD_ONE_QUERY [random_id r] (conn s) of
          (None, d) \<Rightarrow> t3_queries_loop lib ops c wlst (s\<lparr>conn := d\<rparr>)
        | (Some res, d) \<Rightarrow>
            Option.bind (Option.bind (get_row res 0) (\<lambda>cells. read_cells ntohl_int cells wlst))
              (\<lambda>wlst. t3_queries_loop lib ops c wlst (s\<lparr>conn := d\<rparr>))))"

definition t3_queries :: "t3_lib \<Rightarrow> 'd pg_conn \<Rightarrow> string \<Rightarrow> 'd t3_state \<Rightarrow> (world_row list \<times> 'd t3_state) option" where
  "t3_queries lib ops q = t3_queries_loop lib ops (t3_count lib q) []"

text \<open>The ids of several queries in one text.\<close>

definition t3_draw_ids :: "t3_lib \<Rightarrow> nat \<Rightarrow> 'd t3_state \<Rightarrow> int list \<times> 'd t3_state" where
  "t3_draw_ids lib n s = (map (\<lambda>c. random_id (fastrand lib (draws s + c))) [0..<n], s\<lparr>draws := draws s + n\<rparr>)"

definition t3_queriesMulti :: "t3_lib \<Rightarrow> 'd pg_conn \<Rightarrow> string \<Rightarrow> 'd t3_state \<Rightarrow> (world_row list \<times> 'd t3_state) option" where
  "t3_queriesMulti lib ops q s =
     (let (ids, s) = t3_draw_ids lib (t3_count lib q) s;
          (cells, _, d) = executeMultiQuery ops (multi_select_text ids) (conn s)
      in map_option (\<lambda>wlst. (wlst, s\<lparr>conn := d\<rparr>)) (cell_rows (text_number (ffead_lib.truncate lib)) cells []))"

fun t3_updates_loop :: "t3_lib \<Rightarrow> 'd pg_conn \<Rightarrow> nat \<Rightarrow> world_row list \<Rightarrow> 'd t3_state \<Rightarrow> (world_row list \<times> 'd t3_state) option" where
  "t3_updates_loop lib ops 0 wlst s = Some (wlst, s)"
| "t3_updates_loop lib ops (Suc c) wlst s =
     (case draw lib s of (r, s) \<Rightarrow>
       Option.bind (query_into_row lib ops (random_id r) s) (\<lambda>(w, s).
         (case draw lib s of (r, s) \<Rightarrow>
            t3_updates_loop lib ops c (wlst @ [w\<lparr>row_number := new_number (row_number w) r\<rparr>]) s)))"

definition t3_updates :: "t3_lib \<Rightarrow> 'd pg_conn \<Rightarrow> string \<Rightarrow> 'd t3_state \<Rightarrow> (world_row list \<times> 'd t3_state) option" where
  "t3_updates lib ops q s =
     (let (text, texts) = getUpdQuery (t3_count lib q) (upd_texts s)
      in map_option (\<lambda>(wlst, s).
           let wlst = std_sort lib wlst;
               d = executeUpdateQuery ops text (update_params wlst wlst) (begin_transaction ops (conn s))
           in (wlst, s\<lparr>conn := commit_transaction ops d\<rparr>))
         (t3_updates_loop lib ops (t3_count lib q) [] (s\<lparr>upd_texts := texts\<rparr>)))"

text \<open>The callback that makes the text of the update: the rows, the text, and the position in the random numbers.\<close>

fun multi_updates :: "t3_lib \<Rightarrow> (nat \<times> string) list \<Rightarrow> world_row list \<Rightarrow> string \<Rightarrow> nat \<Rightarrow> (world_row list \<times> string \<times> nat) option" where
  "multi_updates lib [] wlst ss pos = Some (wlst, ss, pos)"
| "multi_updates lib ((cn, d) # cells) wlst ss pos =
     (let tmp = fastStrToNum lib d (int (length d))
      in if cn = 0 then multi_updates lib cells (wlst @ [new_row tmp]) ss pos
         else if wlst = [] then None
         else (let n = new_number tmp (fastrand lib pos);
                   wlst = set_back n wlst
               in multi_updates lib cells wlst (ss @ ''when '' @ dec_int (row_id (last wlst)) @ '' then '' @ dec_int n) (pos + 1)))"

text \<open>\<^verbatim>\<open>at\<close> raises an exception when fewer rows came than were asked for.\<close>

fun id_list :: "world_row list \<Rightarrow> nat \<Rightarrow> nat \<Rightarrow> string option" where
  "id_list wlst queryCount 0 = Some []"
| "id_list wlst queryCount (Suc k) =
     (let c = queryCount - Suc k
      in if length wlst \<le> c then None
         else map_option (\<lambda>t. dec_int (row_id (wlst ! c)) @ (if c < queryCount - 1 then '','' else []) @ t) (id_list wlst queryCount k))"

definition t3_updatesMulti :: "t3_lib \<Rightarrow> 'd pg_conn \<Rightarrow> string \<Rightarrow> 'd t3_state \<Rightarrow> (world_row list \<times> 'd t3_state) option" where
  "t3_updatesMulti lib ops q s =
     (let n = t3_count lib q;
          (ids, s) = t3_draw_ids lib n s;
          (cells, status, d) = executeMultiQuery ops (multi_select_text ids) (conn s)
      in Option.bind (multi_updates lib cells [] ''begin;update world as t set randomnumber = case id '' (draws s)) (\<lambda>(wlst, ss, pos).
           let s = s\<lparr>conn := d, draws := pos\<rparr>
           in if status = Some False then Some (wlst, s)
              else map_option (\<lambda>t. (wlst, s\<lparr>conn := executeUpdateMultiQuery ops
                       (ss @ ''else randomnumber end where id in ('' @ t @ '');commit;'') (conn s)\<rparr>))
                     (id_list wlst n n)))"

definition t3_fortunes :: "t3_lib \<Rightarrow> 'd pg_conn \<Rightarrow> 'd t3_state \<Rightarrow> (string \<times> 'd t3_state) option" where
  "t3_fortunes lib ops s =
     (let (res, d) = executeQuery ops FORTUNE_ALL_QUERY [] (conn s)
      in map_option (\<lambda>flst. (tmplFunc lib (qsort fortune_cmp (flst @ [\<lparr>fid = 0, fmessage = ''Additional fortune added at request time.''\<rparr>])), s\<lparr>conn := d\<rparr>))
           (case res of None \<Rightarrow> Some [] | Some res \<Rightarrow> read_fortune_list (ffead_lib.truncate lib) res))"

definition t3_cachedWorlds :: "t3_lib \<Rightarrow> string \<Rightarrow> 'd t3_state \<Rightarrow> (world_row list \<times> 'd t3_state) option" where
  "t3_cachedWorlds lib q s =
     map_option (\<lambda>ws. (ws, s\<lparr>draws := draws s + t3_count lib q\<rparr>))
       (cachedWorlds (fastStrToNum lib) (cached lib) (fastStrToNum lib q (int (length q))) (\<lambda>c. fastrand lib (draws s + c)))"

text \<open>Filling the cache with the cells of the table.\<close>

definition t3_updateCache :: "(nat \<times> string) list \<Rightarrow> (int \<Rightarrow> string option) \<Rightarrow> (int \<Rightarrow> string option) option" where
  "t3_updateCache cells cchi = Option.bind (cell_rows ntohl_int cells []) (\<lambda>wlst. set_raws wlst cchi)"

section \<open>Routes\<close>

definition json_content :: "string \<Rightarrow> bool \<Rightarrow> string \<Rightarrow> answer" where
  "json_content vers close_conn content = \<lparr>answer_code = Code_ok, answer_head = Head_full Application_json vers close_conn None, answer_body = content\<rparr>"

definition t3_route :: "t3_lib \<Rightarrow> 'd pg_conn \<Rightarrow> string \<Rightarrow> string \<Rightarrow> string \<Rightarrow> bool \<Rightarrow> 'd t3_state \<Rightarrow> (answer \<times> 'd t3_state) option" where
  "t3_route lib ops path queryStr vers clos s =
     (let param = parse_query lib queryStr;
          rows_answer = map_option (\<lambda>(ws, s). (json_content vers clos (serializeWorlds lib ws), s))
      in if endsWith path ''/plaint''
         then Some (\<lparr>answer_code = Code_ok, answer_head = Head_sized Text_plain (length HELLO_WORLD), answer_body = HELLO_WORLD\<rparr>, s)
         else if endsWith path ''/j''
         then Some (\<lparr>answer_code = Code_ok, answer_head = Head_default Application_json, answer_body = serializeMessage lib HELLO_WORLD\<rparr>, s)
         else if endsWith path ''/d''
         then map_option (\<lambda>(w, s). (json_content vers clos (serializeWorld lib w), s)) (t3_db lib ops s)
         else if endsWith path ''/que_'' then Option.bind param (\<lambda>q. rows_answer (t3_queries lib ops q s))
         else if endsWith path ''/quer'' then Option.bind param (\<lambda>q. rows_answer (t3_queriesMulti lib ops q s))
         else if endsWith path ''/fortu''
         then map_option (\<lambda>(out, s). (\<lparr>answer_code = Code_ok, answer_head = Head_full Text_html vers clos (Some (length out)), answer_body = out\<rparr>, s)) (t3_fortunes lib ops s)
         else if endsWith path ''/upd_'' then Option.bind param (\<lambda>q. rows_answer (t3_updates lib ops q s))
         else if endsWith path ''/updt'' then Option.bind param (\<lambda>q. rows_answer (t3_updatesMulti lib ops q s))
         else if endsWith path ''/cached-wld'' then Option.bind param (\<lambda>q. rows_answer (t3_cachedWorlds lib q s))
         else Some (\<lparr>answer_code = Code_not_found, answer_head = Head_bare vers True, answer_body = []\<rparr>, s))"

text \<open>The variant for servers that write the response themselves.\<close>

record response =
  status :: http_code
  content_type :: "content_kind option"
  content :: string

definition ok_response :: "content_kind \<Rightarrow> string \<Rightarrow> response" where
  "ok_response k t = \<lparr>status = Code_ok, content_type = Some k, content = t\<rparr>"

definition pico_route :: "t3_lib \<Rightarrow> 'd pg_conn \<Rightarrow> string \<Rightarrow> string \<Rightarrow> 'd t3_state \<Rightarrow> (response \<times> 'd t3_state) option" where
  "pico_route lib ops path queryStr s =
     (let param = parse_query lib queryStr;
          rows_answer = map_option (\<lambda>(ws, s). (ok_response Application_json (serializeWorlds lib ws), s))
      in if endsWith path ''/plaint'' then Some (ok_response Text_plain HELLO_WORLD, s)
         else if endsWith path ''/j'' then Some (ok_response Application_json (serializeMessage lib HELLO_WORLD), s)
         else if endsWith path ''/d'' then map_option (\<lambda>(w, s). (ok_response Application_json (serializeWorld lib w), s)) (t3_db lib ops s)
         else if endsWith path ''/que_'' then Option.bind param (\<lambda>q. rows_answer (t3_queries lib ops q s))
         else if endsWith path ''/quer'' then Option.bind param (\<lambda>q. rows_answer (t3_queriesMulti lib ops q s))
         else if endsWith path ''/fortu'' then map_option (\<lambda>(out, s). (ok_response Text_html out, s)) (t3_fortunes lib ops s)
         else if endsWith path ''/upd_'' then Option.bind param (\<lambda>q. rows_answer (t3_updates lib ops q s))
         else if endsWith path ''/updt'' then Option.bind param (\<lambda>q. rows_answer (t3_updatesMulti lib ops q s))
         else if endsWith path ''/cached-wld'' then Option.bind param (\<lambda>q. rows_answer (t3_cachedWorlds lib q s))
         else Some (\<lparr>status = Code_not_found, content_type = None, content = []\<rparr>, s))"

section \<open>What is asked of the connection and of sorting\<close>

text \<open>
  A table is behind the connection: a query for a row gives it; the update sets the rows of its condition to the value
  of the first case that mentions their id.
\<close>

fun first_value :: "int list \<Rightarrow> int \<Rightarrow> int option" where
  "first_value (a # v # ps) i = (if a = i then Some v else first_value ps i)"
| "first_value _ i = None"

definition case_update :: "nat \<Rightarrow> int list \<Rightarrow> (int \<Rightarrow> int) \<Rightarrow> int \<Rightarrow> int" where
  "case_update n ps t i =
     (if i \<in> set (drop (2 * n) ps) then (case first_value (take (2 * n) ps) i of Some v \<Rightarrow> v | None \<Rightarrow> t i) else t i)"

definition table_conn :: "'d pg_conn \<Rightarrow> ('d \<Rightarrow> int \<Rightarrow> int) \<Rightarrow> bool" where
  "table_conn ops table \<longleftrightarrow>
     (\<forall>i d. executeQuery ops WORLD_ONE_QUERY [i] d = (Some (row_result int4_bytes (new_row2 i (table d i))), d)) \<and>
     (\<forall>i d. fits_int4 (table d i)) \<and>
     (\<forall>d. table (begin_transaction ops d) = table d \<and> table (commit_transaction ops d) = table d) \<and>
     (\<forall>n ps d. length ps = 3 * n \<and> (\<forall>p \<in> set ps. fits_int4 p) \<longrightarrow> table (executeUpdateQuery ops (upd_query_text n) ps d) = case_update n ps (table d))"

definition sorts_rows :: "(world_row list \<Rightarrow> world_row list) \<Rightarrow> bool" where
  "sorts_rows srt \<longleftrightarrow> (\<forall>ws. mset (srt ws) = mset ws \<and> sorted (map row_id (srt ws)))"

section \<open>Reading and updating rows\<close>

lemma read_one_row_result: "readable ntohl_int int4_bytes w \<Longrightarrow> read_one_row (row_result int4_bytes w) = Some w"
  by (simp add: read_one_row_def readable_def new_row_def set_back_def)

lemma readable_row: "1 \<le> i \<Longrightarrow> i \<le> 10000 \<Longrightarrow> fits_int4 n \<Longrightarrow> readable ntohl_int int4_bytes (new_row2 i n)"
  by (rule readable_int4) (simp_all add: new_row2_def fits_int4_def)

lemma query_table:
  assumes "table_conn ops table"
  shows "query_into_row lib ops (random_id r) s = Some (new_row2 (random_id r) (table (conn s) (random_id r)), s)"
  using assms read_one_row_result [OF readable_row [of "random_id r"]] random_id_bounds [of r]
  by (simp add: query_into_row_def table_conn_def)

lemma queries_loop_table:
  assumes "table_conn ops table"
  shows "\<exists>ids. t3_queries_loop lib ops c wlst s =
      Some (wlst @ map (\<lambda>i. new_row2 i (table (conn s) i)) ids, s\<lparr>draws := draws s + c\<rparr>) \<and> length ids = c \<and> set ids \<subseteq> {1..10000}"
proof (induction c arbitrary: wlst s)
  case (Suc c)
  define i where "i = random_id (fastrand lib (draws s))"
  have i: "1 \<le> i" "i \<le> 10000" using random_id_bounds by (simp_all add: i_def)
  from Suc.IH [of "wlst @ [new_row2 i (table (conn s) i)]" "s\<lparr>draws := draws s + 1\<rparr>"] obtain ids where
    ids: "t3_queries_loop lib ops c (wlst @ [new_row2 i (table (conn s) i)]) (s\<lparr>draws := draws s + 1\<rparr>) =
      Some (wlst @ map (\<lambda>i. new_row2 i (table (conn s) i)) (i # ids), s\<lparr>draws := draws s + Suc c\<rparr>)" "length ids = c" "set ids \<subseteq> {1..10000}"
    by auto
  have "ntohl_int (int4_bytes i) = Some i" "ntohl_int (int4_bytes (table (conn s) i)) = Some (table (conn s) i)"
    using ntohl_int4_bytes assms i by (simp_all add: table_conn_def fits_int4_def)
  then have "t3_queries_loop lib ops (Suc c) wlst s =
      Some (wlst @ map (\<lambda>i. new_row2 i (table (conn s) i)) (i # ids), s\<lparr>draws := draws s + Suc c\<rparr>)"
    using assms ids(1) by (simp add: draw_def table_conn_def new_row2_def new_row_def flip: i_def)
  then show ?case using ids(2,3) i by (intro exI [of _ "i # ids"]) simp
qed auto

text \<open>Rows that were drawn from a table and got new numbers.\<close>

definition updated_from :: "(int \<Rightarrow> int) \<Rightarrow> world_row list \<Rightarrow> bool" where
  "updated_from t ws \<longleftrightarrow> (\<forall>w \<in> set ws. 1 \<le> row_id w \<and> row_id w \<le> 10000 \<and> 1 \<le> row_number w \<and> row_number w \<le> 10000 \<and> row_number w \<noteq> t (row_id w))"

lemma updates_loop_table:
  assumes "table_conn ops table"
  shows "\<exists>ws. t3_updates_loop lib ops c wlst s = Some (wlst @ ws, s\<lparr>draws := draws s + 2 * c\<rparr>) \<and> length ws = c \<and> updated_from (table (conn s)) ws"
proof (induction c arbitrary: wlst s)
  case (Suc c)
  define i where "i = random_id (fastrand lib (draws s))"
  define n where "n = new_number (table (conn s) i) (fastrand lib (draws s + 1))"
  have w: "1 \<le> i \<and> i \<le> 10000 \<and> 1 \<le> n \<and> n \<le> 10000 \<and> n \<noteq> table (conn s) i"
    using random_id_bounds new_number_bounds by (simp add: i_def n_def)
  from Suc.IH [of "wlst @ [new_row2 i n]" "s\<lparr>draws := draws s + 2\<rparr>"] obtain ws where
    ws: "t3_updates_loop lib ops c (wlst @ [new_row2 i n]) (s\<lparr>draws := draws s + 2\<rparr>) = Some (wlst @ new_row2 i n # ws, s\<lparr>draws := draws s + 2 * Suc c\<rparr>)"
      "length ws = c" "updated_from (table (conn s)) ws"
    by auto
  have "t3_updates_loop lib ops (Suc c) wlst s = t3_updates_loop lib ops c (wlst @ [new_row2 i n]) (s\<lparr>draws := draws s + 2\<rparr>)"
    using query_table [OF assms, of lib _ "s\<lparr>draws := draws s + 1\<rparr>"]
    by (simp add: draw_def new_row2_def n_def flip: i_def) (simp add: i_def)
  then show ?case using ws w by (intro exI [of _ "new_row2 i n # ws"]) (simp add: updated_from_def new_row2_def)
qed (auto simp: updated_from_def)

lemma first_value_params: "first_value (concat (map (\<lambda>w. [row_id w, row_number w]) ws)) i = map_option row_number (find (\<lambda>w. row_id w = i) ws)"
  by (induction ws) auto

lemma case_update_rows:
  "case_update (length ws) (update_params ws ws) t i = (case find (\<lambda>w. row_id w = i) ws of Some w \<Rightarrow> row_number w | None \<Rightarrow> t i)"
proof -
  define l where "l = concat (map (\<lambda>w. [row_id w, row_number w]) ws)"
  have "length l = 2 * length ws" unfolding l_def by (induction ws) auto
  then have "take (2 * length ws) (update_params ws ws) = l" "drop (2 * length ws) (update_params ws ws) = map row_id ws"
    by (simp_all add: update_params_def l_def [symmetric])
  moreover have "first_value l i = map_option row_number (find (\<lambda>w. row_id w = i) ws)" by (simp add: l_def first_value_params)
  moreover have "i \<notin> row_id ` set ws \<Longrightarrow> find (\<lambda>w. row_id w = i) ws = None" by (auto simp: find_None_iff)
  ultimately show ?thesis by (auto simp: case_update_def split: option.splits)
qed

section \<open>Properties\<close>

text \<open>C13. A request for updates changes the table to what it answers: as many rows as the clamped parameter says come back in
  the order of their ids, each with a new number from 1 to 10000 that is not the old one; every row of the table
  whose id was drawn then holds the number of the first answered row with that id, and all others are as before.\<close>

theorem t3_updates_stored:
  assumes "table_conn ops table" "sorts_rows (std_sort lib)" "texts_ok (upd_texts s)"
  shows "\<exists>wlst s'. t3_updates lib ops q s = Some (wlst, s') \<and> length wlst = t3_count lib q \<and> sorted (map row_id wlst) \<and>
    updated_from (table (conn s)) wlst \<and> texts_ok (upd_texts s') \<and>
    (\<forall>i. table (conn s') i = (case find (\<lambda>w. row_id w = i) wlst of Some w \<Rightarrow> row_number w | None \<Rightarrow> table (conn s) i))"
proof -
  let ?n = "t3_count lib q"
  obtain texts where g: "getUpdQuery ?n (upd_texts s) = (upd_query_text ?n, texts)" "texts_ok texts"
    using getUpdQuery_ok [OF assms(3), of ?n] by (metis prod.collapse)
  from updates_loop_table [OF assms(1), of lib ?n "[]" "s\<lparr>upd_texts := texts\<rparr>"] obtain ws where
    ws: "t3_updates_loop lib ops ?n [] (s\<lparr>upd_texts := texts\<rparr>) = Some (ws, s\<lparr>upd_texts := texts, draws := draws s + 2 * ?n\<rparr>)"
      "length ws = ?n" "updated_from (table (conn s)) ws"
    by auto
  define wlst where "wlst = std_sort lib ws"
  have srt: "mset wlst = mset ws" "sorted (map row_id wlst)" using assms(2) by (simp_all add: sorts_rows_def wlst_def)
  have len: "length wlst = ?n" using mset_eq_length [OF srt(1)] ws(2) by simp
  have upd: "updated_from (table (conn s)) wlst" using ws(3) mset_eq_setD [OF srt(1)] by (simp add: updated_from_def)
  define d where "d = executeUpdateQuery ops (upd_query_text ?n) (update_params wlst wlst) (begin_transaction ops (conn s))"
  have "length (update_params wlst wlst) = 3 * ?n" using len by (simp add: update_params_length)
  moreover have "\<forall>p \<in> set (update_params wlst wlst). fits_int4 p"
    using upd by (auto simp: update_params_def updated_from_def fits_int4_def)
  ultimately have "table (commit_transaction ops d) = case_update (length wlst) (update_params wlst wlst) (table (conn s))"
    using assms(1) len by (simp add: table_conn_def d_def)
  moreover have "t3_updates lib ops q s =
      Some (wlst, s\<lparr>upd_texts := texts, draws := draws s + 2 * ?n, conn := commit_transaction ops d\<rparr>)"
    by (simp add: t3_updates_def g(1) ws(1) Let_def wlst_def d_def)
  ultimately show ?thesis using len srt(2) upd g(2) case_update_rows [of wlst] by simp
qed

text \<open>An example: a table in memory.\<close>

definition sample_conn :: "(int \<Rightarrow> int) pg_conn" where
  "sample_conn = \<lparr>executeQuery = (\<lambda>text ps d. case ps of [i] \<Rightarrow> (Some (row_result int4_bytes (new_row2 i (to_int32 (d i)))), d) | _ \<Rightarrow> (None, d)),
     executeMultiQuery = (\<lambda>text d. ([], Some True, d)),
     executeUpdateQuery = (\<lambda>text ps d. case_update (length ps div 3) ps (\<lambda>i. to_int32 (d i))), executeUpdateMultiQuery = (\<lambda>text d. d),
     begin_transaction = (\<lambda>d. d), commit_transaction = (\<lambda>d. d)\<rparr>"

definition sample_t3 :: t3_lib where
  "sample_t3 = \<lparr>fastrand = (\<lambda>k. 5 * k), fastStrToNum = (\<lambda>s n. int (digits_value (take (nat n) s))), write_json = (\<lambda>_. ''json''),
     sanitizeHtmlFast = (\<lambda>s. s), tmplFunc = (\<lambda>_. ''page''), parse_query = (\<lambda>s. Some (drop 2 s)), cached = (\<lambda>_. []),
     serializeMessage = (\<lambda>_. ''m''), serializeWorld = (\<lambda>_. ''w''), serializeWorlds = (\<lambda>_. ''ws''), std_sort = sort_key row_id\<rparr>"

definition sample_state :: "(int \<Rightarrow> int) t3_state" where
  "sample_state = \<lparr>conn = (\<lambda>i. 7), draws = 0, upd_texts = (\<lambda>_. None)\<rparr>"

lemma first_value_in: "first_value ps i = Some v \<Longrightarrow> v \<in> set ps"
  by (induction ps i rule: first_value.induct) (auto split: if_splits)

lemma sample_table: "table_conn sample_conn (\<lambda>d i. to_int32 (d i))"
proof -
  have "fits_int4 (case_update n ps t i)" if "\<forall>p \<in> set ps. fits_int4 p" "\<And>i. fits_int4 (t i)" for n ps t i
    using that first_value_in [of "take (2 * n) ps" i] by (auto simp: case_update_def dest: in_set_takeD split: option.splits)
  moreover have fits: "fits_int4 (to_int32 v)" for v using to_int32_range [of v] by (simp add: fits_int4_def)
  ultimately have "to_int32 (case_update n ps (\<lambda>i. to_int32 (d i)) i) = case_update n ps (\<lambda>i. to_int32 (d i)) i"
    if "\<forall>p \<in> set ps. fits_int4 p" for n ps d i
    using that unfolding fits_int4_def by (intro to_int32_id) simp_all
  with fits show ?thesis by (auto simp: table_conn_def sample_conn_def)
qed

theorem t3_updates_stored_witness:
  "\<exists>wlst s'. t3_updates sample_t3 sample_conn ''2'' sample_state = Some (wlst, s') \<and> length wlst = t3_count sample_t3 ''2'' \<and>
    sorted (map row_id wlst) \<and> updated_from (\<lambda>i. to_int32 (conn sample_state i)) wlst \<and> texts_ok (upd_texts s') \<and>
    (\<forall>i. to_int32 (conn s' i) = (case find (\<lambda>w. row_id w = i) wlst of Some w \<Rightarrow> row_number w | None \<Rightarrow> to_int32 (conn sample_state i)))"
proof (rule t3_updates_stored [OF sample_table])
  show "sorts_rows (std_sort sample_t3)" by (simp add: sorts_rows_def sample_t3_def)
  show "texts_ok (upd_texts sample_state)" by (simp add: texts_ok_def sample_state_def)
qed

text \<open>
  An id that was drawn twice is answered twice, and only the first of the two numbers is stored; the text of the
  update that \<^verbatim>\<open>updatesMulti\<close> sends has no space behind a number.
\<close>

lemma drawn_twice:
  "map_option fst (t3_updates_loop (sample_t3\<lparr>fastrand := (\<lambda>k. [0, 4, 0, 8] ! k)\<rparr>) sample_conn 2 [] sample_state) =
     Some [new_row2 1 5, new_row2 1 9]"
  "case_update 2 (update_params [new_row2 1 5, new_row2 1 9] [new_row2 1 5, new_row2 1 9]) t 1 = 5"
proof -
  show "map_option fst (t3_updates_loop (sample_t3\<lparr>fastrand := (\<lambda>k. [0, 4, 0, 8] ! k)\<rparr>) sample_conn 2 [] sample_state) =
     Some [new_row2 1 5, new_row2 1 9]"
    by (simp add: numeral_2_eq_2 draw_def query_table [OF sample_table] sample_state_def)
      (simp add: random_id_def new_number_def new_row2_def to_int32_def Let_def)
qed (simp add: case_update_def update_params_def new_row2_def)

lemma multi_text:
  "multi_updates sample_t3 [(0, ''1''), (1, ''7''), (0, ''2''), (1, ''8'')] [] ''case id '' 1 =
     Some ([new_row2 1 6, new_row2 2 11], ''case id when 1 then 6when 2 then 11'', 3)"
  by code_simp

end
