(* ===== verification/Ffead_T4.thy ===== *)
theory Ffead_T4
  imports Ffead_Posts
begin

text \<open>
  The asynchronous application \<^verbatim>\<open>t4\<close> of ffead-cpp (\<^verbatim>\<open>TeBkUmLpqAsync.cpp\<close>):
  its handlers, its callbacks, its routes, and the connections of its pooled variant.
\<close>

section \<open>The handlers of t4\<close>

definition dbAsync :: "ffead_lib \<Rightarrow> nat \<Rightarrow> callback_ctx ff_app \<Rightarrow> callback_ctx ff_app" where
  "dbAsync lib sock = post_one_query lib (Cb_db sock)"

definition queriesAsync :: "ffead_lib \<Rightarrow> string \<Rightarrow> nat \<Rightarrow> callback_ctx ff_app \<Rightarrow> callback_ctx ff_app" where
  "queriesAsync lib q sock = post_queries lib q (Cb_queries sock)"

definition queriesMultiAsync :: "ffead_lib \<Rightarrow> string \<Rightarrow> nat \<Rightarrow> callback_ctx ff_app \<Rightarrow> callback_ctx ff_app" where
  "queriesMultiAsync lib q sock = post_multi lib q (Cb_queries_multi sock)"

definition updatesMulti :: "ffead_lib \<Rightarrow> string \<Rightarrow> areq \<Rightarrow> callback_ctx ff_app \<Rightarrow> callback_ctx ff_app" where
  "updatesMulti lib q req = post_multi lib q (Cb_updates_multi req)"

definition updatesAsyncb :: "ffead_lib \<Rightarrow> string \<Rightarrow> areq \<Rightarrow> callback_ctx ff_app \<Rightarrow> callback_ctx ff_app" where
  "updatesAsyncb lib q req = post_queries lib q (Cb_updates_bulk req)"

definition updatesAsync :: "ffead_lib \<Rightarrow> string \<Rightarrow> areq \<Rightarrow> callback_ctx ff_app \<Rightarrow> callback_ctx ff_app" where
  "updatesAsync lib q req = post_queries lib q (Cb_updates req)"

definition ffead_fortunes :: "nat \<Rightarrow> callback_ctx ff_app \<Rightarrow> callback_ctx ff_app" where
  "ffead_fortunes sock = post_fortunes (Cb_fortunes sock)"

text \<open>
  The callbacks: with the status of the request and its results.  The callbacks for one result get a
  list of one; \<^verbatim>\<open>None\<close> is a null pointer that is read.
\<close>

definition db_cb :: "ffead_lib \<Rightarrow> nat \<Rightarrow> pgresult \<Rightarrow> callback_ctx ff_app \<Rightarrow> callback_ctx ff_app option" where
  "db_cb lib sock res s = map_option (\<lambda>w. finish sock (json_answer lib (row_json w)) s) (read_one_row res)"

definition queries_cb :: "ffead_lib \<Rightarrow> nat \<Rightarrow> pgresult list \<Rightarrow> callback_ctx ff_app \<Rightarrow> callback_ctx ff_app option" where
  "queries_cb lib sock results s =
     map_option (\<lambda>ws. finish sock (json_answer lib (rows_json ws)) s) (read_results ntohl_int results [])"

definition queries_multi_cb :: "ffead_lib \<Rightarrow> nat \<Rightarrow> pgresult list \<Rightarrow> callback_ctx ff_app \<Rightarrow> callback_ctx ff_app option" where
  "queries_multi_cb lib sock results s =
     map_option (\<lambda>ws. finish sock (json_answer lib (rows_json ws)) s) (read_results (text_number lib) results [])"

definition fortunes_cb :: "ffead_lib \<Rightarrow> nat \<Rightarrow> pgresult \<Rightarrow> callback_ctx ff_app \<Rightarrow> callback_ctx ff_app option" where
  "fortunes_cb lib sock res s = map_option (\<lambda>flst. finish sock (fortunes_answer lib flst) s) (read_fortune_list lib res)"

definition updates_multi_cb :: "ffead_lib \<Rightarrow> areq \<Rightarrow> bool \<Rightarrow> pgresult list \<Rightarrow> callback_ctx ff_app \<Rightarrow> callback_ctx ff_app option" where
  "updates_multi_cb lib req status results s = (if status then post_multi_update lib req Cb_updated results s else Some s)"

definition updates_bulk_cb :: "ffead_lib \<Rightarrow> areq \<Rightarrow> pgresult list \<Rightarrow> callback_ctx ff_app \<Rightarrow> callback_ctx ff_app option" where
  "updates_bulk_cb lib req results s = post_bulk_update lib req Cb_updated results s"

definition updates_cb :: "ffead_lib \<Rightarrow> areq \<Rightarrow> pgresult list \<Rightarrow> callback_ctx ff_app \<Rightarrow> callback_ctx ff_app option" where
  "updates_cb lib req results s = post_single_updates lib req Cb_updated results s"

text \<open>The last callback of the three kinds of updates, which deletes the request.\<close>

definition updated_cb :: "ffead_lib \<Rightarrow> areq \<Rightarrow> bool \<Rightarrow> callback_ctx ff_app \<Rightarrow> callback_ctx ff_app" where
  "updated_cb lib req status s =
     (finish (sif req) (if status then json_answer lib (rows_json (req_rows req)) else failure_answer req) s)\<lparr>live_reqs := live_reqs s - 1\<rparr>"

definition called_back :: "ffead_lib \<Rightarrow> callback_ctx \<Rightarrow> bool \<Rightarrow> pgresult list \<Rightarrow> callback_ctx ff_app \<Rightarrow> callback_ctx ff_app option" where
  "called_back lib ctx status results s =
     (case ctx of
        Cb_db sock \<Rightarrow> db_cb lib sock (hd results) s
      | Cb_queries sock \<Rightarrow> queries_cb lib sock results s
      | Cb_queries_multi sock \<Rightarrow> queries_multi_cb lib sock results s
      | Cb_fortunes sock \<Rightarrow> fortunes_cb lib sock (hd results) s
      | Cb_updates_multi req \<Rightarrow> updates_multi_cb lib req status results s
      | Cb_updates_bulk req \<Rightarrow> updates_bulk_cb lib req results s
      | Cb_updates req \<Rightarrow> updates_cb lib req results s
      | Cb_updated req \<Rightarrow> Some (updated_cb lib req status s))"

lemmas cb_defs = called_back_def db_cb_def queries_cb_def queries_multi_cb_def fortunes_cb_def updates_multi_cb_def updates_bulk_cb_def
  updates_cb_def updated_cb_def

section \<open>Routing\<close>

text \<open>
  A query string without a parameter leaves \<^verbatim>\<open>params[0]\<close> as it was, that is undefined, which is
  \<^verbatim>\<open>None\<close>.  \<^verbatim>\<open>cachedWorlds\<close> has no value when it raises an exception.
\<close>

definition route :: "ffead_lib \<Rightarrow> string \<Rightarrow> string \<Rightarrow> string \<Rightarrow> bool \<Rightarrow> nat \<Rightarrow> callback_ctx ff_app \<Rightarrow> callback_ctx ff_app option" where
  "route lib req_path queryStr vers clos sock s =
     (let s = use sock s;
          param = parse_query lib queryStr
      in if endsWith req_path ''/plaint''
         then Some (finish sock \<lparr>answer_code = Code_ok, answer_head = Head_sized Text_plain (length HELLO_WORLD), answer_body = HELLO_WORLD\<rparr> s)
         else if endsWith req_path ''/j'' then Some (finish sock (json_answer lib (message_json HELLO_WORLD)) s)
         else if endsWith req_path ''/d'' then Some (dbAsync lib sock s)
         else if endsWith req_path ''/quer'' then map_option (\<lambda>q. queriesAsync lib q sock s) param
         else if endsWith req_path ''/quem'' then map_option (\<lambda>q. queriesMultiAsync lib q sock s) param
         else if endsWith req_path ''/updm'' then map_option (\<lambda>q. with_new_req (updatesMulti lib q) vers clos sock s) param
         else if endsWith req_path ''/fortu'' then Some (ffead_fortunes sock s)
         else if endsWith req_path ''/bupdt'' \<or> endsWith req_path ''/updt''
         then map_option (\<lambda>q. with_new_req (updatesAsyncb lib q) vers clos sock s) param
         else if endsWith req_path ''/upd_'' then map_option (\<lambda>q. with_new_req (updatesAsync lib q) vers clos sock s) param
         else if endsWith req_path ''/cached-wld''
         then Option.bind param (\<lambda>q.
             let n = number_of_queries lib q
             in map_option (\<lambda>ws. finish sock (json_answer lib (rows_json ws)) (s\<lparr>drawn := drawn s + n\<rparr>))
                  (cachedWorlds (fastStrToNum lib) (cached lib) (fastStrToNum lib q (int (length q))) (\<lambda>c. fastrand lib (drawn s + c))))
         else Some (finish sock \<lparr>answer_code = Code_not_found, answer_head = Head_bare vers True, answer_body = []\<rparr> s))"

section \<open>Filling the cache\<close>

text \<open>
  The callback with the cells of the table, the last of which is marked; then the rows are put into the cache and
  the request is deleted.  Before the last cell the cache is unchanged.
\<close>

definition updateCache :: "(nat \<times> string) list \<Rightarrow> bool \<Rightarrow> (int \<Rightarrow> string option) \<Rightarrow> (int \<Rightarrow> string option) option" where
  "updateCache cells endofdata cchi =
     Option.bind (cell_rows ntohl_int cells []) (\<lambda>vec. if endofdata then set_raws vec cchi else Some cchi)"

section \<open>The connections of the pooled variant\<close>

record conn_pool =
  opt :: int
  inited :: bool
  maxconns :: int
  pooled :: nat

text \<open>The constructor; \<^verbatim>\<open>dbpoolsize\<close> is the value of that property, if it has one that is a number.\<close>

definition TeBkUmLpqAsyncRouterPooled :: "int option \<Rightarrow> conn_pool" where
  "TeBkUmLpqAsyncRouterPooled dbpoolsize =
     \<lparr>opt = 0, inited = False, maxconns = (case dbpoolsize of Some n \<Rightarrow> n | None \<Rightarrow> 7), pooled = 0\<rparr>"

text \<open>
  The index of the connection, with the pool afterwards.  There is no index when the remainder by zero is
  undefined or when \<^verbatim>\<open>at\<close> raises an exception.
\<close>

definition getDb :: "int \<Rightarrow> conn_pool \<Rightarrow> nat option \<times> conn_pool" where
  "getDb mx p =
     (let mx = (if mx = 0 then maxconns p else min mx (maxconns p));
          (pc, p) = (if inited p then (opt p + 1, p\<lparr>opt := if INT_MAX - 1 \<le> opt p + 1 then 0 else opt p + 1\<rparr>)
                     else (0, p\<lparr>pooled := pooled p + nat (maxconns p), inited := True\<rparr>))
      in (if mx = 0 then None
          else if pc mod \<bar>mx\<bar> < int (pooled p) then Some (nat (pc mod \<bar>mx\<bar>)) else None, p))"

definition pool_ok :: "int \<Rightarrow> conn_pool \<Rightarrow> bool" where
  "pool_ok n p \<longleftrightarrow> maxconns p = n \<and> 0 \<le> opt p \<and> opt p < INT_MAX - 1 \<and> (if inited p then pooled p = nat n else pooled p = 0 \<and> opt p = 0)"

text \<open>Whatever the calls ask for, the index is in the pool, the counter does not overflow, and the connections are opened once.\<close>

lemma getDb_in_bounds:
  assumes "pool_ok n p" "1 \<le> n" "0 \<le> mx"
  shows "(\<exists>i. fst (getDb mx p) = Some i \<and> int i < n \<and> (0 < mx \<longrightarrow> int i < mx)) \<and> pool_ok n (snd (getDb mx p)) \<and> inited (snd (getDb mx p))"
proof -
  define m where "m = (if mx = 0 then n else min mx n)"
  have m: "1 \<le> m" "m \<le> n" "0 < mx \<longrightarrow> m \<le> mx" using assms(2,3) by (auto simp: m_def)
  have in_pool: "0 \<le> k mod m \<and> k mod m < n \<and> (0 < mx \<longrightarrow> k mod m < mx)" for k
    using m pos_mod_bound [of m k] pos_mod_sign [of m k] by linarith
  have p: "maxconns p = n" "0 \<le> opt p" "opt p < INT_MAX - 1" using assms(1) by (simp_all add: pool_ok_def)
  then have e: "(if mx = 0 then maxconns p else min mx (maxconns p)) = m" by (simp add: m_def)
  show ?thesis
  proof (cases "inited p")
    case True
    then have "getDb mx p = (Some (nat ((opt p + 1) mod m)), p\<lparr>opt := if INT_MAX - 1 \<le> opt p + 1 then 0 else opt p + 1\<rparr>)"
      using assms(1) m in_pool [of "opt p + 1"] unfolding getDb_def e by (simp add: pool_ok_def)
    then show ?thesis using assms(1) True in_pool [of "opt p + 1"] p by (auto simp: pool_ok_def INT_MAX_def)
  next
    case False
    then have "getDb mx p = (Some 0, p\<lparr>pooled := nat n, inited := True\<rparr>)"
      using assms(1,2) m p unfolding getDb_def e by (simp add: pool_ok_def)
    then show ?thesis using assms False p by (auto simp: pool_ok_def)
  qed
qed

lemma pool_ok_start: "1 \<le> n \<Longrightarrow> pool_ok n (TeBkUmLpqAsyncRouterPooled (Some n))"
  by (simp add: pool_ok_def TeBkUmLpqAsyncRouterPooled_def INT_MAX_def)

text \<open>A pool of size zero divides by zero.\<close>

lemma empty_pool: "fst (getDb mx (TeBkUmLpqAsyncRouterPooled (Some 0))) = None"
  by (simp add: getDb_def TeBkUmLpqAsyncRouterPooled_def Let_def)

section \<open>Requests are answered once\<close>

definition waiting4 :: "callback_ctx ff_app \<Rightarrow> nat multiset" where
  "waiting4 s = mset (map (\<lambda>p. ctx_sock (fst p)) (pending s))"

definition answered4 :: "('c, 'z) ff_app_scheme \<Rightarrow> nat multiset" where
  "answered4 s = mset (map fst (written s))"

definition reqs4 :: "callback_ctx ff_app \<Rightarrow> int" where
  "reqs4 s = int (length (filter (\<lambda>p. has_req (fst p)) (pending s)))"

text \<open>A callback that does nothing although the request has not been answered.\<close>

definition drops :: "callback_ctx \<Rightarrow> bool \<Rightarrow> bool" where
  "drops ctx status \<longleftrightarrow> (\<exists>req. ctx = Cb_updates_multi req) \<and> \<not> status"

definition accepts4 :: "ffead_lib \<Rightarrow> callback_ctx ff_app \<Rightarrow> nat \<Rightarrow> callback_ctx ff_app \<Rightarrow> bool" where
  "accepts4 lib s sock s' \<longleftrightarrow> (\<exists>req_path queryStr vers clos. route lib req_path queryStr vers clos sock s = Some s')"

definition progresses4 :: "ffead_lib \<Rightarrow> callback_ctx ff_app \<Rightarrow> nat multiset \<Rightarrow> callback_ctx ff_app \<Rightarrow> bool" where
  "progresses4 lib s lost s' \<longleftrightarrow> (\<exists>before ctx qs n after status results.
     pending s = before @ (ctx, qs, n) # after \<and> called_back lib ctx status results (s\<lparr>pending := before @ after\<rparr>) = Some s' \<and>
     lost = (if drops ctx status then {#ctx_sock ctx#} else {#}))"

lemmas app_defs = postAsync_def use_def unUse_def writeDirect_def finish_def waiting4_def answered4_def reqs4_def

lemmas post_defs = post_one_query_def post_queries_def post_multi_def post_fortunes_def dbAsync_def queriesAsync_def
  queriesMultiAsync_def updatesMulti_def updatesAsyncb_def updatesAsync_def ffead_fortunes_def with_new_req_def Let_def

lemma route_effect:
  assumes "route lib req_path queryStr vers clos sock s = Some s'"
  shows "waiting4 s' + answered4 s' = add_mset sock (waiting4 s + answered4 s) \<and>
    (\<forall>k. in_use s' k - int (count (waiting4 s') k) = in_use s k - int (count (waiting4 s) k)) \<and>
    live_reqs s' - reqs4 s' = live_reqs s - reqs4 s"
  using assms unfolding route_def Let_def
  by (auto simp: app_defs post_defs bind_eq_Some_conv split: if_splits)

lemma called_back_effect:
  assumes "called_back lib ctx status results s = Some s'"
  shows "waiting4 s' + answered4 s' + (if drops ctx status then {#ctx_sock ctx#} else {#}) = add_mset (ctx_sock ctx) (waiting4 s + answered4 s) \<and>
    (\<forall>k. in_use s' k - int (count (waiting4 s') k) - int (count (if drops ctx status then {#ctx_sock ctx#} else {#}) k) =
      in_use s k - int (count (waiting4 s) k) - (if k = ctx_sock ctx then 1 else 0)) \<and>
    live_reqs s' - reqs4 s' = live_reqs s - reqs4 s - (if has_req ctx \<and> \<not> drops ctx status then 1 else 0)"
  using assms unfolding cb_defs
  by (cases ctx) (auto simp: app_defs drops_def post_multi_update_def post_bulk_update_def post_single_updates_def
      split: if_splits prod.splits)

interpretation t4: async_server "accepts4 lib" "progresses4 lib" initial_app waiting4 answered4 in_use for lib
proof
  fix s s' :: "callback_ctx ff_app" and sock l k
  show "accepts4 lib s sock s' \<Longrightarrow> waiting4 s' + answered4 s' = add_mset sock (waiting4 s + answered4 s)"
    "accepts4 lib s sock s' \<Longrightarrow> in_use s' k - int (count (waiting4 s') k) = in_use s k - int (count (waiting4 s) k)"
    using route_effect by (auto simp: accepts4_def)
  assume "progresses4 lib s l s'"
  then obtain before ctx qs n after status results where
    p: "pending s = before @ (ctx, qs, n) # after" "called_back lib ctx status results (s\<lparr>pending := before @ after\<rparr>) = Some s'"
      "l = (if drops ctx status then {#ctx_sock ctx#} else {#})"
    by (auto simp: progresses4_def)
  have w: "waiting4 s = add_mset (ctx_sock ctx) (waiting4 (s\<lparr>pending := before @ after\<rparr>))"
    using p(1) by (simp add: waiting4_def)
  from called_back_effect [OF p(2)] p(3) show "waiting4 s' + answered4 s' + l = waiting4 s + answered4 s"
    "in_use s' k - int (count (waiting4 s') k) - int (count l k) = in_use s k - int (count (waiting4 s) k)"
    by (simp_all add: w answered4_def)
qed (simp_all add: waiting4_def answered4_def initial_app_def)

lemma progress_live:
  assumes "progresses4 lib s l s'"
  shows "live_reqs s' - reqs4 s' - int (size l) = live_reqs s - reqs4 s"
proof -
  from assms obtain before ctx qs n after status results where
    p: "pending s = before @ (ctx, qs, n) # after" "called_back lib ctx status results (s\<lparr>pending := before @ after\<rparr>) = Some s'"
      "l = (if drops ctx status then {#ctx_sock ctx#} else {#})"
    by (auto simp: progresses4_def)
  have "drops ctx status \<Longrightarrow> has_req ctx" by (auto simp: drops_def)
  with called_back_effect [OF p(2)] p(1,3) show ?thesis by (auto simp: reqs4_def split: if_splits)
qed

lemma live_requests:
  "serving (accepts4 lib) (progresses4 lib) initial_app reqs lost s \<Longrightarrow> live_reqs s = reqs4 s + int (size lost)"
proof (induction rule: serving.induct)
  case (accept reqs lost s sock s')
  then show ?case using route_effect by (fastforce simp: accepts4_def)
next
  case (progress reqs lost s l s')
  then show ?case using progress_live [OF progress(2)] by simp
qed (simp add: reqs4_def initial_app_def)

section \<open>Which handler a path is routed to\<close>

lemma route_quer:
  assumes "endsWith path ''/quer''" "parse_query lib queryStr = Some q"
  shows "route lib path queryStr vers clos sock s = Some (queriesAsync lib q sock (use sock s))"
proof -
  have "\<not> endsWith path ''/plaint''" "\<not> endsWith path ''/j''" "\<not> endsWith path ''/d''"
    by (rule other_ending [OF assms(1)]; simp add: endsWith_def)+
  with assms show ?thesis unfolding route_def Let_def by (simp only: if_True if_False option.map)
qed

lemma route_updm:
  assumes "endsWith path ''/updm''" "parse_query lib queryStr = Some q"
  shows "route lib path queryStr vers clos sock s = Some (with_new_req (updatesMulti lib q) vers clos sock (use sock s))"
proof -
  have "\<not> endsWith path ''/plaint''" "\<not> endsWith path ''/j''" "\<not> endsWith path ''/d''" "\<not> endsWith path ''/quer''"
    "\<not> endsWith path ''/quem''"
    by (rule other_ending [OF assms(1)]; simp add: endsWith_def)+
  with assms show ?thesis unfolding route_def Let_def by (simp only: if_True if_False option.map)
qed

lemma route_updt:
  assumes "endsWith path ''/updt''" "parse_query lib queryStr = Some q"
  shows "route lib path queryStr vers clos sock s = Some (with_new_req (updatesAsyncb lib q) vers clos sock (use sock s))"
proof -
  have "\<not> endsWith path ''/plaint''" "\<not> endsWith path ''/j''" "\<not> endsWith path ''/d''" "\<not> endsWith path ''/quer''"
    "\<not> endsWith path ''/quem''" "\<not> endsWith path ''/updm''" "\<not> endsWith path ''/fortu''"
    by (rule other_ending [OF assms(1)]; simp add: endsWith_def)+
  with assms show ?thesis unfolding route_def Let_def by (simp only: if_True if_False option.map simp_thms)
qed

section \<open>Properties\<close>

text \<open>A library for examples.\<close>

definition sample_ffead :: ffead_lib where
  "sample_ffead = \<lparr>fastrand = (\<lambda>k. 41 + k), fastStrToNum = (\<lambda>s n. int (digits_value (take (nat n) s))), write_json = (\<lambda>_. ''json''),
     sanitizeHtmlFast = (\<lambda>s. s), tmplFunc = (\<lambda>_. ''page''), parse_query = (\<lambda>s. Some (drop 2 s)), cached = (\<lambda>_. [])\<rparr>"

text \<open>C4. In every run of the application each request has been answered exactly once, waits for a callback, or
  was lost; a socket is in use as often as requests of it wait or were lost, and there are as many objects for
  updates as updates wait or were lost.  A request is lost only by the callback of \<^verbatim>\<open>updatesMulti\<close> when its
  select fails.\<close>

theorem t4_requests_conserved:
  assumes "serving (accepts4 lib) (progresses4 lib) initial_app reqs lost s"
  shows "reqs = answered4 s + waiting4 s + lost \<and> (\<forall>k. in_use s k = int (count (waiting4 s + lost) k)) \<and>
    live_reqs s = reqs4 s + int (size lost)"
  using t4.requests_conserved [OF assms] live_requests [OF assms] by simp

text \<open>The request is lost when the select of an update fails.\<close>

lemma lost_update:
  defines "s1 \<equiv> with_new_req (updatesMulti sample_ffead ''2'') ''1.1'' False 7 (use 7 initial_app)"
  shows "serving (accepts4 sample_ffead) (progresses4 sample_ffead) initial_app {#7#} {#7#} (s1\<lparr>pending := []\<rparr>)"
proof -
  have "endsWith ''/updm'' ''/updm''" "parse_query sample_ffead ''q=2'' = Some ''2''" by (simp_all add: endsWith_def sample_ffead_def)
  from route_updm [OF this] have "accepts4 sample_ffead initial_app 7 s1" unfolding accepts4_def s1_def by blast
  have "\<exists>req qs n. sif req = 7 \<and> pending s1 = [(Cb_updates_multi req, qs, n)]"
    by (auto simp: s1_def with_new_req_def updatesMulti_def post_multi_def postAsync_def use_def initial_app_def Let_def)
  then obtain req qs n where p: "sif req = 7" "pending s1 = [(Cb_updates_multi req, qs, n)]" by blast
  have step: "progresses4 sample_ffead s1 {#7#} (s1\<lparr>pending := []\<rparr>)"
    unfolding progresses4_def
    by (rule exI [of _ "[]"], rule exI [of _ "Cb_updates_multi req"], rule exI [of _ qs], rule exI [of _ n], rule exI [of _ "[]"],
        rule exI [of _ False]) (simp add: p drops_def cb_defs)
  have "serving (accepts4 sample_ffead) (progresses4 sample_ffead) initial_app {#7#} {#} s1"
    by (rule serving.accept [where s = initial_app and sock = 7 and reqs = "{#}", simplified]) (rule serving.start, fact)
  from serving.progress [OF this step] show ?thesis by simp
qed

theorem t4_requests_conserved_witness:
  "\<exists>s. serving (accepts4 sample_ffead) (progresses4 sample_ffead) initial_app {#7#} {#7#} s \<and> {#7#} = answered4 s + waiting4 s + {#7#} \<and>
     (\<forall>k. in_use s k = int (count (waiting4 s + {#7#}) k)) \<and> live_reqs s = reqs4 s + int (size {#7::nat#})"
  using lost_update t4_requests_conserved [OF lost_update] by blast

lemma bulk_texts: "post_bulk_update lib req ctx results s = Some s' \<Longrightarrow> texts_ok (qC s) \<Longrightarrow> texts_ok (qC s')"
  using getUpdQuery_ok(2) [of "qC s" "length results"]
  by (auto simp: post_bulk_update_def postAsync_def split: prod.splits)

lemma called_back_texts: "called_back lib ctx status results s = Some s' \<Longrightarrow> texts_ok (qC s) \<Longrightarrow> texts_ok (qC s')"
  by (cases ctx) (auto simp: cb_defs app_defs post_multi_update_def post_single_updates_def bulk_texts split: if_splits prod.splits)

lemma route_texts: "route lib path queryStr vers clos sock s = Some s' \<Longrightarrow> qC s' = qC s"
  unfolding route_def Let_def by (auto simp: app_defs post_defs bind_eq_Some_conv split: if_splits)

lemma serving_texts: "serving (accepts4 lib) (progresses4 lib) initial_app reqs lost s \<Longrightarrow> texts_ok (qC s)"
proof (induction rule: serving.induct)
  case (accept reqs lost s sock s')
  then show ?case using route_texts by (fastforce simp: accepts4_def)
next
  case (progress reqs lost s l s')
  then show ?case using called_back_texts by (fastforce simp: progresses4_def)
qed (simp add: initial_app_def texts_ok_def)

text \<open>C17. A request for several rows posts as many queries for one row each as the clamped parameter says, for ids
  from 1 to 10000; the callback with the rows the table has at these ids answers the JSON array of these
  rows, in this order, on the socket of the request, which is then no longer in use.\<close>

theorem t4_queries_answer:
  assumes "endsWith path ''/quer''" "parse_query lib queryStr = Some q" "\<forall>i. fits_int4 (table i)"
  shows "\<exists>ids s'. route lib path queryStr vers clos sock s = Some s' \<and>
    length ids = nat (query_count (fastStrToNum lib q (int (length q)))) \<and> set ids \<subseteq> {1..10000} \<and>
    pending s' = pending s @ [(Cb_queries sock, map (\<lambda>i. Query WORLD_ONE_QUERY [i]) ids, None)] \<and>
    called_back lib (Cb_queries sock) status (map (\<lambda>i. row_result int4_bytes (new_row2 i (table i))) ids) (s'\<lparr>pending := pending s\<rparr>) =
      Some (s'\<lparr>pending := pending s, in_use := in_use s,
        written := written s @ [(sock, json_answer lib (rows_json (map (\<lambda>i. new_row2 i (table i)) ids)))]\<rparr>)"
proof -
  define ids where "ids = draw_ids lib (number_of_queries lib q) s"
  define ws where "ws = map (\<lambda>i. new_row2 i (table i)) ids"
  define s' where "s' = queriesAsync lib q sock (use sock s)"
  have ids: "set ids \<subseteq> {1..10000}" using random_id_bounds by (auto simp: ids_def draw_ids_def)
  have "\<forall>w \<in> set ws. readable ntohl_int int4_bytes w"
    using ids assms(3) by (auto simp: ws_def new_row2_def fits_int4_def intro!: readable_int4)
  from read_rows [OF this, of "[]"]
  have "called_back lib (Cb_queries sock) status (map (row_result int4_bytes) ws) t = Some (finish sock (json_answer lib (rows_json ws)) t)" for t
    by (simp add: cb_defs)
  moreover have "ids = draw_ids lib (number_of_queries lib q) (use sock s)" by (simp add: ids_def draw_ids_def use_def)
  then have "pending s' = pending s @ [(Cb_queries sock, map (\<lambda>i. Query WORLD_ONE_QUERY [i]) ids, None)]" "written s' = written s"
    "in_use s' = (in_use s)(sock := in_use s sock + 1)"
    by (simp_all add: s'_def queriesAsync_def post_queries_def postAsync_def use_def Let_def)
  moreover have "length ids = nat (query_count (fastStrToNum lib q (int (length q))))"
    by (simp add: ids_def draw_ids_def number_of_queries_def)
  moreover have "route lib path queryStr vers clos sock s = Some s'" unfolding s'_def using route_quer [OF assms(1,2)] .
  ultimately show ?thesis using ids by (auto simp: ws_def comp_def finish_def unUse_def writeDirect_def intro!: exI [of _ ids] exI [of _ s'])
qed

theorem t4_queries_answer_witness:
  "\<exists>ids s'. route sample_ffead ''/t4/quer'' ''q=3'' ''1.1'' False 7 initial_app = Some s' \<and>
    length ids = nat (query_count (fastStrToNum sample_ffead ''3'' (int (length ''3'')))) \<and> set ids \<subseteq> {1..10000} \<and>
    pending s' = pending initial_app @ [(Cb_queries 7, map (\<lambda>i. Query WORLD_ONE_QUERY [i]) ids, None)] \<and>
    called_back sample_ffead (Cb_queries 7) True (map (\<lambda>i. row_result int4_bytes (new_row2 i 5)) ids) (s'\<lparr>pending := pending initial_app\<rparr>) =
      Some (s'\<lparr>pending := pending initial_app, in_use := in_use (initial_app :: callback_ctx ff_app),
        written := written (initial_app :: callback_ctx ff_app) @ [(7, json_answer sample_ffead (rows_json (map (\<lambda>i. new_row2 i 5) ids)))]\<rparr>)"
  by (rule t4_queries_answer [where table = "\<lambda>_. 5"]) (simp_all add: endsWith_def sample_ffead_def fits_int4_def)

text \<open>C14. In every run, when the rows of a bulk update have come, the statement that is posted is well typed: it
  mentions each of its parameters exactly once, in order; the parameters of the row number c are its id
  and its new number, which is from 1 to 10000 and not the old one, and the ids are those of the condition.
  The rows kept for the answer are those the statement writes.\<close>

theorem t4_bulk_update_typed:
  assumes "serving (accepts4 lib) (progresses4 lib) initial_app reqs lost s" "req_rows req = []" "ws \<noteq> []"
    "\<forall>w \<in> set ws. fits_int4 (row_id w) \<and> fits_int4 (row_number w)"
  shows "\<exists>s' text params ws'. called_back lib (Cb_updates_bulk req) status (map (row_result int4_bytes) ws) s = Some s' \<and>
    pending s' = pending s @ [(Cb_updated (req\<lparr>req_rows := ws'\<rparr>), [Begin_query, Query text params, Commit_query], None)] \<and>
    placeholders text = [1..<length params + 1] \<and> length ws' = length ws \<and>
    (\<forall>c < length ws. params ! (2 * c) = row_id (ws' ! c) \<and> params ! (2 * c + 1) = row_number (ws' ! c) \<and>
      params ! (2 * length ws + c) = row_id (ws' ! c) \<and> row_id (ws' ! c) = row_id (ws ! c) \<and>
      1 \<le> row_number (ws' ! c) \<and> row_number (ws' ! c) \<le> 10000 \<and> row_number (ws' ! c) \<noteq> row_number (ws ! c))"
proof -
  define ws' where "ws' = renumber lib (drawn s) ws"
  have len: "length ws' = length ws" and ids: "map row_id ws' = map row_id ws" by (simp_all add: ws'_def renumber_rows)
  obtain texts where t: "getUpdQuery (length ws) (qC s) = (upd_query_text (length ws), texts)"
    using getUpdQuery_ok(1) [OF serving_texts [OF assms(1)]] by (metis prod.collapse)
  have "\<forall>w \<in> set ws. readable ntohl_int int4_bytes w" using assms(4) readable_int4 by blast
  from updated_rows [OF this, of lib "[]" "[]" "drawn s"]
  have cb: "called_back lib (Cb_updates_bulk req) status (map (row_result int4_bytes) ws) s =
    Some (postAsync (Cb_updated (req\<lparr>req_rows := ws'\<rparr>)) [Begin_query, Query (upd_query_text (length ws)) (update_params ws' ws'), Commit_query] None
      (s\<lparr>drawn := drawn s + length ws, qC := texts\<rparr>))"
    by (simp add: cb_defs post_bulk_update_def assms(2) t ws'_def)
  have "placeholders (upd_query_text (length ws)) = [1..<length (update_params ws' ws') + 1]"
    using placeholders_update [of "length ws"] assms(3) len by (simp add: update_params_length)
  moreover have "row_id (ws' ! c) = row_id (ws ! c)" if "c < length ws" for c
    using arg_cong [OF ids, of "\<lambda>xs. xs ! c"] that len by simp
  moreover have "1 \<le> row_number (ws' ! c) \<and> row_number (ws' ! c) \<le> 10000 \<and> row_number (ws' ! c) \<noteq> row_number (ws ! c)" if "c < length ws" for c
    using renumber_numbers [of ws lib "drawn s"] that by (simp add: ws'_def list_all2_conv_all_nth)
  ultimately show ?thesis
    using cb update_params_nth [of _ ws'] len by (auto simp: postAsync_def)
qed

theorem t4_bulk_update_typed_witness:
  "\<exists>s' text params ws'. called_back sample_ffead (Cb_updates_bulk \<lparr>httpVers = ''1.1'', conn_clos = False, sif = 7, req_rows = []\<rparr>) True
      (map (row_result int4_bytes) [new_row2 3 42, new_row2 9999 10000]) initial_app = Some s' \<and>
    pending s' = pending initial_app @ [(Cb_updated (\<lparr>httpVers = ''1.1'', conn_clos = False, sif = 7, req_rows = []\<rparr>\<lparr>req_rows := ws'\<rparr>),
      [Begin_query, Query text params, Commit_query], None)] \<and>
    placeholders text = [1..<length params + 1] \<and> length ws' = length [new_row2 3 42, new_row2 9999 10000] \<and>
    (\<forall>c < length [new_row2 3 42, new_row2 9999 10000]. params ! (2 * c) = row_id (ws' ! c) \<and> params ! (2 * c + 1) = row_number (ws' ! c) \<and>
      params ! (2 * length [new_row2 3 42, new_row2 9999 10000] + c) = row_id (ws' ! c) \<and>
      row_id (ws' ! c) = row_id ([new_row2 3 42, new_row2 9999 10000] ! c) \<and>
      1 \<le> row_number (ws' ! c) \<and> row_number (ws' ! c) \<le> 10000 \<and> row_number (ws' ! c) \<noteq> row_number ([new_row2 3 42, new_row2 9999 10000] ! c))"
  by (rule t4_bulk_update_typed [OF serving.start]) (simp_all add: new_row2_def fits_int4_def)

text \<open>C20. Once the cells of the whole table have been put into the cache, a request for cached rows gets as many rows as
  it may ask for, for the ids drawn, each of them a row of the table: reading an entry of the cache gives back the
  row that was written.\<close>

theorem cached_rows:
  assumes "\<forall>w \<in> set table. table_row w" "row_id ` set table = {1..10000}" "reads_numbers (fastStrToNum lib)"
  shows "\<exists>cchi. updateCache (concat (map (\<lambda>w. [(0, int4_bytes (row_id w)), (1, int4_bytes (row_number w))]) table)) True (\<lambda>_. None) = Some cchi \<and>
    (\<forall>getValues n draws. gives_values cchi getValues \<longrightarrow>
      (\<exists>ws. cachedWorlds (fastStrToNum lib) getValues n draws = Some ws \<and> length ws = nat (query_count n) \<and>
        map row_id ws = map (\<lambda>c. random_id (draws c)) [0..<nat (query_count n)] \<and> set ws \<subseteq> set table))"
proof -
  have "\<forall>w \<in> set table. readable ntohl_int int4_bytes w"
    using assms(1) by (auto simp: table_row_def fits_int4_def intro!: readable_int4)
  then have "updateCache (concat (map (\<lambda>w. [(0, int4_bytes (row_id w)), (1, int4_bytes (row_number w))]) table)) True (\<lambda>_. None) =
      set_raws table (\<lambda>_. None)"
    by (simp add: updateCache_def cell_rows_table del: One_nat_def)
  moreover obtain cchi where c: "set_raws table (\<lambda>_. None) = Some cchi" using set_raws_table [OF assms(1)] by blast
  ultimately show ?thesis using cached_rows_of_table [OF assms(1,2) c assms(3)] by (intro exI [of _ cchi] conjI allI impI) simp_all
qed

theorem cached_rows_witness:
  "\<exists>table cchi ws. updateCache (concat (map (\<lambda>w. [(0, int4_bytes (row_id w)), (1, int4_bytes (row_number w))]) table)) True (\<lambda>_. None) = Some cchi \<and>
    cachedWorlds (fastStrToNum sample_ffead) (\<lambda>ks. map (\<lambda>k. the (cchi k)) ks) 20 (\<lambda>c. 3 * c) = Some ws \<and>
    length ws = nat (query_count 20) \<and> map row_id ws = map (\<lambda>c. random_id (3 * c)) [0..<nat (query_count 20)] \<and> set ws \<subseteq> set table"
proof -
  let ?table = "map (\<lambda>i. new_row2 (int i) 7) [1..<10001]"
  have rows: "\<forall>w \<in> set ?table. table_row w" by (auto simp: table_row_def new_row2_def)
  have "row_id ` set ?table = int ` {1..<10001}" by (force simp: new_row2_def)
  also have "\<dots> = {1..10000}" by (auto intro!: image_eqI [where x = "nat _"])
  finally have ids: "row_id ` set ?table = {1..10000}" .
  have "reads_numbers (fastStrToNum sample_ffead)" by (simp add: reads_numbers_def digits_value_def digits_value_dec sample_ffead_def)
  from cached_rows [OF rows ids this] obtain cchi where
    c: "updateCache (concat (map (\<lambda>w. [(0, int4_bytes (row_id w)), (1, int4_bytes (row_number w))]) ?table)) True (\<lambda>_. None) = Some cchi"
      "\<forall>getValues n draws. gives_values cchi getValues \<longrightarrow>
      (\<exists>ws. cachedWorlds (fastStrToNum sample_ffead) getValues n draws = Some ws \<and> length ws = nat (query_count n) \<and>
        map row_id ws = map (\<lambda>c. random_id (draws c)) [0..<nat (query_count n)] \<and> set ws \<subseteq> set ?table)"
    by blast
  have "gives_values cchi (\<lambda>ks. map (\<lambda>k. the (cchi k)) ks)" by (simp add: gives_values_def)
  with c(2) obtain ws where "cachedWorlds (fastStrToNum sample_ffead) (\<lambda>ks. map (\<lambda>k. the (cchi k)) ks) 20 (\<lambda>c. 3 * c) = Some ws"
    "length ws = nat (query_count 20)" "map row_id ws = map (\<lambda>c. random_id (3 * c)) [0..<nat (query_count 20)]" "set ws \<subseteq> set ?table"
    by blast
  then show ?thesis by (intro exI [of _ ?table] exI [of _ cchi] exI [of _ ws] conjI c(1))
qed

end
