(* ===== verification/Ffead_T5.thy ===== *)
theory Ffead_T5
  imports Ffead_T4
begin

text \<open>
  The application \<^verbatim>\<open>t5\<close> of ffead-cpp (\<^verbatim>\<open>TeBkUmLpqQwAsync.cpp\<close>): like
  \<^verbatim>\<open>t4\<close>, but its callbacks only read the results and queue a write for the socket, which
  the library runs later.  The additional arguments of \<^verbatim>\<open>withSelectQuery\<close> are for the library.
\<close>

section \<open>State\<close>

datatype queued_write =
    Write_world world_row
  | Write_rows "world_row list"
  | Write_fortunes "fortune_row list"
  | Write_updated areq

record qw_app = "callback_ctx ff_app" +
  queued :: "(nat \<times> queued_write) list"

definition initial_qw_app :: qw_app where
  "initial_qw_app = ff_app.extend initial_app \<lparr>queued = []\<rparr>"

definition queueWrite :: "nat \<Rightarrow> queued_write \<Rightarrow> qw_app \<Rightarrow> qw_app" where
  "queueWrite sock w s = s\<lparr>queued := queued s @ [(sock, w)]\<rparr>"

section \<open>The handlers\<close>

definition qw_dbAsync :: "ffead_lib \<Rightarrow> nat \<Rightarrow> qw_app \<Rightarrow> qw_app" where
  "qw_dbAsync lib sock = post_one_query lib (Cb_db sock)"

definition qw_queriesAsync :: "ffead_lib \<Rightarrow> string \<Rightarrow> nat \<Rightarrow> qw_app \<Rightarrow> qw_app" where
  "qw_queriesAsync lib q sock = post_queries lib q (Cb_queries sock)"

definition qw_queriesMultiAsync :: "ffead_lib \<Rightarrow> string \<Rightarrow> nat \<Rightarrow> qw_app \<Rightarrow> qw_app" where
  "qw_queriesMultiAsync lib q sock = post_multi lib q (Cb_queries_multi sock)"

definition qw_updatesMulti :: "ffead_lib \<Rightarrow> string \<Rightarrow> areq \<Rightarrow> qw_app \<Rightarrow> qw_app" where
  "qw_updatesMulti lib q req = post_multi lib q (Cb_updates_multi req)"

definition qw_updatesAsyncb :: "ffead_lib \<Rightarrow> string \<Rightarrow> areq \<Rightarrow> qw_app \<Rightarrow> qw_app" where
  "qw_updatesAsyncb lib q req = post_queries lib q (Cb_updates_bulk req)"

definition qw_updatesAsync :: "ffead_lib \<Rightarrow> string \<Rightarrow> areq \<Rightarrow> qw_app \<Rightarrow> qw_app" where
  "qw_updatesAsync lib q req = post_queries lib q (Cb_updates req)"

definition qw_fortunes :: "nat \<Rightarrow> qw_app \<Rightarrow> qw_app" where
  "qw_fortunes sock = post_fortunes (Cb_fortunes sock)"

definition qw_db_cb :: "ffead_lib \<Rightarrow> nat \<Rightarrow> pgresult \<Rightarrow> qw_app \<Rightarrow> qw_app option" where
  "qw_db_cb lib sock res s = map_option (\<lambda>w. queueWrite sock (Write_world w) s) (read_one_row res)"

definition qw_queries_cb :: "ffead_lib \<Rightarrow> nat \<Rightarrow> pgresult list \<Rightarrow> qw_app \<Rightarrow> qw_app option" where
  "qw_queries_cb lib sock results s = map_option (\<lambda>ws. queueWrite sock (Write_rows ws) s) (read_results ntohl_int results [])"

definition qw_queries_multi_cb :: "ffead_lib \<Rightarrow> nat \<Rightarrow> pgresult list \<Rightarrow> qw_app \<Rightarrow> qw_app option" where
  "qw_queries_multi_cb lib sock results s = map_option (\<lambda>ws. queueWrite sock (Write_rows ws) s) (read_results (text_number lib) results [])"

definition qw_fortunes_cb :: "ffead_lib \<Rightarrow> nat \<Rightarrow> pgresult \<Rightarrow> qw_app \<Rightarrow> qw_app option" where
  "qw_fortunes_cb lib sock res s = map_option (\<lambda>flst. queueWrite sock (Write_fortunes flst) s) (read_fortune_list lib res)"

definition qw_updates_multi_cb :: "ffead_lib \<Rightarrow> areq \<Rightarrow> bool \<Rightarrow> pgresult list \<Rightarrow> qw_app \<Rightarrow> qw_app option" where
  "qw_updates_multi_cb lib req status results s = (if status then post_multi_update lib req Cb_updated results s else Some s)"

definition qw_updates_bulk_cb :: "ffead_lib \<Rightarrow> areq \<Rightarrow> pgresult list \<Rightarrow> qw_app \<Rightarrow> qw_app option" where
  "qw_updates_bulk_cb lib req results s = post_bulk_update lib req Cb_updated results s"

definition qw_updates_cb :: "ffead_lib \<Rightarrow> areq \<Rightarrow> pgresult list \<Rightarrow> qw_app \<Rightarrow> qw_app option" where
  "qw_updates_cb lib req results s = post_single_updates lib req Cb_updated results s"

text \<open>The last callback of an update does not look at the status.\<close>

definition qw_updated_cb :: "ffead_lib \<Rightarrow> areq \<Rightarrow> bool \<Rightarrow> qw_app \<Rightarrow> qw_app" where
  "qw_updated_cb lib req status s = queueWrite (sif req) (Write_updated req) s"

definition qw_called_back :: "ffead_lib \<Rightarrow> callback_ctx \<Rightarrow> bool \<Rightarrow> pgresult list \<Rightarrow> qw_app \<Rightarrow> qw_app option" where
  "qw_called_back lib ctx status results s =
     (case ctx of
        Cb_db sock \<Rightarrow> qw_db_cb lib sock (hd results) s
      | Cb_queries sock \<Rightarrow> qw_queries_cb lib sock results s
      | Cb_queries_multi sock \<Rightarrow> qw_queries_multi_cb lib sock results s
      | Cb_fortunes sock \<Rightarrow> qw_fortunes_cb lib sock (hd results) s
      | Cb_updates_multi req \<Rightarrow> qw_updates_multi_cb lib req status results s
      | Cb_updates_bulk req \<Rightarrow> qw_updates_bulk_cb lib req results s
      | Cb_updates req \<Rightarrow> qw_updates_cb lib req results s
      | Cb_updated req \<Rightarrow> Some (qw_updated_cb lib req status s))"

lemmas qw_cb_defs = qw_called_back_def qw_db_cb_def qw_queries_cb_def qw_queries_multi_cb_def qw_fortunes_cb_def qw_updates_multi_cb_def
  qw_updates_bulk_cb_def qw_updates_cb_def qw_updated_cb_def

text \<open>What the queued functions do.\<close>

definition write_world :: "ffead_lib \<Rightarrow> nat \<Rightarrow> world_row \<Rightarrow> qw_app \<Rightarrow> qw_app" where
  "write_world lib sock wo s = finish sock (json_answer lib (row_json wo)) s"

definition write_rows :: "ffead_lib \<Rightarrow> nat \<Rightarrow> world_row list \<Rightarrow> qw_app \<Rightarrow> qw_app" where
  "write_rows lib sock vec s = finish sock (json_answer lib (rows_json vec)) s"

definition write_fortunes :: "ffead_lib \<Rightarrow> nat \<Rightarrow> fortune_row list \<Rightarrow> qw_app \<Rightarrow> qw_app" where
  "write_fortunes lib sock flst s = finish sock (fortunes_answer lib flst) s"

definition write_updated :: "ffead_lib \<Rightarrow> areq \<Rightarrow> qw_app \<Rightarrow> qw_app" where
  "write_updated lib req s =
     (finish (sif req) (if 0 < length (req_rows req) then json_answer lib (rows_json (req_rows req)) else failure_answer req) s)
       \<lparr>live_reqs := live_reqs s - 1\<rparr>"

definition run_write :: "ffead_lib \<Rightarrow> nat \<Rightarrow> queued_write \<Rightarrow> qw_app \<Rightarrow> qw_app" where
  "run_write lib sock w s =
     (case w of
        Write_world wo \<Rightarrow> write_world lib sock wo s
      | Write_rows vec \<Rightarrow> write_rows lib sock vec s
      | Write_fortunes flst \<Rightarrow> write_fortunes lib sock flst s
      | Write_updated req \<Rightarrow> write_updated lib req s)"

lemmas write_defs = run_write_def write_world_def write_rows_def write_fortunes_def write_updated_def

definition qw_route :: "ffead_lib \<Rightarrow> string \<Rightarrow> string \<Rightarrow> string \<Rightarrow> bool \<Rightarrow> nat \<Rightarrow> qw_app \<Rightarrow> qw_app option" where
  "qw_route lib req_path queryStr vers clos sock s =
     (let s = use sock s;
          param = parse_query lib queryStr
      in if endsWith req_path ''/d'' then Some (qw_dbAsync lib sock s)
         else if endsWith req_path ''/quer'' then map_option (\<lambda>q. qw_queriesAsync lib q sock s) param
         else if endsWith req_path ''/quem'' then map_option (\<lambda>q. qw_queriesMultiAsync lib q sock s) param
         else if endsWith req_path ''/updm'' then map_option (\<lambda>q. with_new_req (qw_updatesMulti lib q) vers clos sock s) param
         else if endsWith req_path ''/fortu'' then Some (qw_fortunes sock s)
         else if endsWith req_path ''/updt'' \<or> endsWith req_path ''/bupdt''
         then map_option (\<lambda>q. with_new_req (qw_updatesAsyncb lib q) vers clos sock s) param
         else if endsWith req_path ''/upd_'' then map_option (\<lambda>q. with_new_req (qw_updatesAsync lib q) vers clos sock s) param
         else Some (finish sock \<lparr>answer_code = Code_not_found, answer_head = Head_bare vers True, answer_body = []\<rparr> s))"

section \<open>Requests are answered once\<close>

text \<open>The socket a queued write answers on.\<close>

fun write_sock :: "nat \<times> queued_write \<Rightarrow> nat" where
  "write_sock (sock, Write_updated req) = sif req"
| "write_sock (sock, _) = sock"

fun write_req :: "queued_write \<Rightarrow> bool" where
  "write_req (Write_updated req) = True"
| "write_req _ = False"

definition waiting5 :: "qw_app \<Rightarrow> nat multiset" where
  "waiting5 s = mset (map (\<lambda>p. ctx_sock (fst p)) (pending s)) + mset (map write_sock (queued s))"

definition reqs5 :: "qw_app \<Rightarrow> int" where
  "reqs5 s = int (length (filter (\<lambda>p. has_req (fst p)) (pending s))) + int (length (filter (\<lambda>p. write_req (snd p)) (queued s)))"

definition accepts5 :: "ffead_lib \<Rightarrow> qw_app \<Rightarrow> nat \<Rightarrow> qw_app \<Rightarrow> bool" where
  "accepts5 lib s sock s' \<longleftrightarrow> (\<exists>req_path queryStr vers clos. qw_route lib req_path queryStr vers clos sock s = Some s')"

text \<open>The library calls back, or runs a queued write.\<close>

inductive progresses5 :: "ffead_lib \<Rightarrow> qw_app \<Rightarrow> nat multiset \<Rightarrow> qw_app \<Rightarrow> bool" for lib where
  call: "pending s = before @ (ctx, qs, n) # after \<Longrightarrow> qw_called_back lib ctx status results (s\<lparr>pending := before @ after\<rparr>) = Some s' \<Longrightarrow>
    progresses5 lib s (if drops ctx status then {#ctx_sock ctx#} else {#}) s'"
| run: "queued s = before @ (sock, w) # after \<Longrightarrow> progresses5 lib s {#} (run_write lib sock w (s\<lparr>queued := before @ after\<rparr>))"

lemmas qw_defs = queueWrite_def waiting5_def reqs5_def app_defs

lemma qw_route_effect:
  assumes "qw_route lib req_path queryStr vers clos sock s = Some s'"
  shows "waiting5 s' + answered4 s' = add_mset sock (waiting5 s + answered4 s) \<and>
    (\<forall>k. in_use s' k - int (count (waiting5 s') k) = in_use s k - int (count (waiting5 s) k)) \<and>
    live_reqs s' - reqs5 s' = live_reqs s - reqs5 s"
  using assms unfolding qw_route_def Let_def
  by (auto simp: qw_defs post_one_query_def post_queries_def post_multi_def post_fortunes_def qw_dbAsync_def qw_queriesAsync_def
      qw_queriesMultiAsync_def qw_updatesMulti_def qw_updatesAsyncb_def qw_updatesAsync_def qw_fortunes_def with_new_req_def Let_def
      split: if_splits)

lemma qw_called_back_effect:
  assumes "qw_called_back lib ctx status results s = Some s'"
  shows "waiting5 s' + (if drops ctx status then {#ctx_sock ctx#} else {#}) = add_mset (ctx_sock ctx) (waiting5 s) \<and>
    answered4 s' = answered4 s \<and> in_use s' = in_use s \<and>
    live_reqs s' - reqs5 s' = live_reqs s - reqs5 s - (if has_req ctx \<and> \<not> drops ctx status then 1 else 0)"
  using assms unfolding qw_cb_defs
  by (cases ctx) (auto simp: qw_defs drops_def post_multi_update_def post_bulk_update_def post_single_updates_def
      split: if_splits prod.splits)

lemma run_write_effect:
  "waiting5 (run_write lib sock w s) + answered4 (run_write lib sock w s) = add_mset (write_sock (sock, w)) (waiting5 s + answered4 s)"
  "in_use (run_write lib sock w s) k = in_use s k - (if k = write_sock (sock, w) then 1 else 0)"
  "waiting5 (run_write lib sock w s) = waiting5 s" "reqs5 (run_write lib sock w s) = reqs5 s"
  "live_reqs (run_write lib sock w s) = live_reqs s - (if write_req w then 1 else 0)"
  by (cases w; simp add: write_defs qw_defs)+

lemma progress5_effect:
  assumes "progresses5 lib s l s'"
  shows "waiting5 s' + answered4 s' + l = waiting5 s + answered4 s \<and>
    (\<forall>k. in_use s' k - int (count (waiting5 s') k) - int (count l k) = in_use s k - int (count (waiting5 s) k)) \<and>
    live_reqs s' - reqs5 s' - int (size l) = live_reqs s - reqs5 s"
  using assms
proof cases
  case (call before ctx qs n after status results)
  let ?t = "s\<lparr>pending := before @ after\<rparr>"
  have "waiting5 s = add_mset (ctx_sock ctx) (waiting5 ?t)" "reqs5 s = reqs5 ?t + (if has_req ctx then 1 else 0)"
    using call(2) by (simp_all add: waiting5_def reqs5_def)
  moreover have "drops ctx status \<Longrightarrow> has_req ctx" by (auto simp: drops_def)
  moreover have "answered4 ?t = answered4 s" "in_use ?t = in_use s" by (simp_all add: answered4_def)
  moreover have e: "waiting5 s' + l = waiting5 s" using qw_called_back_effect [OF call(3)] calculation call(1) by simp
  moreover have "int (count (waiting5 s) k) = int (count (waiting5 s') k) + int (count l k)" for k by (simp flip: e)
  ultimately show ?thesis using qw_called_back_effect [OF call(3)] call(1) by (auto simp: ac_simps)
next
  case (run before sock w after)
  let ?t = "s\<lparr>queued := before @ after\<rparr>"
  have "waiting5 s = add_mset (write_sock (sock, w)) (waiting5 ?t)" "reqs5 s = reqs5 ?t + (if write_req w then 1 else 0)"
    using run(3) by (simp_all add: waiting5_def reqs5_def)
  moreover have "answered4 ?t = answered4 s" by (simp add: answered4_def)
  ultimately show ?thesis using run_write_effect [of lib sock w ?t] run(1,2) by simp
qed

interpretation t5: async_server "accepts5 lib" "progresses5 lib" initial_qw_app waiting5 answered4 in_use for lib
proof
  fix s s' :: qw_app and sock l k
  show "accepts5 lib s sock s' \<Longrightarrow> waiting5 s' + answered4 s' = add_mset sock (waiting5 s + answered4 s)"
    "accepts5 lib s sock s' \<Longrightarrow> in_use s' k - int (count (waiting5 s') k) = in_use s k - int (count (waiting5 s) k)"
    using qw_route_effect by (auto simp: accepts5_def)
  show "progresses5 lib s l s' \<Longrightarrow> waiting5 s' + answered4 s' + l = waiting5 s + answered4 s"
    "progresses5 lib s l s' \<Longrightarrow> in_use s' k - int (count (waiting5 s') k) - int (count l k) = in_use s k - int (count (waiting5 s) k)"
    using progress5_effect by auto
qed (simp_all add: waiting5_def answered4_def initial_qw_app_def initial_app_def ff_app.defs)

lemma qw_live_requests:
  "serving (accepts5 lib) (progresses5 lib) initial_qw_app reqs lost s \<Longrightarrow> live_reqs s = reqs5 s + int (size lost)"
proof (induction rule: serving.induct)
  case (accept reqs lost s sock s')
  then show ?case using qw_route_effect by (fastforce simp: accepts5_def)
next
  case (progress reqs lost s l s')
  then show ?case using progress5_effect [OF progress(2)] by simp
qed (simp add: reqs5_def initial_qw_app_def initial_app_def ff_app.defs)

section \<open>Properties\<close>

text \<open>In every run of the application that queues its writes each request has been answered exactly once, waits for a
  callback or a write, or was lost; no write runs for an object of an update that has been deleted.\<close>

theorem t5_requests_conserved:
  assumes "serving (accepts5 lib) (progresses5 lib) initial_qw_app reqs lost s"
  shows "reqs = answered4 s + waiting5 s + lost \<and> (\<forall>k. in_use s k = int (count (waiting5 s + lost) k)) \<and>
    live_reqs s = reqs5 s + int (size lost)"
  using t5.requests_conserved [OF assms] qw_live_requests [OF assms] by simp

text \<open>The page of fortunes, with a result that has no columns.\<close>

lemma fortunes_run:
  defines "s1 \<equiv> qw_fortunes 7 (use 7 initial_qw_app)"
  defines "s2 \<equiv> queueWrite 7 (Write_fortunes []) (s1\<lparr>pending := []\<rparr>)"
  shows "serving (accepts5 sample_ffead) (progresses5 sample_ffead) initial_qw_app {#7#} {#}
    (run_write sample_ffead 7 (Write_fortunes []) (s2\<lparr>queued := []\<rparr>))"
proof -
  have "\<not> endsWith ''/fortu'' ''/d''" "\<not> endsWith ''/fortu'' ''/quer''" "\<not> endsWith ''/fortu'' ''/quem''" "\<not> endsWith ''/fortu'' ''/updm''"
    "endsWith ''/fortu'' ''/fortu''" by (simp_all add: endsWith_def)
  then have "qw_route sample_ffead ''/fortu'' [] ''1.1'' False 7 initial_qw_app = Some s1"
    by (simp add: qw_route_def s1_def Let_def)
  then have "accepts5 sample_ffead initial_qw_app 7 s1" unfolding accepts5_def by blast
  then have served: "serving (accepts5 sample_ffead) (progresses5 sample_ffead) initial_qw_app {#7#} {#} s1"
    by (rule serving.accept [OF serving.start, simplified])
  have p1: "pending s1 = [(Cb_fortunes 7, [Query FORTUNE_ALL_QUERY []], None)]" "queued s1 = []"
    by (simp_all add: s1_def qw_fortunes_def post_fortunes_def postAsync_def use_def initial_qw_app_def initial_app_def ff_app.defs)
  have "progresses5 sample_ffead s1 (if drops (Cb_fortunes 7) True then {#ctx_sock (Cb_fortunes 7)#} else {#}) s2"
    by (rule progresses5.call [where before = "[]" and after = "[]" and results = "[\<lparr>nfields = 0, tuples = []\<rparr>]"])
      (simp_all add: p1 qw_cb_defs read_fortune_list_def s2_def)
  from serving.progress [OF served this] have served: "serving (accepts5 sample_ffead) (progresses5 sample_ffead) initial_qw_app {#7#} {#} s2"
    by (simp add: drops_def)
  have "queued s2 = [] @ (7, Write_fortunes []) # []" by (simp add: s2_def queueWrite_def p1)
  from serving.progress [OF served progresses5.run [OF this]] show ?thesis by simp
qed

theorem t5_requests_conserved_witness:
  "\<exists>s. serving (accepts5 sample_ffead) (progresses5 sample_ffead) initial_qw_app {#7#} {#} s \<and> {#7#} = answered4 s + waiting5 s + {#} \<and>
     (\<forall>k. in_use s k = int (count (waiting5 s + {#}) k)) \<and> live_reqs s = reqs5 s + int (size ({#} :: nat multiset))"
  using fortunes_run t5_requests_conserved [OF fortunes_run] by blast

text \<open>C38. The two applications report a failed update differently.  The last callback of \<^verbatim>\<open>t4\<close> answers with the code for
  success exactly when the update succeeded; in \<^verbatim>\<open>t5\<close> the write that the last callback queues answers
  with it exactly when there are rows to answer, whether the update failed or not.\<close>

theorem update_failures:
  assumes "called_back lib (Cb_updated req) status results s = Some s4" "qw_called_back lib (Cb_updated req) status results t = Some t5"
  shows "\<exists>a b. written s4 = written s @ [(sif req, a)] \<and> (answer_code a = Code_ok \<longleftrightarrow> status) \<and>
    written t5 = written t \<and> queued t5 = queued t @ [(sif req, Write_updated req)] \<and>
    written (run_write lib (sif req) (Write_updated req) t5) = written t @ [(sif req, b)] \<and> (answer_code b = Code_ok \<longleftrightarrow> req_rows req \<noteq> [])"
  using assms
  by (auto simp: cb_defs qw_cb_defs write_defs finish_def unUse_def writeDirect_def queueWrite_def
      json_answer_def failure_answer_def Let_def)

theorem update_failures_witness:
  "\<exists>s4 t5 a b. called_back sample_ffead (Cb_updated \<lparr>httpVers = ''1.1'', conn_clos = False, sif = 7, req_rows = [new_row2 1 2]\<rparr>) False [] initial_app = Some s4 \<and>
    qw_called_back sample_ffead (Cb_updated \<lparr>httpVers = ''1.1'', conn_clos = False, sif = 7, req_rows = [new_row2 1 2]\<rparr>) False [] initial_qw_app = Some t5 \<and>
    written s4 = [(7, a)] \<and> answer_code a \<noteq> Code_ok \<and>
    written (run_write sample_ffead 7 (Write_updated \<lparr>httpVers = ''1.1'', conn_clos = False, sif = 7, req_rows = [new_row2 1 2]\<rparr>) t5) = [(7, b)] \<and>
    answer_code b = Code_ok"
proof -
  let ?req = "\<lparr>httpVers = ''1.1'', conn_clos = False, sif = 7, req_rows = [new_row2 1 2]\<rparr>"
  obtain s4 t5 where r: "called_back sample_ffead (Cb_updated ?req) False [] initial_app = Some s4"
    "qw_called_back sample_ffead (Cb_updated ?req) False [] initial_qw_app = Some t5"
    by (simp add: cb_defs qw_cb_defs)
  from update_failures [OF r] r show ?thesis
    by (auto simp: initial_app_def initial_qw_app_def ff_app.defs)
qed

end
