(* ===== verification/Random_Ids.thy ===== *)
theory Random_Ids
  imports Prelude
begin

text \<open>
  Drawing the row ids of a request: \<^verbatim>\<open>get_random_number\<close> (\<^verbatim>\<open>utility.c\<close>), the
  bit set of \<^verbatim>\<open>bitset.h\<close> and \<^verbatim>\<open>initialize_ids\<close> (\<^verbatim>\<open>handlers/world.c\<close>),
  which draws distinct ids by Floyd's method.  The C library's \<^verbatim>\<open>rand_r\<close> is a
  parameter: a function from a seed to a number and the next seed.  The rejection loop
  of \<^verbatim>\<open>get_random_number\<close> ends only if \<^verbatim>\<open>rand_r\<close> some time returns a number
  below the bound, so it is a \<^verbatim>\<open>partial_function\<close> whose \<^verbatim>\<open>None\<close> is a loop that
  does not end.
\<close>

unbundle bit_operations_syntax

type_synonym 's rand = "'s \<Rightarrow> nat \<times> 's"

section \<open>Unbiased random numbers\<close>

definition RAND_MAX :: nat where "RAND_MAX = 2147483647"
definition MAX_ID :: nat where "MAX_ID = 10000"
definition MAX_QUERIES :: nat where "MAX_QUERIES = 500"

definition bucket_size :: "nat \<Rightarrow> nat" where
  "bucket_size max_rand = ((RAND_MAX + 1) mod 2 ^ 32) div max_rand"

definition unbiased_rand_max :: "nat \<Rightarrow> nat" where
  "unbiased_rand_max max_rand = (bucket_size max_rand * max_rand) mod 2 ^ 32"

partial_function (option) get_random_number :: "'s rand \<Rightarrow> nat \<Rightarrow> 's \<Rightarrow> (nat \<times> 's) option" where
  "get_random_number rand_r max_rand seed =
     (if unbiased_rand_max max_rand \<le> fst (rand_r seed)
      then get_random_number rand_r max_rand (snd (rand_r seed))
      else Some (fst (rand_r seed) div bucket_size max_rand, snd (rand_r seed)))"

lemma unbiased_no_wrap: "unbiased_rand_max max_rand = bucket_size max_rand * max_rand"
proof -
  have "bucket_size max_rand * max_rand \<le> RAND_MAX + 1"
    by (simp add: bucket_size_def RAND_MAX_def)
  then show ?thesis by (simp add: unbiased_rand_max_def RAND_MAX_def)
qed

lemma bucket_size_pos: "0 < max_rand \<Longrightarrow> max_rand \<le> RAND_MAX \<Longrightarrow> 0 < bucket_size max_rand"
  by (simp add: bucket_size_def RAND_MAX_def div_greater_zero_iff)

lemma get_random_number_range:
  assumes "get_random_number rand_r max_rand seed = Some (v, s)"
  shows "v < max_rand"
proof -
  have "fst (v, s) < max_rand"
  proof (rule get_random_number.raw_induct [where P = "\<lambda>rand_r max_rand seed r. fst r < max_rand", OF _ assms])
    fix f and rand_r' :: "'a rand" and m seed' r
    assume IH: "\<And>rand_r max_rand seed r. f rand_r max_rand seed = Some r \<Longrightarrow> fst r < max_rand"
      and eq: "(if unbiased_rand_max m \<le> fst (rand_r' seed') then f rand_r' m (snd (rand_r' seed'))
        else Some (fst (rand_r' seed') div bucket_size m, snd (rand_r' seed'))) = Some r"
    show "fst r < m"
    proof (cases "unbiased_rand_max m \<le> fst (rand_r' seed')")
      case True
      with eq IH show ?thesis by simp
    next
      case False
      then have "fst (rand_r' seed') < m * bucket_size m" by (simp add: unbiased_no_wrap mult.commute)
      with eq False show ?thesis by (auto intro: less_mult_imp_div_less)
    qed
  qed
  then show ?thesis by simp
qed

fun rand_seq :: "'s rand \<Rightarrow> nat \<Rightarrow> 's \<Rightarrow> 's" where
  "rand_seq rand_r 0 seed = seed"
| "rand_seq rand_r (Suc n) seed = rand_seq rand_r n (snd (rand_r seed))"

lemma get_random_number_returns:
  "fst (rand_r (rand_seq rand_r n seed)) < unbiased_rand_max max_rand \<Longrightarrow>
    \<exists>v s. get_random_number rand_r max_rand seed = Some (v, s)"
proof (induction n arbitrary: seed)
  case 0
  then show ?case by (simp add: get_random_number.simps)
next
  case (Suc n)
  then show ?case
    by (cases "unbiased_rand_max max_rand \<le> fst (rand_r seed)")
      (simp_all add: get_random_number.simps [of rand_r max_rand seed])
qed

text \<open>
  No bias: each result has the same number of accepted values of \<^verbatim>\<open>rand_r\<close>, the
  whole of its bucket.
\<close>

lemma bucket_preimage:
  assumes "0 < max_rand" "max_rand \<le> RAND_MAX" "v < max_rand"
  shows "{r. r < unbiased_rand_max max_rand \<and> r div bucket_size max_rand = v} =
    {v * bucket_size max_rand ..< (v + 1) * bucket_size max_rand}"
proof -
  let ?b = "bucket_size max_rand"
  have b: "0 < ?b" using assms by (intro bucket_size_pos)
  have "(v + 1) * ?b \<le> max_rand * ?b" using assms(3) by (intro mult_le_mono1) simp
  then have "r < ?b * max_rand" if "r < (v + 1) * ?b" for r using that by (simp add: mult.commute)
  moreover have "r div ?b = v \<longleftrightarrow> v * ?b \<le> r \<and> r < (v + 1) * ?b" for r
    unfolding less_eq_div_iff_mult_less_eq [OF b, symmetric] div_less_iff_less_mult [OF b, symmetric] by auto
  ultimately show ?thesis by (auto simp: unbiased_no_wrap)
qed

section \<open>Bit sets\<close>

definition bitset_isset :: "nat \<Rightarrow> 64 word list \<Rightarrow> bool" where
  "bitset_isset i b \<longleftrightarrow> drop_bit (i mod 64) (b ! (i div 64)) AND 1 \<noteq> 0"

definition bitset_set :: "nat \<Rightarrow> 64 word list \<Rightarrow> 64 word list" where
  "bitset_set i b = b[i div 64 := (b ! (i div 64)) OR push_bit (i mod 64) 1]"

text \<open>\<^verbatim>\<open>DEFINE_BITSET(b, s)\<close>: enough zero words for \<^verbatim>\<open>s\<close> bits.\<close>

definition define_bitset :: "nat \<Rightarrow> 64 word list" where
  "define_bitset s = replicate ((s + 64 - 1) div 64) 0"

definition bitset_num :: "64 word list \<Rightarrow> nat" where
  "bitset_num b = length b * 64"

lemma bitset_isset_bit: "bitset_isset i b \<longleftrightarrow> bit (b ! (i div 64)) (i mod 64)"
  by (simp add: bitset_isset_def and_one_eq bit_iff_odd_drop_bit odd_iff_mod_2_eq_one)

lemma bitset_isset_define: "bitset_isset i (define_bitset s) \<longleftrightarrow> False" if "i < bitset_num (define_bitset s)"
  using that by (simp add: bitset_isset_bit define_bitset_def bitset_num_def div_less_iff_less_mult)

lemma bitset_isset_set:
  "i < bitset_num b \<Longrightarrow> j < bitset_num b \<Longrightarrow> bitset_isset j (bitset_set i b) \<longleftrightarrow> j = i \<or> bitset_isset j b"
  by (auto simp: bitset_isset_bit bitset_set_def bitset_num_def nth_list_update bit_simps div_less_iff_less_mult)
    (metis div_mult_mod_eq)+

lemma bitset_num_set [simp]: "bitset_num (bitset_set i b) = bitset_num b"
  by (simp add: bitset_num_def bitset_set_def)

lemma bitset_num_define: "s \<le> bitset_num (define_bitset s)"
  by (simp add: bitset_num_def define_bitset_def)

section \<open>Distinct ids\<close>

text \<open>
  The loop of \<^verbatim>\<open>initialize_ids\<close>: \<^verbatim>\<open>n\<close> ids are still to draw.  \<^verbatim>\<open>None\<close> is a
  generator that does not return, or an id for which the assertion \<^verbatim>\<open>i < num\<close> of
  \<^verbatim>\<open>bitset_isset\<close> or \<^verbatim>\<open>bitset_set\<close> fails.
\<close>

fun initialize_ids_loop ::
    "'s rand \<Rightarrow> nat \<Rightarrow> nat \<Rightarrow> 64 word list \<Rightarrow> 's \<Rightarrow> (nat list \<times> 64 word list \<times> 's) option" where
  "initialize_ids_loop rand_r 0 max_rand bitset seed = Some ([], bitset, seed)"
| "initialize_ids_loop rand_r (Suc n) max_rand bitset seed =
     (case get_random_number rand_r max_rand seed of
        None \<Rightarrow> None
      | Some (r, seed1) \<Rightarrow>
          if \<not> r < bitset_num bitset then None
          else (let i = (if bitset_isset r bitset then max_rand - 1 else r)
                in if \<not> i < bitset_num bitset then None
                   else (case initialize_ids_loop rand_r n (max_rand + 1) (bitset_set i bitset) seed1 of
                           None \<Rightarrow> None
                         | Some (ids, bitset', seed') \<Rightarrow> Some ((i + 1) # ids, bitset', seed'))))"

definition initialize_ids :: "'s rand \<Rightarrow> nat \<Rightarrow> 's \<Rightarrow> (nat list \<times> 's) option" where
  "initialize_ids rand_r num_query seed =
     map_option (\<lambda>(ids, bitset, seed'). (ids, seed'))
       (initialize_ids_loop rand_r num_query (MAX_ID - num_query + 1) (define_bitset MAX_ID) seed)"

text \<open>
  The contract the loop needs from the set: membership after an insertion, and a
  capacity that does not change.
\<close>

locale index_set =
  fixes isset :: "nat \<Rightarrow> 'b \<Rightarrow> bool"
    and insert_ix :: "nat \<Rightarrow> 'b \<Rightarrow> 'b"
    and num :: "'b \<Rightarrow> nat"
  assumes isset_insert: "i < num b \<Longrightarrow> j < num b \<Longrightarrow> isset j (insert_ix i b) \<longleftrightarrow> j = i \<or> isset j b"
    and num_insert: "num (insert_ix i b) = num b"
begin

lemma floyd_step:
  assumes below: "\<forall>j < num b. isset j b \<longrightarrow> j + 1 < m" and r: "r < m" and cap: "m \<le> num b"
    and i: "i = (if isset r b then m - 1 else r)"
  shows "i < m" "\<not> isset i b" "\<forall>j < num b. isset j (insert_ix i b) \<longrightarrow> j + 1 < m + 1"
    "\<forall>j < num b. isset j (insert_ix i b) \<longleftrightarrow> j = i \<or> isset j b"
proof -
  show im: "i < m" using r i by (auto split: if_splits)
  have "m - 1 < num b" using r cap by linarith
  then show "\<not> isset i b" using below [rule_format, of "m - 1"] r i by (auto split: if_splits)
  show up: "\<forall>j < num b. isset j (insert_ix i b) \<longleftrightarrow> j = i \<or> isset j b"
    using im cap isset_insert by simp
  show "\<forall>j < num b. isset j (insert_ix i b) \<longrightarrow> j + 1 < m + 1"
    using up im below by auto
qed

end

interpretation bits: index_set bitset_isset bitset_set bitset_num
  by unfold_locales (auto simp: bitset_isset_set)

lemma initialize_ids_loop_correct:
  assumes "initialize_ids_loop rand_r n m b seed = Some (ids, b', s)"
    and "\<forall>j < bitset_num b. bitset_isset j b \<longrightarrow> j + 1 < m" and "m + n \<le> bitset_num b + 1"
  shows "length ids = n \<and> distinct ids \<and> (\<forall>i \<in> set ids. 1 \<le> i \<and> i < m + n) \<and>
    (\<forall>j < bitset_num b. bitset_isset j b \<longrightarrow> j + 1 \<notin> set ids)"
  using assms
proof (induction n arbitrary: m b seed ids)
  case 0
  then show ?case by simp
next
  case (Suc n)
  from Suc.prems(1) obtain r seed1 i ids1 where
    r: "get_random_number rand_r m seed = Some (r, seed1)"
    and i: "i = (if bitset_isset r b then m - 1 else r)" "i < bitset_num b"
    and rest: "initialize_ids_loop rand_r n (m + 1) (bitset_set i b) seed1 = Some (ids1, b', s)"
    and ids: "ids = (i + 1) # ids1"
    by (auto simp: Let_def split: option.splits if_splits prod.splits)
  have rm: "r < m" using get_random_number_range [OF r] .
  have cap: "m \<le> bitset_num b" using Suc.prems(3) by simp
  note step = bits.floyd_step [OF Suc.prems(2) rm cap i(1)]
  have "length ids1 = n \<and> distinct ids1 \<and> (\<forall>i \<in> set ids1. 1 \<le> i \<and> i < m + 1 + n) \<and>
      (\<forall>j < bitset_num b. bitset_isset j (bitset_set i b) \<longrightarrow> j + 1 \<notin> set ids1)"
    using Suc.IH [OF rest] step(3) Suc.prems(3) by simp
  then show ?case using ids step i(2) by auto
qed

lemma initialize_ids_loop_returns:
  assumes "\<And>m seed. 0 < m \<Longrightarrow> m \<le> MAX_ID \<Longrightarrow> \<exists>v s. get_random_number rand_r m seed = Some (v, s)"
    and "0 < m" "m + n \<le> MAX_ID + 1" "MAX_ID \<le> bitset_num b"
  shows "initialize_ids_loop rand_r n m b seed \<noteq> None"
  using assms(2-4)
proof (induction n arbitrary: m b seed)
  case 0
  then show ?case by simp
next
  case (Suc n)
  then obtain r s where r: "get_random_number rand_r m seed = Some (r, s)"
    using assms(1) [of m seed] by auto
  have "r < m" using get_random_number_range [OF r] .
  moreover have "initialize_ids_loop rand_r n (m + 1) (bitset_set i b) s \<noteq> None" for i
    using Suc by (intro Suc.IH) auto
  then obtain ids b' s' where "initialize_ids_loop rand_r n (m + 1)
      (bitset_set (if bitset_isset r b then m - 1 else r) b) s = Some (ids, b', s')"
    by (metis not_None_eq prod_cases3)
  ultimately show ?case using r Suc.prems by (auto simp: Let_def)
qed

lemma get_random_number_accepts:
  "fst (rand_r seed) < unbiased_rand_max m \<Longrightarrow>
    get_random_number rand_r m seed = Some (fst (rand_r seed) div bucket_size m, snd (rand_r seed))"
  by (subst get_random_number.simps) simp

lemma get_random_number_constant:
  assumes "get_random_number g m seed = Some x"
  shows "(\<forall>s. fst (g s) = r) \<longrightarrow> r < unbiased_rand_max m"
proof (rule get_random_number.raw_induct
    [where P = "\<lambda>g m seed x. (\<forall>s. fst (g s) = r) \<longrightarrow> r < unbiased_rand_max m", OF _ assms])
  fix f and g :: "'a rand" and m' seed' x
  assume IH: "\<And>g m seed x. f g m seed = Some x \<Longrightarrow> (\<forall>s. fst (g s) = r) \<longrightarrow> r < unbiased_rand_max m"
    and eq: "(if unbiased_rand_max m' \<le> fst (g seed') then f g m' (snd (g seed'))
      else Some (fst (g seed') div bucket_size m', snd (g seed'))) = Some x"
  show "(\<forall>s. fst (g s) = r) \<longrightarrow> r < unbiased_rand_max m'"
    using IH [of g m' "snd (g seed')" x] eq by (auto split: if_splits)
qed

section \<open>Properties\<close>

text \<open>C21. Over the values of \<^verbatim>\<open>rand_r\<close>, each result of \<^verbatim>\<open>get_random_number\<close> below
  \<^verbatim>\<open>max_rand\<close> is reached from the same number of values, and none is reached from a
  rejected one: the result is uniform when \<^verbatim>\<open>rand_r\<close> is.\<close>

theorem get_random_number_uniform:
  assumes "0 < max_rand" "max_rand \<le> RAND_MAX" "v < max_rand"
  shows "card {r. r \<le> RAND_MAX \<and> get_random_number (\<lambda>s. (r, s)) max_rand seed = Some (v, seed)} =
    (RAND_MAX + 1) div max_rand"
proof -
  have "{r. r \<le> RAND_MAX \<and> get_random_number (\<lambda>s. (r, s)) max_rand seed = Some (v, seed)} =
      {r. r < unbiased_rand_max max_rand \<and> r div bucket_size max_rand = v}"
  proof (intro set_eqI iffI; clarify)
    fix r assume "get_random_number (\<lambda>s. (r, s)) max_rand seed = Some (v, seed)"
    moreover from get_random_number_constant [OF this, of r] have "r < unbiased_rand_max max_rand" by simp
    ultimately show "r < unbiased_rand_max max_rand \<and> r div bucket_size max_rand = v"
      by (simp add: get_random_number_accepts)
  next
    fix r assume r: "r < unbiased_rand_max max_rand"
    have "unbiased_rand_max max_rand \<le> RAND_MAX + 1"
      by (simp add: unbiased_no_wrap bucket_size_def RAND_MAX_def)
    with r show "r \<le> RAND_MAX \<and> get_random_number (\<lambda>s. (r, s)) max_rand seed =
        Some (r div bucket_size max_rand, seed)"
      by (simp add: get_random_number_accepts)
  qed
  then show ?thesis
    using bucket_preimage [OF assms] by (simp add: bucket_size_def RAND_MAX_def)
qed

theorem get_random_number_uniform_witness:
  "card {r. r \<le> RAND_MAX \<and> get_random_number (\<lambda>s. (r, s)) 10000 (7::nat) = Some (42, 7)} = 214748"
  using get_random_number_uniform [of 10000 42 "7::nat"] by (simp add: RAND_MAX_def)

text \<open>C34. When \<^verbatim>\<open>rand_r\<close> keeps returning accepted numbers, \<^verbatim>\<open>initialize_ids\<close>
  returns, with exactly the requested number of ids, pairwise distinct and between 1 and
  \<^verbatim>\<open>MAX_ID\<close>; no access to the bit set is out of its bounds (the asserts hold).\<close>

theorem initialize_ids_correct:
  assumes "num_query \<le> MAX_QUERIES"
    and "\<And>max_rand seed. 0 < max_rand \<Longrightarrow> max_rand \<le> MAX_ID \<Longrightarrow>
      \<exists>k. fst (rand_r (rand_seq rand_r k seed)) < unbiased_rand_max max_rand"
  shows "\<exists>ids seed'. initialize_ids rand_r num_query seed = Some (ids, seed') \<and>
    length ids = num_query \<and> distinct ids \<and> (\<forall>i \<in> set ids. 1 \<le> i \<and> i \<le> MAX_ID)"
proof -
  let ?m = "MAX_ID - num_query + 1"
  have m: "?m + num_query = MAX_ID + 1" "0 < ?m"
    using assms(1) by (simp_all add: MAX_ID_def MAX_QUERIES_def)
  have "\<exists>v s. get_random_number rand_r m seed = Some (v, s)" if "0 < m" "m \<le> MAX_ID" for m seed
    using assms(2) [OF that, of seed] by (auto intro: get_random_number_returns)
  from initialize_ids_loop_returns [OF this m(2)]
  have "initialize_ids_loop rand_r num_query ?m (define_bitset MAX_ID) seed \<noteq> None"
    using m bitset_num_define by simp
  then obtain ids b s where
    r: "initialize_ids_loop rand_r num_query ?m (define_bitset MAX_ID) seed = Some (ids, b, s)" by auto
  have "?m + num_query \<le> bitset_num (define_bitset MAX_ID) + 1"
    using m bitset_num_define [of MAX_ID] by simp
  from initialize_ids_loop_correct [OF r _ this] bitset_isset_define [of _ MAX_ID]
  have "length ids = num_query \<and> distinct ids \<and> (\<forall>i \<in> set ids. 1 \<le> i \<and> i < ?m + num_query)"
    by blast
  then show ?thesis using r m by (auto simp: initialize_ids_def)
qed

theorem initialize_ids_correct_witness:
  "\<exists>ids seed'. initialize_ids (\<lambda>s. (s mod 8, Suc s)) 20 5 = Some (ids, seed') \<and>
    length ids = 20 \<and> distinct ids \<and> (\<forall>i \<in> set ids. 1 \<le> i \<and> i \<le> MAX_ID)"
proof (rule initialize_ids_correct)
  fix m s :: nat assume m: "0 < m" "m \<le> MAX_ID"
  have "(RAND_MAX + 1) div 10000 \<le> (RAND_MAX + 1) div m"
    using m by (intro div_le_mono2) (simp_all add: MAX_ID_def)
  then have "214748 \<le> bucket_size m" by (simp add: bucket_size_def RAND_MAX_def)
  then have "214748 * 1 \<le> bucket_size m * m" using m by (intro mult_le_mono) simp_all
  then have "8 \<le> unbiased_rand_max m" by (simp add: unbiased_no_wrap)
  then show "\<exists>k. fst ((\<lambda>s. (s mod 8, Suc s)) (rand_seq (\<lambda>s. (s mod 8, Suc s)) k s)) < unbiased_rand_max m"
    by (metis fst_conv less_le_trans mod_less_divisor zero_less_numeral)
qed (simp add: MAX_QUERIES_def)

end
