(* ===== verification/Intrusive_List.thy ===== *)
theory Intrusive_List
  imports Prelude
begin

text \<open>
  The intrusive lists of \<^verbatim>\<open>list.h\<close>: a node embeds a \<^verbatim>\<open>list_t\<close> whose only
  field is the pointer to the next one, and a \<^verbatim>\<open>queue_t\<close> holds the head pointer and
  the address of the last \<^verbatim>\<open>next\<close> field (the address of the head field itself when
  the queue is empty).  A store of \<^verbatim>\<open>next\<close> fields is a function from node addresses;
  the address held in \<^verbatim>\<open>tail\<close> is a \<^verbatim>\<open>slot\<close>.  The operations are the statement
  groups with which \<^verbatim>\<open>database.c\<close> uses such a queue, among them the loop of
  \<^verbatim>\<open>remove_connection\<close>.
\<close>

type_synonym addr = nat
type_synonym heap = "addr \<Rightarrow> addr option"

datatype slot = Var | Next addr

record queue_t =
  q_head :: "addr option"
  q_tail :: slot

section \<open>Paths through the store\<close>

fun path :: "heap \<Rightarrow> addr option \<Rightarrow> addr list \<Rightarrow> addr option \<Rightarrow> bool" where
  "path h p [] q \<longleftrightarrow> p = q"
| "path h p (x # xs) q \<longleftrightarrow> p = Some x \<and> path h (h x) xs q"

abbreviation list_at :: "heap \<Rightarrow> addr option \<Rightarrow> addr list \<Rightarrow> bool" where
  "list_at h p xs \<equiv> path h p xs None"

lemma path_append [simp]:
  "path h p (xs @ ys) q \<longleftrightarrow> (\<exists>r. path h p xs r \<and> path h r ys q)"
  by (induction xs arbitrary: p) auto

lemma path_upd [simp]: "a \<notin> set xs \<Longrightarrow> path (h(a := v)) p xs q \<longleftrightarrow> path h p xs q"
  by (induction xs arbitrary: p) auto

lemma path_cong: "(\<And>x. x \<in> set xs \<Longrightarrow> h x = h' x) \<Longrightarrow> path h p xs q \<longleftrightarrow> path h' p xs q"
  by (induction xs arbitrary: p) auto

lemma path_frame:
  "path h p xs q \<Longrightarrow> (\<And>a. a \<notin> S \<Longrightarrow> h' a = h a) \<Longrightarrow> set xs \<inter> S = {} \<Longrightarrow> path h' p xs q"
  using path_cong [of xs h h' p q] by (auto simp: disjoint_iff)

lemma path_end_unique: "path h p xs q \<Longrightarrow> path h p xs q' \<Longrightarrow> q = q'"
  by (induction xs arbitrary: p) auto

lemma path_None [simp]: "path h None xs q \<longleftrightarrow> xs = [] \<and> q = None"
  by (cases xs) auto

lemma path_Some: "path h (Some a) xs None \<Longrightarrow> \<exists>ys. xs = a # ys \<and> list_at h (h a) ys"
  by (cases xs) auto

lemma path_last: "xs \<noteq> [] \<Longrightarrow> path h p xs q \<Longrightarrow> h (last xs) = q"
  by (induction xs arbitrary: p) auto

lemma path_set_last:
  "distinct xs \<Longrightarrow> xs \<noteq> [] \<Longrightarrow> path h p xs q \<Longrightarrow> path (h(last xs := v)) p xs v"
proof (induction xs arbitrary: p)
  case Nil
  then show ?case by simp
next
  case (Cons x xs)
  then show ?case by (cases "xs = []") auto
qed

lemma list_at_unique: "list_at h p xs \<Longrightarrow> list_at h p ys \<Longrightarrow> xs = ys"
proof (induction xs arbitrary: p ys)
  case Nil
  then show ?case by (cases ys) auto
next
  case (Cons x xs)
  then show ?case by (cases ys) auto
qed

lemma list_at_notin_tail: "list_at h (h x) xs \<Longrightarrow> x \<notin> set xs"
proof
  assume "list_at h (h x) xs" and "x \<in> set xs"
  then obtain ys zs where "xs = ys @ x # zs" by (auto simp: in_set_conv_decomp)
  with \<open>list_at h (h x) xs\<close> have "list_at h (h x) zs" by auto
  with \<open>list_at h (h x) xs\<close> have "xs = zs" by (rule list_at_unique)
  with \<open>xs = ys @ x # zs\<close> show False by simp
qed

lemma list_at_distinct: "list_at h p xs \<Longrightarrow> distinct xs"
  by (induction xs arbitrary: p) (auto dest: list_at_notin_tail)

section \<open>The queue operations\<close>

text \<open>\<^verbatim>\<open>*tail = &x->l; tail = &x->l.next; x->l.next = NULL\<close>\<close>

definition write_slot :: "slot \<Rightarrow> addr option \<Rightarrow> heap \<times> queue_t \<Rightarrow> heap \<times> queue_t" where
  "write_slot s v hq = (case s of
     Var \<Rightarrow> (fst hq, (snd hq)\<lparr>q_head := v\<rparr>)
   | Next a \<Rightarrow> ((fst hq)(a := v), snd hq))"

definition queue_init :: queue_t where
  "queue_init = \<lparr>q_head = None, q_tail = Var\<rparr>"

definition queue_push :: "addr \<Rightarrow> heap \<times> queue_t \<Rightarrow> heap \<times> queue_t" where
  "queue_push x hq =
     (case write_slot (q_tail (snd hq)) (Some x) hq of
        (h, q) \<Rightarrow> (h(x := None), q\<lparr>q_tail := Next x\<rparr>))"

text \<open>
  \<^verbatim>\<open>head = x->l.next; if (!head) tail = &head\<close>: taking the first node, as in
  \<^verbatim>\<open>on_process_queries\<close> and \<^verbatim>\<open>on_database_read_ready\<close>.
\<close>

definition queue_pop :: "heap \<times> queue_t \<Rightarrow> heap \<times> queue_t" where
  "queue_pop hq = (case q_head (snd hq) of
     None \<Rightarrow> hq
   | Some x \<Rightarrow> (let q = (snd hq)\<lparr>q_head := fst hq x\<rparr>
                in (fst hq, if q_head q = None then q\<lparr>q_tail := Var\<rparr> else q)))"

text \<open>
  The loop of \<^verbatim>\<open>remove_connection\<close>: \<^verbatim>\<open>iter\<close> walks from the head, \<^verbatim>\<open>prev\<close>
  is the slot that points to it.  The walk of a cyclic store would not end: \<^verbatim>\<open>fuel\<close>
  counts its steps and \<^verbatim>\<open>queue_remove_total\<close> shows that the length of the list is
  enough.
\<close>

fun find_node :: "nat \<Rightarrow> heap \<Rightarrow> addr \<Rightarrow> slot \<Rightarrow> addr option \<Rightarrow> (slot \<times> addr option) option" where
  "find_node 0 h x prev iter = None"
| "find_node (Suc fuel) h x prev iter =
     (case iter of
        None \<Rightarrow> Some (prev, None)
      | Some i \<Rightarrow> if i = x then Some (prev, iter) else find_node fuel h x (Next i) (h i))"

definition queue_remove :: "nat \<Rightarrow> addr \<Rightarrow> heap \<times> queue_t \<Rightarrow> (heap \<times> queue_t) option" where
  "queue_remove fuel x hq = (case find_node fuel (fst hq) x Var (q_head (snd hq)) of
     None \<Rightarrow> None
   | Some (prev, None) \<Rightarrow> Some hq
   | Some (prev, Some i) \<Rightarrow>
       (case write_slot prev (fst hq i) hq of
          (h, q) \<Rightarrow> Some (h, if q_head q = None then q\<lparr>q_tail := Var\<rparr> else q)))"

section \<open>The queue as a list\<close>

definition tail_slot :: "addr list \<Rightarrow> slot" where
  "tail_slot xs = (if xs = [] then Var else Next (last xs))"

text \<open>
  \<^verbatim>\<open>queue_rep hq xs\<close>: the queue holds exactly the nodes \<^verbatim>\<open>xs\<close>, in order, and
  its tail is the slot behind the last one.
\<close>

definition queue_rep :: "heap \<times> queue_t \<Rightarrow> addr list \<Rightarrow> bool" where
  "queue_rep hq xs \<longleftrightarrow> list_at (fst hq) (q_head (snd hq)) xs \<and> q_tail (snd hq) = tail_slot xs"

lemma queue_repI: "list_at h (q_head q) xs \<Longrightarrow> q_tail q = tail_slot xs \<Longrightarrow> queue_rep (h, q) xs"
  by (simp add: queue_rep_def)

lemma queue_rep_distinct: "queue_rep hq xs \<Longrightarrow> distinct xs"
  by (auto simp: queue_rep_def dest: list_at_distinct)

lemma queue_rep_head: "queue_rep hq xs \<Longrightarrow> q_head (snd hq) = (if xs = [] then None else Some (hd xs))"
  by (cases xs) (auto simp: queue_rep_def)

lemma queue_rep_init: "queue_rep (h, queue_init) []"
  by (simp add: queue_rep_def queue_init_def tail_slot_def)

lemma queue_rep_push:
  assumes "queue_rep hq xs" "x \<notin> set xs"
  shows "queue_rep (queue_push x hq) (xs @ [x])"
proof (cases "xs = []")
  case True
  with assms show ?thesis
    by (cases hq) (simp add: queue_rep_def queue_push_def write_slot_def tail_slot_def)
next
  case False
  obtain h q where hq: "hq = (h, q)" by (cases hq)
  have "path (h(last xs := Some x)) (q_head q) xs (Some x)"
    using assms False queue_rep_distinct [OF assms(1)]
    by (intro path_set_last) (auto simp: queue_rep_def hq)
  moreover have "last xs \<noteq> x" using assms(2) False by auto
  ultimately show ?thesis
    using assms False
    by (simp add: hq queue_rep_def queue_push_def write_slot_def tail_slot_def)
qed

lemma queue_rep_pop:
  assumes "queue_rep hq (x # xs)"
  shows "queue_rep (queue_pop hq) xs"
  using assms
  by (cases xs) (auto simp: queue_rep_def queue_pop_def tail_slot_def Let_def)

lemma queue_push_frame: "a \<noteq> x \<Longrightarrow> q_tail (snd hq) \<noteq> Next a \<Longrightarrow> fst (queue_push x hq) a = fst hq a"
  by (auto simp: queue_push_def write_slot_def split: slot.splits prod.splits)

section \<open>First in, first out\<close>

text \<open>
  The contract of a queue: a representation relation that the empty queue, pushing a
  node that is not in the queue and popping a non-empty queue keep.  A run of operations
  then takes the nodes out in the order they went in.
\<close>

datatype 'a queue_op = Push 'a | Pop

fun op_ok :: "'a queue_op \<Rightarrow> 'a list \<Rightarrow> bool" where
  "op_ok (Push x) xs = (x \<notin> set xs)"
| "op_ok Pop xs = (xs \<noteq> [])"

fun op_list :: "'a queue_op \<Rightarrow> 'a list \<Rightarrow> 'a list" where
  "op_list (Push x) xs = xs @ [x]"
| "op_list Pop xs = tl xs"

fun ops_ok :: "'a queue_op list \<Rightarrow> 'a list \<Rightarrow> bool" where
  "ops_ok [] xs = True"
| "ops_ok (p # ps) xs = (op_ok p xs \<and> ops_ok ps (op_list p xs))"

fun run_ops :: "('a \<Rightarrow> 'q \<Rightarrow> 'q) \<Rightarrow> ('q \<Rightarrow> 'q) \<Rightarrow> 'a queue_op list \<Rightarrow> 'q \<Rightarrow> 'q" where
  "run_ops push pop [] q = q"
| "run_ops push pop (Push x # ps) q = run_ops push pop ps (push x q)"
| "run_ops push pop (Pop # ps) q = run_ops push pop ps (pop q)"

locale fifo_queue =
  fixes rep :: "'q \<Rightarrow> 'a list \<Rightarrow> bool"
    and push :: "'a \<Rightarrow> 'q \<Rightarrow> 'q"
    and pop :: "'q \<Rightarrow> 'q"
    and head :: "'q \<Rightarrow> 'a option"
  assumes rep_push: "rep q xs \<Longrightarrow> x \<notin> set xs \<Longrightarrow> rep (push x q) (xs @ [x])"
    and rep_pop: "rep q (x # xs) \<Longrightarrow> rep (pop q) xs"
    and rep_head: "rep q xs \<Longrightarrow> head q = (if xs = [] then None else Some (hd xs))"
begin

lemma rep_run:
  "rep q xs \<Longrightarrow> ops_ok ps xs \<Longrightarrow> rep (run_ops push pop ps q) (fold op_list ps xs)"
proof (induction ps arbitrary: q xs)
  case Nil
  then show ?case by simp
next
  case (Cons p ps)
  show ?case
  proof (cases p)
    case (Push x)
    with Cons show ?thesis by (simp add: rep_push)
  next
    case Pop
    with Cons.prems obtain y ys where "xs = y # ys" by (cases xs) auto
    with Pop Cons show ?thesis by (auto dest: rep_pop)
  qed
qed

lemma head_after_pushes:
  assumes "rep q []" "distinct (x # xs)"
  shows "head (run_ops push pop (map Push (x # xs)) q) = Some x"
proof -
  have fold: "fold op_list (map Push ys) zs = zs @ ys" for ys :: "'a list" and zs
    by (induction ys arbitrary: zs) auto
  have ok: "distinct ys \<Longrightarrow> set ys \<inter> set zs = {} \<Longrightarrow> ops_ok (map Push ys) zs" for ys :: "'a list" and zs
    by (induction ys arbitrary: zs) auto
  have "rep (run_ops push pop (map Push (x # xs)) q) (fold op_list (map Push (x # xs)) [])"
    using assms ok [of "x # xs" "[]"] by (intro rep_run) auto
  then show ?thesis by (simp only: fold) (simp add: rep_head)
qed

end

interpretation pq: fifo_queue queue_rep queue_push queue_pop "\<lambda>hq. q_head (snd hq)"
  by unfold_locales (auto simp: queue_rep_push queue_rep_pop queue_rep_head)

section \<open>Removing a node\<close>

lemma find_node_found:
  assumes "path h (Some p) ys (Some x)" "x \<notin> set ys" "length ys < fuel"
  shows "find_node fuel h x prev (Some p) = Some (if ys = [] then prev else Next (last ys), Some x)"
  using assms
proof (induction ys arbitrary: p prev fuel)
  case Nil
  then show ?case by (cases fuel) auto
next
  case (Cons y ys)
  then obtain f where f: "fuel = Suc f" by (cases fuel) auto
  show ?case
  proof (cases "h y")
    case None
    with Cons show ?thesis by auto
  next
    case (Some r)
    with Cons f Cons.IH [of r f "Next y"] show ?thesis by auto
  qed
qed

lemma find_node_not_found:
  assumes "list_at h p ys" "x \<notin> set ys" "length ys < fuel"
  shows "\<exists>s. find_node fuel h x prev p = Some (s, None)"
  using assms
proof (induction ys arbitrary: p prev fuel)
  case Nil
  then show ?case by (cases fuel) auto
next
  case (Cons y ys)
  then show ?case by (cases fuel) auto
qed

lemma queue_remove_absent:
  "queue_rep hq xs \<Longrightarrow> x \<notin> set xs \<Longrightarrow> length xs < fuel \<Longrightarrow> queue_remove fuel x hq = Some hq"
  using find_node_not_found [of "fst hq" "q_head (snd hq)" xs x fuel Var]
  by (auto simp: queue_rep_def queue_remove_def)

lemma queue_remove_step:
  assumes "queue_rep (h, q) (ys @ x # zs)" "length ys < fuel"
  shows "queue_remove fuel x (h, q) = Some
    (if ys = [] then (h, q\<lparr>q_head := h x, q_tail := if h x = None then Var else q_tail q\<rparr>)
     else (h(last ys := h x), q))"
proof -
  have d: "x \<notin> set ys" using queue_rep_distinct [OF assms(1)] by simp
  have p: "path h (q_head q) ys (Some x)" using assms(1) by (auto simp: queue_rep_def)
  then obtain p0 where p0: "q_head q = Some p0" by (cases ys) auto
  have "find_node fuel h x Var (Some p0) = Some (if ys = [] then Var else Next (last ys), Some x)"
    using p p0 d assms(2) by (intro find_node_found) auto
  then show ?thesis
    using p0 by (auto simp: queue_remove_def write_slot_def)
qed

lemma queue_remove_inner:
  assumes rep: "queue_rep hq (ys @ x # zs)" and inner: "zs \<noteq> [] \<or> ys = []" and fuel: "length ys < fuel"
  shows "\<exists>hq'. queue_remove fuel x hq = Some hq' \<and> queue_rep hq' (ys @ zs)"
proof -
  obtain h q where hq: "hq = (h, q)" by (cases hq)
  note r = rep [unfolded hq]
  have d: "distinct (ys @ x # zs)" using queue_rep_distinct [OF r] .
  have p: "path h (q_head q) ys (Some x)" "list_at h (h x) zs" and t: "q_tail q = tail_slot (ys @ x # zs)"
    using r by (auto simp: queue_rep_def)
  show ?thesis
  proof (cases "ys = []")
    case True
    with p t show ?thesis
      by (cases zs) (auto simp: hq queue_remove_step [OF r fuel] queue_rep_def tail_slot_def)
  next
    case False
    with inner have zs: "zs \<noteq> []" by simp
    have "path (h(last ys := h x)) (q_head q) ys (h x)"
      using d p False by (intro path_set_last) auto
    moreover have "last ys \<notin> set zs" using d last_in_set [OF False] by (simp add: disjoint_iff)
    ultimately show ?thesis
      using False zs p t by (auto simp: hq queue_remove_step [OF r fuel] queue_rep_def tail_slot_def)
  qed
qed

text \<open>
  Removing the last of several nodes: the list is right, but the tail still is the
  \<^verbatim>\<open>next\<close> field of the removed node.
\<close>

lemma queue_remove_last:
  assumes rep: "queue_rep hq (ys @ [x])" and ne: "ys \<noteq> []" and fuel: "length ys < fuel"
  shows "\<exists>hq'. queue_remove fuel x hq = Some hq' \<and> list_at (fst hq') (q_head (snd hq')) ys
    \<and> q_tail (snd hq') = Next x"
proof -
  obtain h q where hq: "hq = (h, q)" by (cases hq)
  note r = rep [unfolded hq]
  have d: "distinct (ys @ [x])" using queue_rep_distinct [OF r] .
  have p: "path h (q_head q) ys (Some x)" "h x = None" and t: "q_tail q = Next x"
    using r by (auto simp: queue_rep_def tail_slot_def)
  have "path (h(last ys := None)) (q_head q) ys None"
    using d p ne by (intro path_set_last) auto
  with p t ne show ?thesis
    using queue_remove_step [OF r fuel] by (auto simp: hq)
qed

lemma push_stale_tail:
  assumes "list_at (fst hq) (q_head (snd hq)) ys" "q_tail (snd hq) = Next x"
    "x \<notin> set ys" "y \<notin> set ys"
  shows "list_at (fst (queue_push y hq)) (q_head (snd (queue_push y hq))) ys"
  using assms by (cases hq) (simp add: queue_push_def write_slot_def)

end
