(* ===== verification/Sort_List.thy ===== *)
theory Sort_List
  imports Intrusive_List Compare
begin

text \<open>
  The merge sort of \<^verbatim>\<open>utility.c\<close>: \<^verbatim>\<open>get_sorted_sublist\<close>,
  \<^verbatim>\<open>merge_lists\<close> and \<^verbatim>\<open>sort_list\<close>, which re-link the nodes of an intrusive
  list in place through pointers to \<^verbatim>\<open>next\<close> fields.  The model runs on a store of
  such fields; a pointer to one of them, or to the local variable that holds a head, is
  a \<^verbatim>\<open>slot\<close>.  Loops over the store count their steps with fuel, and
  \<^verbatim>\<open>sort_list_correct\<close> shows that twice the length of the list plus two is enough.
  The second half is the functional merge sort the pointer code refines: it is sorted,
  a permutation and stable for every total preorder.
\<close>

section \<open>The code\<close>

fun put :: "slot \<Rightarrow> addr option \<Rightarrow> heap \<times> addr option \<Rightarrow> heap \<times> addr option" where
  "put Var p (h, v) = (h, p)"
| "put (Next a) p (h, v) = (h(a := p), v)"

fun sublist_loop :: "nat \<Rightarrow> heap \<Rightarrow> addr cmp \<Rightarrow> addr \<Rightarrow> addr option \<Rightarrow> addr option" where
  "sublist_loop 0 h compare tail head = None"
| "sublist_loop (Suc fuel) h compare tail head =
     (case head of
        None \<Rightarrow> Some tail
      | Some x \<Rightarrow> if compare tail x \<le> 0 then sublist_loop fuel h compare x (h x) else Some tail)"

text \<open>The inner option is the returned pointer, the outer one runs out of fuel.\<close>

definition get_sorted_sublist :: "nat \<Rightarrow> heap \<Rightarrow> addr option \<Rightarrow> addr cmp \<Rightarrow> addr option option" where
  "get_sorted_sublist fuel h head compare = (case head of
     None \<Rightarrow> Some None
   | Some tail \<Rightarrow> map_option Some (sublist_loop fuel h compare tail (h tail)))"

fun merge_loop ::
    "nat \<Rightarrow> addr cmp \<Rightarrow> heap \<times> addr option \<Rightarrow> slot \<Rightarrow> addr option \<Rightarrow> addr option \<Rightarrow>
      (heap \<times> addr option) option" where
  "merge_loop 0 compare hv current head1 head2 = None"
| "merge_loop (Suc fuel) compare hv current head1 head2 =
     (case head1 of
        None \<Rightarrow> Some (put current head2 hv)
      | Some a \<Rightarrow>
          (case head2 of
             None \<Rightarrow> Some (put current head1 hv)
           | Some b \<Rightarrow>
               if compare a b \<le> 0
               then (let hv' = put current head1 hv
                     in merge_loop fuel compare hv' (Next a) (fst hv' a) head2)
               else (let hv' = put current head2 hv
                     in merge_loop fuel compare hv' (Next b) head1 (fst hv' b))))"

definition merge_lists ::
    "nat \<Rightarrow> heap \<Rightarrow> addr option \<Rightarrow> addr option \<Rightarrow> addr cmp \<Rightarrow> (heap \<times> addr option) option" where
  "merge_lists fuel h head1 head2 compare = merge_loop fuel compare (h, None) Var head1 head2"

text \<open>
  One round of the outer loop of \<^verbatim>\<open>sort_list\<close>: the variable \<^verbatim>\<open>head\<close> is the
  second component of the state, \<^verbatim>\<open>new_head\<close> the slot the next merged list goes to.
\<close>

fun sort_pass ::
    "nat \<Rightarrow> addr cmp \<Rightarrow> heap \<times> addr option \<Rightarrow> slot \<Rightarrow> addr option \<Rightarrow>
      ((heap \<times> addr option) \<times> slot) option" where
  "sort_pass 0 compare hv new_head iter = None"
| "sort_pass (Suc fuel) compare hv new_head iter =
     (if iter = None then Some (hv, new_head)
      else (case get_sorted_sublist fuel (fst hv) iter compare of
         Some (Some tail1) \<Rightarrow>
           (case fst hv tail1 of
              None \<Rightarrow> Some (put new_head iter hv, new_head)
            | Some head2 \<Rightarrow>
                (case get_sorted_sublist fuel (fst hv) (Some head2) compare of
                   Some (Some tail2) \<Rightarrow>
                     (let iter' = fst hv tail2;
                          h = (fst hv)(tail1 := None, tail2 := None)
                      in case merge_lists fuel h iter (Some head2) compare of
                           None \<Rightarrow> None
                         | Some (h', merged) \<Rightarrow>
                             (let hv' = put new_head merged (h', snd hv)
                              in sort_pass fuel compare hv'
                                   (if fst hv' tail1 \<noteq> None then Next tail2 else Next tail1) iter'))
                 | _ \<Rightarrow> None))
       | _ \<Rightarrow> None))"

fun sort_list ::
    "nat \<Rightarrow> addr cmp \<Rightarrow> heap \<times> addr option \<Rightarrow> (heap \<times> addr option) option" where
  "sort_list 0 compare hv = None"
| "sort_list (Suc fuel) compare hv =
     (case sort_pass fuel compare hv Var (snd hv) of
        None \<Rightarrow> None
      | Some (hv', new_head) \<Rightarrow>
          if new_head \<noteq> Var then sort_list fuel compare hv' else Some hv')"

section \<open>The sort on lists\<close>

fun split_run :: "'a cmp \<Rightarrow> 'a \<Rightarrow> 'a list \<Rightarrow> 'a list \<times> 'a list" where
  "split_run compare x [] = ([x], [])"
| "split_run compare x (y # ys) =
     (if compare x y \<le> 0 then map_prod ((#) x) id (split_run compare y ys) else ([x], y # ys))"

fun merge_runs :: "'a cmp \<Rightarrow> 'a list \<Rightarrow> 'a list \<Rightarrow> 'a list" where
  "merge_runs compare [] ys = ys"
| "merge_runs compare (x # xs) [] = x # xs"
| "merge_runs compare (x # xs) (y # ys) =
     (if compare x y \<le> 0 then x # merge_runs compare xs (y # ys)
      else y # merge_runs compare (x # xs) ys)"

lemma split_run_append: "fst (split_run compare x xs) @ snd (split_run compare x xs) = x # xs"
  by (induction compare x xs rule: split_run.induct) auto

lemma split_run_nonempty [simp]: "fst (split_run compare x xs) \<noteq> []"
  by (induction compare x xs rule: split_run.induct) auto

lemma split_run_length: "length (snd (split_run compare x xs)) \<le> length xs"
  by (induction compare x xs rule: split_run.induct) auto

lemma split_run_rest: "split_run compare x xs = (r, s) \<Longrightarrow> length s \<le> length xs"
  using split_run_length [of compare x xs] by simp

lemma merge_runs_Nil [simp]: "merge_runs compare xs [] = xs"
  by (cases xs) auto

lemma mset_merge_runs [simp]: "mset (merge_runs compare xs ys) = mset xs + mset ys"
  by (induction compare xs ys rule: merge_runs.induct) auto

lemma set_merge_runs [simp]: "set (merge_runs compare xs ys) = set xs \<union> set ys"
  by (induction compare xs ys rule: merge_runs.induct) auto

lemma length_merge_runs [simp]: "length (merge_runs compare xs ys) = length xs + length ys"
  by (induction compare xs ys rule: merge_runs.induct) auto

lemma merge_runs_eq_Nil [simp]: "merge_runs compare xs ys = [] \<longleftrightarrow> xs = [] \<and> ys = []"
  by (metis length_merge_runs add_is_0 length_0_conv)

lemma last_merge_runs:
  "xs \<noteq> [] \<Longrightarrow> ys \<noteq> [] \<Longrightarrow> last (merge_runs compare xs ys) \<in> {last xs, last ys}"
  by (induction compare xs ys rule: merge_runs.induct) auto

text \<open>One round over the runs of a list: neighbouring runs are merged pairwise.\<close>

function merge_pass :: "'a cmp \<Rightarrow> 'a list \<Rightarrow> 'a list" where
  "merge_pass compare [] = []"
| "merge_pass compare (x # xs) =
     (case split_run compare x xs of
        (r1, []) \<Rightarrow> r1
      | (r1, y # ys) \<Rightarrow>
          (case split_run compare y ys of (r2, rest) \<Rightarrow> merge_runs compare r1 r2 @ merge_pass compare rest))"
  by pat_completeness auto
termination
  by (relation "measure (\<lambda>(compare, xs). length xs)") (auto dest!: split_run_rest [OF sym])

fun num_runs :: "'a cmp \<Rightarrow> 'a list \<Rightarrow> nat" where
  "num_runs compare [] = 0"
| "num_runs compare [x] = 1"
| "num_runs compare (x # y # ys) =
     (if compare x y \<le> 0 then num_runs compare (y # ys) else Suc (num_runs compare (y # ys)))"

lemma num_runs_split:
  "num_runs compare (x # xs) = Suc (num_runs compare (snd (split_run compare x xs)))"
  by (induction compare x xs rule: split_run.induct) auto

lemma num_runs_le_length: "num_runs compare xs \<le> length xs"
  by (induction compare xs rule: num_runs.induct) auto

lemma num_runs_append: "num_runs compare (xs @ ys) \<le> num_runs compare xs + num_runs compare ys"
proof (induction compare xs rule: num_runs.induct)
  case (2 compare x)
  then show ?case by (cases ys) auto
qed auto

lemma num_runs_0 [simp]: "num_runs compare xs = 0 \<longleftrightarrow> xs = []"
  by (induction compare xs rule: num_runs.induct) auto

lemma split_run_eq: "split_run compare x xs = (r, s) \<Longrightarrow> x # xs = r @ s \<and> r \<noteq> []"
  using split_run_append [of compare x xs] split_run_nonempty [of compare x xs] by simp

lemma merge_pass_cases:
  obtains (one) r where "split_run compare x xs = (r, [])" "merge_pass compare (x # xs) = r" "x # xs = r" "r \<noteq> []"
    "num_runs compare (x # xs) = 1"
  | (two) r1 y ys r2 rest where "split_run compare x xs = (r1, y # ys)" "split_run compare y ys = (r2, rest)"
    "merge_pass compare (x # xs) = merge_runs compare r1 r2 @ merge_pass compare rest"
    "x # xs = r1 @ y # ys" "y # ys = r2 @ rest" "r1 \<noteq> []" "r2 \<noteq> []" "length rest < length (x # xs)"
    "num_runs compare (x # xs) = Suc (Suc (num_runs compare rest))"
proof (cases "snd (split_run compare x xs)")
  case Nil
  then obtain r where r: "split_run compare x xs = (r, [])" by (metis prod.collapse)
  with split_run_eq [OF r] num_runs_split [of compare x xs] show ?thesis
    by (intro one) auto
next
  case (Cons y ys)
  then obtain r1 where r1: "split_run compare x xs = (r1, y # ys)" by (metis prod.collapse)
  obtain r2 rest where r2: "split_run compare y ys = (r2, rest)" by (cases "split_run compare y ys")
  have "merge_pass compare (x # xs) = merge_runs compare r1 r2 @ merge_pass compare rest"
    using r1 r2 by simp
  moreover have "num_runs compare (x # xs) = Suc (Suc (num_runs compare rest))"
    using r1 r2 num_runs_split [of compare x xs] num_runs_split [of compare y ys] by simp
  moreover have "length rest < length (x # xs)"
    using split_run_rest [OF r1] split_run_rest [OF r2] by simp
  moreover have "x # xs = r1 @ y # ys" "r1 \<noteq> []" "y # ys = r2 @ rest" "r2 \<noteq> []"
    using split_run_eq [OF r1] split_run_eq [OF r2] by blast+
  ultimately show ?thesis using r1 r2 by (intro two)
qed

lemma mset_merge_pass [simp]: "mset (merge_pass compare xs) = mset xs"
proof (induction "length xs" arbitrary: xs rule: less_induct)
  case less
  show ?case
  proof (cases xs)
    case (Cons x zs)
    show ?thesis
    proof (cases rule: merge_pass_cases [of compare x zs])
      case one
      with Cons show ?thesis by simp
    next
      case (two r1 y ys r2 rest)
      with Cons less [of rest] show ?thesis by simp
    qed
  qed simp
qed

lemma set_merge_pass [simp]: "set (merge_pass compare xs) = set xs"
  by (rule mset_eq_set) simp

lemma merge_pass_eq_Nil [simp]: "merge_pass compare xs = [] \<longleftrightarrow> xs = []"
  using set_merge_pass [of compare xs] by (metis set_empty)

section \<open>Sortedness and stability for every total preorder\<close>

context comparator
begin

lemma sorted_Cons:
  "sorted_wrt (\<lambda>a b. compare a b \<le> 0) (x # y # xs) \<longleftrightarrow>
    compare x y \<le> 0 \<and> sorted_wrt (\<lambda>a b. compare a b \<le> 0) (y # xs)"
  by (auto intro: trans)

lemma sorted_num_runs: "sorted_wrt (\<lambda>a b. compare a b \<le> 0) xs \<longleftrightarrow> num_runs compare xs \<le> 1"
proof (induction xs rule: induct_list012)
  case (3 x y xs)
  have "num_runs compare (y # xs) \<noteq> 0" by simp
  with 3 show ?case
    unfolding sorted_Cons by (cases "compare x y \<le> 0") (simp_all del: sorted_wrt.simps)
qed auto

lemma sorted_split_run:
  "sorted_wrt (\<lambda>a b. compare a b \<le> 0) (fst (split_run compare x xs)) \<and> hd (fst (split_run compare x xs)) = x"
proof (induction xs arbitrary: x)
  case (Cons y ys)
  show ?case
    using Cons.IH [of y] by (cases "fst (split_run compare y ys)") (auto intro: trans)
qed simp

lemma sorted_merge_runs:
  "sorted_wrt (\<lambda>a b. compare a b \<le> 0) xs \<Longrightarrow> sorted_wrt (\<lambda>a b. compare a b \<le> 0) ys \<Longrightarrow>
    sorted_wrt (\<lambda>a b. compare a b \<le> 0) (merge_runs compare xs ys)"
  by (induction c \<equiv> compare xs ys rule: merge_runs.induct) (auto intro: trans dest: not_le_le)

lemma stable_merge_runs:
  "sorted_wrt (\<lambda>a b. compare a b \<le> 0) xs \<Longrightarrow>
    filter (\<lambda>a. compare a k \<le> 0 \<and> compare k a \<le> 0) (merge_runs compare xs ys) =
    filter (\<lambda>a. compare a k \<le> 0 \<and> compare k a \<le> 0) xs @ filter (\<lambda>a. compare a k \<le> 0 \<and> compare k a \<le> 0) ys"
proof (induction c \<equiv> compare xs ys rule: merge_runs.induct)
  case (3 x xs y ys)
  show ?case
  proof (cases "compare x y \<le> 0")
    case False
    have "a \<in> set (x # xs) \<Longrightarrow> compare y k \<le> 0 \<Longrightarrow> compare k y \<le> 0 \<Longrightarrow> \<not> compare a k \<le> 0" for a
      using 3(3) False by (auto intro: trans)
    then have "compare y k \<le> 0 \<and> compare k y \<le> 0 \<Longrightarrow>
        filter (\<lambda>a. compare a k \<le> 0 \<and> compare k a \<le> 0) (x # xs) = []"
      by (auto simp: filter_empty_conv)
    with 3 False show ?thesis by auto
  qed (use 3 in auto)
qed auto

lemma num_runs_sorted_le_1: "sorted_wrt (\<lambda>a b. compare a b \<le> 0) xs \<Longrightarrow> num_runs compare xs \<le> 1"
  by (simp add: sorted_num_runs)

lemma merge_pass_props:
  "num_runs compare (merge_pass compare xs) \<le> (num_runs compare xs + 1) div 2 \<and>
   filter (\<lambda>a. compare a k \<le> 0 \<and> compare k a \<le> 0) (merge_pass compare xs) =
   filter (\<lambda>a. compare a k \<le> 0 \<and> compare k a \<le> 0) xs"
proof (induction "length xs" arbitrary: xs rule: less_induct)
  case less
  show ?case
  proof (cases xs)
    case (Cons x zs)
    show ?thesis
    proof (cases rule: merge_pass_cases [of compare x zs])
      case one
      with Cons show ?thesis by simp
    next
      case (two r1 y ys r2 rest)
      have s: "sorted_wrt (\<lambda>a b. compare a b \<le> 0) r1" "sorted_wrt (\<lambda>a b. compare a b \<le> 0) r2"
        using sorted_split_run [of x zs] sorted_split_run [of y ys] two by auto
      then have "num_runs compare (merge_runs compare r1 r2) \<le> 1"
        by (intro num_runs_sorted_le_1 sorted_merge_runs)
      moreover note num_runs_append [of compare "merge_runs compare r1 r2" "merge_pass compare rest"]
      moreover note less [of rest]
      ultimately show ?thesis using Cons two s by (simp add: stable_merge_runs)
    qed
  qed simp
qed

end

section \<open>The code refines the sort on lists\<close>

lemma sublist_loop_refines:
  assumes "list_at h (h a) xs" "length xs < fuel"
  shows "sublist_loop fuel h compare a (h a) = Some (last (fst (split_run compare a xs)))"
  using assms
proof (induction xs arbitrary: a fuel)
  case Nil
  then show ?case by (cases fuel) auto
next
  case (Cons x xs)
  then obtain f where "fuel = Suc f" by (cases fuel) auto
  with Cons show ?case by simp
qed

lemma get_sorted_sublist_refines:
  assumes "list_at h (Some a) (a # xs)" "length xs < fuel"
  shows "get_sorted_sublist fuel h (Some a) compare = Some (Some (last (fst (split_run compare a xs))))"
  using assms by (simp add: get_sorted_sublist_def sublist_loop_refines)

text \<open>
  Writing to the slot behind the list \<^verbatim>\<open>ds\<close> that starts in the variable appends to
  it.
\<close>

lemma put_tail_slot:
  assumes "distinct ds" "ds \<noteq> [] \<longrightarrow> path h v ds q"
  shows "path (fst (put (tail_slot ds) p (h, v))) (snd (put (tail_slot ds) p (h, v))) ds p"
    and "a \<notin> set ds \<Longrightarrow> fst (put (tail_slot ds) p (h, v)) a = h a"
  using assms by (auto simp: tail_slot_def path_set_last)

lemma merge_loop_refines:
  assumes "list_at h p1 xs" "list_at h p2 ys" "distinct (ds @ xs @ ys)"
    "ds \<noteq> [] \<longrightarrow> (\<exists>q. path h v ds q)" "length xs + length ys < fuel"
  shows "\<exists>h' v'. merge_loop fuel compare (h, v) (tail_slot ds) p1 p2 = Some (h', v') \<and>
    list_at h' v' (ds @ merge_runs compare xs ys) \<and> (\<forall>a. a \<notin> set (ds @ xs @ ys) \<longrightarrow> h' a = h a)"
  using assms
proof (induction c \<equiv> compare xs ys arbitrary: h v ds p1 p2 fuel rule: merge_runs.induct)
  case (1 ys)
  then obtain f where f: "fuel = Suc f" by (cases fuel) auto
  obtain h1 v1 where e: "put (tail_slot ds) p2 (h, v) = (h1, v1)" by fastforce
  have d: "distinct ds" "set ys \<inter> set ds = {}" using 1(3) by auto
  have p: "path h1 v1 ds p2" and fr: "a \<notin> set ds \<Longrightarrow> h1 a = h a" for a
    using d 1(4) put_tail_slot [where ds = ds and h = h and v = v and p = p2] e by auto
  have "path h1 p2 ys None" by (rule path_frame [OF 1(2) fr d(2)])
  with p have "path h1 v1 (ds @ ys) None" by auto
  with 1(1) f e fr show ?case by simp
next
  case (2 x xs)
  then obtain f where f: "fuel = Suc f" by (cases fuel) auto
  obtain h1 v1 where e: "put (tail_slot ds) p1 (h, v) = (h1, v1)" by fastforce
  have d: "distinct ds" "set (x # xs) \<inter> set ds = {}" using 2(3) by auto
  have p: "path h1 v1 ds p1" and fr: "a \<notin> set ds \<Longrightarrow> h1 a = h a" for a
    using d 2(4) put_tail_slot [where ds = ds and h = h and v = v and p = p1] e by auto
  have "path h1 p1 (x # xs) None" by (rule path_frame [OF 2(1) fr d(2)])
  with p have "path h1 v1 (ds @ x # xs) None" by auto
  with 2(1,2) f e fr show ?case by auto
next
  case (3 x xs y ys)
  then obtain f where f: "fuel = Suc f" by (cases fuel) auto
  have pq: "p1 = Some x" "p2 = Some y" using 3 by auto
  show ?case
  proof (cases "compare x y \<le> 0")
    case True
    obtain h1 v1 where e: "put (tail_slot ds) (Some x) (h, v) = (h1, v1)" by fastforce
    have p: "path h1 v1 ds (Some x)" and fr: "a \<notin> set ds \<Longrightarrow> h1 a = h a" for a
      using 3(5,6) put_tail_slot [where ds = ds and h = h and v = v and p = "Some x"] e by auto
    have dx: "set (x # xs) \<inter> set ds = {}" "set (y # ys) \<inter> set ds = {}" using 3(5) by auto
    have "list_at h1 p1 (x # xs)" by (rule path_frame [OF 3(3) fr dx(1)])
    then have l: "list_at h1 (h1 x) xs" by simp
    have l2: "list_at h1 p2 (y # ys)" by (rule path_frame [OF 3(4) fr dx(2)])
    have d: "distinct ((ds @ [x]) @ xs @ y # ys)" using 3(5) by simp
    have q: "ds @ [x] \<noteq> [] \<longrightarrow> (\<exists>q. path h1 v1 (ds @ [x]) q)" using p by simp
    have len: "length xs + length (y # ys) < f" using 3(7) f by simp
    from 3(1) [OF True l l2 d q len] obtain h' v' where
      r: "merge_loop f compare (h1, v1) (tail_slot (ds @ [x])) (h1 x) p2 = Some (h', v')"
        "list_at h' v' ((ds @ [x]) @ merge_runs compare xs (y # ys))"
        "\<forall>a. a \<notin> set ((ds @ [x]) @ xs @ y # ys) \<longrightarrow> h' a = h1 a" by blast
    then show ?thesis
      using True f pq e fr by (auto simp: tail_slot_def Let_def)
  next
    case False
    obtain h1 v1 where e: "put (tail_slot ds) (Some y) (h, v) = (h1, v1)" by fastforce
    have p: "path h1 v1 ds (Some y)" and fr: "a \<notin> set ds \<Longrightarrow> h1 a = h a" for a
      using 3(5,6) put_tail_slot [where ds = ds and h = h and v = v and p = "Some y"] e by auto
    have dx: "set (x # xs) \<inter> set ds = {}" "set (y # ys) \<inter> set ds = {}" using 3(5) by auto
    have "list_at h1 p2 (y # ys)" by (rule path_frame [OF 3(4) fr dx(2)])
    then have l: "list_at h1 (h1 y) ys" by simp
    have l2: "list_at h1 p1 (x # xs)" by (rule path_frame [OF 3(3) fr dx(1)])
    have d: "distinct ((ds @ [y]) @ (x # xs) @ ys)" using 3(5) by auto
    have q: "ds @ [y] \<noteq> [] \<longrightarrow> (\<exists>q. path h1 v1 (ds @ [y]) q)" using p by simp
    have len: "length (x # xs) + length ys < f" using 3(7) f by simp
    from 3(2) [OF False l2 l d q len] obtain h' v' where
      r: "merge_loop f compare (h1, v1) (tail_slot (ds @ [y])) p1 (h1 y) = Some (h', v')"
        "list_at h' v' ((ds @ [y]) @ merge_runs compare (x # xs) ys)"
        "\<forall>a. a \<notin> set ((ds @ [y]) @ (x # xs) @ ys) \<longrightarrow> h' a = h1 a" by blast
    then show ?thesis
      using False f pq e fr by (auto simp: tail_slot_def Let_def)
  qed
qed

lemma merge_lists_refines:
  assumes "list_at h p1 xs" "list_at h p2 ys" "distinct (xs @ ys)" "length xs + length ys < fuel"
  shows "\<exists>h' v'. merge_lists fuel h p1 p2 compare = Some (h', v') \<and>
    list_at h' v' (merge_runs compare xs ys) \<and> (\<forall>a. a \<notin> set (xs @ ys) \<longrightarrow> h' a = h a)"
  using merge_loop_refines [of h p1 xs p2 ys "[]" None fuel compare] assms
  by (simp add: merge_lists_def tail_slot_def)

lemma list_at_next_None: "list_at h p xs \<Longrightarrow> a \<in> set xs \<Longrightarrow> h a = None \<longleftrightarrow> a = last xs"
proof (induction xs arbitrary: p)
  case (Cons x xs)
  then show ?case
    using list_at_notin_tail [of h x xs] by (cases xs) auto
qed simp

text \<open>
  One round: the part before \<^verbatim>\<open>new_head\<close> is done, the part from \<^verbatim>\<open>iter\<close> is
  still to be merged; \<^verbatim>\<open>new_head\<close> ends as the variable only if there was at most one
  run to begin with.
\<close>

definition pass_state :: "heap \<Rightarrow> addr option \<Rightarrow> addr list \<Rightarrow> slot \<Rightarrow> addr option \<Rightarrow> addr list \<Rightarrow> bool" where
  "pass_state h v ds new_head iter rs \<longleftrightarrow>
     distinct (ds @ rs) \<and> list_at h iter rs \<and> new_head = tail_slot ds \<and>
     (if ds = [] then v = iter else list_at h v ds)"

lemma sort_pass_two_runs:
  assumes st: "pass_state h v ds new_head (Some x) (r1 @ r2 @ rest)"
    and r: "r1 \<noteq> []" "r2 \<noteq> []"
    and fuel: "length (r1 @ r2 @ rest) < fuel"
    and t1: "tail1 = last r1" and t2: "tail2 = last r2"
  shows "\<exists>head2 h' merged. h tail1 = Some head2 \<and>
    merge_lists fuel (h(tail1 := None, tail2 := None)) (Some x) (Some head2) compare = Some (h', merged) \<and>
    pass_state (fst (put new_head merged (h', v))) (snd (put new_head merged (h', v)))
      (ds @ merge_runs compare r1 r2)
      (if fst (put new_head merged (h', v)) tail1 \<noteq> None then Next tail2 else Next tail1)
      (h tail2) rest \<and>
    (\<forall>a. a \<notin> set (ds @ r1 @ r2) \<longrightarrow> fst (put new_head merged (h', v)) a = h a)"
proof -
  from st r have d: "distinct (ds @ r1 @ r2 @ rest)" and nh: "new_head = tail_slot ds"
    and v: "if ds = [] then v = Some x else list_at h v ds"
    by (auto simp: pass_state_def)
  from st obtain p2 p3 where p: "path h (Some x) r1 p2" "path h p2 r2 p3" "list_at h p3 rest"
    by (auto simp: pass_state_def)
  have in12: "tail1 \<in> set r1" "tail2 \<in> set r2" using r t1 t2 by auto
  have n1: "h tail1 = p2" and n2: "h tail2 = p3"
    using p r t1 t2 by (auto simp: path_last)
  obtain head2 where h2: "p2 = Some head2" using p(2) r(2) by (cases r2) auto
  let ?h = "h(tail1 := None, tail2 := None)"
  have "path (h(tail1 := None)) (Some x) r1 None"
    using p(1) r(1) d t1 by (auto intro: path_set_last)
  moreover have notin: "tail1 \<notin> set r2" "tail2 \<notin> set r1" "tail1 \<noteq> tail2" using in12 d by auto
  ultimately have l1: "list_at ?h (Some x) r1" by simp
  have "path (h(tail2 := None)) p2 r2 None"
    using p(2) r(2) d t2 by (auto intro: path_set_last)
  then have "path ((h(tail2 := None))(tail1 := None)) p2 r2 None" using notin by simp
  then have l2: "list_at ?h p2 r2" using notin by (simp add: fun_upd_twist)
  obtain h' m where m: "merge_lists fuel ?h (Some x) p2 compare = Some (h', m)"
      "list_at h' m (merge_runs compare r1 r2)" "\<forall>a. a \<notin> set (r1 @ r2) \<longrightarrow> h' a = ?h a"
    using merge_lists_refines [OF l1 l2, of fuel compare] d fuel by auto
  let ?hv = "put new_head m (h', v)"
  have fr: "a \<notin> set (r1 @ r2) \<Longrightarrow> h' a = h a" for a using m(3) in12 by auto
  have "set ds \<inter> set (r1 @ r2) = {}" using d by auto
  then have vd: "ds \<noteq> [] \<longrightarrow> path h' v ds None"
    using v path_frame [of h v ds None "set (r1 @ r2)" h'] fr by auto
  have dds: "distinct ds" using d by simp
  have put: "path (fst ?hv) (snd ?hv) ds m"
    unfolding nh by (rule put_tail_slot(1) [OF dds vd])
  have put_fr: "a \<notin> set ds \<Longrightarrow> fst ?hv a = h' a" for a
    unfolding nh by (rule put_tail_slot(2) [OF dds vd])
  have m12: "set (merge_runs compare r1 r2) \<inter> set ds = {}" using d by auto
  have "list_at (fst ?hv) m (merge_runs compare r1 r2)"
    by (rule path_frame [OF m(2) put_fr m12])
  with put have done': "list_at (fst ?hv) (snd ?hv) (ds @ merge_runs compare r1 r2)" by auto
  have all_fr: "a \<notin> set (ds @ r1 @ r2) \<Longrightarrow> fst ?hv a = h a" for a using fr put_fr by auto
  have rd: "set rest \<inter> set (ds @ r1 @ r2) = {}" using d by auto
  have rest': "list_at (fst ?hv) p3 rest" by (rule path_frame [OF p(3) all_fr rd])
  have lm: "last (merge_runs compare r1 r2) \<in> {tail1, tail2}"
    using last_merge_runs [OF r, of compare] t1 t2 by simp
  have mne: "merge_runs compare r1 r2 \<noteq> []" using r by simp
  have "tail1 \<in> set (ds @ merge_runs compare r1 r2)" using in12 by simp
  from list_at_next_None [OF done' this]
  have last: "(if fst ?hv tail1 \<noteq> None then Next tail2 else Next tail1) = tail_slot (ds @ merge_runs compare r1 r2)"
    using lm mne by (auto simp: tail_slot_def)
  have dd: "distinct ((ds @ merge_runs compare r1 r2) @ rest)"
    using d by (subst mset_eq_imp_distinct_iff [of _ "ds @ r1 @ r2 @ rest"]) simp_all
  have "pass_state (fst ?hv) (snd ?hv) (ds @ merge_runs compare r1 r2)
      (if fst ?hv tail1 \<noteq> None then Next tail2 else Next tail1) (h tail2) rest"
    unfolding pass_state_def last n2 using dd done' rest' mne r by simp
  then show ?thesis using m(1) h2 n1 all_fr by blast
qed

lemma sort_pass_refines:
  assumes "pass_state h v ds new_head iter rs" "length rs + 1 < fuel"
  shows "\<exists>h' v' new_head'. sort_pass fuel compare (h, v) new_head iter = Some ((h', v'), new_head') \<and>
    list_at h' v' (ds @ merge_pass compare rs) \<and>
    (new_head' = Var \<longleftrightarrow> ds = [] \<and> num_runs compare rs \<le> 1) \<and>
    (\<forall>a. a \<notin> set (ds @ rs) \<longrightarrow> h' a = h a)"
  using assms
proof (induction "length rs" arbitrary: h v ds new_head iter rs fuel rule: less_induct)
  case less
  then obtain f where f: "fuel = Suc f" by (cases fuel) auto
  note st = less.prems(1)
  show ?case
  proof (cases rs)
    case Nil
    with st f show ?thesis by (cases ds) (auto simp: pass_state_def tail_slot_def)
  next
    case (Cons x zs)
    with st have it: "iter = Some x" "list_at h (Some x) (x # zs)" by (auto simp: pass_state_def)
    have len: "length zs < f" using less.prems(2) Cons f by simp
    note run1 = get_sorted_sublist_refines [OF it(2) len, of compare]
    show ?thesis
    proof (cases rule: merge_pass_cases [of compare x zs])
      case (one r)
      then have "h (last r) = None" using it(2) path_last [of r h "Some x" None] by simp
      moreover have "list_at (fst (put new_head iter (h, v))) (snd (put new_head iter (h, v))) (ds @ r)"
        and "\<forall>a. a \<notin> set ds \<longrightarrow> fst (put new_head iter (h, v)) a = h a"
      proof -
        have d: "distinct ds" "set r \<inter> set ds = {}" "ds \<noteq> [] \<longrightarrow> path h v ds None" and nh: "new_head = tail_slot ds"
          using st Cons one by (auto simp: pass_state_def)
        have fr: "a \<notin> set ds \<Longrightarrow> fst (put new_head iter (h, v)) a = h a" for a
          unfolding nh by (rule put_tail_slot(2) [OF d(1,3)])
        have "list_at h iter r" using it one by simp
        then have "list_at (fst (put new_head iter (h, v))) iter r"
          by (rule path_frame [OF _ fr d(2)])
        moreover have "path (fst (put new_head iter (h, v))) (snd (put new_head iter (h, v))) ds iter"
          unfolding nh by (rule put_tail_slot(1) [OF d(1,3)])
        ultimately show "list_at (fst (put new_head iter (h, v))) (snd (put new_head iter (h, v))) (ds @ r)"
          by auto
        show "\<forall>a. a \<notin> set ds \<longrightarrow> fst (put new_head iter (h, v)) a = h a" using fr by simp
      qed
      moreover have "new_head = Var \<longleftrightarrow> ds = []" using st by (auto simp: pass_state_def tail_slot_def)
      ultimately show ?thesis
        using run1 one Cons f it by (cases "put new_head iter (h, v)") auto
    next
      case (two r1 y ys r2 rest)
      have st2: "pass_state h v ds new_head (Some x) (r1 @ r2 @ rest)" using st Cons it two by simp
      have len2: "length (r1 @ r2 @ rest) < f" using two less.prems(2) f Cons by simp
      from sort_pass_two_runs [OF st2 two(6,7) len2 refl refl, of compare] obtain head2 h' merged where
        s: "h (last r1) = Some head2"
          "merge_lists f (h(last r1 := None, last r2 := None)) (Some x) (Some head2) compare = Some (h', merged)"
          "pass_state (fst (put new_head merged (h', v))) (snd (put new_head merged (h', v)))
             (ds @ merge_runs compare r1 r2)
             (if fst (put new_head merged (h', v)) (last r1) \<noteq> None then Next (last r2) else Next (last r1))
             (h (last r2)) rest"
          "\<forall>a. a \<notin> set (ds @ r1 @ r2) \<longrightarrow> fst (put new_head merged (h', v)) a = h a" by blast
      obtain h1 v1 where e: "put new_head merged (h', v) = (h1, v1)" by fastforce
      have "list_at h (Some head2) (y # ys)" using it(2) s(1) two path_last [of r1 h "Some x"] by auto
      then have y: "head2 = y" "list_at h (Some y) (y # ys)" by auto
      have pos: "0 < length r1" "0 < length r2" using two(6,7) by simp_all
      have "length (y # ys) = length r2 + length rest" using arg_cong [OF two(5), of length] by simp
      then have "length ys < f" using len2 by simp
      note run2 = get_sorted_sublist_refines [OF y(2) this, of compare]
      have "length rest < length rs" using two(8) Cons by simp
      moreover have "length rest + 1 < f" using len2 pos unfolding length_append by linarith
      ultimately have small: "length rest < length rs" "length rest + 1 < f" .
      from s(3) have s3: "pass_state h1 v1 (ds @ merge_runs compare r1 r2)
          (if h1 (last r1) \<noteq> None then Next (last r2) else Next (last r1)) (h (last r2)) rest"
        by (simp only: e fst_conv snd_conv)
      from less.hyps [OF small(1) s3 small(2)] obtain h2 v2 nh2 where
        n: "sort_pass f compare (h1, v1)
             (if h1 (last r1) \<noteq> None then Next (last r2) else Next (last r1)) (h (last r2))
             = Some ((h2, v2), nh2)"
        "list_at h2 v2 ((ds @ merge_runs compare r1 r2) @ merge_pass compare rest)"
        "nh2 = Var \<longleftrightarrow> ds @ merge_runs compare r1 r2 = [] \<and> num_runs compare rest \<le> 1"
        "\<forall>a. a \<notin> set ((ds @ merge_runs compare r1 r2) @ rest) \<longrightarrow> h2 a = h1 a"
        by blast
      have "sort_pass fuel compare (h, v) new_head iter = Some ((h2, v2), nh2)"
        using f it run1 run2 s(1,2) e n(1) y two(1,2) by simp
      then show ?thesis
        using n(2-4) s(4) e two Cons by auto
    qed
  qed
qed

text \<open>
  The sort as a whole: with a comparison that is a total preorder and enough fuel it
  returns, and the new list is a stable, sorted rearrangement of the old one; no other
  node is touched.
\<close>

context comparator
begin

lemma num_runs_pass_less:
  assumes "1 < num_runs compare xs"
  shows "num_runs compare (merge_pass compare xs) < num_runs compare xs"
proof -
  have "num_runs compare (merge_pass compare xs) \<le> (num_runs compare xs + 1) div 2"
    using merge_pass_props [of xs] by simp
  with assms show ?thesis by linarith
qed

end

context comparator
begin

lemma sort_merge_pass:
  assumes "num_runs compare xs \<le> 1"
  shows "sorted_wrt (\<lambda>a b. compare a b \<le> 0) (merge_pass compare xs)"
proof -
  have "num_runs compare (merge_pass compare xs) \<le> (num_runs compare xs + 1) div 2"
    using merge_pass_props [of xs] by simp
  with assms have "num_runs compare (merge_pass compare xs) \<le> 1" by linarith
  then show ?thesis by (simp add: sorted_num_runs)
qed

end

lemma sort_list_works:
  assumes "comparator compare" and "list_at h v xs" and "length xs + num_runs compare xs + 2 < fuel"
  shows "\<exists>h' v' ys. sort_list fuel compare (h, v) = Some (h', v') \<and> list_at h' v' ys \<and>
    sorted_wrt (\<lambda>a b. compare a b \<le> 0) ys \<and> mset ys = mset xs \<and>
    (\<forall>k. filter (\<lambda>a. compare a k \<le> 0 \<and> compare k a \<le> 0) ys =
         filter (\<lambda>a. compare a k \<le> 0 \<and> compare k a \<le> 0) xs) \<and>
    (\<forall>a. a \<notin> set xs \<longrightarrow> h' a = h a)"
  using assms(2,3)
proof (induction "num_runs compare xs" arbitrary: h v xs fuel rule: less_induct)
  case less
  then obtain f where f: "fuel = Suc f" by (cases fuel) auto
  have st: "pass_state h v [] Var v xs"
    using less.prems(1) list_at_distinct [OF less.prems(1)] by (simp add: pass_state_def tail_slot_def)
  have "length xs + 1 < f" using less.prems(2) f by simp
  from sort_pass_refines [OF st this, of compare] obtain h1 v1 nh where
    p: "sort_pass f compare (h, v) Var v = Some ((h1, v1), nh)"
      "list_at h1 v1 (merge_pass compare xs)" "nh = Var \<longleftrightarrow> num_runs compare xs \<le> 1"
      "\<forall>a. a \<notin> set xs \<longrightarrow> h1 a = h a" by auto
  note stable = comparator.merge_pass_props [OF assms(1), of xs, THEN conjunct2]
  show ?case
  proof (cases "num_runs compare xs \<le> 1")
    case True
    note sorted = comparator.sort_merge_pass [OF assms(1) True]
    have "sort_list fuel compare (h, v) = Some (h1, v1)" using f p True by simp
    with p(2,4) sorted stable mset_merge_pass [of compare xs] show ?thesis by blast
  next
    case False
    then have fewer: "num_runs compare (merge_pass compare xs) < num_runs compare xs"
      using comparator.num_runs_pass_less [OF assms(1)] by simp
    have "length (merge_pass compare xs) = length xs"
      using mset_eq_length [OF mset_merge_pass] .
    then have "length (merge_pass compare xs) + num_runs compare (merge_pass compare xs) + 2 < f"
      using fewer less.prems(2) f by simp
    from less.hyps [OF fewer p(2) this] obtain h' v' ys where
      r: "sort_list f compare (h1, v1) = Some (h', v')" "list_at h' v' ys"
        "sorted_wrt (\<lambda>a b. compare a b \<le> 0) ys" "mset ys = mset (merge_pass compare xs)"
        "\<forall>k. filter (\<lambda>a. compare a k \<le> 0 \<and> compare k a \<le> 0) ys =
          filter (\<lambda>a. compare a k \<le> 0 \<and> compare k a \<le> 0) (merge_pass compare xs)"
        "\<forall>a. a \<notin> set (merge_pass compare xs) \<longrightarrow> h' a = h1 a" by blast
    have "sort_list fuel compare (h, v) = Some (h', v')" using f p False r(1) by simp
    with r p(4) stable show ?thesis by auto
  qed
qed

text \<open>C6. sort_list returns for every total preorder and every list: it relinks the nodes of the list
  into a sorted list of the same nodes, keeps the order of equal nodes, and writes no other node.
  Twice the length of the list and three more steps are enough.\<close>

theorem sort_list_correct:
  assumes "comparator compare" and "list_at h v xs" and "2 * length xs + 2 < fuel"
  shows "\<exists>h' v' ys. sort_list fuel compare (h, v) = Some (h', v') \<and> list_at h' v' ys \<and>
    sorted_wrt (\<lambda>a b. compare a b \<le> 0) ys \<and> mset ys = mset xs \<and>
    (\<forall>k. filter (\<lambda>a. compare a k \<le> 0 \<and> compare k a \<le> 0) ys =
         filter (\<lambda>a. compare a k \<le> 0 \<and> compare k a \<le> 0) xs) \<and>
    (\<forall>a. a \<notin> set xs \<longrightarrow> h' a = h a)"
  using sort_list_works [OF assms(1,2), of fuel] num_runs_le_length [of compare xs] assms(3) by simp

theorem sort_list_correct_witness:
  "\<exists>h' v'. sort_list 9 (\<lambda>a b. int a - int b) ((\<lambda>_. None)(2 := Some 0, 0 := Some 1), Some 2) = Some (h', v') \<and>
    list_at h' v' [0, 1, 2]"
proof -
  have c: "comparator (\<lambda>a b. int a - int b)" by unfold_locales auto
  from sort_list_correct [OF c, of "(\<lambda>_. None)(2 := Some 0, 0 := Some 1)" "Some 2" "[2, 0, 1]" 9]
  obtain h' v' ys where r: "sort_list 9 (\<lambda>a b. int a - int b) ((\<lambda>_. None)(2 := Some 0, 0 := Some 1), Some 2) = Some (h', v')"
      "list_at h' v' ys" "sorted ys" "mset ys = mset [2, 0, 1]" by auto
  then have "ys = sort [2, 0, 1]" by (metis properties_for_sort)
  with r(1,2) show ?thesis by simp
qed

end
