(* ===== verification/Db_Pool.thy ===== *)
theory Db_Pool
  imports Intrusive_List
begin

text \<open>
  The database connection pool of the h2o application (\<^verbatim>\<open>database.c\<close>,
  \<^verbatim>\<open>database.h\<close>): a pool of PostgreSQL connections in pipeline mode, a FIFO queue
  of queries waiting for a connection, and per connection the queries in flight.

  Queries (\<^verbatim>\<open>db_query_param_t\<close>) and connections (\<^verbatim>\<open>db_conn_t\<close>) are named by
  their addresses.  The queues of queries are lists; the idle queue of connections is
  kept as the code has it, with \<^verbatim>\<open>next\<close> fields and a tail pointer, because
  \<^verbatim>\<open>remove_connection\<close> does not maintain the tail (theory
  \<^verbatim>\<open>Intrusive_List\<close>).  The results of libpq, h2o and system calls come from the
  environment: \<^verbatim>\<open>answers\<close> is the list of the values the next calls return (0, the
  success value, when it is exhausted), and an event carries the results that
  \<^verbatim>\<open>PQgetResult\<close> returns before \<^verbatim>\<open>PQisBusy\<close> holds.  What the callbacks of a
  query see is recorded in \<^verbatim>\<open>log\<close>; the queries accepted by
  \<^verbatim>\<open>execute_database_query\<close> in \<^verbatim>\<open>submitted\<close>; failed assertions and
  dereferences of a null pointer in \<^verbatim>\<open>faults\<close>; queries on a connection that is
  freed without their callbacks in \<^verbatim>\<open>dropped\<close>.
\<close>

section \<open>State\<close>

datatype pgres = PGRES_COMMAND_OK | PGRES_TUPLES_OK | PGRES_PIPELINE_SYNC | PGRES_FATAL_ERROR

datatype read_cb = Poll_read | Connect_read_ready | Read_ready
datatype write_cb = Poll_write | Connect_write_ready | Write_ready
datatype timer_cb = Connect_timeout | Query_timeout

datatype outcome = Result "pgres option" | Failed | Timed_out

datatype fault =
    Assert_conn_num | Assert_query_num | Assert_conn_query_num | Assert_tail | Assert_timer
  | Assert_result | Null_dereference

record db_config =
  max_db_conn_num :: nat
  max_query_num :: nat
  max_pipeline_query_num :: nat
  num_prepared_statements :: nat

text \<open>\<^verbatim>\<open>db_conn_t\<close>, with the callbacks installed on its socket and timer.\<close>

record db_conn_t =
  expect_sync :: bool
  ignore_result :: bool
  reset_flag :: bool
  conn_queries :: "nat list"
  conn_query_num :: nat
  prepared_statement :: bool
  timer :: "timer_cb option"
  sock_read :: "read_cb option"
  sock_write :: "write_cb option"
  sock_data :: bool

record db_conn_pool_t =
  conns :: "addr \<Rightarrow> db_conn_t option"
  next_conn :: addr
  idle :: "heap \<times> queue_t"
  queries :: "nat list"
  conn_num :: nat
  query_num :: nat
  process_flag :: bool
  local_messages :: nat
  answers :: "nat list"
  log :: "(nat \<times> outcome) list"
  submitted :: "nat list"
  dropped :: "nat list"
  faults :: "fault list"

definition initialize_database_connection_pool :: "db_config \<Rightarrow> db_conn_pool_t" where
  "initialize_database_connection_pool cfg =
     \<lparr>conns = (\<lambda>_. None), next_conn = 0, idle = ((\<lambda>_. None), queue_init), queries = [],
      conn_num = max_db_conn_num cfg, query_num = max_query_num cfg, process_flag = False,
      local_messages = 0, answers = [], log = [], submitted = [],
      dropped = [], faults = []\<rparr>"

definition ask :: "db_conn_pool_t \<Rightarrow> nat \<times> db_conn_pool_t" where
  "ask s = (case answers s of [] \<Rightarrow> (0, s) | a # as \<Rightarrow> (a, s\<lparr>answers := as\<rparr>))"

definition check_assert :: "fault \<Rightarrow> bool \<Rightarrow> db_conn_pool_t \<Rightarrow> db_conn_pool_t" where
  "check_assert f b s = (if b then s else s\<lparr>faults := faults s @ [f]\<rparr>)"

definition upd_conn :: "addr \<Rightarrow> (db_conn_t \<Rightarrow> db_conn_t) \<Rightarrow> db_conn_pool_t \<Rightarrow> db_conn_pool_t" where
  "upd_conn c f s = s\<lparr>conns := (conns s)(c := map_option f (conns s c))\<rparr>"

definition free_conn :: "addr \<Rightarrow> db_conn_pool_t \<Rightarrow> db_conn_pool_t" where
  "free_conn c s = s\<lparr>conns := (conns s)(c := None)\<rparr>"

text \<open>A callback of the query \<^verbatim>\<open>q\<close>: \<^verbatim>\<open>on_result\<close>, \<^verbatim>\<open>on_error\<close> or \<^verbatim>\<open>on_timeout\<close>.\<close>

definition notify :: "outcome \<Rightarrow> nat \<Rightarrow> db_conn_pool_t \<Rightarrow> db_conn_pool_t" where
  "notify r q s = s\<lparr>log := log s @ [(q, r)]\<rparr>"

text \<open>\<^verbatim>\<open>*tail = &conn->l; tail = &conn->l.next; conn->l.next = NULL\<close> on the idle queue.\<close>

definition push_idle :: "addr \<Rightarrow> db_conn_pool_t \<Rightarrow> db_conn_pool_t" where
  "push_idle c s = s\<lparr>idle := queue_push c (idle s)\<rparr>"

section \<open>Errors\<close>

definition error_notification :: "db_config \<Rightarrow> bool \<Rightarrow> db_conn_pool_t \<Rightarrow> db_conn_pool_t" where
  "error_notification cfg timeout s0 =
     (let s1 = check_assert Assert_conn_num (conn_num s0 < max_db_conn_num cfg) s0;
          s2 = s1\<lparr>conn_num := conn_num s1 + 1\<rparr>
      in if conn_num s2 = max_db_conn_num cfg
         then fold (notify (if timeout then Timed_out else Failed)) (queries s2)
                (s2\<lparr>queries := [], query_num := max_query_num cfg\<rparr>)
         else s2)"

text \<open>Returns whether \<^verbatim>\<open>PQflush\<close> failed: 0 all sent, 1 data left, otherwise an error.\<close>

definition flush_connection :: "write_cb \<Rightarrow> addr \<Rightarrow> db_conn_pool_t \<Rightarrow> bool \<times> db_conn_pool_t" where
  "flush_connection cb c s0 =
     (case ask s0 of (send_status, s) \<Rightarrow>
        if send_status = 0 then (False, s)
        else if send_status = 1
        then (False, upd_conn c (\<lambda>k. if sock_write k = None then k\<lparr>sock_write := Some cb\<rparr> else k) s)
        else (True, s))"

text \<open>
  Frees the connection without a callback for the queries on it; \<^verbatim>\<open>dropped\<close>
  records them.
\<close>

definition on_database_connect_error :: "db_config \<Rightarrow> addr \<Rightarrow> bool \<Rightarrow> db_conn_pool_t \<Rightarrow> db_conn_pool_t" where
  "on_database_connect_error cfg c timeout s =
     error_notification cfg timeout
       (free_conn c (s\<lparr>dropped := dropped s @ (case conns s c of None \<Rightarrow> [] | Some k \<Rightarrow> conn_queries k)\<rparr>))"

text \<open>The fuel of the walk is the number of connections ever made, plus one.\<close>

definition remove_connection :: "addr \<Rightarrow> db_conn_pool_t \<Rightarrow> db_conn_pool_t" where
  "remove_connection c s =
     (case queue_remove (Suc (next_conn s)) c (idle s) of
        None \<Rightarrow> s
      | Some q \<Rightarrow>
          (let s' = s\<lparr>idle := q\<rparr>
           in if q_head (snd (idle s)) \<noteq> None \<and> q_head (snd q) = None
              then check_assert Assert_tail (q_tail (snd (idle s)) = Next c) s' else s'))"

text \<open>
  The common end of \<^verbatim>\<open>start_database_connect\<close>: the socket, then the fields of the
  connection, or freeing it and \<^verbatim>\<open>error_notification\<close>.
\<close>

definition new_conn :: "db_config \<Rightarrow> bool \<Rightarrow> db_conn_t" where
  "new_conn cfg reset =
     \<lparr>expect_sync = False, ignore_result = False, reset_flag = reset, conn_queries = [],
      conn_query_num = max_pipeline_query_num cfg,
      prepared_statement = (0 < num_prepared_statements cfg), timer = Some Connect_timeout,
      sock_read = None, sock_write = Some Poll_write, sock_data = True\<rparr>"

definition connect_socket :: "db_config \<Rightarrow> addr \<Rightarrow> bool \<Rightarrow> db_conn_pool_t \<Rightarrow> db_conn_pool_t" where
  "connect_socket cfg c reset s0 =
     (case ask s0 of (create_socket, s) \<Rightarrow>
        if create_socket = 0
        then s\<lparr>conns := (conns s)(c := Some (new_conn cfg reset)),
               idle := ((fst (idle s))(c := None), snd (idle s))\<rparr>
        else error_notification cfg False (free_conn c s))"

definition start_database_connect :: "db_config \<Rightarrow> addr option \<Rightarrow> db_conn_pool_t \<Rightarrow> db_conn_pool_t" where
  "start_database_connect cfg conn s0 =
     (case conn of
        Some c \<Rightarrow>
          (case ask s0 of (reset_start, s) \<Rightarrow>
             if reset_start \<noteq> 0 then error_notification cfg False (free_conn c s)
             else connect_socket cfg c True s)
      | None \<Rightarrow>
          (let s1 = check_assert Assert_conn_num (0 < conn_num s0) s0;
               c = next_conn s1
           in case ask (s1\<lparr>conn_num := conn_num s1 - 1, next_conn := Suc c\<rparr>) of (connect_start, s) \<Rightarrow>
             if connect_start \<noteq> 0 then error_notification cfg False s
             else connect_socket cfg c False s))"

definition on_database_error :: "db_config \<Rightarrow> addr \<Rightarrow> db_conn_pool_t \<Rightarrow> db_conn_pool_t" where
  "on_database_error cfg c s0 =
     (let s1 = remove_connection c s0;
          qs = (case conns s1 c of None \<Rightarrow> [] | Some k \<Rightarrow> conn_queries k);
          s2 = upd_conn c (\<lambda>k. k\<lparr>conn_queries := []\<rparr>) (fold (notify Failed) qs s1)
      in start_database_connect cfg (Some c) s2)"

definition on_database_timeout :: "db_config \<Rightarrow> addr \<Rightarrow> db_conn_pool_t \<Rightarrow> db_conn_pool_t" where
  "on_database_timeout cfg c s =
     (case conns s c of
        Some k \<Rightarrow>
          (case conn_queries k of
             q # qs \<Rightarrow> on_database_error cfg c (notify Timed_out q (upd_conn c (\<lambda>k. k\<lparr>conn_queries := qs\<rparr>) s))
           | [] \<Rightarrow> on_database_error cfg c s)
      | None \<Rightarrow> s)"

definition on_database_write_ready :: "db_config \<Rightarrow> addr \<Rightarrow> bool \<Rightarrow> db_conn_pool_t \<Rightarrow> db_conn_pool_t" where
  "on_database_write_ready cfg c err s =
     (if err then on_database_error cfg c s
      else (case flush_connection Write_ready c s of
              (True, s') \<Rightarrow> on_database_error cfg c s'
            | (False, s') \<Rightarrow> s'))"

section \<open>Queries\<close>

definition process_queries :: "db_config \<Rightarrow> db_conn_pool_t \<Rightarrow> db_conn_pool_t" where
  "process_queries cfg s =
     (if \<not> process_flag s \<and> queries s \<noteq> []
      then (check_assert Assert_query_num (query_num s < max_query_num cfg) s)
             \<lparr>process_flag := True, local_messages := local_messages s + 1\<rparr>
      else s)"

definition execute_database_query :: "db_config \<Rightarrow> nat \<Rightarrow> db_conn_pool_t \<Rightarrow> int \<times> db_conn_pool_t" where
  "execute_database_query cfg q s =
     (if query_num s \<noteq> 0
      then (0, process_queries cfg (s\<lparr>queries := queries s @ [q], query_num := query_num s - 1,
                                  submitted := submitted s @ [q]\<rparr>))
      else (1, s))"

definition do_execute_query :: "db_config \<Rightarrow> addr \<Rightarrow> nat \<Rightarrow> db_conn_pool_t \<Rightarrow> bool \<times> db_conn_pool_t" where
  "do_execute_query cfg c q s0 =
     (case conns s0 c of
        None \<Rightarrow> (True, s0)
      | Some k \<Rightarrow>
          (let s1 = check_assert Assert_conn_query_num
                 (0 < conn_query_num k \<and>
                  (if conn_queries k \<noteq> [] then conn_query_num k < max_pipeline_query_num cfg
                   else conn_query_num k = max_pipeline_query_num cfg)) s0
           in case ask s1 of (send_query, s2) \<Rightarrow>
             if send_query \<noteq> 0 then (True, s2)
             else (case ask s2 of (send_sync, s3) \<Rightarrow>
               if send_sync \<noteq> 0 then (True, s3)
               else (let start = conn_queries k = [] \<and> \<not> expect_sync k \<and> \<not> ignore_result k;
                         s4 = (if start then check_assert Assert_timer (timer k = None) s3 else s3)
                     in (False, upd_conn c (\<lambda>k.
                           k\<lparr>timer := (if start then Some Query_timeout else timer k),
                             conn_queries := conn_queries k @ [q],
                             conn_query_num := conn_query_num k - 1\<rparr>) s4)))))"

text \<open>
  The first loop of \<^verbatim>\<open>on_process_queries\<close>: hand queries to idle connections.
  Returns the number of queries handed out and the connections that are full now, which
  the code chains through their \<^verbatim>\<open>next\<close> fields.  Each round takes a query, so the
  number of queries is enough fuel.
\<close>

definition first :: "'a list \<Rightarrow> 'a option" where
  "first xs = (case xs of [] \<Rightarrow> None | x # _ \<Rightarrow> Some x)"

fun dispatch_loop :: "db_config \<Rightarrow> nat \<Rightarrow> nat \<times> addr list \<times> db_conn_pool_t \<Rightarrow> nat \<times> addr list \<times> db_conn_pool_t" where
  "dispatch_loop cfg 0 (n, full, s) = (n, full, s)"
| "dispatch_loop cfg (Suc fuel) (n, full, s) =
     (case (queries s, q_head (snd (idle s))) of
        (q # qs, Some c) \<Rightarrow>
          (let s1 = check_assert Assert_query_num (query_num s < max_query_num cfg) s;
               s2 = s1\<lparr>idle := queue_pop (idle s1)\<rparr>;
               s3 = (if q_head (snd (idle s2)) = None
                     then check_assert Assert_tail (q_tail (snd (idle s1)) = Next c) s2 else s2);
               s4 = s3\<lparr>queries := qs, query_num := query_num s3 + 1\<rparr>;
               s5 = (if query_num s4 = max_query_num cfg
                     then check_assert Assert_query_num (qs = []) s4 else s4)
           in case do_execute_query cfg c q s5 of
                (True, s6) \<Rightarrow> dispatch_loop cfg fuel (n, full, on_database_error cfg c (notify Failed q s6))
              | (False, s6) \<Rightarrow>
                  (if 0 < (case conns s6 c of None \<Rightarrow> 0 | Some k \<Rightarrow> conn_query_num k)
                   then dispatch_loop cfg fuel (n + 1, full, push_idle c s6)
                   else dispatch_loop cfg fuel
                          (n + 1, c # full, s6\<lparr>idle := write_slot (Next c) (first full) (idle s6)\<rparr>)))
      | _ \<Rightarrow> (n, full, s))"

text \<open>The second loop: flush the full connections.\<close>

fun flush_full :: "db_config \<Rightarrow> addr list \<Rightarrow> db_conn_pool_t \<Rightarrow> db_conn_pool_t" where
  "flush_full cfg [] s = s"
| "flush_full cfg (c # cs) s =
     (case flush_connection Write_ready c s of
        (True, s') \<Rightarrow> flush_full cfg cs (on_database_error cfg c s')
      | (False, s') \<Rightarrow> flush_full cfg cs s')"

text \<open>
  The third loop: flush the idle connections, rebuilding the tail pointer on the way;
  the tail is the slot behind the last connection that was flushed.
\<close>

fun flush_idle :: "db_config \<Rightarrow> nat \<Rightarrow> addr option \<Rightarrow> db_conn_pool_t \<Rightarrow> db_conn_pool_t" where
  "flush_idle cfg 0 iter s = s"
| "flush_idle cfg (Suc fuel) iter s =
     (case iter of
        None \<Rightarrow> s
      | Some c \<Rightarrow>
          (let next = fst (idle s) c
           in case flush_connection Write_ready c s of
                (True, s') \<Rightarrow>
                  flush_idle cfg fuel next
                    (on_database_error cfg c
                      (s'\<lparr>idle := write_slot (q_tail (snd (idle s'))) next (idle s')\<rparr>))
              | (False, s') \<Rightarrow>
                  flush_idle cfg fuel next
                    (s'\<lparr>idle := (fst (idle s'), (snd (idle s'))\<lparr>q_tail := Next c\<rparr>)\<rparr>)))"

fun connect_loop :: "db_config \<Rightarrow> nat \<Rightarrow> db_conn_pool_t \<Rightarrow> db_conn_pool_t" where
  "connect_loop cfg 0 s = s"
| "connect_loop cfg (Suc n) s =
     (if conn_num s = 0 then s else connect_loop cfg n (start_database_connect cfg None s))"

definition on_process_queries :: "db_config \<Rightarrow> db_conn_pool_t \<Rightarrow> db_conn_pool_t" where
  "on_process_queries cfg s0 =
     (case dispatch_loop cfg (length (queries s0)) (0, [], s0) of (n, full, s1) \<Rightarrow>
        (let s2 = flush_full cfg full s1;
             s3 = s2\<lparr>idle := (fst (idle s2), (snd (idle s2))\<lparr>q_tail := Var\<rparr>), process_flag := False\<rparr>;
             waiting = n + (max_query_num cfg - query_num s3);
             s4 = flush_idle cfg (Suc (next_conn s3)) (q_head (snd (idle s3))) s3
         in connect_loop cfg (waiting - (max_db_conn_num cfg - conn_num s4)) s4))"

section \<open>Results\<close>

text \<open>
  The loop of \<^verbatim>\<open>on_database_read_ready\<close>.  An element of the script is what
  \<^verbatim>\<open>PQgetResult\<close> returned, the queries the \<^verbatim>\<open>on_result\<close> callback submits, and
  whether it returned \<^verbatim>\<open>DONE\<close>.  Returns whether the handler returned early.
\<close>

type_synonym script = "(pgres option \<times> nat list \<times> bool) list"

fun read_loop :: "db_config \<Rightarrow> addr \<Rightarrow> script \<Rightarrow> db_conn_pool_t \<Rightarrow> bool \<times> db_conn_pool_t" where
  "read_loop cfg c [] s = (False, s)"
| "read_loop cfg c ((result, subs, is_done) # rest) s =
     (case conns s c of
        None \<Rightarrow> (True, s)
      | Some k \<Rightarrow>
          if ignore_result k
          then read_loop cfg c rest
                 (if result = None then upd_conn c (\<lambda>k. k\<lparr>ignore_result := False\<rparr>) s else s)
          else if expect_sync k
          then (if result = Some PGRES_PIPELINE_SYNC
                then read_loop cfg c rest (upd_conn c (\<lambda>k. k\<lparr>expect_sync := False\<rparr>) s)
                else (True, on_database_error cfg c s))
          else (case conn_queries k of
                  q # next \<Rightarrow>
                    (let s1 = fold (\<lambda>p s. snd (execute_database_query cfg p s)) subs s
                     in if is_done
                        then read_loop cfg c rest
                               (notify (Result result) q (upd_conn c (\<lambda>k.
                                  k\<lparr>conn_query_num := conn_query_num k + 1, timer := Some Query_timeout,
                                    expect_sync := True, conn_queries := next,
                                    ignore_result := (result \<noteq> None)\<rparr>) s1))
                        else read_loop cfg c rest (check_assert Assert_result (result \<noteq> None) s1))
                | [] \<Rightarrow>
                    (False, upd_conn c (\<lambda>k. k\<lparr>timer := None\<rparr>)
                              (check_assert Assert_result (result = None) s))))"

definition on_database_read_ready ::
    "db_config \<Rightarrow> addr \<Rightarrow> bool \<Rightarrow> script \<Rightarrow> db_conn_pool_t \<Rightarrow> db_conn_pool_t" where
  "on_database_read_ready cfg c err results s0 =
     (if err then on_database_error cfg c s0
      else (case ask s0 of (consume_input, s1) \<Rightarrow>
        if consume_input \<noteq> 0 then on_database_error cfg c s1
        else (case flush_connection Write_ready c s1 of
                (True, s2) \<Rightarrow> on_database_error cfg c s2
              | (False, s2) \<Rightarrow>
                  (let removed = (case conns s2 c of None \<Rightarrow> False | Some k \<Rightarrow> conn_query_num k = 0)
                   in case read_loop cfg c results s2 of
                        (True, s3) \<Rightarrow> s3
                      | (False, s3) \<Rightarrow>
                          process_queries cfg
                            (if removed \<and> (case conns s3 c of None \<Rightarrow> False | Some k \<Rightarrow> conn_query_num k \<noteq> 0)
                             then push_idle c s3 else s3)))))"

section \<open>Connecting\<close>

text \<open>A socket callback takes the connection from the \<^verbatim>\<open>data\<close> pointer of its socket.\<close>

definition with_conn ::
    "addr \<Rightarrow> db_conn_pool_t \<Rightarrow> (db_conn_pool_t \<Rightarrow> db_conn_pool_t) \<Rightarrow> db_conn_pool_t" where
  "with_conn c s f =
     (if (case conns s c of None \<Rightarrow> False | Some k \<Rightarrow> sock_data k) then f s
      else s\<lparr>faults := faults s @ [Null_dereference]\<rparr>)"

definition on_database_connect_timeout :: "db_config \<Rightarrow> addr \<Rightarrow> db_conn_pool_t \<Rightarrow> db_conn_pool_t" where
  "on_database_connect_timeout cfg c s = on_database_connect_error cfg c True s"

definition on_database_connect_write_ready ::
    "db_config \<Rightarrow> addr \<Rightarrow> bool \<Rightarrow> db_conn_pool_t \<Rightarrow> db_conn_pool_t" where
  "on_database_connect_write_ready cfg c err s =
     (if err then on_database_connect_error cfg c False s
      else (case flush_connection Connect_write_ready c s of
              (True, s') \<Rightarrow> on_database_connect_error cfg c False s'
            | (False, s') \<Rightarrow> s'))"

fun connect_read_loop :: "db_config \<Rightarrow> addr \<Rightarrow> pgres option list \<Rightarrow> db_conn_pool_t \<Rightarrow> db_conn_pool_t" where
  "connect_read_loop cfg c [] s = s"
| "connect_read_loop cfg c (result # rest) s =
     (case result of
        None \<Rightarrow> connect_read_loop cfg c rest s
      | Some PGRES_COMMAND_OK \<Rightarrow> connect_read_loop cfg c rest s
      | Some PGRES_PIPELINE_SYNC \<Rightarrow>
          process_queries cfg (push_idle c
            (upd_conn c (\<lambda>k. k\<lparr>timer := None, sock_read := Some Read_ready\<rparr>) s))
      | Some _ \<Rightarrow> on_database_connect_error cfg c False s)"

definition on_database_connect_read_ready ::
    "db_config \<Rightarrow> addr \<Rightarrow> bool \<Rightarrow> pgres option list \<Rightarrow> db_conn_pool_t \<Rightarrow> db_conn_pool_t" where
  "on_database_connect_read_ready cfg c err results s0 =
     (if err then on_database_connect_error cfg c False s0
      else (case ask s0 of (consume_input, s1) \<Rightarrow>
        if consume_input \<noteq> 0 then on_database_connect_error cfg c False s1
        else (case flush_connection Connect_write_ready c s1 of
                (True, s2) \<Rightarrow> on_database_connect_error cfg c False s2
              | (False, s2) \<Rightarrow> connect_read_loop cfg c results s2)))"

text \<open>Sends the first \<^verbatim>\<open>n\<close> prepared statements; returns whether one failed.\<close>

fun send_prepares :: "nat \<Rightarrow> db_conn_pool_t \<Rightarrow> bool \<times> db_conn_pool_t" where
  "send_prepares 0 s = (False, s)"
| "send_prepares (Suc n) s =
     (case ask s of (send_prepare, s') \<Rightarrow> if send_prepare \<noteq> 0 then (True, s') else send_prepares n s')"

definition prepare_statements :: "db_config \<Rightarrow> addr \<Rightarrow> db_conn_pool_t \<Rightarrow> db_conn_pool_t" where
  "prepare_statements cfg c s0 =
     (if (case conns s0 c of None \<Rightarrow> False | Some k \<Rightarrow> prepared_statement k)
      then (case send_prepares (num_prepared_statements cfg) s0 of
              (True, s1) \<Rightarrow> on_database_connect_error cfg c False s1
            | (False, s1) \<Rightarrow>
                (case ask s1 of (send_sync, s2) \<Rightarrow>
                   if send_sync \<noteq> 0 then on_database_connect_error cfg c False s2
                   else with_conn c
                          (upd_conn c (\<lambda>k. k\<lparr>prepared_statement := False, timer := Some Connect_timeout,
                             sock_read := Some Connect_read_ready\<rparr>) s2)
                          (on_database_connect_write_ready cfg c False)))
      else process_queries cfg (push_idle c (upd_conn c (\<lambda>k. k\<lparr>sock_read := Some Read_ready\<rparr>) s0)))"

text \<open>
  When libpq has moved to another socket, the code closes its own and makes a new one:
  the new one has no callbacks and no \<^verbatim>\<open>data\<close> pointer.  Returns whether creating it
  failed.
\<close>

definition switch_socket :: "addr \<Rightarrow> db_conn_pool_t \<Rightarrow> bool \<times> db_conn_pool_t" where
  "switch_socket c s0 =
     (case ask s0 of (sd_changed, s1) \<Rightarrow>
        if sd_changed = 0 then (False, s1)
        else (case ask s1 of (create_socket, s2) \<Rightarrow>
          if create_socket \<noteq> 0 then (True, s2)
          else (False, upd_conn c (\<lambda>k. k\<lparr>sock_read := None, sock_write := None, sock_data := False\<rparr>) s2)))"

definition poll_database_connection :: "db_config \<Rightarrow> addr \<Rightarrow> bool \<Rightarrow> db_conn_pool_t \<Rightarrow> db_conn_pool_t" where
  "poll_database_connection cfg c err s0 =
     (if err then on_database_connect_error cfg c False s0
      else (case ask s0 of (status, s1) \<Rightarrow>
        if status = 0 \<comment> \<open>\<^verbatim>\<open>PGRES_POLLING_OK\<close>\<close>
        then (let s2 = upd_conn c (\<lambda>k. k\<lparr>timer := None, sock_read := None\<rparr>) s1
              in case ask s2 of (set_nonblocking, s3) \<Rightarrow>
                if set_nonblocking \<noteq> 0 then on_database_connect_error cfg c False s3
                else (case ask s3 of (enter_pipeline, s4) \<Rightarrow>
                  if enter_pipeline \<noteq> 0 then on_database_connect_error cfg c False s4
                  else (case switch_socket c s4 of
                          (True, s5) \<Rightarrow> on_database_connect_error cfg c False s5
                        | (False, s5) \<Rightarrow>
                            prepare_statements cfg c (upd_conn c (\<lambda>k. k\<lparr>reset_flag := False\<rparr>) s5))))
        else if status = 1 \<comment> \<open>\<^verbatim>\<open>PGRES_POLLING_WRITING\<close>\<close>
        then (case switch_socket c (upd_conn c (\<lambda>k. k\<lparr>sock_read := None\<rparr>) s1) of
                (True, s2) \<Rightarrow> on_database_connect_error cfg c False s2
              | (False, s2) \<Rightarrow>
                  upd_conn c (\<lambda>k. if sock_write k = None then k\<lparr>sock_write := Some Poll_write\<rparr> else k) s2)
        else if status = 2 \<comment> \<open>\<^verbatim>\<open>PGRES_POLLING_READING\<close>\<close>
        then (case switch_socket c s1 of
                (True, s2) \<Rightarrow> on_database_connect_error cfg c False s2
              | (False, s2) \<Rightarrow> upd_conn c (\<lambda>k. k\<lparr>sock_read := Some Poll_read\<rparr>) s2)
        else on_database_connect_error cfg c False s1))"

section \<open>The event loop's view\<close>

text \<open>
  What can happen to the pool: a query is submitted, the posted task runs, a timer
  fires, a socket becomes readable or writable or fails.  A write callback and a timer fire once.
\<close>

datatype db_event =
    Submit nat
  | Task
  | Timer addr
  | Readable addr bool script
  | Writable addr bool

fun db_step :: "db_config \<Rightarrow> db_event \<Rightarrow> db_conn_pool_t \<Rightarrow> db_conn_pool_t" where
  "db_step cfg (Submit q) s = snd (execute_database_query cfg q s)"
| "db_step cfg Task s =
     (if local_messages s = 0 then s
      else on_process_queries cfg (s\<lparr>local_messages := local_messages s - 1\<rparr>))"
| "db_step cfg (Timer c) s =
     (case conns s c of
        None \<Rightarrow> s
      | Some k \<Rightarrow>
          (case timer k of
             None \<Rightarrow> s
           | Some Connect_timeout \<Rightarrow>
               on_database_connect_timeout cfg c (upd_conn c (\<lambda>k. k\<lparr>timer := None\<rparr>) s)
           | Some Query_timeout \<Rightarrow>
               on_database_timeout cfg c (upd_conn c (\<lambda>k. k\<lparr>timer := None\<rparr>) s)))"
| "db_step cfg (Readable c err results) s =
     (case conns s c of
        None \<Rightarrow> s
      | Some k \<Rightarrow>
          (case sock_read k of
             None \<Rightarrow> s
           | Some Poll_read \<Rightarrow> with_conn c s (poll_database_connection cfg c err)
           | Some Connect_read_ready \<Rightarrow>
               with_conn c s (on_database_connect_read_ready cfg c err (map fst results))
           | Some Read_ready \<Rightarrow> with_conn c s (on_database_read_ready cfg c err results)))"
| "db_step cfg (Writable c err) s =
     (case conns s c of
        None \<Rightarrow> s
      | Some k \<Rightarrow>
          (case sock_write k of
             None \<Rightarrow> s
           | Some Poll_write \<Rightarrow>
               with_conn c (upd_conn c (\<lambda>k. k\<lparr>sock_write := None\<rparr>) s) (poll_database_connection cfg c err)
           | Some Connect_write_ready \<Rightarrow>
               with_conn c (upd_conn c (\<lambda>k. k\<lparr>sock_write := None\<rparr>) s)
                 (on_database_connect_write_ready cfg c err)
           | Some Write_ready \<Rightarrow>
               with_conn c (upd_conn c (\<lambda>k. k\<lparr>sock_write := None\<rparr>) s)
                 (on_database_write_ready cfg c err)))"

text \<open>
  The write callback of the connecting phase may still be pending when the connection is
  handed to the pool (\<^verbatim>\<open>on_database_connect_read_ready\<close> does not cancel it).  When
  it then finds an error, it frees a connection that the pool and its queries still use.
  \<^verbatim>\<open>late_connect_error\<close> tells these events apart.
\<close>

fun late_connect_error :: "db_event \<Rightarrow> db_conn_pool_t \<Rightarrow> bool" where
  "late_connect_error (Writable c err) s =
     (case conns s c of
        None \<Rightarrow> False
      | Some k \<Rightarrow> sock_write k = Some Connect_write_ready \<and> sock_read k = Some Read_ready \<and>
          sock_data k \<and> (err \<or> 1 < fst (ask s)))"
| "late_connect_error _ s = False"

text \<open>
  The connections on the idle queue, and whether one of them has been freed: then the code
  reads freed memory when it walks the queue, and nothing can be said about what follows.
\<close>

fun idle_walk :: "nat \<Rightarrow> heap \<Rightarrow> addr option \<Rightarrow> addr list" where
  "idle_walk 0 h p = []"
| "idle_walk (Suc n) h None = []"
| "idle_walk (Suc n) h (Some c) = c # idle_walk n h (h c)"

definition dangling :: "db_conn_pool_t \<Rightarrow> bool" where
  "dangling s = list_ex (\<lambda>c. conns s c = None) (idle_walk (Suc (next_conn s)) (fst (idle s)) (q_head (snd (idle s))))"

text \<open>
  States reached by any events, each with the answers of the calls made while it is
  handled, up to and including the first state whose idle queue links a freed connection.
  A tail pointer into a freed connection, which \<^verbatim>\<open>remove_connection\<close> leaves, is
  followed only to write the \<^verbatim>\<open>next\<close> field there; the write is taken to hit nothing
  else.
\<close>

inductive reachable :: "db_config \<Rightarrow> db_conn_pool_t \<Rightarrow> bool" for cfg where
  init: "reachable cfg (initialize_database_connection_pool cfg)"
| step: "reachable cfg s \<Longrightarrow> \<not> dangling s \<Longrightarrow> reachable cfg (db_step cfg e (s\<lparr>answers := as\<rparr>))"

section \<open>Counting\<close>

text \<open>Sums over the connections that exist: how many there are, and their queries.\<close>

definition opt :: "('a \<Rightarrow> 'b::comm_monoid_add) \<Rightarrow> 'a option \<Rightarrow> 'b" where
  "opt f v = (case v of None \<Rightarrow> 0 | Some k \<Rightarrow> f k)"

definition total :: "(db_conn_t \<Rightarrow> 'b::comm_monoid_add) \<Rightarrow> db_conn_pool_t \<Rightarrow> 'b" where
  "total f s = (\<Sum>c<next_conn s. opt f (conns s c))"

definition live :: "db_conn_pool_t \<Rightarrow> nat" where
  "live s = total (\<lambda>_. 1) s"

definition in_flight :: "db_conn_pool_t \<Rightarrow> nat multiset" where
  "in_flight s = total (\<lambda>k. mset (conn_queries k)) s"

lemma opt_simps [simp]: "opt f None = 0" "opt f (Some k) = f k"
  by (simp_all add: opt_def)

lemma total_upd:
  assumes "c < next_conn s" "next_conn s' = next_conn s" "conns s' = (conns s)(c := v)"
  shows "total f s' + opt f (conns s c) = total f s + opt f v"
proof -
  have fin: "finite {..<next_conn s}" "c \<in> {..<next_conn s}" using assms(1) by auto
  have "total f s' = opt f v + (\<Sum>d\<in>{..<next_conn s} - {c}. opt f (conns s d))"
    using assms(2,3) by (simp add: total_def sum.remove [OF fin])
  moreover have "total f s = opt f (conns s c) + (\<Sum>d\<in>{..<next_conn s} - {c}. opt f (conns s d))"
    by (simp add: total_def sum.remove [OF fin])
  ultimately show ?thesis by (simp add: ac_simps)
qed

lemma total_cong: "conns s' = conns s \<Longrightarrow> next_conn s' = next_conn s \<Longrightarrow> total f s' = total f s"
  by (simp add: total_def)

lemma total_Suc: "conns s (next_conn s) = None \<Longrightarrow> conns s' = conns s \<Longrightarrow>
    next_conn s' = Suc (next_conn s) \<Longrightarrow> total f s' = total f s"
  by (simp add: total_def)

lemma live_pos: "conns s c = Some k \<Longrightarrow> c < next_conn s \<Longrightarrow> 0 < live s"
  using member_le_sum [of c "{..<next_conn s}" "\<lambda>c. opt (\<lambda>_. 1) (conns s c) :: nat"]
  by (simp add: live_def total_def)

lemma fold_notify: "fold (notify r) qs s = s\<lparr>log := log s @ map (\<lambda>q. (q, r)) qs\<rparr>"
  by (induction qs arbitrary: s) (simp_all add: notify_def)

end
