(* ===== verification/Db_Pool_Inv.thy ===== *)
theory Db_Pool_Inv
  imports Db_Pool
begin

text \<open>
  The invariant of the connection pool (theory \<^verbatim>\<open>Db_Pool\<close>) and its preservation by
  every handler: the counters agree with the structures they count, every accepted query
  is waiting, in flight, has had its callback exactly once or was dropped by a late error of
  its connection, and the waiting queries are in the order of their submission.
\<close>

section \<open>The invariant\<close>

text \<open>A connection is \<^verbatim>\<open>pooled\<close> once it reads query results.\<close>

definition pooled :: "db_conn_t \<Rightarrow> bool" where
  "pooled k \<longleftrightarrow> sock_read k = Some Read_ready"

definition conn_ok :: "db_config \<Rightarrow> db_conn_t \<Rightarrow> bool" where
  "conn_ok cfg k \<longleftrightarrow>
     conn_query_num k + length (conn_queries k) = max_pipeline_query_num cfg \<and>
     (if pooled k then timer k \<noteq> Some Connect_timeout \<and> sock_write k \<noteq> Some Poll_write
      else conn_queries k = [] \<and> timer k \<noteq> Some Query_timeout \<and> sock_write k \<noteq> Some Write_ready \<and>
        (sock_write k = Some Poll_write \<longrightarrow> sock_read k = None))"

definition counter_faults :: "fault set" where
  "counter_faults = {Assert_conn_num, Assert_query_num, Assert_conn_query_num}"

text \<open>
  \<^verbatim>\<open>n\<close>: connections that are taken off \<^verbatim>\<open>conn_num\<close> but do not exist at the
  moment; \<^verbatim>\<open>D\<close>: the queries dropped so far; \<^verbatim>\<open>Q\<close>: queries the running handler holds; \<^verbatim>\<open>xs\<close>: the idle queue.
\<close>

definition core :: "db_config \<Rightarrow> nat list \<Rightarrow> nat \<Rightarrow> nat multiset \<Rightarrow> addr list \<Rightarrow> db_conn_pool_t \<Rightarrow> bool" where
  "core cfg D n Q xs s \<longleftrightarrow>
     conn_num s + n + live s = max_db_conn_num cfg \<and>
     query_num s + length (queries s) = max_query_num cfg \<and>
     (\<forall>c k. conns s c = Some k \<longrightarrow> c < next_conn s \<and> conn_ok cfg k) \<and>
     (\<forall>x \<in> set xs. \<exists>k. conns s x = Some k \<and> pooled k \<and> 0 < conn_query_num k) \<and>
     mset (submitted s) = mset (queries s) + in_flight s + mset (map fst (log s)) + mset D + Q \<and>
     dropped s = D \<and>
     suffix (queries s) (submitted s) \<and>
     set (faults s) \<inter> counter_faults = {}"

text \<open>The idle queue, with a tail that may be stale.\<close>

definition idle_ok :: "heap \<times> queue_t \<Rightarrow> addr list \<Rightarrow> bool" where
  "idle_ok hq xs \<longleftrightarrow> list_at (fst hq) (q_head (snd hq)) xs \<and>
     (q_tail (snd hq) = tail_slot xs \<or> (xs \<noteq> [] \<and> (\<exists>x. x \<notin> set xs \<and> q_tail (snd hq) = Next x)))"

section \<open>The idle queue\<close>

lemma idle_ok_push:
  assumes "idle_ok hq xs" "c \<notin> set xs"
  shows "\<exists>ys. idle_ok (queue_push c hq) ys \<and> set ys \<subseteq> insert c (set xs)"
proof (cases "q_tail (snd hq) = tail_slot xs")
  case True
  with assms have "queue_rep hq xs" by (simp add: idle_ok_def queue_rep_def)
  from queue_rep_push [OF this assms(2)] have "idle_ok (queue_push c hq) (xs @ [c])"
    by (simp add: idle_ok_def queue_rep_def)
  then show ?thesis by (intro exI [of _ "xs @ [c]"]) simp
next
  case False
  with assms obtain x where x: "xs \<noteq> []" "x \<notin> set xs" "q_tail (snd hq) = Next x"
    and l: "list_at (fst hq) (q_head (snd hq)) xs" by (auto simp: idle_ok_def)
  from push_stale_tail [OF l x(3,2) assms(2)] have "idle_ok (queue_push c hq) xs"
    using x(1) assms(2) by (auto simp: idle_ok_def queue_push_def split: prod.splits)
  then show ?thesis by auto
qed

lemma idle_ok_pop:
  "idle_ok hq (x # xs) \<Longrightarrow> idle_ok (queue_pop hq) xs"
  by (cases xs) (auto simp: idle_ok_def queue_pop_def tail_slot_def Let_def)

lemma idle_ok_head: "idle_ok hq xs \<Longrightarrow> q_head (snd hq) = first xs"
  by (cases xs) (auto simp: idle_ok_def first_def)

lemma idle_ok_distinct: "idle_ok hq xs \<Longrightarrow> distinct xs"
  by (auto simp: idle_ok_def dest: list_at_distinct)

lemma idle_ok_frame: "idle_ok hq xs \<Longrightarrow> c \<notin> set xs \<Longrightarrow> idle_ok ((fst hq)(c := v), snd hq) xs"
  by (simp add: idle_ok_def)

lemma idle_ok_remove:
  assumes ok: "idle_ok hq xs" and fuel: "length xs < fuel"
  shows "\<exists>hq'. queue_remove fuel c hq = Some hq' \<and> idle_ok hq' (remove1 c xs)"
proof (cases "c \<in> set xs")
  case False
  then show ?thesis
    using find_node_not_found [of "fst hq" "q_head (snd hq)" xs c fuel Var] ok fuel
    by (cases hq) (auto simp: idle_ok_def queue_remove_def remove1_idem)
next
  case True
  obtain h q where hq: "hq = (h, q)" by (cases hq)
  have d: "distinct xs" using idle_ok_distinct [OF ok] .
  from True obtain ys zs where xs: "xs = ys @ c # zs" by (meson split_list)
  have cy: "c \<notin> set ys" and rm: "remove1 c xs = ys @ zs" using d xs by (auto simp: remove1_append)
  have p: "path h (q_head q) ys (Some c)" "list_at h (h c) zs" using ok by (auto simp: idle_ok_def hq xs)
  then obtain p0 where p0: "q_head q = Some p0" by (cases ys) auto
  have f: "find_node fuel h c Var (Some p0) = Some (if ys = [] then Var else Next (last ys), Some c)"
    using p p0 cy fuel xs by (intro find_node_found) auto
  show ?thesis
  proof (cases "ys = []")
    case True
    with f p0 p ok d show ?thesis
      by (cases zs) (auto simp: queue_remove_def write_slot_def hq xs idle_ok_def tail_slot_def)
  next
    case False
    have "path (h(last ys := h c)) (q_head q) ys (h c)"
      using d p False by (intro path_set_last) (auto simp: xs)
    moreover have "last ys \<notin> set zs" using d last_in_set [OF False] by (auto simp: xs)
    ultimately have "list_at (h(last ys := h c)) (q_head q) (ys @ zs)" using p by auto
    with f p0 False ok d show ?thesis
      by (cases zs rule: rev_cases)
        (auto simp: queue_remove_def write_slot_def hq xs idle_ok_def tail_slot_def remove1_append)
  qed
qed

section \<open>Parts of the handlers\<close>

lemma core_cong:
  "core cfg D n Q xs s \<Longrightarrow> conns s' = conns s \<Longrightarrow> next_conn s' = next_conn s \<Longrightarrow> queries s' = queries s \<Longrightarrow>
    conn_num s' = conn_num s \<Longrightarrow> query_num s' = query_num s \<Longrightarrow> log s' = log s \<Longrightarrow>
    submitted s' = submitted s \<Longrightarrow> dropped s' = dropped s \<Longrightarrow> set (faults s') \<inter> counter_faults = {} \<Longrightarrow> core cfg D n Q xs s'"
  by (simp add: core_def live_def in_flight_def total_cong [of s' s])

lemma core_idle_update [simp]: "core cfg D n Q xs (s\<lparr>idle := q\<rparr>) \<longleftrightarrow> core cfg D n Q xs s"
  by (simp add: core_def live_def in_flight_def total_def)

lemma core_answers [simp]: "core cfg D n Q xs (s\<lparr>answers := q\<rparr>) \<longleftrightarrow> core cfg D n Q xs s"
  by (simp add: core_def live_def in_flight_def total_def)

lemma core_flag [simp]: "core cfg D n Q xs (s\<lparr>process_flag := q\<rparr>) \<longleftrightarrow> core cfg D n Q xs s"
  by (simp add: core_def live_def in_flight_def total_def)

lemma core_messages [simp]: "core cfg D n Q xs (s\<lparr>local_messages := q\<rparr>) \<longleftrightarrow> core cfg D n Q xs s"
  by (simp add: core_def live_def in_flight_def total_def)

lemma core_faults: "core cfg D n Q xs s \<Longrightarrow> f \<notin> counter_faults \<Longrightarrow> core cfg D n Q xs (s\<lparr>faults := faults s @ [f]\<rparr>)"
  by (simp add: core_def live_def in_flight_def total_def)

lemma core_check_assert [intro]:
  "core cfg D n Q xs s \<Longrightarrow> f \<notin> counter_faults \<or> b \<Longrightarrow> core cfg D n Q xs (check_assert f b s)"
  by (auto simp: check_assert_def core_faults)

lemma check_assert_frame [simp]:
  "conns (check_assert f b s) = conns s" "idle (check_assert f b s) = idle s"
  "next_conn (check_assert f b s) = next_conn s" "queries (check_assert f b s) = queries s"
  "query_num (check_assert f b s) = query_num s" "conn_num (check_assert f b s) = conn_num s"
  "process_flag (check_assert f b s) = process_flag s" "local_messages (check_assert f b s) = local_messages s"
  "log (check_assert f b s) = log s"
  "submitted (check_assert f b s) = submitted s" "dropped (check_assert f b s) = dropped s"
  by (simp_all add: check_assert_def)

lemma ask_simps [simp]:
  "ask s = (a, s') \<Longrightarrow> core cfg D n Q xs s' \<longleftrightarrow> core cfg D n Q xs s"
  by (auto simp: ask_def split: list.splits)

lemma ask_frame:
  assumes "ask s = (a, s')"
  shows "conns s' = conns s" "next_conn s' = next_conn s" "idle s' = idle s" "queries s' = queries s"
    "conn_num s' = conn_num s" "query_num s' = query_num s" "process_flag s' = process_flag s"
    "local_messages s' = local_messages s" "log s' = log s" "submitted s' = submitted s" "faults s' = faults s"
    "dropped s' = dropped s"
  using assms by (auto simp: ask_def split: list.splits)

lemma core_subset: "core cfg D n Q xs s \<Longrightarrow> set ys \<subseteq> set xs \<Longrightarrow> core cfg D n Q ys s"
  by (auto simp: core_def)

lemma core_bound: "core cfg D n Q xs s \<Longrightarrow> conns s c = Some k \<Longrightarrow> c < next_conn s"
  by (auto simp: core_def)

lemma core_conn_ok: "core cfg D n Q xs s \<Longrightarrow> conns s c = Some k \<Longrightarrow> conn_ok cfg k"
  by (auto simp: core_def)

lemma core_idle_conn:
  "core cfg D n Q xs s \<Longrightarrow> x \<in> set xs \<Longrightarrow> \<exists>k. conns s x = Some k \<and> pooled k \<and> 0 < conn_query_num k"
  by (auto simp: core_def)

lemma core_idle_length:
  assumes "core cfg D n Q xs s" "distinct xs"
  shows "length xs \<le> next_conn s"
proof -
  have "set xs \<subseteq> {..<next_conn s}" using assms(1) by (fastforce simp: core_def)
  then have "card (set xs) \<le> card {..<next_conn s}" by (intro card_mono) auto
  then show ?thesis using assms(2) by (simp add: distinct_card)
qed

lemma core_upd:
  assumes core: "core cfg D n Q xs s" and k: "conns s c = Some k"
    and Q: "Q + mset (conn_queries k) = Q' + mset (conn_queries (f k))"
    and ok: "conn_ok cfg (f k)" and idle: "c \<in> set xs \<Longrightarrow> pooled (f k) \<and> 0 < conn_query_num (f k)"
  shows "core cfg D n Q' xs (upd_conn c f s)"
proof -
  have c: "c < next_conn s" using core_bound [OF core k] .
  have lv: "live (upd_conn c f s) + 1 = live s + 1"
    using total_upd [OF c, of "upd_conn c f s" "Some (f k)" "\<lambda>_. 1 :: nat"] k
    by (simp add: live_def upd_conn_def)
  let ?old = "mset (conn_queries k)" and ?new = "mset (conn_queries (f k))"
  have fl: "in_flight (upd_conn c f s) + ?old = in_flight s + ?new"
    using total_upd [OF c, of "upd_conn c f s" "Some (f k)" "\<lambda>k. mset (conn_queries k)"] k
    by (simp add: in_flight_def upd_conn_def)
  have "in_flight (upd_conn c f s) + Q' + (?old + ?new) = (in_flight (upd_conn c f s) + ?old) + (Q' + ?new)"
    by (simp only: ac_simps)
  also have "\<dots> = in_flight s + Q + (?old + ?new)"
    unfolding fl Q [symmetric] by (simp only: ac_simps)
  finally have eq: "in_flight (upd_conn c f s) + Q' = in_flight s + Q" by (simp only: add_right_cancel)
  have "mset (submitted s) = mset (queries s) + mset (map fst (log s)) + mset D + (in_flight s + Q)"
    using core by (simp add: core_def ac_simps)
  then have "mset (submitted (upd_conn c f s)) = mset (queries (upd_conn c f s)) + in_flight (upd_conn c f s) +
      mset (map fst (log (upd_conn c f s))) + mset D + Q'"
    unfolding eq [symmetric] by (simp add: upd_conn_def ac_simps)
  then show ?thesis
    using lv core k ok idle unfolding core_def by (simp add: upd_conn_def)
qed

lemma core_upd_same:
  assumes "core cfg D n Q xs s" "conns s c = Some k" "conn_ok cfg (f k)"
    and "conn_queries (f k) = conn_queries k" "conn_query_num (f k) = conn_query_num k"
    and "c \<in> set xs \<Longrightarrow> pooled (f k)"
  shows "core cfg D n Q xs (upd_conn c f s)"
  using assms core_idle_conn [OF assms(1), of c] by (intro core_upd [OF assms(1,2)]) auto

lemma core_free:
  assumes core: "core cfg D n Q xs s" and k: "conns s c = Some k" and c: "c \<notin> set xs"
  shows "core cfg D (Suc n) (Q + mset (conn_queries k)) xs (free_conn c s)"
proof -
  have b: "c < next_conn s" using core_bound [OF core k] .
  have "live (free_conn c s) + 1 = live s"
    using total_upd [OF b, of "free_conn c s" None "\<lambda>_. 1 :: nat"] k by (simp add: live_def free_conn_def)
  moreover have "in_flight (free_conn c s) + mset (conn_queries k) = in_flight s"
    using total_upd [OF b, of "free_conn c s" None "\<lambda>k. mset (conn_queries k)"] k
    by (simp add: in_flight_def free_conn_def)
  ultimately show ?thesis
    using core c by (auto simp: core_def free_conn_def ac_simps)
qed

lemma core_drop: "core cfg D n (Q + mset qs) xs s \<Longrightarrow> core cfg (D @ qs) n Q xs (s\<lparr>dropped := dropped s @ qs\<rparr>)"
  by (simp add: core_def live_def in_flight_def total_def ac_simps)

lemma core_notify: "core cfg D n (add_mset q Q) xs s \<Longrightarrow> core cfg D n Q xs (notify r q s)"
  by (simp add: core_def notify_def live_def in_flight_def total_def ac_simps)

lemma core_notify_all: "core cfg D n (Q + mset qs) xs s \<Longrightarrow> core cfg D n Q xs (fold (notify r) qs s)"
  by (induction qs arbitrary: s) (auto simp: core_notify)

lemma core_error_notification:
  assumes "core cfg D (Suc n) Q xs s"
  shows "core cfg D n Q xs (error_notification cfg b s)"
proof -
  let ?s = "s\<lparr>conn_num := conn_num s + 1\<rparr>"
  have assert: "check_assert Assert_conn_num (conn_num s < max_db_conn_num cfg) s = s"
    using assms by (auto simp: core_def check_assert_def)
  have c: "core cfg D n Q xs ?s"
    using assms by (simp add: core_def live_def in_flight_def total_def)
  then have "core cfg D n (Q + mset (queries ?s)) xs (?s\<lparr>queries := [], query_num := max_query_num cfg\<rparr>)"
    by (simp add: core_def live_def in_flight_def total_def ac_simps)
  note notified = core_notify_all [OF this, of "if b then Timed_out else Failed"]
  show ?thesis
  proof (cases "conn_num ?s = max_db_conn_num cfg")
    case True
    with notified show ?thesis by (simp only: error_notification_def assert Let_def simp_thms if_True)
  next
    case False
    with c show ?thesis by (simp only: error_notification_def assert Let_def simp_thms if_False)
  qed
qed

lemma error_notification_frame [simp]:
  "conns (error_notification cfg b s) = conns s" "next_conn (error_notification cfg b s) = next_conn s"
  "idle (error_notification cfg b s) = idle s" "process_flag (error_notification cfg b s) = process_flag s"
  "local_messages (error_notification cfg b s) = local_messages s"
  by (simp_all add: error_notification_def check_assert_def Let_def fold_notify)

lemma core_connect_socket:
  assumes core: "core cfg D (Suc n) Q xs s" and c: "conns s c = None" "c < next_conn s"
  shows "core cfg D n Q xs (connect_socket cfg c r s)"
proof -
  obtain a s1 where a: "ask s = (a, s1)" by (cases "ask s")
  note fr = ask_frame [OF a]
  have core1: "core cfg D (Suc n) Q xs s1" using core a by simp
  show ?thesis
  proof (cases "a = 0")
    case True
    let ?s = "s1\<lparr>conns := (conns s1)(c := Some (new_conn cfg r))\<rparr>"
    have "c \<notin> set xs" using core c by (auto simp: core_def)
    moreover have "live ?s = live s1 + 1"
      using total_upd [of c s1 ?s "Some (new_conn cfg r)" "\<lambda>_. 1 :: nat"] c fr
      by (simp add: live_def)
    moreover have "in_flight ?s = in_flight s1"
      using total_upd [of c s1 ?s "Some (new_conn cfg r)" "\<lambda>k. mset (conn_queries k)"] c fr
      by (simp add: in_flight_def new_conn_def)
    moreover have "conn_ok cfg (new_conn cfg r)"
      by (simp add: conn_ok_def new_conn_def pooled_def)
    ultimately have "core cfg D n Q xs ?s"
      using core1 c fr by (auto simp: core_def)
    then show ?thesis
      using True by (simp add: connect_socket_def a)
  next
    case False
    have "free_conn c s1 = s1" using c fr by (simp add: free_conn_def fun_upd_idem)
    with False core_error_notification [OF core1] show ?thesis
      by (simp add: connect_socket_def a)
  qed
qed

lemma connect_socket_frame:
  "next_conn (connect_socket cfg c r s) = next_conn s"
  "process_flag (connect_socket cfg c r s) = process_flag s"
  "local_messages (connect_socket cfg c r s) = local_messages s"
  "idle (connect_socket cfg c r s) = idle s \<or>
    idle (connect_socket cfg c r s) = ((fst (idle s))(c := None), snd (idle s))"
  "d \<noteq> c \<Longrightarrow> conns (connect_socket cfg c r s) d = conns s d"
  by (cases "ask s"; simp add: connect_socket_def ask_frame free_conn_def)+

text \<open>
  \<^verbatim>\<open>drained\<close>: when no connection exists, no query waits; \<^verbatim>\<open>keeps\<close>: what the parts
  of a handler do not touch.
\<close>

definition drained :: "db_config \<Rightarrow> db_conn_pool_t \<Rightarrow> bool" where
  "drained cfg s \<longleftrightarrow> (conn_num s = max_db_conn_num cfg \<longrightarrow> queries s = [])"

definition keeps :: "db_config \<Rightarrow> db_conn_pool_t \<Rightarrow> db_conn_pool_t \<Rightarrow> bool" where
  "keeps cfg s s' \<longleftrightarrow> process_flag s' = process_flag s \<and> local_messages s' = local_messages s \<and>
     next_conn s \<le> next_conn s' \<and> (drained cfg s \<longrightarrow> drained cfg s')"

lemma keeps_refl [simp]: "keeps cfg s s"
  by (simp add: keeps_def)

lemma keeps_trans [trans]: "keeps cfg s s' \<Longrightarrow> keeps cfg s' s'' \<Longrightarrow> keeps cfg s s''"
  by (auto simp: keeps_def)

lemma keepsI: "process_flag s' = process_flag s \<Longrightarrow> local_messages s' = local_messages s \<Longrightarrow>
    next_conn s \<le> next_conn s' \<Longrightarrow> conn_num s' = conn_num s \<Longrightarrow> queries s' = queries s \<Longrightarrow> keeps cfg s s'"
  by (simp add: keeps_def drained_def)

lemma error_notification_drained: "drained cfg (error_notification cfg b s)"
  by (simp add: error_notification_def Let_def drained_def fold_notify)

lemma drained_parts [simp]:
  "drained cfg (s\<lparr>conns := v1\<rparr>) = drained cfg s" "drained cfg (s\<lparr>idle := v2\<rparr>) = drained cfg s"
  "drained cfg (s\<lparr>faults := v3\<rparr>) = drained cfg s" "drained cfg (s\<lparr>log := v4\<rparr>) = drained cfg s"
  "drained cfg (s\<lparr>answers := v5\<rparr>) = drained cfg s" "drained cfg (s\<lparr>process_flag := v6\<rparr>) = drained cfg s"
  "drained cfg (s\<lparr>local_messages := v7\<rparr>) = drained cfg s"
  by (simp_all add: drained_def)

lemma drained_ask: "ask s = (a, s') \<Longrightarrow> drained cfg s' \<longleftrightarrow> drained cfg s"
  by (simp add: drained_def ask_frame)

lemma connect_socket_drained: "drained cfg s \<Longrightarrow> drained cfg (connect_socket cfg c r s)"
  by (cases "ask s") (simp add: connect_socket_def error_notification_drained drained_ask)

lemma free_conn_frame [simp]:
  "next_conn (free_conn c s) = next_conn s" "idle (free_conn c s) = idle s"
  "process_flag (free_conn c s) = process_flag s" "local_messages (free_conn c s) = local_messages s"
  "queries (free_conn c s) = queries s" "conn_num (free_conn c s) = conn_num s"
  "conns (free_conn c s) = (conns s)(c := None)" "query_num (free_conn c s) = query_num s"
  by (simp_all add: free_conn_def)

lemma upd_conn_frame [simp]:
  "next_conn (upd_conn c f s) = next_conn s" "idle (upd_conn c f s) = idle s"
  "process_flag (upd_conn c f s) = process_flag s" "local_messages (upd_conn c f s) = local_messages s"
  "queries (upd_conn c f s) = queries s" "conn_num (upd_conn c f s) = conn_num s"
  "conns (upd_conn c f s) = (conns s)(c := map_option f (conns s c))" "query_num (upd_conn c f s) = query_num s"
  "drained cfg (upd_conn c f s) = drained cfg s"
  by (simp_all add: upd_conn_def)

lemma free_conn_absent: "conns s c = None \<Longrightarrow> free_conn c s = s"
  by (simp add: free_conn_def fun_upd_idem)

lemma start_Some:
  assumes core: "core cfg D (Suc n) Q xs s" and c: "conns s c = None" "c < next_conn s"
  shows "core cfg D n Q xs (start_database_connect cfg (Some c) s)"
    and "keeps cfg s (start_database_connect cfg (Some c) s)"
    and "idle (start_database_connect cfg (Some c) s) \<in> {idle s, ((fst (idle s))(c := None), snd (idle s))}"
    and "d \<noteq> c \<Longrightarrow> conns (start_database_connect cfg (Some c) s) d = conns s d"
proof -
  obtain a s1 where a: "ask s = (a, s1)" by (cases "ask s")
  note fr = ask_frame [OF a]
  have core1: "core cfg D (Suc n) Q xs s1" using core a by simp
  have free: "free_conn c s1 = s1" using c fr by (simp add: free_conn_absent)
  have res: "start_database_connect cfg (Some c) s =
      (if a \<noteq> 0 then error_notification cfg False s1 else connect_socket cfg c True s1)"
    by (simp add: start_database_connect_def a free)
  show "core cfg D n Q xs (start_database_connect cfg (Some c) s)"
    using core_error_notification [OF core1] core_connect_socket [OF core1] c fr by (simp add: res)
  show "keeps cfg s (start_database_connect cfg (Some c) s)"
    using connect_socket_drained [of cfg s1] fr
    by (simp add: res keeps_def connect_socket_frame error_notification_drained drained_ask [OF a])
  show "idle (start_database_connect cfg (Some c) s) \<in> {idle s, ((fst (idle s))(c := None), snd (idle s))}"
    using connect_socket_frame(4) [of cfg c True s1] fr by (simp add: res)
  show "d \<noteq> c \<Longrightarrow> conns (start_database_connect cfg (Some c) s) d = conns s d"
    using connect_socket_frame(5) [of d c cfg True s1] fr by (simp add: res)
qed

lemma core_next: "core cfg D n Q xs s \<Longrightarrow> conns s (next_conn s) = None"
  by (cases "conns s (next_conn s)") (auto simp: core_def)

lemma start_None:
  assumes core: "core cfg D n Q xs s" and pos: "conn_num s \<noteq> 0"
  shows "core cfg D n Q xs (start_database_connect cfg None s)"
    and "process_flag (start_database_connect cfg None s) = process_flag s"
    and "local_messages (start_database_connect cfg None s) = local_messages s"
    and "drained cfg (start_database_connect cfg None s)"
    and "idle (start_database_connect cfg None s) \<in>
      {idle s, ((fst (idle s))(next_conn s := None), snd (idle s))}"
proof -
  let ?c = "next_conn s"
  let ?s = "s\<lparr>conn_num := conn_num s - 1, next_conn := Suc ?c\<rparr>"
  obtain a s1 where a: "ask ?s = (a, s1)" by (cases "ask ?s")
  note fr = ask_frame [OF a]
  have none: "conns s ?c = None" using core_next [OF core] .
  have "live ?s = live s" "in_flight ?s = in_flight s"
    using none by (simp_all add: live_def in_flight_def total_Suc)
  then have "core cfg D (Suc n) Q xs ?s"
    using core pos by (auto simp: core_def less_Suc_eq)
  then have core1: "core cfg D (Suc n) Q xs s1" using a by simp
  have res: "start_database_connect cfg None s =
      (if a \<noteq> 0 then error_notification cfg False s1 else connect_socket cfg ?c False s1)"
    using pos a by (simp add: start_database_connect_def check_assert_def)
  show "core cfg D n Q xs (start_database_connect cfg None s)"
    using core_error_notification [OF core1] core_connect_socket [OF core1] none fr by (simp add: res)
  have "conn_num s \<le> max_db_conn_num cfg" using core by (simp add: core_def)
  then have "drained cfg s1" using pos fr by (auto simp: drained_def)
  then show "drained cfg (start_database_connect cfg None s)"
    using connect_socket_drained [of cfg s1] by (simp add: res error_notification_drained)
  show "process_flag (start_database_connect cfg None s) = process_flag s"
    "local_messages (start_database_connect cfg None s) = local_messages s"
    using fr by (simp_all add: res connect_socket_frame)
  show "idle (start_database_connect cfg None s) \<in>
      {idle s, ((fst (idle s))(next_conn s := None), snd (idle s))}"
    using connect_socket_frame(4) [of cfg ?c False s1] fr by (simp add: res)
qed

section \<open>Errors of a pooled connection\<close>

lemma start_Some_overwrites:
  "start_database_connect cfg (Some c) (upd_conn c f s) = start_database_connect cfg (Some c) (free_conn c s)"
proof -
  have ask: "ask (upd_conn c f s) = (fst (ask s), upd_conn c f (snd (ask s)))"
    "ask (free_conn c s) = (fst (ask s), free_conn c (snd (ask s)))" for s
    by (simp_all add: ask_def upd_conn_def free_conn_def split: list.splits)
  have "free_conn c (upd_conn c f s) = free_conn c (free_conn c s)" for s
    by (simp add: upd_conn_def free_conn_def)
  then show ?thesis
    by (simp add: start_database_connect_def connect_socket_def ask split: prod.splits)
      (simp add: upd_conn_def free_conn_def split: prod.splits)
qed

lemma remove_connection_ok:
  assumes idle: "idle_ok (idle s) xs" and len: "length xs \<le> next_conn s"
  shows "\<exists>q fs. remove_connection c s = s\<lparr>idle := q, faults := faults s @ fs\<rparr> \<and> set fs \<subseteq> {Assert_tail} \<and>
    idle_ok q (remove1 c xs)"
proof -
  have "length xs < Suc (next_conn s)" using len by simp
  from idle_ok_remove [OF idle this, of c] obtain q where
    q: "queue_remove (Suc (next_conn s)) c (idle s) = Some q" "idle_ok q (remove1 c xs)" by blast
  show ?thesis
  proof (cases "q_head (snd (idle s)) \<noteq> None \<and> q_head (snd q) = None \<and> q_tail (snd (idle s)) \<noteq> Next c")
    case True
    with q show ?thesis
      by (intro exI [of _ q] exI [of _ "[Assert_tail]"])
        (simp add: remove_connection_def Let_def check_assert_def)
  next
    case False
    then have "remove_connection c s = s\<lparr>idle := q, faults := faults s @ []\<rparr>"
      using q by (auto simp: remove_connection_def Let_def check_assert_def)
    with q show ?thesis by (intro exI [of _ q] exI [of _ "[]"]) simp
  qed
qed

lemma remove_connection_absent:
  assumes "list_at (fst (idle s)) (q_head (snd (idle s))) xs" "c \<notin> set xs" "length xs \<le> next_conn s"
  shows "remove_connection c s = s"
proof -
  have "queue_remove (Suc (next_conn s)) c (idle s) = Some (idle s)"
    using find_node_not_found [OF assms(1,2), of "Suc (next_conn s)" Var] assms(3)
    by (auto simp: queue_remove_def)
  then show ?thesis by (auto simp: remove_connection_def Let_def)
qed

text \<open>
  The queries of the connection may be notified in two parts: on a timeout the first one
  is taken off before \<^verbatim>\<open>on_database_error\<close> notifies the others.
\<close>

definition split_off :: "addr \<Rightarrow> outcome \<Rightarrow> nat list \<Rightarrow> nat list \<Rightarrow> db_conn_pool_t \<Rightarrow> db_conn_pool_t" where
  "split_off c r qs1 qs2 s = fold (notify r) qs1 (upd_conn c (\<lambda>k. k\<lparr>conn_queries := qs2\<rparr>) s)"

lemma split_off_nothing: "conns s c = Some k \<Longrightarrow> split_off c r [] (conn_queries k) s = s"
  by (simp add: split_off_def upd_conn_def fun_upd_idem)

lemma split_off_frame:
  "idle (split_off c r qs1 qs2 s) = idle s" "next_conn (split_off c r qs1 qs2 s) = next_conn s"
  "conns s c = Some k \<Longrightarrow> conns (split_off c r qs1 qs2 s) c = Some (k\<lparr>conn_queries := qs2\<rparr>)"
  "keeps cfg s (split_off c r qs1 qs2 s)"
  "split_off c r qs1 qs2 (s\<lparr>idle := q, faults := fs\<rparr>) = (split_off c r qs1 qs2 s)\<lparr>idle := q, faults := fs\<rparr>"
  "faults (split_off c r qs1 qs2 s) = faults s"
  by (auto simp: split_off_def fold_notify upd_conn_def intro: keepsI)

lemma error_after_remove:
  assumes core: "core cfg D n Q xs s" and k: "conns s c = Some k" and c: "c \<notin> set xs"
    and qs: "conn_queries k = qs1 @ qs2" and t: "t = split_off c r qs1 qs2 s"
    and rm: "remove_connection c t = t"
  shows "core cfg D n Q xs (on_database_error cfg c t)"
    and "keeps cfg s (on_database_error cfg c t)"
    and "idle (on_database_error cfg c t) \<in> {idle s, ((fst (idle s))(c := None), snd (idle s))}"
    and "d \<noteq> c \<Longrightarrow> conns (on_database_error cfg c t) d = conns s d"
proof -
  let ?r = "on_database_error cfg c t" and ?s = "free_conn c (fold (notify Failed) qs2 t)"
  have res: "?r = start_database_connect cfg (Some c) ?s"
    using split_off_frame(3) [OF k, of r qs1 qs2, folded t]
    by (simp add: on_database_error_def rm Let_def start_Some_overwrites)
  have s_eq: "?s = fold (notify Failed) qs2 (fold (notify r) qs1 (free_conn c s))"
    by (simp add: t split_off_def fold_notify free_conn_def upd_conn_def)
  have "core cfg D (Suc n) (Q + mset qs2 + mset qs1) xs (free_conn c s)"
    using core_free [OF core k c] by (simp add: qs ac_simps)
  then have pre: "core cfg D (Suc n) Q xs ?s" unfolding s_eq by (intro core_notify_all)
  have none: "conns ?s c = None" "c < next_conn ?s"
    using core_bound [OF core k] by (simp_all add: fold_notify split_off_frame t)
  note st = start_Some [OF pre none]
  have "keeps cfg s ?s" unfolding s_eq by (rule keepsI) (simp_all add: fold_notify)
  then show "keeps cfg s ?r" unfolding res using st(2) by (rule keeps_trans)
  show "core cfg D n Q xs ?r" using st(1) by (simp only: res)
  show "idle ?r \<in> {idle s, ((fst (idle s))(c := None), snd (idle s))}"
    using st(3) unfolding res by (simp add: fold_notify split_off_frame t)
  show "d \<noteq> c \<Longrightarrow> conns ?r d = conns s d"
    using st(4) [of d] unfolding res s_eq by (simp add: fold_notify)
qed

lemma error_split_off:
  assumes core: "core cfg D n Q xs s" and idle: "idle_ok (idle s) xs" and k: "conns s c = Some k"
    and qs: "conn_queries k = qs1 @ qs2" and t: "t = split_off c r qs1 qs2 s"
  shows "core cfg D n Q (remove1 c xs) (on_database_error cfg c t) \<and>
    idle_ok (idle (on_database_error cfg c t)) (remove1 c xs) \<and>
    keeps cfg s (on_database_error cfg c t) \<and>
    (\<forall>d. d \<noteq> c \<longrightarrow> conns (on_database_error cfg c t) d = conns s d)"
proof -
  have "length xs \<le> next_conn t"
    using core_idle_length [OF core idle_ok_distinct [OF idle]] by (simp add: t split_off_frame)
  from remove_connection_ok [OF _ this, of c] idle obtain q fs where
    rm: "remove_connection c t = t\<lparr>idle := q, faults := faults s @ fs\<rparr>"
    and fs: "set fs \<subseteq> {Assert_tail}" and q: "idle_ok q (remove1 c xs)"
    by (auto simp: t split_off_frame)
  let ?s = "s\<lparr>idle := q, faults := faults s @ fs\<rparr>"
  let ?t = "t\<lparr>idle := q, faults := faults s @ fs\<rparr>"
  have c: "c \<notin> set (remove1 c xs)" using idle_ok_distinct [OF idle] by (simp add: set_remove1_eq)
  have core1: "core cfg D n Q (remove1 c xs) s"
    using core set_remove1_subset [of c xs] by (rule core_subset)
  have core': "core cfg D n Q (remove1 c xs) ?s"
    by (rule core_cong [OF core1]) (use core fs in \<open>auto simp: core_def counter_faults_def\<close>)
  have k': "conns ?s c = Some k" using k by simp
  have t': "?t = split_off c r qs1 qs2 ?s" by (simp add: t split_off_frame)
  have rm': "remove_connection c ?t = ?t"
    using q c core_idle_length [OF core' idle_ok_distinct [OF q]]
    by (intro remove_connection_absent) (auto simp: idle_ok_def t split_off_frame)
  note e = error_after_remove [OF core' k' c qs t' rm']
  have same: "on_database_error cfg c ?t = on_database_error cfg c t"
    using rm rm' by (simp add: on_database_error_def)
  have "keeps cfg s ?s" by (rule keepsI) simp_all
  moreover have "idle_ok (idle (on_database_error cfg c t)) (remove1 c xs)"
    using e(3) q c unfolding same by (auto simp: idle_ok_def)
  ultimately show ?thesis
    using e(1,2,4) unfolding same by (auto intro: keeps_trans)
qed

lemma on_database_error_ok:
  assumes "core cfg D n Q xs s" "idle_ok (idle s) xs" "conns s c = Some k"
  shows "core cfg D n Q (remove1 c xs) (on_database_error cfg c s) \<and>
    idle_ok (idle (on_database_error cfg c s)) (remove1 c xs) \<and>
    keeps cfg s (on_database_error cfg c s) \<and>
    (\<forall>d. d \<noteq> c \<longrightarrow> conns (on_database_error cfg c s) d = conns s d)"
  using error_split_off [OF assms, of "[]" "conn_queries k" s Failed] assms(3)
  by (simp add: split_off_nothing)

section \<open>The invariant between events\<close>

text \<open>
  \<^verbatim>\<open>settled\<close>: the posted task and its flag agree, and queries wait only when the task
  is posted or a connection exists.
\<close>

definition settled :: "db_config \<Rightarrow> db_conn_pool_t \<Rightarrow> bool" where
  "settled cfg s \<longleftrightarrow> local_messages s = (if process_flag s then 1 else 0) \<and> (process_flag s \<or> drained cfg s)"

definition pool_inv :: "db_config \<Rightarrow> nat list \<Rightarrow> db_conn_pool_t \<Rightarrow> bool" where
  "pool_inv cfg D s \<longleftrightarrow> (\<exists>xs. core cfg D 0 {#} xs s \<and> idle_ok (idle s) xs) \<and> settled cfg s"

lemma settled_keeps: "settled cfg s \<Longrightarrow> keeps cfg s s' \<Longrightarrow> settled cfg s'"
  by (auto simp: settled_def keeps_def)

lemma pool_invI: "core cfg D 0 {#} xs s \<Longrightarrow> idle_ok (idle s) xs \<Longrightarrow> settled cfg s \<Longrightarrow> pool_inv cfg D s"
  by (auto simp: pool_inv_def)

lemma pool_invE:
  assumes "pool_inv cfg D s"
  obtains xs where "core cfg D 0 {#} xs s" "idle_ok (idle s) xs" "settled cfg s"
  using assms by (auto simp: pool_inv_def)

lemma unpooled_not_idle: "core cfg D n Q xs s \<Longrightarrow> conns s c = Some k \<Longrightarrow> \<not> pooled k \<Longrightarrow> c \<notin> set xs"
  by (auto simp: core_def)

lemma pool_inv_answers [simp]: "pool_inv cfg D (s\<lparr>answers := as\<rparr>) \<longleftrightarrow> pool_inv cfg D s"
  by (simp add: pool_inv_def settled_def)

lemma pool_inv_ask: "ask s = (a, s') \<Longrightarrow> pool_inv cfg D s' \<longleftrightarrow> pool_inv cfg D s"
  by (simp add: pool_inv_def settled_def ask_frame drained_ask)

lemma pool_inv_null: "pool_inv cfg D s \<Longrightarrow> pool_inv cfg D (s\<lparr>faults := faults s @ [Null_dereference]\<rparr>)"
  unfolding pool_inv_def settled_def
  using core_faults [of cfg D 0 "{#}" _ s Null_dereference] by (auto simp: counter_faults_def)

lemma pool_inv_initial: "pool_inv cfg [] (initialize_database_connection_pool cfg)"
  by (rule pool_invI [of _ _ "[]"])
    (simp_all add: core_def initialize_database_connection_pool_def live_def in_flight_def total_def
      idle_ok_def queue_init_def tail_slot_def settled_def drained_def)

lemma pool_inv_conn_ok: "pool_inv cfg D s \<Longrightarrow> conns s c = Some k \<Longrightarrow> conn_ok cfg k"
  by (auto simp: pool_inv_def intro: core_conn_ok)

lemma process_queries_core:
  "core cfg D n Q xs s \<Longrightarrow> process_queries cfg s =
    (if \<not> process_flag s \<and> queries s \<noteq> []
     then s\<lparr>process_flag := True, local_messages := local_messages s + 1\<rparr> else s)"
  by (cases "queries s") (auto simp: process_queries_def check_assert_def core_def)

lemma pool_inv_process_queries:
  assumes "core cfg D 0 {#} xs s" "idle_ok (idle s) xs" "local_messages s = (if process_flag s then 1 else 0)"
  shows "pool_inv cfg D (process_queries cfg s)"
  using assms by (intro pool_invI [of _ _ xs])
    (auto simp: process_queries_core [OF assms(1)] settled_def drained_def)

lemma pool_inv_error:
  assumes "pool_inv cfg D s" "conns s c = Some k"
  shows "pool_inv cfg D (on_database_error cfg c s)"
  using assms(1)
proof (rule pool_invE)
  fix xs assume xs: "core cfg D 0 {#} xs s" "idle_ok (idle s) xs" "settled cfg s"
  from on_database_error_ok [OF xs(1,2) assms(2)] xs(3) show ?thesis
    by (blast intro: pool_invI settled_keeps)
qed

lemma connect_error_core:
  assumes core: "core cfg D 0 {#} xs s" and k: "conns s c = Some k" "c \<notin> set xs"
  shows "core cfg (D @ conn_queries k) 0 {#} xs (on_database_connect_error cfg c b s)"
proof -
  have swap: "free_conn c (s\<lparr>dropped := dropped s @ qs\<rparr>) = (free_conn c s)\<lparr>dropped := dropped (free_conn c s) @ qs\<rparr>" for qs
    by (simp add: free_conn_def)
  have "core cfg D (Suc 0) ({#} + mset (conn_queries k)) xs (free_conn c s)"
    using core_free [OF core k] by simp
  from core_error_notification [OF core_drop [OF this], of b]
  show ?thesis by (simp add: on_database_connect_error_def swap k)
qed

lemma connect_error_frame [simp]:
  "idle (on_database_connect_error cfg c b s) = idle s"
  "next_conn (on_database_connect_error cfg c b s) = next_conn s"
  "conns (on_database_connect_error cfg c b s) = (conns s)(c := None)"
  by (simp_all add: on_database_connect_error_def)

lemma connect_error_settled: "settled cfg s \<Longrightarrow> settled cfg (on_database_connect_error cfg c b s)"
  by (simp add: on_database_connect_error_def settled_def error_notification_drained)

lemma pool_inv_connect_error:
  assumes inv: "pool_inv cfg D s" and k: "conns s c = Some k" "\<not> pooled k"
  shows "pool_inv cfg D (on_database_connect_error cfg c b s)"
  using inv
proof (rule pool_invE)
  fix xs assume xs: "core cfg D 0 {#} xs s" "idle_ok (idle s) xs" "settled cfg s"
  have "conn_queries k = []" using core_conn_ok [OF xs(1) k(1)] k(2) by (simp add: conn_ok_def)
  with connect_error_core [OF xs(1) k(1) unpooled_not_idle [OF xs(1) k], of b]
  have "core cfg D 0 {#} xs (on_database_connect_error cfg c b s)" by simp
  then show ?thesis using xs(2,3) by (intro pool_invI [of _ _ xs]) (simp_all add: connect_error_settled)
qed

lemma pool_inv_upd_unpooled:
  assumes inv: "pool_inv cfg D s" and k: "conns s c = Some k" "\<not> pooled k"
    and f: "\<not> pooled (f k)" "conn_queries (f k) = conn_queries k" "conn_query_num (f k) = conn_query_num k"
      "timer (f k) \<noteq> Some Query_timeout" "sock_write (f k) \<noteq> Some Write_ready"
      "sock_write (f k) = Some Poll_write \<Longrightarrow> sock_read (f k) = None"
  shows "pool_inv cfg D (upd_conn c f s)"
  using inv
proof (rule pool_invE)
  fix xs assume xs: "core cfg D 0 {#} xs s" "idle_ok (idle s) xs" "settled cfg s"
  have ok: "conn_ok cfg k" using core_conn_ok [OF xs(1) k(1)] .
  have "conn_ok cfg (f k)" using ok f k(2) by (auto simp: conn_ok_def)
  then have "core cfg D 0 {#} xs (upd_conn c f s)"
    using f unpooled_not_idle [OF xs(1) k] by (intro core_upd_same [OF xs(1) k(1)]) auto
  then show ?thesis
    using xs(2,3) by (intro pool_invI [of _ _ xs]) (simp_all add: settled_def)
qed

lemma idle_push_idle [simp]: "idle (push_idle c s) = queue_push c (idle s)"
  by (simp add: push_idle_def)

lemma pool_inv_push:
  assumes core: "core cfg D 0 {#} xs s" and idle: "idle_ok (idle s) xs" and c: "c \<notin> set xs"
    and k: "conns s c = Some k" "pooled k" "0 < conn_query_num k"
    and m: "local_messages s = (if process_flag s then 1 else 0)"
  shows "pool_inv cfg D (process_queries cfg (push_idle c s))"
proof -
  obtain ys where ys: "idle_ok (queue_push c (idle s)) ys" "set ys \<subseteq> insert c (set xs)"
    using idle_ok_push [OF idle c] by blast
  have "core cfg D 0 {#} (c # xs) s" using core k by (simp add: core_def)
  then have "core cfg D 0 {#} ys s" by (rule core_subset) (simp add: ys(2))
  then show ?thesis
    using ys(1) m by (intro pool_inv_process_queries [of _ _ ys]) (simp_all add: push_idle_def)
qed

text \<open>A connection enters the pool.\<close>

lemma pool_inv_enter:
  assumes inv: "pool_inv cfg D s" and k: "conns s c = Some k" "\<not> pooled k" and pos: "0 < max_pipeline_query_num cfg"
    and f: "pooled (f k)" "conn_queries (f k) = conn_queries k" "conn_query_num (f k) = conn_query_num k"
      "timer (f k) \<noteq> Some Connect_timeout" "sock_write (f k) \<noteq> Some Poll_write"
  shows "pool_inv cfg D (process_queries cfg (push_idle c (upd_conn c f s)))"
  using inv
proof (rule pool_invE)
  fix xs assume xs: "core cfg D 0 {#} xs s" "idle_ok (idle s) xs" "settled cfg s"
  have ok: "conn_ok cfg k" using core_conn_ok [OF xs(1) k(1)] .
  have c: "c \<notin> set xs" using unpooled_not_idle [OF xs(1) k] .
  have "conn_ok cfg (f k)" using ok f k(2) by (auto simp: conn_ok_def)
  then have "core cfg D 0 {#} xs (upd_conn c f s)"
    using f c by (intro core_upd_same [OF xs(1) k(1)]) auto
  moreover have "0 < conn_query_num (f k)" using ok k(2) pos f by (auto simp: conn_ok_def)
  ultimately show ?thesis
    using xs(2,3) c f(1) k(1) by (intro pool_inv_push [of _ _ xs]) (simp_all add: settled_def)
qed

lemma pool_inv_with_conn:
  "pool_inv cfg D s \<Longrightarrow> (\<And>k. conns s c = Some k \<Longrightarrow> pool_inv cfg D (f s)) \<Longrightarrow> pool_inv cfg D (with_conn c s f)"
  by (auto simp: with_conn_def pool_inv_null split: option.splits)

section \<open>Writing\<close>

lemma flush_ok:
  assumes core: "core cfg D n Q xs s" and k: "conns s c = Some k" and cb: "cb \<noteq> Poll_write"
    "pooled k \<or> cb \<noteq> Write_ready" and fl: "flush_connection cb c s = (b, s')"
  shows "core cfg D n Q xs s' \<and> idle s' = idle s \<and> keeps cfg s s' \<and> next_conn s' = next_conn s \<and>
    (\<exists>k'. conns s' c = Some k' \<and> (k' = k \<or> k' = k\<lparr>sock_write := Some cb\<rparr>)) \<and>
    (\<forall>d. d \<noteq> c \<longrightarrow> conns s' d = conns s d)"
proof -
  obtain a s1 where a: "ask s = (a, s1)" by (cases "ask s")
  note fr = ask_frame [OF a]
  have core1: "core cfg D n Q xs s1" using core a by simp
  have keeps1: "keeps cfg s s1" using fr by (intro keepsI) simp_all
  let ?f = "\<lambda>k. if sock_write k = None then k\<lparr>sock_write := Some cb\<rparr> else k"
  have k1: "conns s1 c = Some k" using k fr by simp
  have "conn_ok cfg k" using core_conn_ok [OF core k] .
  then have "conn_ok cfg (?f k)" using cb by (auto simp: conn_ok_def pooled_def)
  then have "core cfg D n Q xs (upd_conn c ?f s1)"
    using core_idle_conn [OF core1, of c] k1
    by (intro core_upd_same [OF core1 k1]) (auto simp: pooled_def)
  moreover have "keeps cfg s (upd_conn c ?f s1)"
    using fr by (intro keepsI) simp_all
  ultimately show ?thesis
    using fl core1 keeps1 fr k1
    by (auto simp: flush_connection_def a split: if_splits)
qed

lemma pool_inv_flush:
  assumes "pool_inv cfg D s" "conns s c = Some k" "cb \<noteq> Poll_write"
    "pooled k \<or> cb \<noteq> Write_ready" "flush_connection cb c s = (b, s')"
  shows "pool_inv cfg D s' \<and> (\<exists>k'. conns s' c = Some k' \<and> (k' = k \<or> k' = k\<lparr>sock_write := Some cb\<rparr>))"
  using assms(1)
proof (rule pool_invE)
  fix xs assume xs: "core cfg D 0 {#} xs s" "idle_ok (idle s) xs" "settled cfg s"
  from flush_ok [OF xs(1) assms(2-5)] xs(2,3) show ?thesis
    by (metis pool_invI settled_keeps)
qed

lemma pool_inv_write_ready:
  assumes "pool_inv cfg D s" "conns s c = Some k" "pooled k"
  shows "pool_inv cfg D (on_database_write_ready cfg c err s)"
proof (cases "flush_connection Write_ready c s")
  case (Pair b s')
  from pool_inv_flush [OF assms(1,2) _ _ this] assms show ?thesis
    using pool_inv_error [OF assms(1,2)] pool_inv_error [of cfg D s' c]
    by (auto simp: on_database_write_ready_def Pair split: bool.splits)
qed

lemma pool_inv_connect_write_ready:
  assumes "pool_inv cfg D s" "conns s c = Some k" "\<not> pooled k \<or> \<not> err \<and> fst (ask s) \<le> 1"
  shows "pool_inv cfg D (on_database_connect_write_ready cfg c err s)"
proof (cases "flush_connection Connect_write_ready c s")
  case (Pair b s')
  from pool_inv_flush [OF assms(1,2) _ _ this] obtain k' where
    s': "pool_inv cfg D s'" "conns s' c = Some k'" "pooled k' = pooled k" by (auto simp: pooled_def)
  have b: "pooled k \<Longrightarrow> \<not> b" using Pair assms(3)
    by (auto simp: flush_connection_def split: prod.splits if_splits)
  show ?thesis
  proof (cases "pooled k")
    case True
    with assms(3) b s' show ?thesis
      by (auto simp: on_database_connect_write_ready_def Pair split: bool.splits)
  next
    case False
    with pool_inv_connect_error [OF assms(1,2)] pool_inv_connect_error [OF s'(1,2)] s' show ?thesis
      by (auto simp: on_database_connect_write_ready_def Pair split: bool.splits)
  qed
qed

lemma pool_inv_timeout:
  assumes inv: "pool_inv cfg D s" and k: "conns s c = Some k" and p: "pooled k"
  shows "pool_inv cfg D (on_database_timeout cfg c s)"
  using inv
proof (rule pool_invE)
  fix xs assume xs: "core cfg D 0 {#} xs s" "idle_ok (idle s) xs" "settled cfg s"
  show ?thesis
  proof (cases "conn_queries k")
    case Nil
    with pool_inv_error [OF inv k] show ?thesis by (simp add: on_database_timeout_def k)
  next
    case (Cons q qs)
    have "notify Timed_out q (upd_conn c (\<lambda>k. k\<lparr>conn_queries := qs\<rparr>) s) = split_off c Timed_out [q] qs s"
      by (simp add: split_off_def)
    with error_split_off [OF xs(1,2) k, of "[q]" qs _ Timed_out] Cons xs(3) show ?thesis
      by (auto simp: on_database_timeout_def k intro: pool_invI settled_keeps)
  qed
qed

end
