(* ===== verification/Db_Pool_Step.thy ===== *)
theory Db_Pool_Step
  imports Db_Pool_Inv
begin

text \<open>
  Every event keeps the invariant of the pool (theory \<^verbatim>\<open>Db_Pool_Inv\<close>), and what
  follows for the reachable states: no query is answered twice and only a late error of the write
  callback of the connecting phase loses queries, the counters are right, the waiting queries keep their order, and no query waits without a task posted
  or a connection that exists.  At the end, two runs in which the code misbehaves.
\<close>

section \<open>Submitting\<close>

lemma execute_database_query_core:
  assumes "core cfg D n Q xs s"
  shows "core cfg D n Q xs (snd (execute_database_query cfg q s))"
proof (cases "query_num s = 0")
  case True
  with assms show ?thesis by (simp add: execute_database_query_def)
next
  case False
  let ?s = "s\<lparr>queries := queries s @ [q], query_num := query_num s - 1, submitted := submitted s @ [q]\<rparr>"
  have "core cfg D n Q xs ?s"
    using assms False by (auto simp: core_def live_def in_flight_def total_def ac_simps suffix_def)
  then have "core cfg D n Q xs (process_queries cfg ?s)"
    by (subst process_queries_core) (assumption, simp)
  with False show ?thesis by (simp add: execute_database_query_def)
qed

lemma execute_database_query_frame [simp]:
  "conns (snd (execute_database_query cfg q s)) = conns s" "idle (snd (execute_database_query cfg q s)) = idle s"
  by (simp_all add: execute_database_query_def process_queries_def)

lemma execute_database_query_settled:
  "settled cfg s \<Longrightarrow> settled cfg (snd (execute_database_query cfg q s))"
  by (auto simp: settled_def execute_database_query_def process_queries_def)

lemma pool_inv_execute: "pool_inv cfg D s \<Longrightarrow> pool_inv cfg D (snd (execute_database_query cfg q s))"
  by (auto simp: pool_inv_def execute_database_query_settled intro: execute_database_query_core)

section \<open>Reading results\<close>

lemma submit_all:
  assumes "core cfg D n Q xs s" "settled cfg s"
  shows "core cfg D n Q xs (fold (\<lambda>p s. snd (execute_database_query cfg p s)) subs s) \<and>
    settled cfg (fold (\<lambda>p s. snd (execute_database_query cfg p s)) subs s) \<and>
    conns (fold (\<lambda>p s. snd (execute_database_query cfg p s)) subs s) = conns s \<and>
    idle (fold (\<lambda>p s. snd (execute_database_query cfg p s)) subs s) = idle s"
  using assms
proof (induction subs arbitrary: s)
  case Nil
  then show ?case by simp
next
  case (Cons q subs)
  from Cons.IH [OF execute_database_query_core [OF Cons.prems(1), of q]
      execute_database_query_settled [OF Cons.prems(2), of q]]
  show ?case by simp
qed

lemma settled_assert [simp]: "settled cfg (check_assert f b s) = settled cfg s"
  by (simp add: check_assert_def settled_def)

lemma drained_assert [simp]: "drained cfg (check_assert f b s) = drained cfg s"
  by (simp add: drained_def)

lemma settled_upd [simp]: "settled cfg (upd_conn c f s) = settled cfg s"
  by (simp add: settled_def)

lemma settled_notify [simp]: "settled cfg (notify r q s) = settled cfg s"
  by (simp add: settled_def notify_def)

lemma notify_frame [simp]:
  "conns (notify r q s) = conns s" "idle (notify r q s) = idle s" "next_conn (notify r q s) = next_conn s"
  "queries (notify r q s) = queries s" "query_num (notify r q s) = query_num s"
  "conn_num (notify r q s) = conn_num s" "drained cfg (notify r q s) = drained cfg s"
  "process_flag (notify r q s) = process_flag s" "local_messages (notify r q s) = local_messages s"
  by (simp_all add: notify_def drained_def)

definition read_inv :: "db_config \<Rightarrow> nat list \<Rightarrow> addr \<Rightarrow> addr list \<Rightarrow> db_conn_pool_t \<Rightarrow> bool" where
  "read_inv cfg D c xs s \<longleftrightarrow> core cfg D 0 {#} xs s \<and> settled cfg s \<and> (\<exists>k. conns s c = Some k \<and> pooled k)"

lemma read_inv_upd_same:
  assumes "read_inv cfg D c xs s" "conns s c = Some k" "pooled k"
    and "pooled (f k)" "conn_queries (f k) = conn_queries k" "conn_query_num (f k) = conn_query_num k"
    and "timer (f k) \<noteq> Some Connect_timeout" "sock_write (f k) \<noteq> Some Poll_write"
  shows "read_inv cfg D c xs (upd_conn c f s)"
proof -
  have core: "core cfg D 0 {#} xs s" using assms(1) by (simp add: read_inv_def)
  have "conn_ok cfg (f k)" using core_conn_ok [OF core assms(2)] assms by (simp add: conn_ok_def)
  then have "core cfg D 0 {#} xs (upd_conn c f s)"
    using core_upd_same [OF core assms(2)] assms by auto
  then show ?thesis using assms by (simp add: read_inv_def)
qed

lemma conn_ok_timer: "conn_ok cfg k \<Longrightarrow> pooled k \<Longrightarrow> timer k \<noteq> Some Connect_timeout \<and> sock_write k \<noteq> Some Poll_write"
  by (simp add: conn_ok_def)

lemma read_loop_ok:
  assumes "read_inv cfg D c xs s" "idle_ok (idle s) xs" "read_loop cfg c rs s = (r, s')"
  shows "if r then pool_inv cfg D s' else read_inv cfg D c xs s' \<and> idle s' = idle s"
  using assms
proof (induction cfg c rs s rule: read_loop.induct)
  case (1 cfg c s)
  then show ?case by simp
next
  case (2 cfg c result subs is_done rest s)
  obtain k where k: "conns s c = Some k" "pooled k" and core: "core cfg D 0 {#} xs s" and st: "settled cfg s"
    using "2.prems"(1) by (auto simp: read_inv_def)
  note ok = core_conn_ok [OF core k(1)] and tm = conn_ok_timer [OF core_conn_ok [OF core k(1)] k(2)]
  note inv = pool_invI [OF core "2.prems"(2) st]
  consider (ignore) "ignore_result k" | (sync) "\<not> ignore_result k" "expect_sync k"
    | (query) q qs where "\<not> ignore_result k" "\<not> expect_sync k" "conn_queries k = q # qs"
    | (idle) "\<not> ignore_result k" "\<not> expect_sync k" "conn_queries k = []"
    by (cases "conn_queries k") blast+
  then show ?case
  proof cases
    case ignore
    let ?s = "if result = None then upd_conn c (\<lambda>k. k\<lparr>ignore_result := False\<rparr>) s else s"
    have "read_inv cfg D c xs ?s"
      using "2.prems"(1) read_inv_upd_same [OF "2.prems"(1) k, of "\<lambda>k. k\<lparr>ignore_result := False\<rparr>"] k tm
      by (simp add: pooled_def)
    moreover have "read_loop cfg c rest ?s = (r, s')" "idle ?s = idle s" using "2.prems"(3) ignore k by simp_all
    ultimately show ?thesis using 2(1) [OF k(1) ignore] "2.prems"(2) by simp
  next
    case sync
    let ?s = "upd_conn c (\<lambda>k. k\<lparr>expect_sync := False\<rparr>) s"
    have inv': "read_inv cfg D c xs ?s"
      using read_inv_upd_same [OF "2.prems"(1) k, of "\<lambda>k. k\<lparr>expect_sync := False\<rparr>"] k tm by (simp add: pooled_def)
    show ?thesis
    proof (cases "result = Some PGRES_PIPELINE_SYNC")
      case True
      with 2(2) [OF k(1) sync True inv'] "2.prems"(2,3) sync k show ?thesis by simp
    next
      case False
      with "2.prems"(3) sync k pool_inv_error [OF inv k(1)] show ?thesis by auto
    qed
  next
    case query
    let ?s = "fold (\<lambda>p s. snd (execute_database_query cfg p s)) subs s"
    have sub: "core cfg D 0 {#} xs ?s" "settled cfg ?s" "conns ?s = conns s" "idle ?s = idle s"
      using submit_all [OF core st] by blast+
    show ?thesis
    proof (cases is_done)
      case True
      let ?f = "\<lambda>k. k\<lparr>conn_query_num := conn_query_num k + 1, timer := Some Query_timeout,
                     expect_sync := True, conn_queries := qs, ignore_result := (result \<noteq> None)\<rparr>"
      have "conn_ok cfg (?f k)" using ok tm k(2) query by (auto simp: conn_ok_def pooled_def)
      then have "core cfg D 0 {#q#} xs (upd_conn c ?f ?s)"
        using sub k query by (intro core_upd [OF sub(1)]) (auto simp: pooled_def)
      then have "read_inv cfg D c xs (notify (Result result) q (upd_conn c ?f ?s))"
        using sub k core_notify [of cfg D 0 q "{#}" xs "upd_conn c ?f ?s" "Result result"]
        by (simp add: read_inv_def pooled_def)
      moreover have "idle (notify (Result result) q (upd_conn c ?f ?s)) = idle s"
        using sub by simp
      ultimately show ?thesis
        using 2(3) [OF k(1) query refl True] "2.prems"(2,3) query k True by simp
    next
      case False
      have "read_inv cfg D c xs (check_assert Assert_result (result \<noteq> None) ?s)"
        using sub k by (auto simp: read_inv_def counter_faults_def)
      with 2(4) [OF k(1) query refl False] "2.prems"(2,3) query k False sub show ?thesis by simp
    qed
  next
    case idle
    let ?s = "check_assert Assert_result (result = None) s"
    have "read_inv cfg D c xs ?s" using "2.prems"(1) k by (auto simp: read_inv_def counter_faults_def)
    from read_inv_upd_same [OF this, of k "\<lambda>k. k\<lparr>timer := None\<rparr>"] k tm
    have "read_inv cfg D c xs (upd_conn c (\<lambda>k. k\<lparr>timer := None\<rparr>) ?s)" by (simp add: pooled_def)
    with "2.prems"(3) idle k show ?thesis by auto
  qed
qed

lemma pool_inv_read_ready:
  assumes inv: "pool_inv cfg D s" and k: "conns s c = Some k" "pooled k"
  shows "pool_inv cfg D (on_database_read_ready cfg c err rs s)"
proof -
  obtain a s1 where a: "ask s = (a, s1)" by (cases "ask s")
  have inv1: "pool_inv cfg D s1" and k1: "conns s1 c = Some k"
    using inv k a by (simp_all add: pool_inv_ask ask_frame)
  obtain b s2 where b: "flush_connection Write_ready c s1 = (b, s2)" by (cases "flush_connection Write_ready c s1")
  from pool_inv_flush [OF inv1 k1 _ _ this] k obtain k2 where
    inv2: "pool_inv cfg D s2" and k2: "conns s2 c = Some k2" "pooled k2" by (auto simp: pooled_def)
  obtain r s3 where r: "read_loop cfg c rs s2 = (r, s3)" by (cases "read_loop cfg c rs s2")
  from inv2 obtain xs where xs: "core cfg D 0 {#} xs s2" "idle_ok (idle s2) xs" "settled cfg s2"
    by (rule pool_invE)
  have "read_inv cfg D c xs s2" using xs k2 by (simp add: read_inv_def)
  note loop = read_loop_ok [OF this xs(2) r]
  note unf = on_database_read_ready_def a b r k2
  consider "err" | "\<not> err" "a \<noteq> 0" | "\<not> err" "a = 0" "b" | "\<not> err" "a = 0" "\<not> b" "r"
    | (quiet) "\<not> err" "a = 0" "\<not> b" "\<not> r" by blast
  then show ?thesis
  proof cases
    case quiet
    with loop obtain k3 where l: "core cfg D 0 {#} xs s3" "idle s3 = idle s2" "settled cfg s3"
      and k3: "conns s3 c = Some k3" "pooled k3" by (auto simp: read_inv_def)
    have m: "local_messages s3 = (if process_flag s3 then 1 else 0)" using l(3) by (simp add: settled_def)
    have res: "on_database_read_ready cfg c err rs s =
        process_queries cfg (if conn_query_num k2 = 0 \<and> conn_query_num k3 \<noteq> 0 then push_idle c s3 else s3)"
      using quiet k2 k3 by (simp add: unf)
    show ?thesis
    proof (cases "conn_query_num k2 = 0 \<and> conn_query_num k3 \<noteq> 0")
      case True
      then have "c \<notin> set xs" using core_idle_conn [OF xs(1), of c] k2 by auto
      from pool_inv_push [OF l(1) _ this k3] xs(2) l(2) m True show ?thesis
        unfolding res by simp
    next
      case False
      then have "on_database_read_ready cfg c err rs s = process_queries cfg s3" unfolding res by (simp only: if_False)
      with pool_inv_process_queries [OF l(1) _ m] xs(2) l(2) show ?thesis by simp
    qed
  qed (use pool_inv_error [OF inv k(1)] pool_inv_error [OF inv1 k1] pool_inv_error [OF inv2 k2(1)] loop in
       \<open>simp_all add: unf\<close>)
qed

section \<open>Connecting\<close>

lemma connect_read_loop_ok:
  assumes "pool_inv cfg D s" "conns s c = Some k" "\<not> pooled k" "sock_write k \<noteq> Some Poll_write"
    and "0 < max_pipeline_query_num cfg"
  shows "pool_inv cfg D (connect_read_loop cfg c rs s)"
  using assms
proof (induction rs)
  case Nil
  then show ?case by simp
next
  case (Cons result rest)
  have "pool_inv cfg D (process_queries cfg (push_idle c
      (upd_conn c (\<lambda>k. k\<lparr>timer := None, sock_read := Some Read_ready\<rparr>) s)))"
    using Cons.prems by (intro pool_inv_enter [OF Cons.prems(1,2,3)]) (simp_all add: pooled_def)
  with Cons pool_inv_connect_error [OF Cons.prems(1,2,3)] show ?case
    by (simp split: option.splits pgres.splits)
qed

lemma pool_inv_connect_read_ready:
  assumes inv: "pool_inv cfg D s" and k: "conns s c = Some k" "\<not> pooled k" "sock_write k \<noteq> Some Poll_write"
    and pos: "0 < max_pipeline_query_num cfg"
  shows "pool_inv cfg D (on_database_connect_read_ready cfg c err rs s)"
proof -
  obtain a s1 where a: "ask s = (a, s1)" by (cases "ask s")
  have inv1: "pool_inv cfg D s1" and k1: "conns s1 c = Some k"
    using inv k a by (simp_all add: pool_inv_ask ask_frame)
  obtain b s2 where b: "flush_connection Connect_write_ready c s1 = (b, s2)"
    by (cases "flush_connection Connect_write_ready c s1")
  from pool_inv_flush [OF inv1 k1 _ _ this] k obtain k2 where
    inv2: "pool_inv cfg D s2" and k2: "conns s2 c = Some k2" "\<not> pooled k2" "sock_write k2 \<noteq> Some Poll_write"
    by (auto simp: pooled_def)
  show ?thesis
    using pool_inv_connect_error [OF inv k(1,2)] pool_inv_connect_error [OF inv1 k1 k(2)]
      pool_inv_connect_error [OF inv2 k2(1,2)] connect_read_loop_ok [OF inv2 k2 pos]
    by (auto simp: on_database_connect_read_ready_def a b split: bool.splits)
qed

lemma send_prepares_ok:
  "pool_inv cfg D s \<Longrightarrow> send_prepares n s = (b, s') \<Longrightarrow> pool_inv cfg D s' \<and> conns s' = conns s"
proof (induction n arbitrary: s)
  case 0
  then show ?case by simp
next
  case (Suc n)
  obtain a s1 where a: "ask s = (a, s1)" by (cases "ask s")
  then have "pool_inv cfg D s1" "conns s1 = conns s" using Suc.prems by (simp_all add: pool_inv_ask ask_frame)
  with Suc.IH [of s1] Suc.prems a show ?case by (auto split: if_splits)
qed

lemma pool_inv_prepare_statements:
  assumes inv: "pool_inv cfg D s" and k: "conns s c = Some k" "\<not> pooled k" "sock_write k \<noteq> Some Poll_write"
    and t: "timer k = None" and pos: "0 < max_pipeline_query_num cfg"
  shows "pool_inv cfg D (prepare_statements cfg c s)"
proof (cases "prepared_statement k")
  case False
  have "pool_inv cfg D (process_queries cfg (push_idle c (upd_conn c (\<lambda>k. k\<lparr>sock_read := Some Read_ready\<rparr>) s)))"
    using assms by (intro pool_inv_enter [OF inv k(1,2) pos]) (simp_all add: pooled_def)
  with False k show ?thesis by (simp add: prepare_statements_def)
next
  case True
  obtain b s1 where b: "send_prepares (num_prepared_statements cfg) s = (b, s1)"
    by (cases "send_prepares (num_prepared_statements cfg) s")
  from send_prepares_ok [OF inv this] have inv1: "pool_inv cfg D s1" and k1: "conns s1 c = Some k" using k by auto
  obtain a s2 where a: "ask s1 = (a, s2)" by (cases "ask s1")
  have inv2: "pool_inv cfg D s2" and k2: "conns s2 c = Some k"
    using inv1 k1 a by (simp_all add: pool_inv_ask ask_frame)
  let ?f = "\<lambda>k. k\<lparr>prepared_statement := False, timer := Some Connect_timeout,
                 sock_read := Some Connect_read_ready\<rparr>"
  have "conn_ok cfg k" using pool_inv_conn_ok [OF inv k(1)] .
  then have "pool_inv cfg D (upd_conn c ?f s2)"
    using k by (intro pool_inv_upd_unpooled [OF inv2 k2 k(2)]) (auto simp: pooled_def conn_ok_def)
  then have "pool_inv cfg D (with_conn c (upd_conn c ?f s2) (on_database_connect_write_ready cfg c False))"
    using pool_inv_connect_write_ready [of cfg D "upd_conn c ?f s2" c "?f k" False] k2
    by (intro pool_inv_with_conn) (simp_all add: pooled_def)
  then show ?thesis
    using True k b a pool_inv_connect_error [OF inv1 k1 k(2)] pool_inv_connect_error [OF inv2 k2 k(2)]
    by (auto simp: prepare_statements_def split: bool.splits)
qed

lemma switch_socket_ok:
  assumes inv: "pool_inv cfg D s" and k: "conns s c = Some k" "\<not> pooled k" and sw: "switch_socket c s = (b, s')"
  shows "pool_inv cfg D s' \<and> (\<exists>k'. conns s' c = Some k' \<and> \<not> pooled k' \<and> timer k' = timer k \<and>
    (sock_write k' = sock_write k \<or> sock_write k' = None) \<and> (sock_read k' = sock_read k \<or> sock_read k' = None))"
proof -
  obtain a s1 where a: "ask s = (a, s1)" by (cases "ask s")
  have inv1: "pool_inv cfg D s1" and k1: "conns s1 c = Some k"
    using inv k a by (simp_all add: pool_inv_ask ask_frame)
  obtain a2 s2 where a2: "ask s1 = (a2, s2)" by (cases "ask s1")
  have inv2: "pool_inv cfg D s2" and k2: "conns s2 c = Some k"
    using inv1 k1 a2 by (simp_all add: pool_inv_ask ask_frame)
  let ?f = "\<lambda>k. k\<lparr>sock_read := None, sock_write := None, sock_data := False\<rparr>"
  have "conn_ok cfg k" using pool_inv_conn_ok [OF inv k(1)] .
  then have "pool_inv cfg D (upd_conn c ?f s2)"
    using k by (intro pool_inv_upd_unpooled [OF inv2 k2 k(2)]) (auto simp: pooled_def conn_ok_def)
  then show ?thesis
    using sw a a2 inv1 inv2 k1 k2 k(2) by (auto simp: switch_socket_def pooled_def split: if_splits)
qed

lemma pool_inv_poll:
  assumes inv: "pool_inv cfg D s" and k: "conns s c = Some k" "\<not> pooled k" "sock_write k \<noteq> Some Poll_write"
    and pos: "0 < max_pipeline_query_num cfg"
  shows "pool_inv cfg D (poll_database_connection cfg c err s)"
proof (cases err)
  case True
  with pool_inv_connect_error [OF inv k(1,2)] show ?thesis by (simp add: poll_database_connection_def)
next
  case False
  obtain status s1 where a: "ask s = (status, s1)" by (cases "ask s")
  have inv1: "pool_inv cfg D s1" and k1: "conns s1 c = Some k"
    using inv k a by (simp_all add: pool_inv_ask ask_frame)
  have ok: "conn_ok cfg k" using pool_inv_conn_ok [OF inv k(1)] .
  consider "status = 0" | "status = 1" | "status = 2" | "2 < status" by linarith
  then show ?thesis
  proof cases
    case 1
    let ?f = "\<lambda>k. k\<lparr>timer := None, sock_read := None\<rparr>" and ?g = "\<lambda>k. k\<lparr>reset_flag := False\<rparr>"
    let ?s2 = "upd_conn c ?f s1"
    have inv2: "pool_inv cfg D ?s2"
      using k ok by (intro pool_inv_upd_unpooled [OF inv1 k1 k(2)]) (auto simp: pooled_def conn_ok_def)
    obtain a3 s3 where a3: "ask ?s2 = (a3, s3)" by (cases "ask ?s2")
    have inv3: "pool_inv cfg D s3" and k3: "conns s3 c = Some (?f k)"
      using inv2 k1 a3 by (simp_all add: pool_inv_ask ask_frame)
    obtain a4 s4 where a4: "ask s3 = (a4, s4)" by (cases "ask s3")
    have inv4: "pool_inv cfg D s4" and k4: "conns s4 c = Some (?f k)"
      using inv3 k3 a4 by (simp_all add: pool_inv_ask ask_frame)
    have np: "\<not> pooled (?f k)" by (simp add: pooled_def)
    obtain b s5 where b: "switch_socket c s4 = (b, s5)" by (cases "switch_socket c s4")
    from switch_socket_ok [OF inv4 k4 np b] k obtain k5 where
      inv5: "pool_inv cfg D s5" and k5: "conns s5 c = Some k5" "\<not> pooled k5" "timer k5 = None"
        "sock_write k5 \<noteq> Some Poll_write" by auto
    have "conn_ok cfg k5" using pool_inv_conn_ok [OF inv5 k5(1)] .
    then have inv6: "pool_inv cfg D (upd_conn c ?g s5)"
      using k5 by (intro pool_inv_upd_unpooled [OF inv5 k5(1,2)]) (auto simp: pooled_def conn_ok_def)
    have "pool_inv cfg D (prepare_statements cfg c (upd_conn c ?g s5))"
      using k5 by (intro pool_inv_prepare_statements [OF inv6, of _ "?g k5"] pos) (simp_all add: pooled_def)
    then show ?thesis
      using False 1 a a3 a4 b pool_inv_connect_error [OF inv3 k3 np] pool_inv_connect_error [OF inv4 k4 np]
        pool_inv_connect_error [OF inv5 k5(1,2)]
      by (auto simp: poll_database_connection_def Let_def split: bool.splits)
  next
    case 2
    let ?f = "\<lambda>k. k\<lparr>sock_read := None\<rparr>"
    have inv2: "pool_inv cfg D (upd_conn c ?f s1)"
      using k ok by (intro pool_inv_upd_unpooled [OF inv1 k1 k(2)]) (auto simp: pooled_def conn_ok_def)
    have k2: "conns (upd_conn c ?f s1) c = Some (?f k)" using k1 by simp
    obtain b s3 where b: "switch_socket c (upd_conn c ?f s1) = (b, s3)"
      by (cases "switch_socket c (upd_conn c ?f s1)")
    have np: "\<not> pooled (?f k)" by (simp add: pooled_def)
    from switch_socket_ok [OF inv2 k2 np b] obtain k3 where
      inv3: "pool_inv cfg D s3" and k3: "conns s3 c = Some k3" "\<not> pooled k3" "sock_read k3 = None" by auto
    have "conn_ok cfg k3" using pool_inv_conn_ok [OF inv3 k3(1)] .
    then have "pool_inv cfg D (upd_conn c (\<lambda>k. if sock_write k = None then k\<lparr>sock_write := Some Poll_write\<rparr> else k) s3)"
      using k3 by (intro pool_inv_upd_unpooled [OF inv3 k3(1,2)]) (auto simp: pooled_def conn_ok_def)
    with False 2 a b pool_inv_connect_error [OF inv3 k3(1,2)] show ?thesis
      by (auto simp: poll_database_connection_def split: bool.splits)
  next
    case 3
    obtain b s3 where b: "switch_socket c s1 = (b, s3)" by (cases "switch_socket c s1")
    from switch_socket_ok [OF inv1 k1 k(2) b] k obtain k3 where
      inv3: "pool_inv cfg D s3" and k3: "conns s3 c = Some k3" "\<not> pooled k3" "sock_write k3 \<noteq> Some Poll_write"
      by auto
    have "conn_ok cfg k3" using pool_inv_conn_ok [OF inv3 k3(1)] .
    then have "pool_inv cfg D (upd_conn c (\<lambda>k. k\<lparr>sock_read := Some Poll_read\<rparr>) s3)"
      using k3 by (intro pool_inv_upd_unpooled [OF inv3 k3(1,2)]) (auto simp: pooled_def conn_ok_def)
    with False 3 a b pool_inv_connect_error [OF inv3 k3(1,2)] show ?thesis
      by (auto simp: poll_database_connection_def split: bool.splits)
  next
    case 4
    with False a pool_inv_connect_error [OF inv1 k1 k(2)] show ?thesis
      by (simp add: poll_database_connection_def)
  qed
qed

section \<open>Handing out queries\<close>

lemma do_execute_query_ok:
  assumes core: "core cfg D n (add_mset q Q) xs s" and k: "conns s c = Some k" "pooled k" "0 < conn_query_num k"
    and c: "c \<notin> set xs" and ex: "do_execute_query cfg c q s = (b, s')"
  shows "core cfg D n (if b then add_mset q Q else Q) xs s' \<and> idle s' = idle s \<and> keeps cfg s s' \<and>
    queries s' = queries s \<and>
    (\<exists>k'. conns s' c = Some k' \<and> pooled k') \<and> (\<forall>d. d \<noteq> c \<longrightarrow> conns s' d = conns s d)"
proof -
  have ok: "conn_ok cfg k" using core_conn_ok [OF core k(1)] .
  have "check_assert Assert_conn_query_num (0 < conn_query_num k \<and>
      (if conn_queries k \<noteq> [] then conn_query_num k < max_pipeline_query_num cfg
       else conn_query_num k = max_pipeline_query_num cfg)) s = s"
    using ok k(3) by (cases "conn_queries k") (auto simp: check_assert_def conn_ok_def)
  note unf = do_execute_query_def k(1) this
  obtain a1 s1 where a1: "ask s = (a1, s1)" by (cases "ask s")
  obtain a2 s2 where a2: "ask s1 = (a2, s2)" by (cases "ask s1")
  note fr = ask_frame [OF a1] ask_frame [OF a2]
  define start where "start \<longleftrightarrow> conn_queries k = [] \<and> \<not> expect_sync k \<and> \<not> ignore_result k"
  define s3 where "s3 = (if start then check_assert Assert_timer (timer k = None) s2 else s2)"
  let ?f = "\<lambda>k. k\<lparr>timer := (if start then Some Query_timeout else timer k),
                 conn_queries := conn_queries k @ [q], conn_query_num := conn_query_num k - 1\<rparr>"
  have c1: "core cfg D n (add_mset q Q) xs s1" and c2: "core cfg D n (add_mset q Q) xs s2"
    using core a1 a2 by simp_all
  have c3: "core cfg D n (add_mset q Q) xs s3" using c2 by (auto simp: s3_def counter_faults_def)
  have k3: "conns s3 c = Some k" using k(1) fr by (simp add: s3_def)
  have "conn_ok cfg (?f k)" using ok k(2,3) by (auto simp: conn_ok_def pooled_def)
  then have c4: "core cfg D n Q xs (upd_conn c ?f s3)"
    using c by (intro core_upd [OF c3 k3]) auto
  have keeps: "keeps cfg s s1" "keeps cfg s s2" "keeps cfg s (upd_conn c ?f s3)"
    using fr by (auto intro!: keepsI simp: s3_def)
  have res: "do_execute_query cfg c q s =
      (if a1 \<noteq> 0 then (True, s1) else if a2 \<noteq> 0 then (True, s2) else (False, upd_conn c ?f s3))"
    by (simp add: unf a1 a2 Let_def start_def s3_def)
  show ?thesis
    using ex c1 c2 c4 keeps fr k k3 unfolding res
    by (auto simp: s3_def pooled_def split: if_splits)
qed

text \<open>Connections that are full: pooled, and not in the idle queue.\<close>

definition all_full :: "addr list \<Rightarrow> db_conn_pool_t \<Rightarrow> bool" where
  "all_full full s \<longleftrightarrow> distinct full \<and> (\<forall>d \<in> set full. \<exists>k. conns s d = Some k \<and> pooled k \<and> conn_query_num k = 0)"

lemma all_full_frame:
  "all_full full s \<Longrightarrow> c \<notin> set full \<Longrightarrow> (\<forall>d. d \<noteq> c \<longrightarrow> conns s' d = conns s d) \<Longrightarrow> all_full full s'"
  unfolding all_full_def by metis

lemma all_full_not: "all_full full s \<Longrightarrow> conns s c = Some k \<Longrightarrow> 0 < conn_query_num k \<Longrightarrow> c \<notin> set full"
  by (auto simp: all_full_def)

definition task_inv :: "db_config \<Rightarrow> nat list \<Rightarrow> db_conn_pool_t \<Rightarrow> addr list \<Rightarrow> db_conn_pool_t \<Rightarrow> bool" where
  "task_inv cfg D s0 full s \<longleftrightarrow> (\<exists>xs. core cfg D 0 {#} xs s \<and> idle_ok (idle s) xs) \<and> all_full full s \<and> keeps cfg s0 s"

lemma take_query:
  assumes core: "core cfg D 0 {#} (c # xs) s" and q: "queries s = q # qs" and idle: "idle_ok (idle s) (c # xs)"
  defines "s5 \<equiv> (let s1 = check_assert Assert_query_num (query_num s < max_query_num cfg) s;
               s2 = s1\<lparr>idle := queue_pop (idle s1)\<rparr>;
               s3 = (if q_head (snd (idle s2)) = None
                     then check_assert Assert_tail (q_tail (snd (idle s1)) = Next c) s2 else s2);
               s4 = s3\<lparr>queries := qs, query_num := query_num s3 + 1\<rparr>
           in (if query_num s4 = max_query_num cfg then check_assert Assert_query_num (qs = []) s4 else s4))"
  shows "core cfg D 0 {#q#} xs s5 \<and> idle s5 = queue_pop (idle s) \<and> keeps cfg s s5 \<and> conns s5 = conns s"
proof -
  have num: "query_num s + length (q # qs) = max_query_num cfg" using core q by (simp add: core_def)
  then have f: "check_assert Assert_query_num (query_num s < max_query_num cfg) s = s"
    by (simp add: check_assert_def)
  let ?s2 = "s\<lparr>idle := queue_pop (idle s)\<rparr>"
  define s3 where "s3 = (if q_head (snd (idle ?s2)) = None
      then check_assert Assert_tail (q_tail (snd (idle s)) = Next c) ?s2 else ?s2)"
  have c3: "core cfg D 0 {#} (c # xs) s3"
    using core by (auto simp: s3_def counter_faults_def)
  have fr: "queries s3 = queries s" "query_num s3 = query_num s" "idle s3 = queue_pop (idle s)"
    "conns s3 = conns s" "conn_num s3 = conn_num s" "process_flag s3 = process_flag s"
    "local_messages s3 = local_messages s" "next_conn s3 = next_conn s"
    by (simp_all add: s3_def)
  let ?s4 = "s3\<lparr>queries := qs, query_num := query_num s3 + 1\<rparr>"
  have s5: "s5 = ?s4"
    using num unfolding s5_def f Let_def s3_def [symmetric]
    by (cases qs) (auto simp: check_assert_def fr Let_def s3_def)
  have "suffix qs (submitted s3)" using c3 fr q by (auto simp: core_def dest: suffix_ConsD)
  then have "core cfg D 0 {#q#} xs ?s4"
    using c3 fr q num by (auto simp: core_def live_def in_flight_def total_def)
  moreover have "keeps cfg s ?s4" using q by (auto simp: keeps_def drained_def fr)
  ultimately show ?thesis using fr by (simp add: s5)
qed

lemma idle_ok_write: "idle_ok hq xs \<Longrightarrow> c \<notin> set xs \<Longrightarrow> idle_ok (write_slot (Next c) v hq) xs"
  by (simp add: idle_ok_def write_slot_def)

lemma task_inv_idle:
  "core cfg D 0 {#} xs s \<Longrightarrow> idle_ok (idle s) xs \<Longrightarrow> all_full full s \<Longrightarrow> keeps cfg s0 s \<Longrightarrow> task_inv cfg D s0 full s"
  by (auto simp: task_inv_def)

lemma dispatch_loop_ok:
  assumes "task_inv cfg D s0 full s" "dispatch_loop cfg fuel (n, full, s) = (n', full', s')"
  shows "task_inv cfg D s0 full' s'"
  using assms
proof (induction fuel arbitrary: n full s)
  case 0
  then show ?case by simp
next
  case (Suc fuel)
  obtain ys where core: "core cfg D 0 {#} ys s" and idle: "idle_ok (idle s) ys"
    and full: "all_full full s" and kp: "keeps cfg s0 s" using Suc.prems(1) by (auto simp: task_inv_def)
  have head: "q_head (snd (idle s)) = first ys" by (rule idle_ok_head [OF idle])
  show ?case
  proof (cases "queries s = [] \<or> ys = []")
    case True
    then have "dispatch_loop cfg (Suc fuel) (n, full, s) = (n, full, s)"
      using head by (cases "queries s"; cases ys) (simp_all add: first_def)
    with Suc.prems show ?thesis by simp
  next
    case False
    then obtain q qs c xs where q: "queries s = q # qs" and ys: "ys = c # xs"
      by (cases "queries s"; cases ys) auto
    define s5 where "s5 = (let s1 = check_assert Assert_query_num (query_num s < max_query_num cfg) s;
               s2 = s1\<lparr>idle := queue_pop (idle s1)\<rparr>;
               s3 = (if q_head (snd (idle s2)) = None
                     then check_assert Assert_tail (q_tail (snd (idle s1)) = Next c) s2 else s2);
               s4 = s3\<lparr>queries := qs, query_num := query_num s3 + 1\<rparr>
           in (if query_num s4 = max_query_num cfg then check_assert Assert_query_num (qs = []) s4 else s4))"
    from take_query [OF core [unfolded ys] q idle [unfolded ys], folded s5_def]
    have t: "core cfg D 0 {#q#} xs s5" "idle s5 = queue_pop (idle s)" "keeps cfg s s5" "conns s5 = conns s"
      by blast+
    have idle5: "idle_ok (idle s5) xs" using idle t(2) by (simp add: ys idle_ok_pop)
    obtain k where k: "conns s c = Some k" "pooled k" "0 < conn_query_num k"
      using core_idle_conn [OF core, of c] by (auto simp: ys)
    have c: "c \<notin> set xs" "c \<notin> set full"
      using idle_ok_distinct [OF idle] all_full_not [OF full k(1,3)] by (simp_all add: ys)
    obtain b s6 where ex: "do_execute_query cfg c q s5 = (b, s6)" by (cases "do_execute_query cfg c q s5")
    from do_execute_query_ok [OF t(1) _ k(2,3) c(1) ex] k(1) t(4) obtain k6 where
      e: "core cfg D 0 (if b then {#q#} else {#}) xs s6" "idle s6 = idle s5" "keeps cfg s5 s6"
        "conns s6 c = Some k6" "pooled k6" "\<forall>d. d \<noteq> c \<longrightarrow> conns s6 d = conns s5 d" by auto
    have full6: "all_full full s6" using all_full_frame [OF full c(2)] e(6) t(4) by simp
    have kp6: "keeps cfg s0 s6" using kp t(3) e(3) by (blast intro: keeps_trans)
    have idle6: "idle_ok (idle s6) xs" using idle5 e(2) by simp
    have step: "dispatch_loop cfg (Suc fuel) (n, full, s) =
        (case do_execute_query cfg c q s5 of
           (True, s6) \<Rightarrow> dispatch_loop cfg fuel (n, full, on_database_error cfg c (notify Failed q s6))
         | (False, s6) \<Rightarrow>
             (if 0 < (case conns s6 c of None \<Rightarrow> 0 | Some k \<Rightarrow> conn_query_num k)
              then dispatch_loop cfg fuel (n + 1, full, push_idle c s6)
              else dispatch_loop cfg fuel
                     (n + 1, c # full, s6\<lparr>idle := write_slot (Next c) (first full) (idle s6)\<rparr>)))"
      using q head by (simp add: s5_def Let_def ys first_def)
    consider "b" | "\<not> b" "0 < conn_query_num k6" | "\<not> b" "conn_query_num k6 = 0" by blast
    then show ?thesis
    proof cases
      case 1
      let ?s = "notify Failed q s6"
      have core7: "core cfg D 0 {#} xs ?s" using e(1) 1 by (auto intro: core_notify)
      have idle7: "idle_ok (idle ?s) xs" and k7: "conns ?s c = Some k6" using idle6 e(4) by simp_all
      note err = on_database_error_ok [OF core7 idle7 k7]
      have "keeps cfg s6 ?s" by (rule keepsI) simp_all
      then have "keeps cfg s0 (on_database_error cfg c ?s)" using kp6 err by (blast intro: keeps_trans)
      moreover have "all_full full (on_database_error cfg c ?s)"
        using all_full_frame [OF full6 c(2)] err by simp
      ultimately have "task_inv cfg D s0 full (on_database_error cfg c ?s)"
        using err by (blast intro: task_inv_idle)
      moreover have "dispatch_loop cfg fuel (n, full, on_database_error cfg c ?s) = (n', full', s')"
        using Suc.prems(2) 1 unfolding step ex by simp
      ultimately show ?thesis by (rule Suc.IH)
    next
      case 2
      obtain zs where zs: "idle_ok (queue_push c (idle s6)) zs" "set zs \<subseteq> insert c (set xs)"
        using idle_ok_push [OF idle6 c(1)] by blast
      have "core cfg D 0 {#} (c # xs) s6" using e 2 by (simp add: core_def)
      then have "core cfg D 0 {#} zs s6" by (rule core_subset) (simp add: zs(2))
      then have "core cfg D 0 {#} zs (push_idle c s6)" by (simp add: push_idle_def)
      moreover have "keeps cfg s6 (push_idle c s6)" by (rule keepsI) (simp_all add: push_idle_def)
      moreover have "all_full full (push_idle c s6)" using full6 by (simp add: all_full_def push_idle_def)
      ultimately have "task_inv cfg D s0 full (push_idle c s6)"
        using kp6 zs(1) by (intro task_inv_idle [of _ _ zs]) (auto intro: keeps_trans)
      moreover have "dispatch_loop cfg fuel (n + 1, full, push_idle c s6) = (n', full', s')"
        using Suc.prems(2) 2 e(4) unfolding step ex by simp
      ultimately show ?thesis by (rule Suc.IH)
    next
      case 3
      let ?s = "s6\<lparr>idle := write_slot (Next c) (first full) (idle s6)\<rparr>"
      have "keeps cfg s6 ?s" by (rule keepsI) simp_all
      moreover have "all_full (c # full) ?s" using full6 c(2) e(4,5) 3 by (simp add: all_full_def)
      moreover have "core cfg D 0 {#} xs ?s" using e(1) 3 by simp
      ultimately have "task_inv cfg D s0 (c # full) ?s"
        using kp6 idle_ok_write [OF idle6 c(1)] by (intro task_inv_idle [of _ _ xs]) (auto intro: keeps_trans)
      moreover have "dispatch_loop cfg fuel (n + 1, c # full, ?s) = (n', full', s')"
        using Suc.prems(2) 3 e(4) unfolding step ex by simp
      ultimately show ?thesis by (rule Suc.IH)
    qed
  qed
qed

section \<open>Flushing\<close>

lemma flush_full_ok: "task_inv cfg D s0 full s \<Longrightarrow> task_inv cfg D s0 [] (flush_full cfg full s)"
proof (induction full arbitrary: s)
  case Nil
  then show ?case by simp
next
  case (Cons c full)
  then obtain xs where core: "core cfg D 0 {#} xs s" and idle: "idle_ok (idle s) xs"
    and full: "all_full (c # full) s" and kp: "keeps cfg s0 s" by (auto simp: task_inv_def)
  obtain k where k: "conns s c = Some k" "pooled k" and c: "c \<notin> set full" and full': "all_full full s"
    using full by (auto simp: all_full_def)
  obtain b s1 where b: "flush_connection Write_ready c s = (b, s1)" by (cases "flush_connection Write_ready c s")
  from flush_ok [OF core k(1) _ _ b] k obtain k1 where
    f: "core cfg D 0 {#} xs s1" "idle s1 = idle s" "keeps cfg s s1" "conns s1 c = Some k1"
      "\<forall>d. d \<noteq> c \<longrightarrow> conns s1 d = conns s d" by auto
  have kp1: "keeps cfg s0 s1" using kp f(3) by (rule keeps_trans)
  have full1: "all_full full s1" using all_full_frame [OF full' c f(5)] .
  have idle1: "idle_ok (idle s1) xs" using idle f(2) by simp
  show ?case
  proof (cases b)
    case False
    have "task_inv cfg D s0 full s1" using f(1) idle1 full1 kp1 by (rule task_inv_idle)
    with Cons.IH False b show ?thesis by simp
  next
    case True
    note err = on_database_error_ok [OF f(1) idle1 f(4)]
    have "all_full full (on_database_error cfg c s1)" using all_full_frame [OF full1 c] err by blast
    then have "task_inv cfg D s0 full (on_database_error cfg c s1)"
      using err kp1 by (blast intro: task_inv_idle keeps_trans)
    with Cons.IH True b show ?thesis by simp
  qed
qed

lemma task_inv_trans: "keeps cfg s0 s1 \<Longrightarrow> task_inv cfg D s1 full s \<Longrightarrow> task_inv cfg D s0 full s"
  by (auto simp: task_inv_def intro: keeps_trans)

lemma flush_idle_ok:
  assumes "core cfg D 0 {#} (ps @ rest) s" "path (fst (idle s)) (q_head (snd (idle s))) ps iter"
    and "list_at (fst (idle s)) iter rest" "distinct (ps @ rest)" "q_tail (snd (idle s)) = tail_slot ps"
    and "length rest < fuel"
  shows "task_inv cfg D s [] (flush_idle cfg fuel iter s)"
  using assms
proof (induction rest arbitrary: fuel ps iter s)
  case Nil
  have "iter = None" using Nil.prems(3) by simp
  then have "flush_idle cfg fuel iter s = s" by (cases fuel) simp_all
  moreover have "idle_ok (idle s) ps" using Nil.prems by (auto simp: idle_ok_def)
  moreover have "core cfg D 0 {#} ps s" using Nil.prems(1) by simp
  ultimately show ?case using task_inv_idle [of cfg D ps s "[]" s] by (simp add: all_full_def)
next
  case (Cons c rest)
  obtain f where f: "fuel = Suc f" using Cons.prems(6) by (cases fuel) auto
  obtain h hd tl where hq: "idle s = (h, \<lparr>q_head = hd, q_tail = tl\<rparr>)"
    by (cases "idle s"; cases "snd (idle s)") auto
  have iter: "iter = Some c" and rest: "list_at h (h c) rest" using Cons.prems(3) by (simp_all add: hq)
  have pth: "path h hd ps (Some c)" and tl: "tl = tail_slot ps"
    using Cons.prems(2,5) by (simp_all add: hq iter)
  obtain k where k: "conns s c = Some k" "pooled k"
    using core_idle_conn [OF Cons.prems(1), of c] by auto
  obtain b s1 where b: "flush_connection Write_ready c s = (b, s1)" by (cases "flush_connection Write_ready c s")
  from flush_ok [OF Cons.prems(1) k(1) _ _ b] k obtain k1 where
    fl: "core cfg D 0 {#} (ps @ c # rest) s1" "idle s1 = idle s" "keeps cfg s s1" "conns s1 c = Some k1"
    by auto
  show ?case
  proof (cases b)
    case False
    let ?s = "s1\<lparr>idle := (fst (idle s1), (snd (idle s1))\<lparr>q_tail := Next c\<rparr>)\<rparr>"
    have "task_inv cfg D ?s [] (flush_idle cfg f (h c) ?s)"
      using fl(1,2) Cons.prems(4,6) pth rest f
      by (intro Cons.IH [of "ps @ [c]"]) (simp_all add: hq tail_slot_def)
    moreover have "keeps cfg s1 ?s" by (rule keepsI) simp_all
    moreover have "flush_idle cfg fuel iter s = flush_idle cfg f (h c) ?s"
      using False b f iter by (simp add: hq Let_def)
    ultimately show ?thesis using task_inv_trans keeps_trans [OF fl(3)] by metis
  next
    case True
    let ?hq = "write_slot tl (h c) (h, \<lparr>q_head = hd, q_tail = tl\<rparr>)"
    let ?s = "s1\<lparr>idle := ?hq\<rparr>"
    have d: "distinct (ps @ rest)" "c \<notin> set (ps @ rest)" using Cons.prems(4) by auto
    have new: "path (fst ?hq) (q_head (snd ?hq)) ps (h c)" "list_at (fst ?hq) (h c) rest" "q_tail (snd ?hq) = tl"
    proof -
      have "ps \<noteq> [] \<Longrightarrow> last ps \<notin> set rest" using d(1) by (meson disjoint_iff distinct_append last_in_set)
      then show "path (fst ?hq) (q_head (snd ?hq)) ps (h c)" "list_at (fst ?hq) (h c) rest" "q_tail (snd ?hq) = tl"
        using pth rest d(1) by (auto simp: tl tail_slot_def write_slot_def intro: path_set_last)
    qed
    then have lst: "list_at (fst ?hq) (q_head (snd ?hq)) (ps @ rest)" by auto
    have core2: "core cfg D 0 {#} (ps @ rest) ?s"
      using core_subset [OF fl(1), of "ps @ rest"] by auto
    have rm: "remove_connection c ?s = ?s"
      using lst d core_idle_length [OF core2 d(1)] by (intro remove_connection_absent [where xs = "ps @ rest"]) simp_all
    have k2: "conns ?s c = Some k1" using fl(4) by simp
    let ?e = "on_database_error cfg c ?s"
    note err = error_after_remove
        [OF core2 k2 d(2) append_Nil [symmetric] split_off_nothing [where r = Failed, OF k2, symmetric] rm]
    obtain v where v: "idle ?e = ?hq \<or> idle ?e = ((fst ?hq)(c := v), snd ?hq)" using err(3) by auto
    have pre: "path (fst (idle ?e)) (q_head (snd (idle ?e))) ps (h c)" "list_at (fst (idle ?e)) (h c) rest"
      "q_tail (snd (idle ?e)) = tail_slot ps"
      using v new d(2) tl by auto
    have "task_inv cfg D ?e [] (flush_idle cfg f (h c) ?e)"
      using Cons.prems(6) f by (intro Cons.IH [OF err(1) pre(1,2) d(1) pre(3)]) simp
    moreover have "keeps cfg s1 ?s" by (rule keepsI) simp_all
    moreover have "flush_idle cfg fuel iter s = flush_idle cfg f (h c) ?e"
      using True b f iter fl(2) by (simp add: hq Let_def)
    ultimately show ?thesis
      using task_inv_trans keeps_trans [OF fl(3)] keeps_trans [OF _ err(2)] by metis
  qed
qed

lemma connect_loop_ok:
  assumes "core cfg D 0 {#} xs s" "idle_ok (idle s) xs" "drained cfg s \<or> (n \<noteq> 0 \<and> conn_num s \<noteq> 0)"
  shows "(\<exists>ys. core cfg D 0 {#} ys (connect_loop cfg n s) \<and> idle_ok (idle (connect_loop cfg n s)) ys) \<and>
    process_flag (connect_loop cfg n s) = process_flag s \<and>
    local_messages (connect_loop cfg n s) = local_messages s \<and> drained cfg (connect_loop cfg n s)"
  using assms
proof (induction n arbitrary: s)
  case 0
  then show ?case by auto
next
  case (Suc n)
  show ?case
  proof (cases "conn_num s = 0")
    case True
    with Suc.prems show ?thesis by auto
  next
    case False
    note st = start_None [OF Suc.prems(1) False]
    have "next_conn s \<notin> set xs" using core_idle_conn [OF Suc.prems(1)] core_next [OF Suc.prems(1)] by fastforce
    then have "idle_ok (idle (start_database_connect cfg None s)) xs"
      using st(5) Suc.prems(2) by (auto simp: idle_ok_def)
    from Suc.IH [OF st(1) this] st(2-4) False show ?thesis by simp
  qed
qed

section \<open>The posted task\<close>

definition valid_config :: "db_config \<Rightarrow> bool" where
  "valid_config cfg \<longleftrightarrow> 0 < max_db_conn_num cfg \<and> 0 < max_pipeline_query_num cfg"

lemma on_process_queries_ok:
  assumes core: "core cfg D 0 {#} xs s" and idle: "idle_ok (idle s) xs" and cfg: "valid_config cfg"
    and m: "local_messages s = 0"
  shows "pool_inv cfg D (on_process_queries cfg s)"
proof -
  obtain n full s1 where d: "dispatch_loop cfg (length (queries s)) (0, [], s) = (n, full, s1)"
    by (cases "dispatch_loop cfg (length (queries s)) (0, [], s)")
  have "task_inv cfg D s [] s" using core idle by (auto simp: task_inv_def all_full_def)
  note inv1 = dispatch_loop_ok [OF this d]
  define s2 where "s2 = flush_full cfg full s1"
  have inv2: "task_inv cfg D s [] s2" using flush_full_ok [OF inv1] by (simp add: s2_def)
  then obtain ys where core2: "core cfg D 0 {#} ys s2" and idle2: "idle_ok (idle s2) ys" and k2: "keeps cfg s s2"
    by (auto simp: task_inv_def)
  define s3 where "s3 = s2\<lparr>idle := (fst (idle s2), (snd (idle s2))\<lparr>q_tail := Var\<rparr>), process_flag := False\<rparr>"
  have core3: "core cfg D 0 {#} ys s3" using core2 by (simp add: s3_def)
  have dist: "distinct ys" using idle_ok_distinct [OF idle2] .
  define s4 where "s4 = flush_idle cfg (Suc (next_conn s3)) (q_head (snd (idle s3))) s3"
  have "list_at (fst (idle s3)) (q_head (snd (idle s3))) ys" using idle2 by (simp add: s3_def idle_ok_def)
  moreover have "length ys < Suc (next_conn s3)"
    using core_idle_length [OF core3 dist] by simp
  ultimately have inv4: "task_inv cfg D s3 [] s4"
    unfolding s4_def using core3 dist by (intro flush_idle_ok [of _ _ "[]" ys]) (simp_all add: tail_slot_def s3_def)
  then obtain zs where core4: "core cfg D 0 {#} zs s4" and idle4: "idle_ok (idle s4) zs" and k4: "keeps cfg s3 s4"
    by (auto simp: task_inv_def)
  define waiting where "waiting = n + (max_query_num cfg - query_num s3)"
  let ?budget = "waiting - (max_db_conn_num cfg - conn_num s4)"
  have "drained cfg s4 \<or> (?budget \<noteq> 0 \<and> conn_num s4 \<noteq> 0)"
  proof (rule disjCI)
    assume "\<not> (?budget \<noteq> 0 \<and> conn_num s4 \<noteq> 0)"
    then have "drained cfg s3 \<or> drained cfg s4"
      using core3 cfg by (cases "queries s3") (auto simp: drained_def waiting_def core_def valid_config_def)
    with k4 show "drained cfg s4" by (auto simp: keeps_def)
  qed
  note c = connect_loop_ok [OF core4 idle4 this]
  have res: "on_process_queries cfg s = connect_loop cfg ?budget s4"
    unfolding on_process_queries_def d prod.case Let_def s2_def s3_def s4_def waiting_def by (rule refl)
  have "process_flag s4 = False" "local_messages s4 = 0"
    using k2 k4 m by (simp_all add: keeps_def s3_def)
  with c show ?thesis unfolding res by (auto simp: settled_def intro: pool_invI)
qed

section \<open>Reachable states\<close>

lemma pool_inv_timer_off:
  assumes "pool_inv cfg D s" "conns s c = Some k"
  shows "pool_inv cfg D (upd_conn c (\<lambda>k. k\<lparr>timer := None\<rparr>) s)"
  using assms(1)
proof (rule pool_invE)
  fix xs assume xs: "core cfg D 0 {#} xs s" "idle_ok (idle s) xs" "settled cfg s"
  have "core cfg D 0 {#} xs (upd_conn c (\<lambda>k. k\<lparr>timer := None\<rparr>) s)"
    using core_conn_ok [OF xs(1) assms(2)] core_idle_conn [OF xs(1), of c] assms(2)
    by (intro core_upd_same [OF xs(1) assms(2)]) (auto simp: conn_ok_def pooled_def)
  with xs(2,3) show ?thesis by (intro pool_invI [of _ _ xs]) simp_all
qed

lemma pool_inv_write_off:
  assumes "pool_inv cfg D s" "conns s c = Some k"
  shows "pool_inv cfg D (upd_conn c (\<lambda>k. k\<lparr>sock_write := None\<rparr>) s)"
  using assms(1)
proof (rule pool_invE)
  fix xs assume xs: "core cfg D 0 {#} xs s" "idle_ok (idle s) xs" "settled cfg s"
  have "core cfg D 0 {#} xs (upd_conn c (\<lambda>k. k\<lparr>sock_write := None\<rparr>) s)"
    using core_conn_ok [OF xs(1) assms(2)] core_idle_conn [OF xs(1), of c] assms(2)
    by (intro core_upd_same [OF xs(1) assms(2)]) (auto simp: conn_ok_def pooled_def)
  with xs(2,3) show ?thesis by (intro pool_invI [of _ _ xs]) simp_all
qed

lemma db_step_readable:
  assumes inv: "pool_inv cfg D s" and cfg: "valid_config cfg"
  shows "pool_inv cfg D (db_step cfg (Readable c err rs) s)"
proof (cases "conns s c")
  case None
  with inv show ?thesis by simp
next
  case (Some k)
  have ok: "conn_ok cfg k" using pool_inv_conn_ok [OF inv Some] .
  have pos: "0 < max_pipeline_query_num cfg" using cfg by (simp add: valid_config_def)
  have w: "\<not> pooled k \<Longrightarrow> sock_read k \<noteq> None \<Longrightarrow> sock_write k \<noteq> Some Poll_write"
    using ok by (auto simp: conn_ok_def)
  show ?thesis
  proof (cases "sock_read k")
    case None
    with inv Some show ?thesis by simp
  next
    case (Some cb)
    note r = this
    show ?thesis
    proof (cases cb)
      case Poll_read
      then have "\<not> pooled k" using r by (simp add: pooled_def)
      with inv \<open>conns s c = Some k\<close> r w Poll_read pos show ?thesis
        by (auto intro!: pool_inv_with_conn pool_inv_poll)
    next
      case Connect_read_ready
      then have "\<not> pooled k" using r by (simp add: pooled_def)
      with inv \<open>conns s c = Some k\<close> r w Connect_read_ready pos show ?thesis
        by (auto intro!: pool_inv_with_conn pool_inv_connect_read_ready)
    next
      case Read_ready
      then have "pooled k" using r by (simp add: pooled_def)
      with inv \<open>conns s c = Some k\<close> r Read_ready show ?thesis
        by (auto intro!: pool_inv_with_conn pool_inv_read_ready)
    qed
  qed
qed

lemma ask_upd_conn: "fst (ask (upd_conn c f s)) = fst (ask s)"
  by (simp add: ask_def upd_conn_def split: list.splits)

lemma db_step_writable:
  assumes inv: "pool_inv cfg D s" and cfg: "valid_config cfg" and late: "\<not> late_connect_error (Writable c err) s"
  shows "pool_inv cfg D (db_step cfg (Writable c err) s)"
proof (cases "conns s c")
  case None
  with inv show ?thesis by simp
next
  case (Some k)
  let ?f = "\<lambda>k. k\<lparr>sock_write := None\<rparr>" and ?s = "upd_conn c (\<lambda>k. k\<lparr>sock_write := None\<rparr>) s"
  have ok: "conn_ok cfg k" using pool_inv_conn_ok [OF inv Some] .
  have pos: "0 < max_pipeline_query_num cfg" using cfg by (simp add: valid_config_def)
  have inv': "pool_inv cfg D ?s" using pool_inv_write_off [OF inv Some] .
  have k': "conns ?s c = Some (?f k)" using Some by simp
  have p: "pooled (?f k) = pooled k" by (simp add: pooled_def)
  show ?thesis
  proof (cases "sock_write k")
    case None
    with inv Some show ?thesis by simp
  next
    case (Some cb)
    note w = this
    show ?thesis
    proof (cases cb)
      case Poll_write
      then have np: "\<not> pooled (?f k)" using w ok p by (auto simp: conn_ok_def)
      have "pool_inv cfg D (poll_database_connection cfg c err ?s)"
        using pool_inv_poll [OF inv' k' np _ pos] by simp
      then show ?thesis
        using inv' \<open>conns s c = Some k\<close> w Poll_write by (simp add: pool_inv_with_conn)
    next
      case Connect_write_ready
      have "pool_inv cfg D (on_database_connect_write_ready cfg c err ?s)" if "sock_data k"
        using late that \<open>conns s c = Some k\<close> w Connect_write_ready
        by (intro pool_inv_connect_write_ready [OF inv' k']) (auto simp: p ask_upd_conn pooled_def)
      then show ?thesis
        using inv' \<open>conns s c = Some k\<close> w Connect_write_ready
        by (auto simp: with_conn_def pool_inv_null)
    next
      case Write_ready
      then have pk: "pooled (?f k)" using w ok p by (auto simp: conn_ok_def)
      have "pool_inv cfg D (on_database_write_ready cfg c err ?s)"
        using pool_inv_write_ready [OF inv' k' pk] .
      then show ?thesis
        using inv' \<open>conns s c = Some k\<close> w Write_ready by (simp add: pool_inv_with_conn)
    qed
  qed
qed

lemma db_step_timer:
  assumes inv: "pool_inv cfg D s"
  shows "pool_inv cfg D (db_step cfg (Timer c) s)"
proof (cases "conns s c")
  case None
  with inv show ?thesis by simp
next
  case (Some k)
  have ok: "conn_ok cfg k" using pool_inv_conn_ok [OF inv Some] .
  note inv' = pool_inv_timer_off [OF inv Some]
  let ?s = "upd_conn c (\<lambda>k. k\<lparr>timer := None\<rparr>) s"
  have k': "conns ?s c = Some (k\<lparr>timer := None\<rparr>)" using Some by simp
  have p: "pooled (k\<lparr>timer := None\<rparr>) = pooled k" by (simp add: pooled_def)
  show ?thesis
  proof (cases "timer k")
    case None
    with inv Some show ?thesis by simp
  next
    case (Some cb)
    show ?thesis
    proof (cases cb)
      case Connect_timeout
      with Some ok p have "\<not> pooled (k\<lparr>timer := None\<rparr>)" by (auto simp: conn_ok_def)
      from pool_inv_connect_error [OF inv' k' this] \<open>conns s c = Some k\<close> Some Connect_timeout
      show ?thesis by (simp add: on_database_connect_timeout_def)
    next
      case Query_timeout
      with Some ok p have "pooled (k\<lparr>timer := None\<rparr>)" by (auto simp: conn_ok_def)
      from pool_inv_timeout [OF inv' k' this] \<open>conns s c = Some k\<close> Some Query_timeout
      show ?thesis by simp
    qed
  qed
qed

lemma db_step_task:
  assumes inv: "pool_inv cfg D s" and cfg: "valid_config cfg"
  shows "pool_inv cfg D (db_step cfg Task s)"
  using inv
proof (rule pool_invE)
  fix xs assume xs: "core cfg D 0 {#} xs s" "idle_ok (idle s) xs" "settled cfg s"
  have "local_messages s \<le> 1" using xs(3) by (auto simp: settled_def split: if_splits)
  then show ?thesis
    using inv xs(1,2) cfg by (auto intro!: on_process_queries_ok [of _ _ xs])
qed

lemma db_step_ok:
  "pool_inv cfg D s \<Longrightarrow> valid_config cfg \<Longrightarrow> \<not> late_connect_error e s \<Longrightarrow> pool_inv cfg D (db_step cfg e s)"
  using db_step_readable db_step_writable db_step_timer db_step_task pool_inv_execute
  by (cases e) (auto simp del: db_step.simps(2-5))

section \<open>A late error\<close>

text \<open>
  After a late error of a connection on the idle queue, that connection is freed and still
  linked; the rest of the state is as before.
\<close>

definition torn :: "db_config \<Rightarrow> nat list \<Rightarrow> db_conn_pool_t \<Rightarrow> bool" where
  "torn cfg D s \<longleftrightarrow>
     (\<exists>ys c zs. core cfg D 0 {#} (ys @ zs) s \<and> distinct (ys @ c # zs) \<and> conns s c = None \<and> c < next_conn s \<and>
        list_at (fst (idle s)) (q_head (snd (idle s))) (ys @ c # zs)) \<and> settled cfg s"

lemma idle_walk_list: "list_at h p xs \<Longrightarrow> length xs \<le> n \<Longrightarrow> idle_walk n h p = xs"
proof (induction xs arbitrary: n p)
  case Nil
  then show ?case by (cases n) simp_all
next
  case (Cons x xs)
  then show ?case by (cases n) auto
qed

lemma dangling_list:
  assumes "list_at (fst (idle s)) (q_head (snd (idle s))) xs" "distinct xs" "set xs \<subseteq> {..<next_conn s}"
  shows "dangling s \<longleftrightarrow> (\<exists>x \<in> set xs. conns s x = None)"
proof -
  have "card (set xs) \<le> card {..<next_conn s}" using assms(3) by (intro card_mono) auto
  then have "length xs \<le> Suc (next_conn s)" using assms(2) by (simp add: distinct_card)
  from idle_walk_list [OF assms(1) this] show ?thesis by (simp add: dangling_def list_ex_iff)
qed



lemma torn_dangling:
  assumes "torn cfg D s"
  shows "dangling s"
proof -
  obtain ys c zs where t: "core cfg D 0 {#} (ys @ zs) s" "distinct (ys @ c # zs)" "conns s c = None" "c < next_conn s"
    "list_at (fst (idle s)) (q_head (snd (idle s))) (ys @ c # zs)" using assms unfolding torn_def by blast
  have "set (ys @ c # zs) \<subseteq> {..<next_conn s}" using t(1,4) by (fastforce simp: core_def)
  from dangling_list [OF t(5,2) this] t(3) show ?thesis by auto
qed

text \<open>The queries of the connection whose write callback runs.\<close>

fun event_queries :: "db_event \<Rightarrow> db_conn_pool_t \<Rightarrow> nat list" where
  "event_queries (Writable c err) s = (case conns s c of None \<Rightarrow> [] | Some k \<Rightarrow> conn_queries k)"
| "event_queries _ s = []"

fun event_conn :: "db_event \<Rightarrow> addr option" where
  "event_conn (Writable c err) = Some c"
| "event_conn _ = None"

lemma late_error_frees:
  assumes core: "core cfg D 0 {#} xs s" and st: "settled cfg s" and late: "late_connect_error e s"
  obtains c s1 k where "event_conn e = Some c" "idle s1 = idle s" "conns s1 c = Some k"
    "event_queries e s = conn_queries k" "core cfg D 0 {#} xs s1" "settled cfg s1"
    "db_step cfg e s = on_database_connect_error cfg c False s1"
proof -
  obtain c err k where e: "e = Writable c err" and k: "conns s c = Some k" "sock_write k = Some Connect_write_ready"
    "sock_data k" "pooled k" "err \<or> 1 < fst (ask s)"
    using late by (cases e) (auto simp: pooled_def split: option.splits)
  let ?s = "upd_conn c (\<lambda>k. k\<lparr>sock_write := None\<rparr>) s"
  have core1: "core cfg D 0 {#} xs ?s"
    using core_conn_ok [OF core k(1)] core_idle_conn [OF core, of c] k
    by (intro core_upd_same [OF core k(1)]) (auto simp: conn_ok_def pooled_def)
  obtain a s2 where a: "ask ?s = (a, s2)" by (cases "ask ?s")
  note fr = ask_frame [OF a]
  have core2: "core cfg D 0 {#} xs s2" using core1 a by simp
  have st2: "settled cfg s2" using st fr by (simp add: settled_def drained_ask [OF a])
  let ?s1 = "if err then ?s else s2"
  have "db_step cfg e s = on_database_connect_error cfg c False ?s1"
  proof (cases err)
    case True
    then show ?thesis using k by (simp add: e with_conn_def on_database_connect_write_ready_def)
  next
    case False
    then have "1 < a" using k(5) ask_upd_conn [of c "\<lambda>k. k\<lparr>sock_write := None\<rparr>" s] a by simp
    then show ?thesis
      using k False a by (simp add: e with_conn_def on_database_connect_write_ready_def flush_connection_def)
  qed
  then show ?thesis
    using core1 core2 st st2 fr k
    by (intro that [of c ?s1 "k\<lparr>sock_write := None\<rparr>"]) (simp_all add: e)
qed

lemma late_error_step:
  assumes core: "core cfg D 0 {#} xs s" and idle: "idle_ok (idle s) xs" and st: "settled cfg s"
    and late: "late_connect_error e s"
  shows "if event_conn e \<in> Some ` set xs then torn cfg (D @ event_queries e s) (db_step cfg e s)
    else pool_inv cfg (D @ event_queries e s) (db_step cfg e s)"
proof -
  obtain c s1 k where e: "event_conn e = Some c" "event_queries e s = conn_queries k"
    and step: "db_step cfg e s = on_database_connect_error cfg c False s1"
    and core1: "core cfg D 0 {#} xs s1" and st1: "settled cfg s1" and idle1: "idle s1 = idle s"
    and k: "conns s1 c = Some k"
    by (rule late_error_frees [OF core st late])
  show ?thesis
  proof (cases "c \<in> set xs")
    case False
    have "pool_inv cfg (D @ conn_queries k) (on_database_connect_error cfg c False s1)"
      using connect_error_core [OF core1 k False] idle connect_error_settled [OF st1]
      by (intro pool_invI [of _ _ xs]) (simp_all add: idle1)
    with False e step show ?thesis by auto
  next
    case True
    then obtain ys zs where xs: "xs = ys @ c # zs" by (meson split_list)
    have d: "distinct (ys @ c # zs)" using idle_ok_distinct [OF idle] by (simp add: xs)
    have core2: "core cfg D 0 {#} (ys @ zs) s1" using core1 by (rule core_subset) (auto simp: xs)
    have "torn cfg (D @ conn_queries k) (on_database_connect_error cfg c False s1)"
      unfolding torn_def
      using connect_error_core [OF core2 k] connect_error_settled [OF st1] core_bound [OF core1 k] idle d
      by (intro conjI exI [of _ ys] exI [of _ c] exI [of _ zs]) (auto simp: idle1 idle_ok_def xs)
    with True e step show ?thesis by auto
  qed
qed

lemma reachable_inv:
  assumes "reachable cfg s" "valid_config cfg"
  shows "pool_inv cfg (dropped s) s \<or> torn cfg (dropped s) s"
  using assms
proof (induction rule: reachable.induct)
  case init
  then show ?case using pool_inv_initial [of cfg] by (simp add: initialize_database_connection_pool_def)
next
  case (step s e as)
  let ?s = "s\<lparr>answers := as\<rparr>"
  have inv: "pool_inv cfg (dropped s) ?s" using step torn_dangling by auto
  have same: "pool_inv cfg D t \<or> torn cfg D t \<Longrightarrow> D = dropped t" for D t
    by (auto simp: pool_inv_def torn_def core_def)
  show ?case
  proof (cases "late_connect_error e ?s")
    case True
    from inv obtain xs where "core cfg (dropped s) 0 {#} xs ?s" "idle_ok (idle ?s) xs" "settled cfg ?s" by (rule pool_invE)
    from late_error_step [OF this True] same show ?thesis by (metis (full_types))
  next
    case False
    from db_step_ok [OF inv step.prems False] same show ?thesis by metis
  qed
qed

lemma reachable_core:
  assumes "reachable cfg s" "valid_config cfg"
  shows "(\<exists>xs. core cfg (dropped s) 0 {#} xs s) \<and> settled cfg s"
  using reachable_inv [OF assms] by (auto simp: pool_inv_def torn_def)

lemma reachable_pool_inv:
  "reachable cfg s \<Longrightarrow> valid_config cfg \<Longrightarrow> \<not> dangling s \<Longrightarrow> pool_inv cfg (dropped s) s"
  using reachable_inv torn_dangling by blast

lemma dropped_step:
  assumes "reachable cfg s" "valid_config cfg" "\<not> dangling s"
  shows "dropped (db_step cfg e (s\<lparr>answers := as\<rparr>)) =
    dropped s @ (if late_connect_error e (s\<lparr>answers := as\<rparr>) then event_queries e s else [])"
proof -
  let ?s = "s\<lparr>answers := as\<rparr>"
  have inv: "pool_inv cfg (dropped s) ?s" using reachable_pool_inv [OF assms] by simp
  then obtain xs where xs: "core cfg (dropped s) 0 {#} xs ?s" "idle_ok (idle ?s) xs" "settled cfg ?s" by (rule pool_invE)
  have same: "pool_inv cfg D t \<or> torn cfg D t \<Longrightarrow> dropped t = D" for D t
    by (auto simp: pool_inv_def torn_def core_def)
  have q: "event_queries e ?s = event_queries e s" by (cases e) simp_all
  show ?thesis
  proof (cases "late_connect_error e ?s")
    case True
    have "pool_inv cfg (dropped s @ event_queries e ?s) (db_step cfg e ?s) \<or>
        torn cfg (dropped s @ event_queries e ?s) (db_step cfg e ?s)"
      using late_error_step [OF xs True] by (auto split: if_splits)
    with same [OF this] True show ?thesis by (simp add: q)
  next
    case False
    with same db_step_ok [OF inv assms(2) False] show ?thesis by simp
  qed
qed



section \<open>Concrete runs\<close>

text \<open>A run: events, each with the answers of the calls made while it is handled.\<close>

fun run_events :: "db_config \<Rightarrow> (db_event \<times> nat list) list \<Rightarrow> db_conn_pool_t \<Rightarrow> db_conn_pool_t" where
  "run_events cfg [] s = s"
| "run_events cfg ((e, as) # es) s = run_events cfg es (db_step cfg e (s\<lparr>answers := as\<rparr>))"

fun no_dangling :: "db_config \<Rightarrow> (db_event \<times> nat list) list \<Rightarrow> db_conn_pool_t \<Rightarrow> bool" where
  "no_dangling cfg [] s \<longleftrightarrow> True"
| "no_dangling cfg ((e, as) # es) s \<longleftrightarrow> \<not> dangling s \<and> no_dangling cfg es (db_step cfg e (s\<lparr>answers := as\<rparr>))"

lemma reachable_run_from: "reachable cfg s \<Longrightarrow> no_dangling cfg es s \<Longrightarrow> reachable cfg (run_events cfg es s)"
  by (induction cfg es s rule: run_events.induct) (auto intro: reachable.step)

definition run :: "db_config \<Rightarrow> (db_event \<times> nat list) list \<Rightarrow> db_conn_pool_t" where
  "run cfg es = run_events cfg es (initialize_database_connection_pool cfg)"

lemma reachable_run: "no_dangling cfg es (initialize_database_connection_pool cfg) \<Longrightarrow> reachable cfg (run cfg es)"
  unfolding run_def by (intro reachable_run_from reachable.init)

definition small_config :: db_config where
  "small_config = \<lparr>max_db_conn_num = 2, max_query_num = 4, max_pipeline_query_num = 2, num_prepared_statements = 0\<rparr>"

definition prepared_config :: db_config where
  "prepared_config = small_config\<lparr>num_prepared_statements := 1\<rparr>"

lemma valid_small: "valid_config small_config"
  by (simp add: valid_config_def small_config_def)

lemma valid_prepared: "valid_config prepared_config"
  by (simp add: valid_config_def prepared_config_def small_config_def)

text \<open>
  A connection is made, takes query 10, whose callback submits query 11 and is done; the
  second connection times out.
\<close>

definition demo_run :: "(db_event \<times> nat list) list" where
  "demo_run = [(Submit 10, []), (Submit 20, []), (Task, []), (Writable 0 False, []), (Timer 1, []), (Task, []),
     (Readable 0 False [(Some PGRES_TUPLES_OK, [11], True)], []), (Submit 30, [])]"

lemma demo_reachable: "reachable small_config (run small_config demo_run)"
  by (rule reachable_run) code_simp

lemma demo_log: "log (run small_config demo_run) = [(10, Result (Some PGRES_TUPLES_OK))]"
  by code_simp

lemma demo_submitted: "submitted (run small_config demo_run) = [10, 20, 11, 30]"
  by code_simp

lemma demo_dropped: "dropped (run small_config demo_run) = []"
  by code_simp

lemma demo_queries: "queries (run small_config demo_run) = [11, 30]"
  by code_simp

lemma distinct_submultiset: "distinct ys \<Longrightarrow> mset xs \<subseteq># mset ys \<Longrightarrow> distinct xs"
proof (induction xs)
  case Nil
  then show ?case by simp
next
  case (Cons x xs)
  have "count (mset (x # xs)) x \<le> count (mset ys) x" using Cons.prems(2) by (rule mset_subset_eq_count)
  moreover have "count (mset ys) x \<le> 1" using Cons.prems(1) by (simp add: distinct_count_atmost_1)
  ultimately have "count (mset xs) x = 0" by (simp del: count_mset count_mset_0_iff)
  then have "x \<notin> set xs" by (metis count_eq_zero_iff set_mset_mset)
  moreover have "mset xs \<subseteq># mset ys" using Cons.prems(2) by (auto dest: mset_subset_eq_insertD subset_mset.less_imp_le)
  ultimately show ?case using Cons by simp
qed

text \<open>Two connections become idle; then the second, the last of the idle queue, fails.\<close>

definition two_idle :: "(db_event \<times> nat list) list" where
  "two_idle = [(Submit 10, []), (Submit 20, []), (Task, []), (Writable 0 False, []), (Writable 1 False, [])]"

definition last_freed :: "(db_event \<times> nat list) list" where
  "last_freed = two_idle @ [(Readable 1 True [], [1])]"

definition last_reset :: "(db_event \<times> nat list) list" where
  "last_reset = two_idle @ [(Readable 1 True [], []), (Writable 1 False, [])]"

lemma last_freed_state:
  "reachable small_config (run small_config last_freed)"
  "conns (run small_config last_freed) 1 = None"
  "snd (idle (run small_config last_freed)) = \<lparr>q_head = Some 0, q_tail = Next 1\<rparr>"
  by (rule reachable_run, code_simp) code_simp+

lemma last_reset_state:
  "reachable small_config (run small_config last_reset)"
  "conns (run small_config last_reset) 1 = Some
     \<lparr>expect_sync = False, ignore_result = False, reset_flag = False, conn_queries = [], conn_query_num = 2,
      prepared_statement = False, timer = None, sock_read = Some Read_ready, sock_write = None, sock_data = True\<rparr>"
  "list_at (fst (idle (run small_config last_reset))) (q_head (snd (idle (run small_config last_reset)))) [0]"
  by (rule reachable_run, code_simp) code_simp+

text \<open>The write callback of the connecting phase fails after the connection got a query.\<close>

definition late_failure :: "(db_event \<times> nat list) list" where
  "late_failure = [(Submit 10, []), (Task, []), (Writable 0 False, [0, 0, 0, 0, 0, 0, 1]),
     (Readable 0 False [(Some PGRES_PIPELINE_SYNC, [], False)], []), (Task, []), (Writable 0 False, [2])]"

lemma late_failure_state:
  "reachable prepared_config (run prepared_config late_failure)"
  "submitted (run prepared_config late_failure) = [10]" "queries (run prepared_config late_failure) = []"
  "log (run prepared_config late_failure) = []" "next_conn (run prepared_config late_failure) = 1"
  "conns (run prepared_config late_failure) 0 = None" "dropped (run prepared_config late_failure) = [10]"
  "dangling (run prepared_config late_failure)"
  by (rule reachable_run, code_simp) code_simp+

section \<open>Properties\<close>

text \<open>C1. Every query accepted by the pool is accounted for, whatever events happen: in every
  reachable state the accepted queries are, as a multiset, those waiting, those in flight on a
  connection, those whose callback has run, and those dropped, that is, freed with their connection
  without a callback; when no query is submitted twice, no callback has run twice and no dropped
  query had one.  And queries are dropped by one kind of event only: by a late error of the write
  callback of the connecting phase on a connection that already serves queries, which drops
  exactly the queries of that connection; every other event drops none.  Reachable are the states
  of all runs up to and including the first state whose idle queue links a freed connection, where
  the code goes on to read freed memory.\<close>

theorem db_queries_conserved:
  assumes "reachable cfg s" "valid_config cfg"
  shows "mset (submitted s) = mset (queries s) + in_flight s + mset (map fst (log s)) + mset (dropped s) \<and>
    (distinct (submitted s) \<longrightarrow> distinct (map fst (log s) @ dropped s)) \<and>
    (\<not> dangling s \<longrightarrow> (\<forall>e as. dropped (db_step cfg e (s\<lparr>answers := as\<rparr>)) =
       dropped s @ (if late_connect_error e (s\<lparr>answers := as\<rparr>) then event_queries e s else [])))"
proof -
  have eq: "mset (submitted s) = mset (queries s) + in_flight s + mset (map fst (log s)) + mset (dropped s)"
    using reachable_core [OF assms] by (auto simp: core_def)
  have "distinct (map fst (log s) @ dropped s)" if "distinct (submitted s)"
  proof -
    have "mset (map fst (log s) @ dropped s) \<subseteq># mset (submitted s)" unfolding eq by (simp add: add.assoc)
    with that show ?thesis by (rule distinct_submultiset)
  qed
  with eq dropped_step [OF assms] show ?thesis by blast
qed

theorem db_queries_conserved_witness:
  "mset (submitted (run small_config demo_run)) =
    mset (queries (run small_config demo_run)) + in_flight (run small_config demo_run) + {#10#} \<and>
   dropped (run prepared_config late_failure) = [10] \<and>
   mset (submitted (run prepared_config late_failure)) = {#10#} + in_flight (run prepared_config late_failure)"
  using db_queries_conserved [OF demo_reachable valid_small] demo_log demo_dropped
    db_queries_conserved [OF late_failure_state(1) valid_prepared] late_failure_state by simp

text \<open>C32. The counters of the pool agree with what they count, and the assertions about them
  never fail, in every state that any events lead to, up to and including the first one whose idle
  queue links a freed connection (which only a late error of the write callback of the connecting
  phase can bring about): free connection slots plus connections make up the limit, free query
  slots plus waiting queries make up the limit, and on each connection the free pipeline slots
  plus the queries in flight make up the pipeline limit.\<close>

theorem db_counters:
  assumes "reachable cfg s" "valid_config cfg"
  shows "conn_num s + live s = max_db_conn_num cfg \<and>
    query_num s + length (queries s) = max_query_num cfg \<and>
    (\<forall>c. case conns s c of None \<Rightarrow> True
      | Some k \<Rightarrow> conn_query_num k + length (conn_queries k) = max_pipeline_query_num cfg) \<and>
    {Assert_conn_num, Assert_query_num, Assert_conn_query_num} \<inter> set (faults s) = {}"
  using reachable_core [OF assms]
  by (auto simp: core_def conn_ok_def counter_faults_def split: option.splits)

theorem db_counters_witness:
  "conn_num (run small_config demo_run) + live (run small_config demo_run) = 2 \<and>
    query_num (run small_config demo_run) + length (queries (run small_config demo_run)) = 4"
  using db_counters [OF demo_reachable valid_small] by (simp add: small_config_def)

text \<open>First in, first out: the waiting queries are always the most recently accepted
  ones, in the order in which they were accepted.\<close>

theorem db_waiting_in_order:
  assumes "reachable cfg s" "valid_config cfg"
  shows "suffix (queries s) (submitted s)"
  using reachable_core [OF assms] by (auto simp: core_def)

theorem db_waiting_in_order_witness:
  "suffix (queries (run small_config demo_run)) (submitted (run small_config demo_run)) \<and>
    submitted (run small_config demo_run) = [10, 20, 11, 30]"
  using db_waiting_in_order [OF demo_reachable valid_small] by (simp add: demo_submitted)

text \<open>C18. No lost wake-up: in every state that any events lead to, up to and including the
  first one whose idle queue links a freed connection, when queries wait, the task that hands them
  out is posted, exactly once, or a connection to the database exists.\<close>

theorem db_no_lost_wakeup:
  assumes "reachable cfg s" "valid_config cfg" "queries s \<noteq> []"
  shows "(process_flag s \<and> local_messages s = 1) \<or> (local_messages s = 0 \<and> 0 < live s)"
  using reachable_core [OF assms(1,2)] assms(2,3)
  by (auto simp: core_def settled_def drained_def valid_config_def)

theorem db_no_lost_wakeup_witness:
  "(process_flag (run small_config demo_run) \<and> local_messages (run small_config demo_run) = 1) \<or>
    (local_messages (run small_config demo_run) = 0 \<and> 0 < live (run small_config demo_run))"
  using db_no_lost_wakeup [OF demo_reachable valid_small] by (simp add: demo_queries)



text \<open>\<^verbatim>\<open>remove_connection\<close> does not move the tail pointer when it removes the last of
  several idle connections: when that connection cannot be reset and is freed, the tail
  points into freed memory; when it is reset, it is written behind itself and never gets a
  query again.\<close>

theorem remove_connection_stale_tail:
  "(\<exists>s c. reachable small_config s \<and> conns s c = None \<and> q_head (snd (idle s)) \<noteq> None \<and>
      q_tail (snd (idle s)) = Next c) \<and>
   (\<exists>s c k xs. reachable small_config s \<and> conns s c = Some k \<and> sock_read k = Some Read_ready \<and>
      conn_queries k = [] \<and> list_at (fst (idle s)) (q_head (snd (idle s))) xs \<and> c \<notin> set xs)"
proof (rule conjI)
  show "\<exists>s c. reachable small_config s \<and> conns s c = None \<and> q_head (snd (idle s)) \<noteq> None \<and>
      q_tail (snd (idle s)) = Next c"
    by (rule exI [of _ "run small_config last_freed"], rule exI [of _ 1]) (simp add: last_freed_state last_freed_state(2) [simplified])
  show "\<exists>s c k xs. reachable small_config s \<and> conns s c = Some k \<and> sock_read k = Some Read_ready \<and>
      conn_queries k = [] \<and> list_at (fst (idle s)) (q_head (snd (idle s))) xs \<and> c \<notin> set xs"
  proof -
    let ?s = "run small_config last_reset"
    obtain k where "conns ?s 1 = Some k" "sock_read k = Some Read_ready" "conn_queries k = []"
      using last_reset_state(2) by simp
    moreover have "1 \<notin> set [0 :: nat]" by simp
    ultimately show ?thesis using last_reset_state(1,3) by blast
  qed
qed

text \<open>Queries do get lost: when the write callback of the connecting phase is still pending
  while the connection already serves queries and then fails, the connection is freed, the query
  in flight gets no callback at all, and the idle queue links the freed connection.\<close>

theorem late_connect_error_loses_query:
  "\<exists>s. reachable prepared_config s \<and> submitted s = [10] \<and> queries s = [] \<and> in_flight s = {#} \<and> log s = [] \<and>
    dropped s = [10] \<and> dangling s"
proof (rule exI, intro conjI)
  show "in_flight (run prepared_config late_failure) = {#}"
    using late_failure_state by (simp add: in_flight_def total_def)
qed (rule late_failure_state)+

text \<open>When libpq moves to another socket while connecting, the socket the code makes for
  it has no \<^verbatim>\<open>data\<close> pointer, and the next callback on it dereferences a null pointer.\<close>

theorem poll_new_socket_without_data:
  "\<exists>s. reachable small_config s \<and> Null_dereference \<in> set (faults s)"
proof
  let ?es = "[(Submit 10, []), (Task, []), (Writable 0 False, [2, 1, 0]), (Readable 0 False [], [])]"
  have "reachable small_config (run small_config ?es)" by (rule reachable_run) code_simp
  moreover have "faults (run small_config ?es) = [Null_dereference]" by code_simp
  ultimately show "reachable small_config (run small_config ?es) \<and>
      Null_dereference \<in> set (faults (run small_config ?es))" by simp
qed

end
