(* ===== verification/Db_Pool_Free.thy ===== *)
theory Db_Pool_Free
  imports Db_Pool_Step
begin

text \<open>
  The end of the connection pool (\<^verbatim>\<open>database.c\<close>): \<^verbatim>\<open>free_database_connection_pool\<close>
  walks the idle queue, closes every connection on it and asserts that it met all of them;
  \<^verbatim>\<open>remove_prepared_statements\<close> frees the list of statements.  Also
  \<^verbatim>\<open>create_socket\<close>, which the pool calls for every connection.
\<close>

section \<open>Operations\<close>

text \<open>
  \<^verbatim>\<open>create_socket\<close>: the results of \<^verbatim>\<open>dup\<close>, of the two calls of
  \<^verbatim>\<open>fcntl\<close> and of \<^verbatim>\<open>h2o_evloop_socket_create\<close>.  The answer is whether
  there is a socket, and the descriptors that are open afterwards.
\<close>

definition create_socket :: "int \<Rightarrow> int \<Rightarrow> int \<Rightarrow> bool \<Rightarrow> int set \<Rightarrow> bool \<times> int set" where
  "create_socket sd flags set_flags created open_fds =
     (if sd < 0 then (False, open_fds)
      else (let open_fds = insert sd open_fds
            in if flags < 0 \<or> set_flags \<noteq> 0 then (False, open_fds - {sd})
               else if \<not> created then (False, open_fds - {sd})
               else (True, open_fds)))"

text \<open>What the loop asserts of a connection.\<close>

definition conn_quiet :: "db_config \<Rightarrow> db_conn_t \<Rightarrow> bool" where
  "conn_quiet cfg k \<longleftrightarrow> conn_queries k = [] \<and> conn_query_num k = max_pipeline_query_num cfg \<and>
     \<not> (expect_sync k \<or> ignore_result k \<or> reset_flag k) \<and> timer k = None"

text \<open>
  The loop, with the connections it closed and whether its assertions hold.  A connection that is
  not there any more is a dangling pointer.
\<close>

fun free_loop :: "db_config \<Rightarrow> nat \<Rightarrow> db_conn_pool_t \<Rightarrow> bool \<times> addr list \<times> db_conn_pool_t" where
  "free_loop cfg 0 s = (q_head (snd (idle s)) = None, [], s)"
| "free_loop cfg (Suc fuel) s =
     (case q_head (snd (idle s)) of
        None \<Rightarrow> (True, [], s)
      | Some c \<Rightarrow>
          (case conns s c of
             None \<Rightarrow> (False, [], s)
           | Some k \<Rightarrow>
               (let s' = free_conn c (s\<lparr>idle := (fst (idle s), (snd (idle s))\<lparr>q_head := fst (idle s) c\<rparr>)\<rparr>)
                in case free_loop cfg fuel s' of (ok, closed, s'') \<Rightarrow> (conn_quiet cfg k \<and> ok, c # closed, s''))))"

definition free_database_connection_pool :: "db_config \<Rightarrow> db_conn_pool_t \<Rightarrow> bool \<times> addr list \<times> db_conn_pool_t" where
  "free_database_connection_pool cfg s =
     (case free_loop cfg (Suc (next_conn s)) s of
        (ok, closed, s') \<Rightarrow>
          (queries s = [] \<and> query_num s = max_query_num cfg \<and> ok \<and> length closed + conn_num s' = max_db_conn_num cfg,
           closed, s'))"

text \<open>The statements that are freed, in their order.\<close>

fun remove_prepared_statements :: "nat \<Rightarrow> heap \<Rightarrow> addr option \<Rightarrow> addr list option" where
  "remove_prepared_statements fuel h None = Some []"
| "remove_prepared_statements 0 h (Some p) = None"
| "remove_prepared_statements (Suc fuel) h (Some p) = map_option ((#) p) (remove_prepared_statements fuel h (h p))"

section \<open>What they do\<close>

lemma create_socket_balanced:
  assumes "create_socket sd flags set_flags created open_fds = (ok, fds)" "sd \<notin> open_fds"
  shows "fds = (if ok then insert sd open_fds else open_fds)"
  using assms by (auto simp: create_socket_def Let_def split: if_splits)

lemma remove_prepared_statements_all:
  "list_at h p xs \<Longrightarrow> length xs \<le> fuel \<Longrightarrow> remove_prepared_statements fuel h p = Some xs"
  by (induction fuel h p arbitrary: xs rule: remove_prepared_statements.induct) (case_tac [!] xs; simp)+

lemma free_loop_closes:
  assumes "list_at (fst (idle s)) (q_head (snd (idle s))) xs" "distinct xs" "\<forall>x \<in> set xs. conns s x \<noteq> None" "length xs \<le> fuel"
  shows "\<exists>s'. free_loop cfg fuel s = (\<forall>x \<in> set xs. conn_quiet cfg (the (conns s x)), xs, s') \<and>
    conns s' = (\<lambda>c. if c \<in> set xs then None else conns s c) \<and> conn_num s' = conn_num s \<and> q_head (snd (idle s')) = None"
  using assms
proof (induction xs arbitrary: s fuel)
  case Nil
  then show ?case by (cases fuel) (auto intro!: exI [of _ s])
next
  case (Cons x xs)
  then obtain f k where f: "fuel = Suc f" and k: "conns s x = Some k" by (cases fuel) auto
  let ?s = "free_conn x (s\<lparr>idle := (fst (idle s), (snd (idle s))\<lparr>q_head := fst (idle s) x\<rparr>)\<rparr>)"
  have "\<exists>s'. free_loop cfg f ?s = (\<forall>y \<in> set xs. conn_quiet cfg (the (conns ?s y)), xs, s') \<and>
      conns s' = (\<lambda>c. if c \<in> set xs then None else conns ?s c) \<and> conn_num s' = conn_num ?s \<and> q_head (snd (idle s')) = None"
    using Cons.prems f by (intro Cons.IH) (auto simp: free_conn_def)
  moreover have "(\<forall>y \<in> set xs. conn_quiet cfg (the (conns ?s y))) = (\<forall>y \<in> set xs. conn_quiet cfg (the (conns s y)))"
    using Cons.prems(2) by (intro ball_cong) (auto simp: free_conn_def)
  ultimately obtain s' where "free_loop cfg f ?s = (\<forall>y \<in> set xs. conn_quiet cfg (the (conns s y)), xs, s')"
    "conns s' = (\<lambda>c. if c \<in> set xs then None else conns ?s c)" "conn_num s' = conn_num ?s" "q_head (snd (idle s')) = None"
    by auto
  with Cons.prems(1) f k show ?case
    by (intro exI [of _ s']) (auto simp: free_conn_def Let_def fun_eq_iff)
qed

text \<open>As many connections are live as there are addresses with one.\<close>

lemma live_card: "live s = card {c \<in> {..<next_conn s}. conns s c \<noteq> None}"
proof -
  have "live s = (\<Sum>c<next_conn s. if conns s c \<noteq> None then 1 else 0)"
    unfolding live_def total_def by (rule sum.cong) (auto simp: opt_def split: option.split)
  also have "\<dots> = (\<Sum>c \<in> {c \<in> {..<next_conn s}. conns s c \<noteq> None}. 1)" by (rule sum.inter_filter [symmetric]) simp
  finally show ?thesis by simp
qed

lemma in_flight_none:
  assumes "in_flight s = {#}" "conns s c = Some k" "c < next_conn s"
  shows "conn_queries k = []"
proof -
  have "in_flight s = opt (\<lambda>k. mset (conn_queries k)) (conns s c) + (\<Sum>d \<in> {..<next_conn s} - {c}. opt (\<lambda>k. mset (conn_queries k)) (conns s d))"
    unfolding in_flight_def total_def using assms(3) by (intro sum.remove) auto
  with assms(1,2) show ?thesis by simp
qed

section \<open>Property\<close>

text \<open>C26. Freeing the pool in any reachable state whose idle queue links no freed connection
  closes exactly the connections on the idle queue, each once and in the order of the queue, and
  frees no other; and its assertions hold exactly when no query waits and every connection that
  exists is on the idle queue and quiet: no query in flight, all its pipeline slots free, no
  result, reset or synchronization outstanding, and no timer running.  So they fail when a
  connection is still being made, still serves a query, or was lost from the queue, and such a
  connection is not closed.\<close>

theorem pool_freed:
  assumes "reachable cfg s" "valid_config cfg" "\<not> dangling s"
    "free_database_connection_pool cfg s = (ok, closed, s')"
  shows "distinct closed \<and> list_at (fst (idle s)) (q_head (snd (idle s))) closed \<and> (\<forall>c \<in> set closed. conns s c \<noteq> None) \<and>
    conns s' = (\<lambda>c. if c \<in> set closed then None else conns s c) \<and>
    (ok \<longleftrightarrow> queries s = [] \<and> (\<forall>c k. conns s c = Some k \<longrightarrow> c \<in> set closed \<and>
       conn_queries k = [] \<and> conn_query_num k = max_pipeline_query_num cfg \<and>
       \<not> expect_sync k \<and> \<not> ignore_result k \<and> \<not> reset_flag k \<and> timer k = None))"
proof -
  obtain xs where core: "core cfg (dropped s) 0 {#} xs s" and idle: "idle_ok (idle s) xs"
    using reachable_pool_inv [OF assms(1-3)] by (auto simp: pool_inv_def)
  have xs: "list_at (fst (idle s)) (q_head (snd (idle s))) xs" "distinct xs" "\<forall>x \<in> set xs. conns s x \<noteq> None"
    using idle core idle_ok_distinct [OF idle] by (auto simp: idle_ok_def core_def)
  have "length xs \<le> Suc (next_conn s)" using core_idle_length [OF core xs(2)] by simp
  from free_loop_closes [OF xs this, of cfg] obtain s1 where
    l: "free_loop cfg (Suc (next_conn s)) s = (\<forall>x \<in> set xs. conn_quiet cfg (the (conns s x)), xs, s1)"
      "conns s1 = (\<lambda>c. if c \<in> set xs then None else conns s c)" "conn_num s1 = conn_num s" by blast
  have num: "query_num s = max_query_num cfg" if "queries s = []" using core that by (simp add: core_def)
  have slots: "length xs + conn_num s = max_db_conn_num cfg \<longleftrightarrow> length xs = live s" using core by (auto simp: core_def)
  have res: "closed = xs" "s' = s1"
    "ok \<longleftrightarrow> queries s = [] \<and> (\<forall>x \<in> set xs. conn_quiet cfg (the (conns s x))) \<and> length xs = live s"
    using l num slots assms(4) by (auto simp: free_database_connection_pool_def)
  let ?live = "{c \<in> {..<next_conn s}. conns s c \<noteq> None}"
  have bound: "c < next_conn s" if "conns s c \<noteq> None" for c using core that by (auto simp: core_def)
  then have "set xs \<subseteq> ?live" using xs(3) by auto
  then have "length xs = live s \<longleftrightarrow> set xs = ?live"
    using card_subset_eq [of ?live "set xs"] distinct_card [OF xs(2)] by (auto simp: live_card)
  also have "\<dots> \<longleftrightarrow> (\<forall>c. conns s c \<noteq> None \<longrightarrow> c \<in> set xs)" using \<open>set xs \<subseteq> ?live\<close> bound by auto
  finally have "ok \<longleftrightarrow> queries s = [] \<and> (\<forall>c k. conns s c = Some k \<longrightarrow> c \<in> set xs \<and> conn_quiet cfg k)"
    using res(3) xs(3) by fastforce
  then show ?thesis using res xs l(2) by (simp add: conn_quiet_def)
qed

text \<open>
  Two runs evaluated: one query over one connection; and a connection that is reset after an error
  and lost behind itself, while the other takes both queries and fails for good.
\<close>

definition quiet_run :: "(db_event \<times> nat list) list" where
  "quiet_run = [(Submit 10, []), (Task, []), (Writable 0 False, []), (Task, []),
     (Readable 0 False [(Some PGRES_TUPLES_OK, [], True), (None, [], True), (Some PGRES_PIPELINE_SYNC, [], True), (None, [], True)], [])]"

definition lost_run :: "(db_event \<times> nat list) list" where
  "lost_run = last_reset @ [(Task, []), (Readable 0 True [], [1])]"

lemmas pool_defs = small_config_def initialize_database_connection_pool_def execute_database_query_def process_queries_def
  check_assert_def on_process_queries_def on_database_error_def remove_connection_def start_database_connect_def connect_socket_def
  new_conn_def ask_def upd_conn_def free_conn_def notify_def push_idle_def error_notification_def flush_connection_def
  do_execute_query_def on_database_read_ready_def with_conn_def poll_database_connection_def switch_socket_def
  prepare_statements_def queue_push_def queue_pop_def queue_remove_def queue_init_def write_slot_def first_def

definition idle_conn :: db_conn_t where
  "idle_conn = \<lparr>expect_sync = False, ignore_result = False, reset_flag = False, conn_queries = [], conn_query_num = 2,
     prepared_statement = False, timer = None, sock_read = Some Read_ready, sock_write = None, sock_data = True\<rparr>"

lemma quiet_run_state:
  "run small_config quiet_run =
     \<lparr>conns = [0 \<mapsto> idle_conn], next_conn = 1, idle = (\<lambda>_. None, \<lparr>q_head = Some 0, q_tail = Next 0\<rparr>), queries = [],
      conn_num = 1, query_num = 4, process_flag = False, local_messages = 0, answers = [],
      log = [(10, Result (Some PGRES_TUPLES_OK))], submitted = [10], dropped = [], faults = []\<rparr>"
  "no_dangling small_config quiet_run (initialize_database_connection_pool small_config)"
  "\<not> dangling (run small_config quiet_run)"
  by (simp_all add: run_def quiet_run_def idle_conn_def pool_defs Let_def eval_nat_numeral dangling_def)

lemma lost_run_state:
  "run small_config lost_run =
     \<lparr>conns = [1 \<mapsto> idle_conn], next_conn = 2, idle = (\<lambda>_. None, \<lparr>q_head = None, q_tail = Var\<rparr>), queries = [],
      conn_num = 1, query_num = 4, process_flag = False, local_messages = 0, answers = [],
      log = [(10, Failed), (20, Failed)], submitted = [10, 20], dropped = [], faults = [Assert_tail]\<rparr>"
  "no_dangling small_config lost_run (initialize_database_connection_pool small_config)"
  "\<not> dangling (run small_config lost_run)"
  by (simp_all add: run_def lost_run_def last_reset_def two_idle_def idle_conn_def pool_defs Let_def eval_nat_numeral dangling_def)

theorem pool_freed_witness:
  "(\<exists>s'. free_database_connection_pool small_config (run small_config quiet_run) = (True, [0], s') \<and> (\<forall>c. conns s' c = None)) \<and>
   (\<exists>s'. free_database_connection_pool small_config (run small_config lost_run) = (False, [], s') \<and> conns s' 1 \<noteq> None)"
proof -
  obtain ok1 cl1 s1 where f1: "free_database_connection_pool small_config (run small_config quiet_run) = (ok1, cl1, s1)"
    by (cases "free_database_connection_pool small_config (run small_config quiet_run)")
  obtain ok2 cl2 s2 where f2: "free_database_connection_pool small_config (run small_config lost_run) = (ok2, cl2, s2)"
    by (cases "free_database_connection_pool small_config (run small_config lost_run)")
  note free1 = pool_freed [OF reachable_run [OF quiet_run_state(2)] valid_small quiet_run_state(3) f1,
      unfolded quiet_run_state(1)]
  note free2 = pool_freed [OF reachable_run [OF lost_run_state(2)] valid_small lost_run_state(3) f2,
      unfolded lost_run_state(1)]
  have "cl1 = [0]" "cl2 = []" using free1 free2 by (cases cl1; cases cl2; auto dest: path_Some)+
  with free1 free2 f1 f2 show ?thesis by (auto simp: idle_conn_def small_config_def)
qed

end
