(* ===== verification/Json_Escape.thy ===== *)
theory Json_Escape
  imports Prelude
begin

text \<open>
  Escaping strings for JSON in the lwan application (\<^verbatim>\<open>json.c\<close>): the table look-up
  by 64-bit arithmetic in \<^verbatim>\<open>escape_as\<close>, escaping while appending
  (\<^verbatim>\<open>json_escape_internal\<close>), the length of the escaped string, and escaping in place
  from the back (\<^verbatim>\<open>json_escape\<close>).
\<close>

unbundle bit_operations_syntax

section \<open>Which characters are escaped\<close>

definition has_zero :: "64 word \<Rightarrow> 64 word" where
  "has_zero v = (v - 0x0101010101010101) AND NOT v AND 0x8080808080808080"

text \<open>\<^verbatim>\<open>char\<close> is signed: a code from 128 on is extended with ones.\<close>

definition char_to_uint64 :: "char \<Rightarrow> 64 word" where
  "char_to_uint64 c = (if chr_code c < 128 then word_of_nat (chr_code c)
     else word_of_nat (chr_code c) - 256)"

definition has_value :: "64 word \<Rightarrow> char \<Rightarrow> 64 word" where
  "has_value x n = has_zero (x XOR ((NOT 0 div 255) * char_to_uint64 n))"

text \<open>The number of leading zeros (\<^verbatim>\<open>__builtin_clzl\<close>).\<close>

definition clzl :: "64 word \<Rightarrow> nat" where
  "clzl w = length (takeWhile (\<lambda>i. \<not> bit w (63 - i)) [0..<64])"

definition escape_as :: "char \<Rightarrow> char" where
  "escape_as chr =
     (let mask = has_value 0x225c080c0a0d0909 chr;
          escaped = [CHR 0x22, CHR 0x5C, CHR ''b'', CHR ''f'', CHR ''n'', CHR ''r'', CHR ''t'', CHR ''t'']
      in if mask = 0 then NUL else escaped ! (clzl mask div 8))"

text \<open>The table this is meant to be.\<close>

definition escape_letter :: "char \<Rightarrow> char" where
  "escape_letter c =
     (if c = CHR 0x22 then CHR 0x22 else if c = CHR 0x5C then CHR 0x5C
      else if c = CHR 0x08 then CHR ''b'' else if c = CHR 0x0C then CHR ''f''
      else if c = CHR 0x0A then CHR ''n'' else if c = CHR 0x0D then CHR ''r''
      else if c = CHR 0x09 then CHR ''t'' else NUL)"

lemma has_value_simp: "has_value x n = has_zero (x XOR (0x0101010101010101 * char_to_uint64 n))"
  by (simp add: has_value_def)

lemmas mask_simps = has_value_simp has_zero_def char_to_uint64_def

lemma mask_zero:
  "list_all (\<lambda>n. n \<in> {8, 9, 10, 12, 13, 34, 92} \<or> has_value 0x225c080c0a0d0909 (char_of n) = 0) [0..<64 :: nat]"
  "list_all (\<lambda>n. n \<in> {8, 9, 10, 12, 13, 34, 92} \<or> has_value 0x225c080c0a0d0909 (char_of n) = 0) [64..<128 :: nat]"
  "list_all (\<lambda>n. n \<in> {8, 9, 10, 12, 13, 34, 92} \<or> has_value 0x225c080c0a0d0909 (char_of n) = 0) [128..<192 :: nat]"
  "list_all (\<lambda>n. n \<in> {8, 9, 10, 12, 13, 34, 92} \<or> has_value 0x225c080c0a0d0909 (char_of n) = 0) [192..<256 :: nat]"
  by (simp_all add: upt_rec mask_simps)

lemma escape_as_special:
  "escape_as CHR 0x08 = CHR ''b''" "escape_as CHR 0x09 = CHR ''t''" "escape_as CHR 0x0A = CHR ''n''"
  "escape_as CHR 0x0C = CHR ''f''" "escape_as CHR 0x0D = CHR ''r''" "escape_as CHR 0x22 = CHR 0x22"
  "escape_as CHR 0x5C = CHR 0x5C"
  by (simp_all add: escape_as_def mask_simps clzl_def Let_def upt_rec)

lemma char_of_special:
  "char_of (8 :: nat) = CHR 0x08" "char_of (9 :: nat) = CHR 0x09" "char_of (10 :: nat) = CHR 0x0A"
  "char_of (12 :: nat) = CHR 0x0C" "char_of (13 :: nat) = CHR 0x0D" "char_of (34 :: nat) = CHR 0x22"
  "char_of (92 :: nat) = CHR 0x5C"
  by code_simp+

lemma escape_as_eq: "escape_as c = escape_letter c"
proof -
  obtain n :: nat where c: "c = char_of n" and n: "n < 256"
    using nat_of_char_less_256 char_of_char by metis
  have zero: "n \<in> {8, 9, 10, 12, 13, 34, 92} \<or> has_value 0x225c080c0a0d0909 (char_of n) = 0"
  proof -
    have "n \<in> set [0..<64] \<or> n \<in> set [64..<128] \<or> n \<in> set [128..<192] \<or> n \<in> set [192..<256]"
      using n unfolding set_upt atLeastLessThan_iff by arith
    then show ?thesis using mask_zero unfolding list_all_iff by blast
  qed
  show ?thesis
  proof (cases "n \<in> {8, 9, 10, 12, 13, 34, 92}")
    case True
    then consider "n = 8" | "n = 9" | "n = 10" | "n = 12" | "n = 13" | "n = 34" | "n = 92" by blast
    then show ?thesis by cases (simp_all add: c char_of_special escape_letter_def escape_as_special)
  next
    case False
    then have "chr_code c \<notin> {8, 9, 10, 12, 13, 34, 92}" using n by (simp add: c)
    then have "c \<noteq> CHR 0x22 \<and> c \<noteq> CHR 0x5C \<and> c \<noteq> CHR 0x08 \<and> c \<noteq> CHR 0x0C \<and> c \<noteq> CHR 0x0A \<and>
        c \<noteq> CHR 0x0D \<and> c \<noteq> CHR 0x09"
      by (intro conjI notI) simp_all
    then have "escape_letter c = NUL" by (simp add: escape_letter_def)
    moreover have mask: "has_value 0x225c080c0a0d0909 c = 0" using zero False c by blast
    have "escape_as c = NUL" unfolding escape_as_def Let_def mask by (rule if_P [OF refl])
    ultimately show ?thesis by simp
  qed
qed

definition escaped_char :: "char \<Rightarrow> string" where
  "escaped_char c = (if escape_letter c = NUL then [c] else [CHR 0x5C, escape_letter c])"

text \<open>The escaped form of a string.\<close>

definition escape_string :: "string \<Rightarrow> string" where
  "escape_string s = concat (map escaped_char s)"

lemma escape_string_simps [simp]:
  "escape_string [] = []" "escape_string (c # s) = escaped_char c @ escape_string s"
  "escape_string (s @ s') = escape_string s @ escape_string s'"
  by (simp_all add: escape_string_def)

lemma length_escape_string: "length s \<le> length (escape_string s)"
  by (induction s) (auto simp: escaped_char_def)

section \<open>The length of the escaped string\<close>

fun json_calc_escaped_len_loop :: "memory \<Rightarrow> nat \<Rightarrow> nat \<Rightarrow> nat \<Rightarrow> nat" where
  "json_calc_escaped_len_loop str 0 pos escaped_len = escaped_len"
| "json_calc_escaped_len_loop str (Suc n) pos escaped_len =
     json_calc_escaped_len_loop str n (pos + 1)
       (if escape_as (str pos) \<noteq> NUL then escaped_len + 1 else escaped_len)"

definition json_calc_escaped_len :: "memory \<Rightarrow> nat \<Rightarrow> nat" where
  "json_calc_escaped_len str len = json_calc_escaped_len_loop str len 0 len"

lemma json_calc_escaped_len_loop:
  "at_mem str pos s \<Longrightarrow>
    json_calc_escaped_len_loop str (length s) pos (n + length s) = n + length (escape_string s)"
proof (induction s arbitrary: pos n)
  case Nil
  then show ?case by simp
next
  case (Cons c s)
  have "json_calc_escaped_len_loop str (length s) (Suc pos) (n + length (escaped_char c) + length s) =
      n + length (escaped_char c) + length (escape_string s)"
    using Cons.prems by (intro Cons.IH) simp
  then show ?case using Cons.prems by (simp add: escape_as_eq escaped_char_def split: if_splits)
qed

lemma json_calc_escaped_len: "at_mem str 0 s \<Longrightarrow> json_calc_escaped_len str (length s) = length (escape_string s)"
  using json_calc_escaped_len_loop [of str 0 s 0] by (simp add: json_calc_escaped_len_def)

section \<open>Escaping in place\<close>

text \<open>The loop runs backwards: \<^verbatim>\<open>next_c = *(--next)\<close>, and \<^verbatim>\<open>dest\<close> before it.\<close>

fun json_escape_loop :: "memory \<Rightarrow> nat \<Rightarrow> nat \<Rightarrow> memory" where
  "json_escape_loop str 0 dest = str"
| "json_escape_loop str (Suc next) dest =
     (let next_c = str next; escape = escape_as next_c
      in if escape \<noteq> NUL
         then json_escape_loop (str(dest - 1 := escape, dest - 2 := CHR 0x5C)) next (dest - 2)
         else json_escape_loop (str(dest - 1 := next_c)) next (dest - 1))"

definition json_escape :: "memory \<Rightarrow> nat \<Rightarrow> nat \<Rightarrow> int \<times> nat \<times> memory" where
  "json_escape str len buf_size =
     (let escaped_len = json_calc_escaped_len str len
      in if escaped_len = len then (0, len, str)
         else if buf_size \<le> escaped_len then (- ENOMEM, len, str)
         else (0, escaped_len, json_escape_loop (str(escaped_len := NUL)) len escaped_len))"

lemma json_escape_loop_correct:
  "at_mem str 0 s \<Longrightarrow>
    at_mem (json_escape_loop str (length s) (length (escape_string s))) 0 (escape_string s) \<and>
    (\<forall>i \<ge> length (escape_string s). json_escape_loop str (length s) (length (escape_string s)) i = str i)"
proof (induction s arbitrary: str rule: rev_induct)
  case Nil
  then show ?case by simp
next
  case (snoc c s)
  let ?n = "length (escape_string s)"
  have c: "str (length s) = c" using snoc.prems by simp
  have s: "at_mem str 0 s" using snoc.prems by simp
  have le: "length s \<le> ?n" by (rule length_escape_string)
  let ?str = "if escape_letter c \<noteq> NUL then str(Suc ?n := escape_letter c, ?n := CHR 0x5C) else str(?n := c)"
  have eq: "json_escape_loop str (length (s @ [c])) (length (escape_string (s @ [c]))) =
      json_escape_loop ?str (length s) ?n"
    using c by (simp add: escape_as_eq escaped_char_def numeral_2_eq_2)
  have "at_mem ?str 0 s" using s le by (auto simp: at_mem_def)
  note ih = snoc.IH [OF this]
  show ?case
    unfolding eq using ih by (auto simp: escaped_char_def split: if_splits)
qed

section \<open>Escaping while appending\<close>

text \<open>
  What the encoders need from their \<^verbatim>\<open>append_bytes\<close> callback: its results are codes
  that can be or-ed, it keeps its data in order, when it answers 0 the bytes have been
  added to what \<^verbatim>\<open>observe\<close> sees of its data, and it answers 0 as long as the data
  have room for \<^verbatim>\<open>n\<close> bytes (\<^verbatim>\<open>enough d n\<close>).
\<close>

locale appender =
  fixes append_bytes :: "string \<Rightarrow> 'd \<Rightarrow> int \<times> 'd"
    and observe :: "'d \<Rightarrow> 'o"
    and extend :: "'o \<Rightarrow> string \<Rightarrow> 'o"
    and valid :: "'d \<Rightarrow> bool"
    and enough :: "'d \<Rightarrow> nat \<Rightarrow> bool"
    and codes :: "int set"
  assumes extend_Nil: "extend x [] = x"
    and extend_append: "extend (extend x s) s' = extend x (s @ s')"
    and code_0: "0 \<in> codes"
    and code_or: "a \<in> codes \<Longrightarrow> b \<in> codes \<Longrightarrow> a OR b \<in> codes"
    and append_code: "fst (append_bytes s d) \<in> codes"
    and append_valid: "valid d \<Longrightarrow> valid (snd (append_bytes s d))"
    and append_observe: "valid d \<Longrightarrow> fst (append_bytes s d) = 0 \<Longrightarrow> observe (snd (append_bytes s d)) = extend (observe d) s"
    and append_enough: "valid d \<Longrightarrow> enough d (length s + n) \<Longrightarrow>
      fst (append_bytes s d) = 0 \<and> enough (snd (append_bytes s d)) n"

text \<open>A call whose result is or-ed into \<^verbatim>\<open>ret\<close>.\<close>

definition append_or :: "(string \<Rightarrow> 'd \<Rightarrow> int \<times> 'd) \<Rightarrow> string \<Rightarrow> int \<times> 'd \<Rightarrow> int \<times> 'd" where
  "append_or append_bytes s rd = (case append_bytes s (snd rd) of (r, d) \<Rightarrow> (fst rd OR r, d))"

text \<open>
  The loop of \<^verbatim>\<open>json_escape_internal\<close>: \<^verbatim>\<open>str\<close> is the string before its
  terminating zero, \<^verbatim>\<open>cur\<close> and \<^verbatim>\<open>unescaped\<close> are positions in it.
\<close>

function json_escape_internal_loop ::
    "(string \<Rightarrow> 'd \<Rightarrow> int \<times> 'd) \<Rightarrow> string \<Rightarrow> nat \<Rightarrow> nat \<Rightarrow> int \<times> 'd \<Rightarrow> int \<times> 'd" where
  "json_escape_internal_loop append_bytes str cur unescaped rd =
     (if cur < length str
      then (let escaped = escape_as (str ! cur)
            in if escaped \<noteq> NUL
               then (if cur - unescaped \<noteq> 0
                     then json_escape_internal_loop append_bytes str (cur + 1) (cur + 1)
                            (append_or append_bytes [CHR 0x5C, escaped]
                              (append_or append_bytes (take (cur - unescaped) (drop unescaped str)) rd))
                     else json_escape_internal_loop append_bytes str (cur + 1) unescaped
                            (append_or append_bytes [CHR 0x5C, escaped] rd))
               else json_escape_internal_loop append_bytes str (cur + 1) unescaped rd)
      else if cur - unescaped \<noteq> 0
      then append_or append_bytes (take (cur - unescaped) (drop unescaped str)) rd
      else rd)"
  by pat_completeness auto
termination
  by (relation "measure (\<lambda>(append_bytes, str, cur, unescaped, rd). length str - cur)") auto

declare json_escape_internal_loop.simps [simp del]

definition json_escape_internal :: "(string \<Rightarrow> 'd \<Rightarrow> int \<times> 'd) \<Rightarrow> string \<Rightarrow> 'd \<Rightarrow> int \<times> 'd" where
  "json_escape_internal append_bytes str d = json_escape_internal_loop append_bytes str 0 0 (0, d)"

text \<open>
  What it appends: as the code stands, a character that is escaped at the start or right
  behind another escaped one is appended again, unescaped, with the text that follows it.
  \<^verbatim>\<open>pending\<close> is the text between \<^verbatim>\<open>unescaped\<close> and \<^verbatim>\<open>cur\<close>.
\<close>

fun internal_text :: "string \<Rightarrow> string \<Rightarrow> string" where
  "internal_text pending [] = pending"
| "internal_text pending (c # s) =
     (if escape_letter c \<noteq> NUL
      then (if pending = [] then [CHR 0x5C, escape_letter c] @ internal_text [c] s
            else pending @ [CHR 0x5C, escape_letter c] @ internal_text [] s)
      else internal_text (pending @ [c]) s)"

text \<open>No escape at the start or right behind an escape.\<close>

fun escapes_apart :: "bool \<Rightarrow> string \<Rightarrow> bool" where
  "escapes_apart ok [] = True"
| "escapes_apart ok (c # s) = (if escape_letter c \<noteq> NUL then ok \<and> escapes_apart False s else escapes_apart True s)"

lemma internal_text_ok:
  "escapes_apart (pending \<noteq> []) s \<Longrightarrow> internal_text pending s = pending @ escape_string s"
  by (induction pending s rule: internal_text.induct) (auto simp: escaped_char_def split: if_splits)

lemma or_int_nonpos: "a \<le> 0 \<Longrightarrow> b \<le> 0 \<Longrightarrow> a OR b \<le> (0 :: int)"
  by (cases "a = 0"; cases "b = 0") (auto simp: order_le_less)

context appender
begin

text \<open>\<^verbatim>\<open>wrote s rd rd'\<close>: going from \<^verbatim>\<open>rd\<close> to \<^verbatim>\<open>rd'\<close> without an error adds \<^verbatim>\<open>s\<close>.\<close>

definition wrote :: "string \<Rightarrow> int \<times> 'd \<Rightarrow> int \<times> 'd \<Rightarrow> bool" where
  "wrote s rd rd' \<longleftrightarrow> (fst rd \<in> codes \<and> valid (snd rd) \<longrightarrow> fst rd' \<in> codes \<and> valid (snd rd') \<and>
     (fst rd' = 0 \<longrightarrow> fst rd = 0 \<and> observe (snd rd') = extend (observe (snd rd)) s) \<and>
     (fst rd = 0 \<longrightarrow> (\<forall>n. enough (snd rd) (length s + n) \<longrightarrow> fst rd' = 0 \<and> enough (snd rd') n)))"

lemma wrote_refl: "wrote [] rd rd"
  by (simp add: wrote_def extend_Nil)

lemma wrote_trans: "wrote s rd rd' \<Longrightarrow> wrote s' rd' rd'' \<Longrightarrow> wrote (s @ s') rd rd''"
  unfolding wrote_def length_append add.assoc by (metis extend_append)

lemma wrote_append: "wrote s rd (append_or append_bytes s rd)"
proof (cases rd)
  case (Pair r d)
  obtain r' d' where a: "append_bytes s d = (r', d')" by (cases "append_bytes s d")
  have "r' \<in> codes" "valid d \<Longrightarrow> valid d'" "valid d \<Longrightarrow> r' = 0 \<Longrightarrow> observe d' = extend (observe d) s"
    "\<And>n. valid d \<Longrightarrow> enough d (length s + n) \<Longrightarrow> r' = 0 \<and> enough d' n"
    using append_code [of s d] append_observe [of d s] append_valid [of d s] append_enough [of d s]
    unfolding a by simp_all
  with code_or [of r r'] show ?thesis
    unfolding wrote_def append_or_def Pair fst_conv snd_conv a prod.case or_eq_0_iff by metis
qed

lemma json_escape_internal_loop_wrote:
  "unescaped \<le> cur \<Longrightarrow> cur \<le> length str \<Longrightarrow>
    wrote (internal_text (take (cur - unescaped) (drop unescaped str)) (drop cur str)) rd
      (json_escape_internal_loop append_bytes str cur unescaped rd)"
proof (induction "length str - cur" arbitrary: cur unescaped rd)
  case 0
  let ?p = "take (cur - unescaped) (drop unescaped str)"
  have "wrote [] rd rd" "wrote ?p rd (append_or append_bytes ?p rd)" by (rule wrote_refl wrote_append)+
  moreover have "drop cur str = []" "\<not> cur < length str" using 0 by simp_all
  ultimately show ?case
    by (simp add: json_escape_internal_loop.simps [of append_bytes str cur])
next
  case (Suc n)
  let ?p = "take (cur - unescaped) (drop unescaped str)" and ?c = "str ! cur"
  let ?e = "[CHR 0x5C, escape_letter ?c]"
  have cur: "cur < length str" and n: "n = length str - Suc cur" using Suc.hyps(2) by auto
  have drop: "drop cur str = ?c # drop (Suc cur) str" using cur by (rule Cons_nth_drop_Suc [symmetric])
  have more: "take (Suc cur - unescaped) (drop unescaped str) = ?p @ [?c]"
    using Suc.prems cur by (simp add: Suc_diff_le take_Suc_conv_app_nth)
  have empty: "?p = [] \<longleftrightarrow> cur - unescaped = 0" using Suc.prems cur by auto
  note unf = json_escape_internal_loop.simps [of append_bytes str cur unescaped rd]
  consider "escape_letter ?c = NUL" | "escape_letter ?c \<noteq> NUL" "cur - unescaped \<noteq> 0"
    | "escape_letter ?c \<noteq> NUL" "cur - unescaped = 0" by blast
  then show ?case
  proof cases
    case 1
    then show ?thesis
      using Suc.hyps(1) [OF n, of unescaped rd] Suc.prems cur unfolding unf more drop
      by (simp add: escape_as_eq Let_def)
  next
    case 2
    let ?rd = "append_or append_bytes ?e (append_or append_bytes ?p rd)"
    have "wrote (?p @ ?e) rd ?rd" by (intro wrote_trans [OF wrote_append wrote_append])
    moreover have "wrote (internal_text [] (drop (Suc cur) str)) ?rd
        (json_escape_internal_loop append_bytes str (Suc cur) (Suc cur) ?rd)"
      using Suc.hyps(1) [OF n, of "Suc cur" ?rd] cur by simp
    ultimately have "wrote ((?p @ ?e) @ internal_text [] (drop (Suc cur) str)) rd
        (json_escape_internal_loop append_bytes str (Suc cur) (Suc cur) ?rd)" by (rule wrote_trans)
    with 2 cur empty show ?thesis unfolding unf drop by (simp add: escape_as_eq Let_def)
  next
    case 3
    let ?rd = "append_or append_bytes ?e rd"
    have p: "?p = []" "unescaped = cur" using 3 Suc.prems(1) by simp_all
    have "wrote ?e rd ?rd" by (rule wrote_append)
    moreover have "wrote (internal_text [?c] (drop (Suc cur) str)) ?rd
        (json_escape_internal_loop append_bytes str (Suc cur) unescaped ?rd)"
      using Suc.hyps(1) [OF n, of unescaped ?rd] Suc.prems cur more p by simp
    ultimately have "wrote (?e @ internal_text [?c] (drop (Suc cur) str)) rd
        (json_escape_internal_loop append_bytes str (Suc cur) unescaped ?rd)" by (rule wrote_trans)
    with 3 cur p show ?thesis unfolding unf drop by (simp add: escape_as_eq Let_def)
  qed
qed

lemma json_escape_internal_wrote:
  "wrote (internal_text [] s) (0, d) (json_escape_internal append_bytes s d)"
  using json_escape_internal_loop_wrote [of 0 0 s "(0, d)"] by (simp add: json_escape_internal_def)

lemma wrote_start:
  assumes "wrote s (0, d) rd" "valid d"
  shows "fst rd \<in> codes" "valid (snd rd)" "fst rd = 0 \<Longrightarrow> observe (snd rd) = extend (observe d) s"
    "enough d (length s + n) \<Longrightarrow> fst rd = 0" "enough d (length s + n) \<Longrightarrow> enough (snd rd) n"
  using assms by (auto simp: wrote_def code_0)

lemmas json_escape_internal_observe = wrote_start(3) [OF json_escape_internal_wrote]

end

section \<open>Two callbacks\<close>

text \<open>
  \<^verbatim>\<open>append_bytes_to_buf\<close>: the buffer with its allocated size; \<^verbatim>\<open>overrun\<close> records
  a write behind it.
\<close>

record appender_t =
  buffer :: string
  used :: nat
  a_size :: nat
  overrun :: bool

definition memcpy_at :: "nat \<Rightarrow> string \<Rightarrow> string \<Rightarrow> string" where
  "memcpy_at pos bytes buf = take (length buf) (take pos buf @ bytes @ drop (pos + length bytes) buf)"

definition append_bytes_to_buf :: "string \<Rightarrow> appender_t \<Rightarrow> int \<times> appender_t" where
  "append_bytes_to_buf bytes a =
     (if a_size a - used a < length bytes then (- ENOMEM, a)
      else (let u = used a + length bytes
            in (0, a\<lparr>buffer := (memcpy_at (used a) bytes (buffer a))[u := NUL], used := u,
                     overrun := overrun a \<or> length (buffer a) \<le> u\<rparr>)))"

definition measure_bytes :: "string \<Rightarrow> int \<Rightarrow> int \<times> int" where
  "measure_bytes bytes n = (0, n + int (length bytes))"

definition buffer_valid :: "appender_t \<Rightarrow> bool" where
  "buffer_valid a \<longleftrightarrow> used a \<le> a_size a \<and> a_size a = length (buffer a)"

lemma append_bytes_to_buf_written:
  assumes "buffer_valid a" "fst (append_bytes_to_buf s a) = 0"
  shows "take (used (snd (append_bytes_to_buf s a))) (buffer (snd (append_bytes_to_buf s a))) = take (used a) (buffer a) @ s"
proof -
  have le: "used a + length s \<le> length (buffer a)"
    using assms by (auto simp: append_bytes_to_buf_def buffer_valid_def split: if_splits)
  then have "take (used a + length s) (memcpy_at (used a) s (buffer a)) = take (used a) (buffer a) @ s"
    by (cases s) (auto simp: memcpy_at_def min_def)
  with assms le show ?thesis by (simp add: append_bytes_to_buf_def Let_def split: if_splits)
qed

lemma append_bytes_to_buf_valid: "buffer_valid a \<Longrightarrow> buffer_valid (snd (append_bytes_to_buf s a))"
  by (auto simp: append_bytes_to_buf_def buffer_valid_def memcpy_at_def Let_def)

lemma append_bytes_to_buf_enough:
  "used a + (length s + n) \<le> a_size a \<Longrightarrow> fst (append_bytes_to_buf s a) = 0 \<and>
    used (snd (append_bytes_to_buf s a)) + n \<le> a_size (snd (append_bytes_to_buf s a))"
  by (auto simp: append_bytes_to_buf_def Let_def)

lemma append_bytes_to_buf_strict:
  "buffer_valid a \<Longrightarrow> \<not> overrun a \<Longrightarrow> used a + (length s + n) < a_size a \<Longrightarrow>
    fst (append_bytes_to_buf s a) = 0 \<and> \<not> overrun (snd (append_bytes_to_buf s a)) \<and>
    used (snd (append_bytes_to_buf s a)) + n < a_size (snd (append_bytes_to_buf s a))"
  by (auto simp: append_bytes_to_buf_def Let_def buffer_valid_def)

interpretation buf: appender append_bytes_to_buf "\<lambda>a. take (used a) (buffer a)" "(@)" buffer_valid
    "\<lambda>a n. used a + n \<le> a_size a" "{r. r \<le> 0}"
  by unfold_locales
    (simp_all add: append_bytes_to_buf_valid append_bytes_to_buf_written append_bytes_to_buf_enough or_int_nonpos,
     simp add: append_bytes_to_buf_def Let_def)

text \<open>With room for the terminating zero as well, nothing is written behind the buffer.\<close>

lemma append_bytes_to_buf_size: "a_size (snd (append_bytes_to_buf s a)) = a_size a"
  by (simp add: append_bytes_to_buf_def Let_def)

interpretation strict_buf: appender append_bytes_to_buf "\<lambda>a. take (used a) (buffer a)" "(@)"
    "\<lambda>a. buffer_valid a \<and> a_size a = size" "\<lambda>a n. \<not> overrun a \<and> used a + n < a_size a" "{r. r \<le> 0}" for size
proof unfold_locales
  fix d :: appender_t and s :: string and n :: nat
  assume "buffer_valid d \<and> a_size d = size" "\<not> overrun d \<and> used d + (length s + n) < a_size d"
  then show "fst (append_bytes_to_buf s d) = 0 \<and> \<not> overrun (snd (append_bytes_to_buf s d)) \<and>
      used (snd (append_bytes_to_buf s d)) + n < a_size (snd (append_bytes_to_buf s d))"
    using append_bytes_to_buf_strict by blast
qed (simp_all add: append_bytes_to_buf_valid append_bytes_to_buf_written append_bytes_to_buf_size
    or_int_nonpos buf.append_code [simplified])

interpretation measured: appender measure_bytes id "\<lambda>n s. n + int (length s)" "\<lambda>_. True" "\<lambda>_ _. True" "{0}"
  by unfold_locales (auto simp: measure_bytes_def)

section \<open>Properties\<close>

text \<open>The bit trick of \<^verbatim>\<open>escape_as\<close> is the escape table of JSON on all 256 characters,
  signed ones included: it answers the letter to put behind the backslash for the quote, the
  backslash, backspace, form feed, newline, carriage return and tab, and 0 for every other
  character.\<close>

theorem escape_as_is_table:
  "escape_as c =
     (if c = CHR 0x22 then CHR 0x22 else if c = CHR 0x5C then CHR 0x5C
      else if c = CHR 0x08 then CHR ''b'' else if c = CHR 0x0C then CHR ''f''
      else if c = CHR 0x0A then CHR ''n'' else if c = CHR 0x0D then CHR ''r''
      else if c = CHR 0x09 then CHR ''t'' else NUL)"
  by (simp only: escape_as_eq escape_letter_def)

text \<open>C29. \<^verbatim>\<open>json_escape\<close> in place: it answers 0 and leaves exactly the escaped string in the
  buffer, with its length and, when something was escaped, a terminating zero, or it answers
  \<^verbatim>\<open>-ENOMEM\<close> and changes nothing, exactly when the result with its zero does not fit;
  it never touches the buffer from \<^verbatim>\<open>buf_size\<close> on, and no character is overwritten
  before it is read.\<close>

theorem json_escape_correct:
  assumes "at_mem str 0 s" "length s < buf_size"
  shows "case json_escape str (length s) buf_size of (r, len, str') \<Rightarrow>
    (\<forall>i \<ge> buf_size. str' i = str i) \<and>
    (if length (escape_string s) < buf_size
     then r = 0 \<and> len = length (escape_string s) \<and> at_mem str' 0 (escape_string s) \<and>
       (len \<noteq> length s \<longrightarrow> str' len = NUL)
     else r = - ENOMEM \<and> len = length s \<and> str' = str)"
proof -
  let ?n = "length (escape_string s)" and ?str = "str(length (escape_string s) := NUL)"
  have n: "json_calc_escaped_len str (length s) = ?n" using assms(1) by (rule json_calc_escaped_len)
  have le: "length s \<le> ?n" by (rule length_escape_string)
  have plain: "?n = length s \<Longrightarrow> escape_string s = s"
  proof (induction s)
    case (Cons c s)
    then show ?case using length_escape_string [of s] by (auto simp: escaped_char_def split: if_splits)
  qed simp
  have "at_mem ?str 0 s" using assms(1) le by (auto simp: at_mem_def)
  from json_escape_loop_correct [OF this] n plain assms le show ?thesis
    by (auto simp: json_escape_def Let_def)
qed

theorem json_escape_correct_witness:
  "case json_escape (\<lambda>i. (''a'' @ [CHR 0x0A] @ ''b'') ! i) 3 8 of (r, len, str') \<Rightarrow>
    r = 0 \<and> len = 4 \<and> at_mem str' 0 (''a'' @ [CHR 0x5C] @ ''nb'') \<and> str' 4 = NUL"
proof -
  let ?s = "''a'' @ [CHR 0x0A] @ ''b''"
  have "at_mem (\<lambda>i. ?s ! i) 0 ?s" by (simp add: at_mem_def)
  from json_escape_correct [OF this, of 8] show ?thesis
    by (simp add: escaped_char_def escape_letter_def eval_nat_numeral split: prod.splits)
qed

text \<open>\<^verbatim>\<open>json_escape_internal\<close>, writing to a buffer that is large enough: when it answers
  0, it has appended exactly the escaped string, for every string in which no character
  that needs escaping stands at the start or right behind another one.\<close>

theorem json_escape_internal_correct:
  assumes "buffer_valid a" "escapes_apart False s" "json_escape_internal append_bytes_to_buf s a = (0, a')"
  shows "take (used a') (buffer a') = take (used a) (buffer a) @ escape_string s"
  using buf.json_escape_internal_observe [where s = s, OF assms(1)] internal_text_ok [of "[]" s] assms(2,3)
  by simp

definition empty_appender :: "nat \<Rightarrow> appender_t" where
  "empty_appender n = \<lparr>buffer = replicate n NUL, used = 0, a_size = n, overrun = False\<rparr>"

lemma empty_appender_valid: "buffer_valid (empty_appender n)"
  by (simp add: buffer_valid_def empty_appender_def)

definition sample_appender :: appender_t where
  "sample_appender = snd (json_escape_internal append_bytes_to_buf (''a'' @ [CHR 0x22] @ ''b'') (empty_appender 8))"

lemma sample_appender_ok:
  "json_escape_internal append_bytes_to_buf (''a'' @ [CHR 0x22] @ ''b'') (empty_appender 8) = (0, sample_appender)"
  by (simp add: sample_appender_def json_escape_internal_def json_escape_internal_loop.simps escape_as_eq
      escape_letter_def append_or_def append_bytes_to_buf_def empty_appender_def memcpy_at_def Let_def)

theorem json_escape_internal_correct_witness:
  "take (used sample_appender) (buffer sample_appender) = ''a'' @ [CHR 0x5C, CHR 0x22] @ ''b''"
  using json_escape_internal_correct [OF empty_appender_valid _ sample_appender_ok]
  by (simp add: escape_letter_def escaped_char_def empty_appender_def)

text \<open>In the other strings the code appends a character twice, once escaped and once raw:
  the string of a single quote is written as a backslash and two quotes, which ends the
  JSON string early.\<close>

theorem json_escape_internal_raw_quote:
  "\<exists>a'. json_escape_internal append_bytes_to_buf [CHR 0x22] (empty_appender 8) = (0, a') \<and>
    take (used a') (buffer a') = [CHR 0x5C, CHR 0x22, CHR 0x22] \<and>
    take (used a') (buffer a') \<noteq> escape_string [CHR 0x22]"
  by (simp add: json_escape_internal_def json_escape_internal_loop.simps escape_as_eq escaped_char_def
      escape_letter_def append_or_def append_bytes_to_buf_def empty_appender_def memcpy_at_def Let_def)

text \<open>\<^verbatim>\<open>append_bytes_to_buf\<close> refuses bytes that do not fit and otherwise appends all of
  them; it writes the terminating zero behind the buffer exactly when the bytes fill it.\<close>

theorem append_bytes_to_buf_bounds:
  assumes "buffer_valid a"
  shows "case append_bytes_to_buf s a of (r, a') \<Rightarrow>
    buffer_valid a' \<and>
    (if used a + length s \<le> a_size a
     then r = 0 \<and> take (used a') (buffer a') = take (used a) (buffer a) @ s \<and>
       (overrun a' \<longleftrightarrow> overrun a \<or> used a + length s = a_size a)
     else r = - ENOMEM \<and> a' = a)"
proof (cases "append_bytes_to_buf s a")
  case (Pair r a')
  have "fst (append_bytes_to_buf s a) = 0 \<longleftrightarrow> used a + length s \<le> a_size a"
    using assms by (auto simp: append_bytes_to_buf_def buffer_valid_def Let_def)
  note eq = this
  show ?thesis
  proof (cases "used a + length s \<le> a_size a")
    case True
    then have "\<not> a_size a - used a < length s" by simp
    then have "a' = a\<lparr>buffer := (memcpy_at (used a) s (buffer a))[used a + length s := NUL],
        used := used a + length s, overrun := overrun a \<or> length (buffer a) \<le> used a + length s\<rparr>"
      using Pair unfolding append_bytes_to_buf_def Let_def by simp
    then have "overrun a' \<longleftrightarrow> overrun a \<or> used a + length s = a_size a"
      using True assms by (auto simp: buffer_valid_def)
    with True eq append_bytes_to_buf_valid [OF assms, of s] append_bytes_to_buf_written [OF assms, of s]
    show ?thesis by (simp add: Pair)
  next
    case False
    then have "a_size a - used a < length s" using assms by (auto simp: buffer_valid_def)
    then have "(r, a') = (- ENOMEM, a)" using Pair by (simp add: append_bytes_to_buf_def)
    with False assms show ?thesis by (simp add: Pair)
  qed
qed

theorem append_bytes_to_buf_bounds_witness:
  "overrun (snd (append_bytes_to_buf ''abcd'' (empty_appender 4)))"
  using append_bytes_to_buf_bounds [OF empty_appender_valid [of 4], of "''abcd''"]
  by (simp add: empty_appender_def split: prod.splits if_splits)

end
