(* ===== verification/Json_Lexer.thy ===== *)
theory Json_Lexer
  imports Prelude
begin

text \<open>
  The JSON lexer of the lwan application (\<^verbatim>\<open>json.c\<close>).  The payload is memory
  addressed from 0; \<^verbatim>\<open>lexer->end\<close> is its length.  The lexer is the state machine
  of the code: the field \<^verbatim>\<open>lx_state\<close> names the function to call next (\<^verbatim>\<open>None\<close>
  is the null pointer at the end), and each function consumes characters and leaves a
  token.  The loops over characters end because every round moves \<^verbatim>\<open>pos\<close>.
\<close>

section \<open>Tokens\<close>

text \<open>\<^verbatim>\<open>enum json_tokens\<close>; the value of an enumerator is the code of its character.\<close>

datatype json_tokens =
    JSON_TOK_NONE | JSON_TOK_OBJECT_START | JSON_TOK_OBJECT_END | JSON_TOK_LIST_START
  | JSON_TOK_LIST_END | JSON_TOK_STRING | JSON_TOK_COLON | JSON_TOK_COMMA | JSON_TOK_NUMBER
  | JSON_TOK_TRUE | JSON_TOK_FALSE | JSON_TOK_NULL | JSON_TOK_ERROR | JSON_TOK_EOF

definition punctuation :: "char \<Rightarrow> json_tokens option" where
  "punctuation c =
     (if c = CHR ''}'' then Some JSON_TOK_OBJECT_END
      else if c = CHR ''{'' then Some JSON_TOK_OBJECT_START
      else if c = CHR ''['' then Some JSON_TOK_LIST_START
      else if c = CHR '']'' then Some JSON_TOK_LIST_END
      else if c = CHR '','' then Some JSON_TOK_COMMA
      else if c = CHR '':'' then Some JSON_TOK_COLON
      else None)"

record token =
  tok_type :: json_tokens
  tok_start :: nat
  tok_end :: nat

datatype lexer_fn = Lexer_json | Lexer_string | Lexer_null | Lexer_boolean | Lexer_number

record lexer =
  lx_state :: "lexer_fn option"
  lx_start :: nat
  lx_pos :: nat
  lx_end :: nat
  lx_token :: token

section \<open>Characters of the payload\<close>

definition next_char :: "memory \<Rightarrow> nat \<Rightarrow> nat \<Rightarrow> char \<times> nat" where
  "next_char mem e pos = (if e \<le> pos then (NUL, e + 1) else (mem pos, pos + 1))"

definition peek :: "memory \<Rightarrow> nat \<Rightarrow> nat \<Rightarrow> char \<times> nat" where
  "peek mem e pos = (case next_char mem e pos of (c, p) \<Rightarrow> (c, p - 1))"

definition emit :: "lexer \<Rightarrow> json_tokens \<Rightarrow> lexer" where
  "emit lx t = lx\<lparr>lx_token := \<lparr>tok_type = t, tok_start = lx_start lx, tok_end = lx_pos lx\<rparr>,
                 lx_start := lx_pos lx\<rparr>"

definition emit_cont :: "lexer \<Rightarrow> json_tokens \<Rightarrow> lexer" where
  "emit_cont lx t = (emit lx t)\<lparr>lx_state := Some Lexer_json\<rparr>"

definition emit_end :: "lexer \<Rightarrow> json_tokens \<Rightarrow> lexer" where
  "emit_end lx t = (emit lx t)\<lparr>lx_state := None\<rparr>"

lemma next_char_cases:
  "next_char mem e pos = (c, p) \<Longrightarrow> c \<noteq> NUL \<Longrightarrow> pos < e \<and> c = mem pos \<and> p = Suc pos"
  by (auto simp: next_char_def split: if_splits)

section \<open>The state functions\<close>

text \<open>Four hexadecimal digits after \<^verbatim>\<open>\\u\<close>: whether they are there, and the position.\<close>

fun hex_digits :: "nat \<Rightarrow> memory \<Rightarrow> nat \<Rightarrow> nat \<Rightarrow> bool \<times> nat" where
  "hex_digits 0 mem e pos = (True, pos)"
| "hex_digits (Suc n) mem e pos =
     (case next_char mem e pos of (c, p) \<Rightarrow> if isxdigit c then hex_digits n mem e p else (False, p))"

lemma hex_digits_mono: "hex_digits n mem e pos = (True, p) \<Longrightarrow> pos \<le> p"
  by (induction n arbitrary: pos) (fastforce simp: next_char_def split: if_splits prod.splits)+

lemma hex_digits_le: "pos \<le> e + 1 \<Longrightarrow> hex_digits n mem e pos = (b, p) \<Longrightarrow> p \<le> e + 1"
proof (induction n arbitrary: pos)
  case 0
  then show ?case by simp
next
  case (Suc n)
  then show ?case using Suc.IH [of "Suc pos"] by (auto simp: next_char_def split: if_splits)
qed

definition simple_escape :: "char \<Rightarrow> bool" where
  "simple_escape c \<longleftrightarrow> c \<in> set [CHR 0x22, CHR 0x5C, CHR ''/'', CHR ''b'', CHR ''f'', CHR ''n'', CHR ''r'', CHR ''t'']"

text \<open>The loop of \<^verbatim>\<open>lexer_string\<close>: whether the closing quote was read, and the position.\<close>

function string_loop :: "memory \<Rightarrow> nat \<Rightarrow> nat \<Rightarrow> bool \<times> nat" where
  "string_loop mem e pos =
     (case next_char mem e pos of (chr, p) \<Rightarrow>
        if chr = NUL then (False, p)
        else if chr = CHR 0x5C
        then (case next_char mem e p of (esc, p1) \<Rightarrow>
                if simple_escape esc then string_loop mem e p1
                else if esc = CHR ''u''
                then (case hex_digits 4 mem e p1 of
                        (True, p2) \<Rightarrow> string_loop mem e p2
                      | (False, p2) \<Rightarrow> (False, p2))
                else (False, p1))
        else if chr = CHR 0x22 then (True, p)
        else string_loop mem e p)"
  by pat_completeness auto
termination
  by (relation "measure (\<lambda>(mem, e, pos). e + 1 - pos)")
    (auto simp: next_char_def split: if_splits dest!: hex_digits_mono [OF sym])

declare string_loop.simps [simp del]

definition lexer_string :: "memory \<Rightarrow> lexer \<Rightarrow> lexer" where
  "lexer_string mem lx0 =
     (let lx = lx0\<lparr>lx_start := lx_pos lx0\<rparr>
      in case string_loop mem (lx_end lx) (lx_pos lx) of
           (False, p) \<Rightarrow> emit_end (lx\<lparr>lx_pos := p\<rparr>) JSON_TOK_ERROR
         | (True, p) \<Rightarrow>
             (let lx1 = emit (lx\<lparr>lx_pos := p - 1\<rparr>) JSON_TOK_STRING;
                  p1 = snd (next_char mem (lx_end lx) (lx_pos lx1))
              in lx1\<lparr>lx_pos := p1, lx_start := p1, lx_state := Some Lexer_json\<rparr>))"

fun accept_run :: "memory \<Rightarrow> nat \<Rightarrow> string \<Rightarrow> nat \<Rightarrow> bool \<times> nat" where
  "accept_run mem e [] pos = (True, pos)"
| "accept_run mem e (r # run) pos =
     (case next_char mem e pos of (c, p) \<Rightarrow> if c \<noteq> r then (False, p) else accept_run mem e run p)"

definition lexer_boolean :: "memory \<Rightarrow> lexer \<Rightarrow> lexer" where
  "lexer_boolean mem lx =
     (case next_char mem (lx_end lx) (lx_pos lx) of (c, p) \<Rightarrow>
        if c = CHR ''r''
        then (case accept_run mem (lx_end lx) ''ue'' p of
                (True, p1) \<Rightarrow> emit_cont (lx\<lparr>lx_pos := p1\<rparr>) JSON_TOK_TRUE
              | (False, p1) \<Rightarrow> emit_end (lx\<lparr>lx_pos := p1\<rparr>) JSON_TOK_ERROR)
        else if c = CHR ''a''
        then (case accept_run mem (lx_end lx) ''lse'' p of
                (True, p1) \<Rightarrow> emit_cont (lx\<lparr>lx_pos := p1\<rparr>) JSON_TOK_FALSE
              | (False, p1) \<Rightarrow> emit_end (lx\<lparr>lx_pos := p1\<rparr>) JSON_TOK_ERROR)
        else emit_end (lx\<lparr>lx_pos := p\<rparr>) JSON_TOK_ERROR)"

definition lexer_null :: "memory \<Rightarrow> lexer \<Rightarrow> lexer" where
  "lexer_null mem lx =
     (case accept_run mem (lx_end lx) ''ull'' (lx_pos lx) of
        (True, p) \<Rightarrow> emit_cont (lx\<lparr>lx_pos := p\<rparr>) JSON_TOK_NULL
      | (False, p) \<Rightarrow> emit_end (lx\<lparr>lx_pos := p\<rparr>) JSON_TOK_ERROR)"

text \<open>The loop of \<^verbatim>\<open>lexer_number\<close>; the position after \<^verbatim>\<open>backup\<close>.\<close>

function number_loop :: "memory \<Rightarrow> nat \<Rightarrow> nat \<Rightarrow> nat" where
  "number_loop mem e pos =
     (case next_char mem e pos of (c, p) \<Rightarrow>
        if isdigit c \<or> c = CHR ''.'' then number_loop mem e p else p - 1)"
  by pat_completeness auto
termination
  by (relation "measure (\<lambda>(mem, e, pos). e + 1 - pos)") (auto simp: next_char_def split: if_splits)

declare number_loop.simps [simp del]

definition lexer_number :: "memory \<Rightarrow> lexer \<Rightarrow> lexer" where
  "lexer_number mem lx = emit_cont (lx\<lparr>lx_pos := number_loop mem (lx_end lx) (lx_pos lx)\<rparr>) JSON_TOK_NUMBER"

text \<open>The loop of \<^verbatim>\<open>lexer_json\<close>: white space is skipped, moving \<^verbatim>\<open>start\<close> along.\<close>

function json_loop :: "memory \<Rightarrow> lexer \<Rightarrow> lexer" where
  "json_loop mem lx =
     (case next_char mem (lx_end lx) (lx_pos lx) of (chr, p) \<Rightarrow>
        (let lx1 = lx\<lparr>lx_pos := p\<rparr>
         in if chr = NUL then emit_end lx1 JSON_TOK_EOF
            else case punctuation chr of
              Some t \<Rightarrow> emit_cont lx1 t
            | None \<Rightarrow>
                if chr = CHR 0x22 then lx1\<lparr>lx_state := Some Lexer_string\<rparr>
                else if chr = CHR ''n'' then lx1\<lparr>lx_state := Some Lexer_null\<rparr>
                else if chr = CHR ''t'' \<or> chr = CHR ''f'' then lx1\<lparr>lx_state := Some Lexer_boolean\<rparr>
                else (case (if chr = CHR ''-'' then peek mem (lx_end lx) p else (NUL, p)) of (ahead, p1) \<Rightarrow>
                  (let lx2 = lx1\<lparr>lx_pos := p1\<rparr>
                   in if isdigit ahead then lx2\<lparr>lx_state := Some Lexer_number\<rparr>
                      else if isspace chr then json_loop mem (lx2\<lparr>lx_start := p1\<rparr>)
                      else if isdigit chr then lx2\<lparr>lx_state := Some Lexer_number\<rparr>
                      else emit_end lx2 JSON_TOK_ERROR))))"
  by pat_completeness auto
termination
  by (relation "measure (\<lambda>(mem, lx). lx_end lx + 1 - lx_pos lx)")
    (auto simp: next_char_def isspace_def split: if_splits)

declare json_loop.simps [simp del]

text \<open>\<^verbatim>\<open>lexer->state(lexer)\<close>\<close>

fun run_state :: "memory \<Rightarrow> lexer_fn \<Rightarrow> lexer \<Rightarrow> lexer" where
  "run_state mem Lexer_json lx = json_loop mem lx"
| "run_state mem Lexer_string lx = lexer_string mem lx"
| "run_state mem Lexer_null lx = lexer_null mem lx"
| "run_state mem Lexer_boolean lx = lexer_boolean mem lx"
| "run_state mem Lexer_number lx = lexer_number mem lx"

section \<open>Getting a token\<close>

definition lexer_consume :: "json_tokens \<Rightarrow> lexer \<Rightarrow> token option \<times> lexer" where
  "lexer_consume empty_token lx =
     (if tok_type (lx_token lx) = empty_token then (None, lx)
      else (Some (lx_token lx), lx\<lparr>lx_token := (lx_token lx)\<lparr>tok_type := empty_token\<rparr>\<rparr>))"

text \<open>
  The loop of \<^verbatim>\<open>lexer_next\<close>.  Two rounds are enough to get a token
  (\<^verbatim>\<open>lexer_next_total\<close>); \<^verbatim>\<open>None\<close> would be a loop that goes on.
\<close>

fun lexer_next_loop :: "nat \<Rightarrow> memory \<Rightarrow> lexer \<Rightarrow> (token option \<times> lexer) option" where
  "lexer_next_loop fuel mem lx =
     (case lx_state lx of
        None \<Rightarrow> Some (lexer_consume JSON_TOK_EOF lx)
      | Some fn \<Rightarrow>
          (case lexer_consume JSON_TOK_NONE lx of
             (Some t, lx') \<Rightarrow> Some (Some t, lx')
           | (None, lx') \<Rightarrow>
               (case fuel of
                  0 \<Rightarrow> None
                | Suc fuel' \<Rightarrow> lexer_next_loop fuel' mem (run_state mem fn lx'))))"

declare lexer_next_loop.simps [simp del]

definition lexer_next :: "memory \<Rightarrow> lexer \<Rightarrow> (token option \<times> lexer) option" where
  "lexer_next mem lx = lexer_next_loop 2 mem lx"

definition lexer_init :: "nat \<Rightarrow> lexer" where
  "lexer_init len =
     \<lparr>lx_state = Some Lexer_json, lx_start = 0, lx_pos = 0, lx_end = len,
      lx_token = \<lparr>tok_type = JSON_TOK_NONE, tok_start = 0, tok_end = 0\<rparr>\<rparr>"

section \<open>What the lexer reads\<close>

text \<open>
  Every function of the lexer reads the payload through \<^verbatim>\<open>next\<close> alone, so two memories
  that agree on the payload give the same tokens.
\<close>

definition agree :: "nat \<Rightarrow> memory \<Rightarrow> memory \<Rightarrow> bool" where
  "agree e m1 m2 \<longleftrightarrow> (\<forall>i < e. m1 i = m2 i)"

lemma agree_refl [simp]: "agree e m m"
  by (simp add: agree_def)

lemma agree_upd: "agree e m1 m2 \<Longrightarrow> agree e (m1(i := c)) (m2(i := c))"
  by (simp add: agree_def)

lemma agree_next: "agree e m1 m2 \<Longrightarrow> next_char m1 e = next_char m2 e"
  by (auto simp: agree_def next_char_def)

lemma hex_digits_reads: "next_char m1 e = next_char m2 e \<Longrightarrow> hex_digits n m1 e pos = hex_digits n m2 e pos"
  by (induction n arbitrary: pos) (simp_all split: prod.splits)

lemma accept_run_reads: "next_char m1 e = next_char m2 e \<Longrightarrow> accept_run m1 e run pos = accept_run m2 e run pos"
  by (induction run arbitrary: pos) (simp_all split: prod.splits)

lemma string_loop_reads: "next_char m1 e = next_char m2 e \<Longrightarrow> string_loop m1 e pos = string_loop m2 e pos"
proof (induction m1 e pos rule: string_loop.induct)
  case (1 mem e pos)
  show ?case
    using 1 hex_digits_reads [OF "1.prems"]
    by (simp add: string_loop.simps [of mem e pos] string_loop.simps [of m2 e pos] split: prod.splits bool.splits)
qed

lemma number_loop_reads: "next_char m1 e = next_char m2 e \<Longrightarrow> number_loop m1 e pos = number_loop m2 e pos"
proof (induction m1 e pos rule: number_loop.induct)
  case (1 mem e pos)
  then show ?case
    by (simp add: number_loop.simps [of mem e pos] number_loop.simps [of m2 e pos] split: prod.splits)
qed

lemma emit_end_of [simp]:
  "lx_end (emit lx t) = lx_end lx" "lx_end (emit_cont lx t) = lx_end lx" "lx_end (emit_end lx t) = lx_end lx"
  by (simp_all add: emit_def emit_cont_def emit_end_def)

lemma json_loop_end: "lx_end (json_loop mem lx) = lx_end lx"
proof (induction mem lx rule: json_loop.induct)
  case (1 mem lx)
  then show ?case by (subst json_loop.simps) (simp add: Let_def split: prod.splits option.splits)
qed

lemma json_loop_reads: "next_char m1 (lx_end lx) = next_char m2 (lx_end lx) \<Longrightarrow> json_loop m1 lx = json_loop m2 lx"
proof (induction m1 lx rule: json_loop.induct)
  case (1 mem lx)
  then show ?case
    by (simp add: json_loop.simps [of mem lx] json_loop.simps [of m2 lx] peek_def Let_def split: prod.splits option.splits)
qed

lemma run_state_end: "lx_end (run_state mem fn lx) = lx_end lx"
  by (cases fn) (auto simp: json_loop_end lexer_string_def lexer_null_def lexer_boolean_def lexer_number_def Let_def
      split: prod.splits bool.splits)

lemma run_state_reads:
  assumes "agree (lx_end lx) m1 m2"
  shows "run_state m1 fn lx = run_state m2 fn lx"
proof -
  have n: "next_char m1 (lx_end lx) = next_char m2 (lx_end lx)" by (rule agree_next [OF assms])
  have r: "accept_run m1 (lx_end lx) = accept_run m2 (lx_end lx)" "string_loop m1 (lx_end lx) = string_loop m2 (lx_end lx)"
    "number_loop m1 (lx_end lx) = number_loop m2 (lx_end lx)"
    by (intro ext accept_run_reads string_loop_reads number_loop_reads n)+
  show ?thesis
    by (cases fn) (simp_all add: json_loop_reads [OF n] lexer_string_def lexer_null_def lexer_boolean_def lexer_number_def Let_def
        n r del: accept_run.simps split: prod.splits bool.splits)
qed

lemma lexer_next_reads:
  assumes "agree (lx_end lx) m1 m2"
  shows "lexer_next m1 lx = lexer_next m2 lx"
proof -
  have "lexer_next_loop n m1 lx = lexer_next_loop n m2 lx" for n
    using assms
  proof (induction n arbitrary: lx)
    case 0
    then show ?case
      by (simp add: lexer_next_loop.simps [of 0] split: option.splits prod.splits)
  next
    case (Suc n)
    have "lexer_next_loop n m1 (run_state m1 fn lx') = lexer_next_loop n m2 (run_state m2 fn lx')"
      if "lexer_consume JSON_TOK_NONE lx = (None, lx')" for fn lx'
    proof -
      have "lx_end lx' = lx_end lx" using that by (auto simp: lexer_consume_def split: if_splits)
      with Suc.prems have a: "agree (lx_end lx') m1 m2" by simp
      from Suc.IH [of "run_state m1 fn lx'"] a show ?thesis
        by (simp add: run_state_end run_state_reads [OF a, symmetric])
    qed
    then show ?case
      by (simp add: lexer_next_loop.simps [of "Suc n"] split: option.splits prod.splits)
  qed
  then show ?thesis by (simp add: lexer_next_def)
qed

section \<open>Progress and bounds\<close>

lemma string_loop_bounds:
  "string_loop mem e pos = (b, p) \<Longrightarrow> pos \<le> e + 1 \<Longrightarrow> p \<le> e + 1 \<and> (b \<longrightarrow> pos < p \<and> p \<le> e)"
proof (induction mem e pos rule: string_loop.induct)
  case (1 mem e pos)
  obtain c p0 where n: "next_char mem e pos = (c, p0)" by (cases "next_char mem e pos")
  show ?case
  proof (cases "c = NUL")
    case True
    with 1 n show ?thesis by (auto simp: string_loop.simps [of mem e pos] next_char_def split: if_splits)
  next
    case False
    then have p0: "p0 = Suc pos" "pos < e" using n next_char_cases by blast+
    obtain d p1 where n1: "next_char mem e p0 = (d, p1)" by (cases "next_char mem e p0")
    obtain h p2 where h: "hex_digits 4 mem e p1 = (h, p2)" by (cases "hex_digits 4 mem e p1")
    have p1: "p1 \<le> e + 1" "p0 \<le> p1" using n1 p0 by (auto simp: next_char_def split: if_splits)
    have p2: "p2 \<le> e + 1" using hex_digits_le [OF p1(1) h] .
    have p2': "h \<Longrightarrow> p1 \<le> p2" using h hex_digits_mono by (cases h) auto
    note eq = "1.prems"(1) [unfolded string_loop.simps [of mem e pos] n prod.case]
    consider "c = CHR 0x5C" "simple_escape d" | "c = CHR 0x5C" "\<not> simple_escape d" "d = CHR ''u''" h
      | "c = CHR 0x5C" "\<not> simple_escape d" "d = CHR ''u''" "\<not> h"
      | "c = CHR 0x5C" "\<not> simple_escape d" "d \<noteq> CHR ''u''"
      | "c \<noteq> CHR 0x5C" "c = CHR 0x22" | "c \<noteq> CHR 0x5C" "c \<noteq> CHR 0x22" by blast
    then show ?thesis
    proof cases
      case 1
      then have "string_loop mem e p1 = (b, p)" using eq n1 False by simp
      from "1.IH"(1) [OF n [symmetric] False 1(1) n1 [symmetric] 1(2) this p1(1)] p1 p0 show ?thesis by auto
    next
      case 2
      then have "string_loop mem e p2 = (b, p)" using eq n1 h False by simp
      from "1.IH"(2) [OF n [symmetric] False 2(1) n1 [symmetric] 2(2,3) h [symmetric] _ this p2] 2(4) p1 p0 p2'
      show ?thesis by auto
    next
      case 3
      with eq n1 h False p2 show ?thesis by auto
    next
      case 4
      with eq n1 False p1 show ?thesis by auto
    next
      case 5
      with eq False p0 show ?thesis by auto
    next
      case 6
      then have "string_loop mem e p0 = (b, p)" using eq False by simp
      moreover have "p0 \<le> e + 1" using p0 by simp
      ultimately show ?thesis using "1.IH"(3) [OF n [symmetric] False 6] p0 by auto
    qed
  qed
qed

lemma accept_run_bounds: "accept_run mem e run pos = (b, p) \<Longrightarrow> pos \<le> e + 1 \<Longrightarrow> \<forall>r \<in> set run. r \<noteq> NUL \<Longrightarrow>
    p \<le> e + 1 \<and> (b \<longrightarrow> p = pos + length run \<and> (run = [] \<or> p \<le> e))"
proof (induction run arbitrary: pos)
  case Nil
  then show ?case by simp
next
  case (Cons r run)
  then show ?case using Cons.IH [of "Suc pos"] by (cases run) (auto simp: next_char_def split: if_splits)
qed

lemma number_loop_bounds: "pos \<le> e \<Longrightarrow> pos \<le> number_loop mem e pos \<and> number_loop mem e pos \<le> e"
proof (induction mem e pos rule: number_loop.induct)
  case (1 mem e pos)
  obtain c p where n: "next_char mem e pos = (c, p)" by (cases "next_char mem e pos")
  show ?case
  proof (cases "isdigit c \<or> c = CHR ''.''")
    case True
    then have "c \<noteq> NUL" by auto
    then have p: "p = Suc pos" "pos < e" using n next_char_cases by blast+
    with 1(1) [OF n [symmetric] True] True n show ?thesis
      by (simp add: number_loop.simps [of mem e pos])
  next
    case False
    with n 1(2) show ?thesis by (auto simp: number_loop.simps [of mem e pos] next_char_def split: if_splits)
  qed
qed

text \<open>
  The lexer between two calls: ready to read on, or finished.  \<^verbatim>\<open>after_loop\<close> is what
  \<^verbatim>\<open>lexer_json\<close> leaves behind.
\<close>

definition lx_ready :: "lexer \<Rightarrow> bool" where
  "lx_ready lx \<longleftrightarrow> lx_state lx = Some Lexer_json \<and> tok_type (lx_token lx) = JSON_TOK_NONE \<and>
     lx_start lx \<le> lx_pos lx \<and> lx_pos lx \<le> lx_end lx"

definition lx_finished :: "lexer \<Rightarrow> bool" where
  "lx_finished lx \<longleftrightarrow> lx_state lx = None \<and> tok_type (lx_token lx) = JSON_TOK_EOF"

definition good_token :: "lexer \<Rightarrow> lexer \<Rightarrow> bool" where
  "good_token lx lx' \<longleftrightarrow> lx_state lx' = Some Lexer_json \<and> lx_end lx' = lx_end lx \<and>
     lx_start lx' \<le> lx_pos lx' \<and> lx_pos lx' \<le> lx_end lx \<and> lx_pos lx < lx_pos lx' \<and>
     tok_type (lx_token lx') \<notin> {JSON_TOK_NONE, JSON_TOK_ERROR, JSON_TOK_EOF} \<and>
     lx_start lx \<le> tok_start (lx_token lx') \<and> tok_start (lx_token lx') \<le> tok_end (lx_token lx') \<and>
     tok_end (lx_token lx') \<le> lx_pos lx' \<and>
     (tok_type (lx_token lx') = JSON_TOK_STRING \<longrightarrow> tok_end (lx_token lx') < lx_pos lx')"

definition end_token :: "lexer \<Rightarrow> lexer \<Rightarrow> bool" where
  "end_token lx lx' \<longleftrightarrow> lx_state lx' = None \<and> lx_end lx' = lx_end lx \<and>
     tok_type (lx_token lx') \<in> {JSON_TOK_ERROR, JSON_TOK_EOF}"

lemma punctuation_good: "punctuation c = Some t \<Longrightarrow>
    t \<notin> {JSON_TOK_NONE, JSON_TOK_ERROR, JSON_TOK_EOF, JSON_TOK_STRING}"
  by (auto simp: punctuation_def split: if_splits)

definition loop_result :: "lexer \<Rightarrow> lexer \<Rightarrow> bool" where
  "loop_result lx lx' \<longleftrightarrow> good_token lx lx' \<or> end_token lx lx' \<or>
     (\<exists>fn st p. fn \<noteq> Lexer_json \<and> lx_start lx \<le> st \<and> st < p \<and> lx_pos lx < p \<and> p \<le> lx_end lx \<and>
       lx' = lx\<lparr>lx_start := st, lx_pos := p, lx_state := Some fn\<rparr>)"

lemma loop_result_state:
  "fn \<noteq> Lexer_json \<Longrightarrow> lx_start lx \<le> lx_pos lx \<Longrightarrow> lx_pos lx < p \<Longrightarrow> p \<le> lx_end lx \<Longrightarrow>
    loop_result lx (lx\<lparr>lx_pos := p, lx_state := Some fn\<rparr>)"
  unfolding loop_result_def
  by (intro disjI2 exI [of _ fn] exI [of _ "lx_start lx"] exI [of _ p]) simp

lemma loop_result_skip:
  assumes "loop_result (lx\<lparr>lx_pos := q, lx_start := q\<rparr>) lx'" "lx_start lx \<le> lx_pos lx" "lx_pos lx < q"
  shows "loop_result lx lx'"
proof -
  let ?lx = "lx\<lparr>lx_pos := q, lx_start := q\<rparr>"
  from assms(1) consider "good_token ?lx lx'" | "end_token ?lx lx'"
    | fn st p where "fn \<noteq> Lexer_json" "q \<le> st" "st < p" "q < p" "p \<le> lx_end lx"
      "lx' = ?lx\<lparr>lx_start := st, lx_pos := p, lx_state := Some fn\<rparr>"
    by (auto simp: loop_result_def)
  then show ?thesis
  proof cases
    case 1
    then have "good_token lx lx'" using assms(2,3) by (simp add: good_token_def)
    then show ?thesis by (simp add: loop_result_def)
  next
    case 2
    then have "end_token lx lx'" by (simp add: end_token_def)
    then show ?thesis by (simp add: loop_result_def)
  next
    case 3
    then show ?thesis
      using assms(2,3) unfolding loop_result_def
      by (intro disjI2 exI [of _ fn] exI [of _ st] exI [of _ p]) simp
  qed
qed

lemma json_loop_result:
  "lx_start lx \<le> lx_pos lx \<Longrightarrow> lx_pos lx \<le> lx_end lx \<Longrightarrow> loop_result lx (json_loop mem lx)"
proof (induction mem lx rule: json_loop.induct)
  case (1 mem lx)
  obtain c p where n: "next_char mem (lx_end lx) (lx_pos lx) = (c, p)"
    by (cases "next_char mem (lx_end lx) (lx_pos lx)")
  note unf = json_loop.simps [of mem lx] n
  show ?case
  proof (cases "c = NUL")
    case True
    then show ?thesis by (simp add: unf loop_result_def end_token_def emit_end_def emit_def)
  next
    case False
    then have p: "p = Suc (lx_pos lx)" "lx_pos lx < lx_end lx" using n next_char_cases by blast+
    obtain a p1 where a: "(if c = CHR ''-'' then peek mem (lx_end lx) p else (NUL, p)) = (a, p1)"
      by (cases "if c = CHR ''-'' then peek mem (lx_end lx) p else (NUL, p)")
    have p1: "p1 = p" using a p by (auto simp: peek_def next_char_def split: if_splits)
    have st: "fn \<noteq> Lexer_json \<Longrightarrow> loop_result lx (lx\<lparr>lx_pos := p, lx_state := Some fn\<rparr>)" for fn
      using p "1.prems" by (intro loop_result_state) simp_all
    show ?thesis
    proof (cases "punctuation c")
      case (Some t)
      with punctuation_good [OF Some] False p "1.prems" show ?thesis
        by (simp add: unf loop_result_def good_token_def emit_cont_def emit_def)
    next
      case None
      show ?thesis
      proof (cases "c = CHR 0x22 \<or> c = CHR ''n'' \<or> c = CHR ''t'' \<or> c = CHR ''f'' \<or> isdigit a \<or>
          (\<not> isspace c \<and> isdigit c)")
        case True
        with False None a p1 st show ?thesis by (auto simp: unf Let_def dest: isdigit_not_space)
      next
        case other: False
        show ?thesis
        proof (cases "isspace c")
          case True
          let ?lx = "lx\<lparr>lx_pos := p, lx_start := p\<rparr>"
          have eq: "json_loop mem lx = json_loop mem ?lx" using other True False None a p1 by (simp add: unf)
          have "loop_result ?lx (json_loop mem ?lx)"
            using "1.IH" [OF n [symmetric] refl False None _ _ _ a [symmetric] refl] other True p p1 by simp
          from loop_result_skip [OF this] show ?thesis unfolding eq using p "1.prems" by simp
        next
          case nospace: False
          with other False None a show ?thesis
            by (simp add: unf loop_result_def end_token_def emit_end_def emit_def)
        qed
      qed
    qed
  qed
qed

lemma run_state_result:
  assumes "fn \<noteq> Lexer_json" "lx_start lx \<le> st" "st < p" "lx_pos lx < p" "p \<le> lx_end lx"
  defines "lx1 \<equiv> lx\<lparr>lx_start := st, lx_pos := p, lx_state := Some fn\<rparr>"
  shows "good_token lx (run_state mem fn lx1) \<or> end_token lx (run_state mem fn lx1)"
proof (cases fn)
  case Lexer_json
  with assms(1) show ?thesis by simp
next
  case Lexer_string
  obtain b p1 where s: "string_loop mem (lx_end lx) p = (b, p1)" by (cases "string_loop mem (lx_end lx) p")
  have bd: "p1 \<le> lx_end lx + 1" "b \<Longrightarrow> p < p1 \<and> p1 \<le> lx_end lx"
    using string_loop_bounds [OF s] assms(5) by auto
  show ?thesis
  proof (cases b)
    case True
    then show ?thesis
      using Lexer_string s bd(2) assms(2-5)
      by (auto simp: lx1_def lexer_string_def emit_def Let_def next_char_def good_token_def)
  next
    case False
    then show ?thesis using Lexer_string s
      by (simp add: lx1_def lexer_string_def emit_def emit_end_def Let_def end_token_def)
  qed
next
  case Lexer_null
  obtain b p1 where s: "accept_run mem (lx_end lx) ''ull'' p = (b, p1)"
    by (cases "accept_run mem (lx_end lx) ''ull'' p")
  show ?thesis
    using accept_run_bounds [OF s] Lexer_null s assms(2-5)
    by (cases b) (auto simp: lx1_def lexer_null_def emit_def emit_cont_def emit_end_def good_token_def end_token_def
        simp del: accept_run.simps)
next
  case Lexer_boolean
  obtain c p1 where c: "next_char mem (lx_end lx) p = (c, p1)" by (cases "next_char mem (lx_end lx) p")
  have p1: "p < p1" "p1 \<le> lx_end lx + 1" using c assms(5) by (auto simp: next_char_def split: if_splits)
  obtain b2 p2 where s2: "accept_run mem (lx_end lx) ''ue'' p1 = (b2, p2)"
    by (cases "accept_run mem (lx_end lx) ''ue'' p1")
  obtain b3 p3 where s3: "accept_run mem (lx_end lx) ''lse'' p1 = (b3, p3)"
    by (cases "accept_run mem (lx_end lx) ''lse'' p1")
  show ?thesis
    using accept_run_bounds [OF s2] accept_run_bounds [OF s3] Lexer_boolean c s2 s3 p1 assms(2-5)
    by (cases b2; cases b3)
      (auto simp: lx1_def lexer_boolean_def emit_def emit_cont_def emit_end_def good_token_def end_token_def
        simp del: accept_run.simps)
next
  case Lexer_number
  have "p \<le> number_loop mem (lx_end lx) p \<and> number_loop mem (lx_end lx) p \<le> lx_end lx"
    using assms(5) by (rule number_loop_bounds)
  then show ?thesis
    using Lexer_number assms(2-5)
    by (auto simp: lx1_def lexer_number_def emit_def emit_cont_def good_token_def)
qed

lemma lexer_next_loop_done:
  "good_token lx lx' \<Longrightarrow> lexer_next_loop fuel mem lx' =
    Some (Some (lx_token lx'), lx'\<lparr>lx_token := (lx_token lx')\<lparr>tok_type := JSON_TOK_NONE\<rparr>\<rparr>)"
  by (subst lexer_next_loop.simps) (auto simp: good_token_def lexer_consume_def)

lemma lexer_next_loop_end:
  "end_token lx lx' \<Longrightarrow> lexer_next_loop fuel mem lx' = Some (lexer_consume JSON_TOK_EOF lx')"
  by (subst lexer_next_loop.simps) (simp add: end_token_def)

lemma lexer_next_cases:
  assumes "lx_ready lx"
  obtains (token) lx' where "good_token lx lx'" "lexer_next mem lx =
      Some (Some (lx_token lx'), lx'\<lparr>lx_token := (lx_token lx')\<lparr>tok_type := JSON_TOK_NONE\<rparr>\<rparr>)"
    | (stop) lx' where "end_token lx lx'" "lexer_next mem lx = Some (lexer_consume JSON_TOK_EOF lx')"
proof -
  let ?r = "json_loop mem lx"
  have none: "lexer_consume JSON_TOK_NONE lx = (None, lx)" and st: "lx_state lx = Some Lexer_json"
    using assms by (simp_all add: lexer_consume_def lx_ready_def)
  have first: "lexer_next mem lx = lexer_next_loop 1 mem ?r"
    unfolding lexer_next_def by (subst lexer_next_loop.simps) (simp add: none st numeral_2_eq_2)
  have "loop_result lx ?r" using assms by (intro json_loop_result) (simp_all add: lx_ready_def)
  then consider "good_token lx ?r" | "end_token lx ?r"
    | fn st p where "fn \<noteq> Lexer_json" "lx_start lx \<le> st" "st < p" "lx_pos lx < p" "p \<le> lx_end lx"
      "?r = lx\<lparr>lx_start := st, lx_pos := p, lx_state := Some fn\<rparr>"
    by (auto simp: loop_result_def)
  then show thesis
  proof cases
    case 1
    then show thesis using token [OF 1] first lexer_next_loop_done by simp
  next
    case 2
    then show thesis using stop [OF 2] first lexer_next_loop_end by simp
  next
    case 3
    have "lexer_consume JSON_TOK_NONE ?r = (None, ?r)" using none 3(6) by (simp add: lexer_consume_def split: if_splits)
    then have second: "lexer_next mem lx = lexer_next_loop 0 mem (run_state mem fn ?r)"
      unfolding first by (subst lexer_next_loop.simps) (simp add: 3(6))
    from run_state_result [OF 3(1-5), of mem, folded 3(6)] show thesis
      using token stop second lexer_next_loop_done lexer_next_loop_end by metis
  qed
qed

lemma good_token_ready:
  "good_token lx lx' \<Longrightarrow> lx_ready (lx'\<lparr>lx_token := (lx_token lx')\<lparr>tok_type := JSON_TOK_NONE\<rparr>\<rparr>)"
  by (simp add: good_token_def lx_ready_def)

lemma lexer_next_finished: "lx_finished lx \<Longrightarrow> lexer_next mem lx = Some (None, lx)"
  unfolding lexer_next_def by (subst lexer_next_loop.simps) (simp add: lx_finished_def lexer_consume_def)

lemma lx_ready_init: "lx_ready (lexer_init len)"
  by (simp add: lx_ready_def lexer_init_def)

section \<open>Lexemes\<close>

text \<open>What the tokens look like in the payload.\<close>

text \<open>The body of a string: escapes are a backslash and a letter, or \<^verbatim>\<open>u\<close> and four digits.\<close>

fun string_body :: "string \<Rightarrow> bool" where
  "string_body [] = True"
| "string_body (c # s) =
     (if c = CHR 0x5C
      then (case s of
              [] \<Rightarrow> False
            | e # s1 \<Rightarrow>
                if simple_escape e then string_body s1
                else e = CHR ''u'' \<and>
                  (case s1 of
                     h1 # h2 # h3 # h4 # s2 \<Rightarrow>
                       isxdigit h1 \<and> isxdigit h2 \<and> isxdigit h3 \<and> isxdigit h4 \<and> string_body s2
                   | _ \<Rightarrow> False))
      else c \<noteq> NUL \<and> c \<noteq> CHR 0x22 \<and> string_body s)"

definition number_char :: "char \<Rightarrow> bool" where
  "number_char c \<longleftrightarrow> isdigit c \<or> c = CHR ''.''"

fun number_text :: "string \<Rightarrow> bool" where
  "number_text (c # s) \<longleftrightarrow> list_all number_char s \<and>
     (isdigit c \<or> (c = CHR ''-'' \<and> s \<noteq> [] \<and> isdigit (hd s)))"
| "number_text [] \<longleftrightarrow> False"

datatype lexeme = LPunct char | LString string | LNumber string | LTrue | LFalse | LNull

fun lexeme_ok :: "lexeme \<Rightarrow> bool" where
  "lexeme_ok (LPunct c) \<longleftrightarrow> punctuation c \<noteq> None"
| "lexeme_ok (LString s) \<longleftrightarrow> string_body s"
| "lexeme_ok (LNumber s) \<longleftrightarrow> number_text s"
| "lexeme_ok _ \<longleftrightarrow> True"

fun lexeme_text :: "lexeme \<Rightarrow> string" where
  "lexeme_text (LPunct c) = [c]"
| "lexeme_text (LString s) = CHR 0x22 # s @ [CHR 0x22]"
| "lexeme_text (LNumber s) = s"
| "lexeme_text LTrue = ''true''"
| "lexeme_text LFalse = ''false''"
| "lexeme_text LNull = ''null''"

text \<open>The token of a lexeme at position \<^verbatim>\<open>p\<close>: a string token leaves out the quotes.\<close>

fun lexeme_token :: "nat \<Rightarrow> lexeme \<Rightarrow> token" where
  "lexeme_token p (LPunct c) = \<lparr>tok_type = the (punctuation c), tok_start = p, tok_end = p + 1\<rparr>"
| "lexeme_token p (LString s) = \<lparr>tok_type = JSON_TOK_STRING, tok_start = p + 1, tok_end = p + 1 + length s\<rparr>"
| "lexeme_token p (LNumber s) = \<lparr>tok_type = JSON_TOK_NUMBER, tok_start = p, tok_end = p + length s\<rparr>"
| "lexeme_token p LTrue = \<lparr>tok_type = JSON_TOK_TRUE, tok_start = p, tok_end = p + 4\<rparr>"
| "lexeme_token p LFalse = \<lparr>tok_type = JSON_TOK_FALSE, tok_start = p, tok_end = p + 5\<rparr>"
| "lexeme_token p LNull = \<lparr>tok_type = JSON_TOK_NULL, tok_start = p, tok_end = p + 4\<rparr>"

text \<open>The lexer at position \<^verbatim>\<open>p\<close>, between two tokens.\<close>

definition lx_at :: "nat \<Rightarrow> nat \<Rightarrow> lexer \<Rightarrow> bool" where
  "lx_at e p lx \<longleftrightarrow> lx_state lx = Some Lexer_json \<and> tok_type (lx_token lx) = JSON_TOK_NONE \<and>
     lx_start lx = p \<and> lx_pos lx = p \<and> lx_end lx = e"

lemma lx_at_init: "lx_at len 0 (lexer_init len)"
  by (simp add: lx_at_def lexer_init_def)

lemma hex_digits_read:
  "at_mem mem p hs \<Longrightarrow> \<forall>h \<in> set hs. isxdigit h \<Longrightarrow> p + length hs \<le> e \<Longrightarrow>
    hex_digits (length hs) mem e p = (True, p + length hs)"
  by (induction hs arbitrary: p) (auto simp: next_char_def)

lemma string_loop_read:
  "string_body s \<Longrightarrow> at_mem mem p (s @ [CHR 0x22]) \<Longrightarrow> p + length s < e \<Longrightarrow>
    string_loop mem e p = (True, p + length s + 1)"
proof (induction s arbitrary: p rule: string_body.induct)
  case 1
  then show ?case by (simp add: string_loop.simps [of mem e p] next_char_def)
next
  case (2 c s)
  show ?case
  proof (cases "c = CHR 0x5C")
    case False
    then have "string_loop mem e (Suc p) = (True, Suc p + length s + 1)"
      using "2.prems" by (intro "2.IH"(3)) auto
    with False "2.prems" show ?thesis by (simp add: string_loop.simps [of mem e p] next_char_def)
  next
    case True
    then obtain esc s1 where s: "s = esc # s1" using "2.prems"(1) by (cases s) auto
    have mem: "mem p = CHR 0x5C" "mem (Suc p) = esc" "at_mem mem (Suc (Suc p)) (s1 @ [CHR 0x22])"
      using "2.prems"(2) True s by auto
    have len: "Suc (Suc p) + length s1 < e" using "2.prems"(3) s by simp
    show ?thesis
    proof (cases "simple_escape esc")
      case esc: True
      have "string_loop mem e (Suc (Suc p)) = (True, Suc (Suc p) + length s1 + 1)"
        using "2.IH"(1) [OF True s esc _ mem(3) len] "2.prems"(1) True s esc by simp
      with True esc mem len s show ?thesis
        by (simp add: string_loop.simps [of mem e p] next_char_def)
    next
      case esc: False
      then obtain h1 h2 h3 h4 s2 where s1: "s1 = h1 # h2 # h3 # h4 # s2" and u: "esc = CHR ''u''"
        and h: "isxdigit h1" "isxdigit h2" "isxdigit h3" "isxdigit h4" "string_body s2"
        using "2.prems"(1) True s by (auto split: list.splits)
      let ?q = "Suc (Suc p) + 4"
      have "hex_digits (length [h1, h2, h3, h4]) mem e (Suc (Suc p)) = (True, Suc (Suc p) + length [h1, h2, h3, h4])"
        using mem len h by (intro hex_digits_read) (auto simp: s1)
      then have hex: "hex_digits 4 mem e (Suc (Suc p)) = (True, ?q)" by (simp add: numeral_eq_Suc)
      have "at_mem mem ?q (s2 @ [CHR 0x22])" "?q + length s2 < e" using mem len by (auto simp: s1 eval_nat_numeral)
      then have "string_loop mem e ?q = (True, ?q + length s2 + 1)"
        by (rule "2.IH"(2) [OF True s esc s1 refl refl refl h(5)])
      with True esc u mem len s s1 hex show ?thesis
        by (simp add: string_loop.simps [of mem e p] next_char_def)
    qed
  qed
qed

lemma number_loop_read:
  "list_all number_char s \<Longrightarrow> at_mem mem p s \<Longrightarrow> p + length s \<le> e \<Longrightarrow>
    p + length s = e \<or> \<not> number_char (mem (p + length s)) \<Longrightarrow> number_loop mem e p = p + length s"
proof (induction s arbitrary: p)
  case Nil
  then show ?case by (auto simp: number_loop.simps [of mem e p] next_char_def number_char_def)
next
  case (Cons c s)
  then have "number_loop mem e (Suc p) = Suc p + length s" by (intro Cons.IH) auto
  with Cons.prems show ?case by (simp add: number_loop.simps [of mem e p] next_char_def number_char_def)
qed

lemma not_isspace [simp]:
  "\<not> isspace CHR ''{''" "\<not> isspace CHR ''}''" "\<not> isspace CHR ''[''" "\<not> isspace CHR '']''"
  "\<not> isspace CHR '',''" "\<not> isspace CHR '':''" "\<not> isspace CHR 0x22" "\<not> isspace CHR ''n''"
  "\<not> isspace CHR ''t''" "\<not> isspace CHR ''f''" "\<not> isspace CHR ''-''"
  by (simp_all add: isspace_def)

lemma isspace_other:
  assumes "isspace c"
  shows "c \<noteq> NUL" "punctuation c = None" "c \<noteq> CHR 0x22" "c \<noteq> CHR ''n''" "c \<noteq> CHR ''t''" "c \<noteq> CHR ''f''"
    "c \<noteq> CHR ''-''"
  using assms by (auto simp: punctuation_def)

lemma json_loop_space:
  "list_all isspace ws \<Longrightarrow> at_mem mem (lx_pos lx) ws \<Longrightarrow> lx_pos lx + length ws \<le> lx_end lx \<Longrightarrow>
    lx_start lx = lx_pos lx \<Longrightarrow>
    json_loop mem lx = json_loop mem (lx\<lparr>lx_pos := lx_pos lx + length ws, lx_start := lx_pos lx + length ws\<rparr>)"
proof (induction ws arbitrary: lx)
  case Nil
  then show ?case by (cases lx) simp
next
  case (Cons c ws)
  let ?lx = "lx\<lparr>lx_pos := Suc (lx_pos lx), lx_start := Suc (lx_pos lx)\<rparr>"
  have "json_loop mem lx = json_loop mem ?lx"
    using Cons.prems by (subst json_loop.simps) (simp add: next_char_def isspace_other)
  also have "\<dots> = json_loop mem (?lx\<lparr>lx_pos := lx_pos ?lx + length ws, lx_start := lx_pos ?lx + length ws\<rparr>)"
    using Cons.prems by (intro Cons.IH) auto
  finally show ?case by simp
qed

lemma lexer_next_json:
  "lx_state lx = Some Lexer_json \<Longrightarrow> tok_type (lx_token lx) = JSON_TOK_NONE \<Longrightarrow>
    lexer_next mem lx = lexer_next_loop 1 mem (json_loop mem lx)"
  unfolding lexer_next_def by (subst lexer_next_loop.simps) (simp add: lexer_consume_def numeral_2_eq_2)

lemma lexer_next_loop_state:
  "lx_state lx = Some fn \<Longrightarrow> tok_type (lx_token lx) = JSON_TOK_NONE \<Longrightarrow>
    lexer_next_loop (Suc n) mem lx = lexer_next_loop n mem (run_state mem fn lx)"
  by (subst lexer_next_loop.simps) (simp add: lexer_consume_def)

lemma lexer_next_loop_token:
  "lx_state lx = Some fn \<Longrightarrow> tok_type (lx_token lx) \<noteq> JSON_TOK_NONE \<Longrightarrow>
    lexer_next_loop n mem lx = Some (Some (lx_token lx), lx\<lparr>lx_token := (lx_token lx)\<lparr>tok_type := JSON_TOK_NONE\<rparr>\<rparr>)"
  by (subst lexer_next_loop.simps) (simp add: lexer_consume_def)

text \<open>Reading one lexeme, with white space in front of it.\<close>

lemma lexer_next_lexeme_at:
  assumes at: "lx_at e p lx" and ok: "lexeme_ok l" and mem: "at_mem mem p (lexeme_text l)"
    and len: "p + length (lexeme_text l) \<le> e"
    and stop: "\<And>s. l = LNumber s \<Longrightarrow> p + length s = e \<or> \<not> number_char (mem (p + length s))"
  shows "\<exists>lx'. lexer_next_loop 1 mem (json_loop mem lx) = Some (Some (lexeme_token p l), lx') \<and>
    lx_at e (p + length (lexeme_text l)) lx'"
proof -
  note at' = at [unfolded lx_at_def]
  show ?thesis
  proof (cases l)
    case (LPunct c)
    then obtain t where t: "punctuation c = Some t" using ok by auto
    have "c \<noteq> NUL" using t by (auto simp: punctuation_def)
    then have "json_loop mem lx = emit_cont (lx\<lparr>lx_pos := Suc p\<rparr>) t"
      using at' LPunct mem len t by (subst json_loop.simps) (simp add: next_char_def)
    with at' LPunct t punctuation_good [OF t] show ?thesis
      by (simp add: lexer_next_loop_token emit_cont_def emit_def lx_at_def)
  next
    case (LString s)
    have "json_loop mem lx = lx\<lparr>lx_pos := Suc p, lx_state := Some Lexer_string\<rparr>"
      using at' LString mem len by (subst json_loop.simps) (simp add: next_char_def punctuation_def)
    moreover have "string_loop mem e (Suc p) = (True, Suc p + length s + 1)"
      using LString ok mem len by (intro string_loop_read) auto
    ultimately show ?thesis
      using at' LString mem len
      by (simp add: lexer_next_loop_state lexer_string_def emit_def Let_def next_char_def lexer_next_loop_token lx_at_def)
  next
    case (LNumber s)
    then obtain c s1 where s: "s = c # s1" using ok by (cases s) auto
    have c: "c \<noteq> NUL" "punctuation c = None" "c \<notin> set [CHR 0x22, CHR ''n'', CHR ''t'', CHR ''f'']" "\<not> isspace c"
      using LNumber ok s by (auto simp: isdigit_def punctuation_def isspace_def)
    have "json_loop mem lx = lx\<lparr>lx_pos := Suc p, lx_state := Some Lexer_number\<rparr>"
    proof (cases "c = CHR ''-''")
      case True
      then obtain d s2 where d: "s1 = d # s2" "isdigit d" using LNumber ok s by (cases s1) (auto simp: isdigit_def)
      with True c at' LNumber s mem len show ?thesis
        by (subst json_loop.simps) (simp add: next_char_def peek_def)
    next
      case False
      then have "isdigit c" using LNumber ok s by simp
      with False c at' LNumber s mem len show ?thesis
        by (subst json_loop.simps) (simp add: next_char_def)
    qed
    moreover have "number_loop mem e (Suc p) = Suc p + length s1"
      using LNumber ok s mem len stop [OF LNumber] by (intro number_loop_read) auto
    ultimately show ?thesis
      using at' LNumber s
      by (simp add: lexer_next_loop_state lexer_number_def emit_cont_def emit_def lexer_next_loop_token lx_at_def)
  next
    case LTrue
    have "json_loop mem lx = lx\<lparr>lx_pos := Suc p, lx_state := Some Lexer_boolean\<rparr>"
      using at' LTrue mem len by (subst json_loop.simps) (simp add: next_char_def punctuation_def)
    with at' LTrue mem len show ?thesis
      by (simp add: lexer_next_loop_state lexer_boolean_def emit_cont_def emit_def next_char_def
          lexer_next_loop_token lx_at_def)
  next
    case LFalse
    have "json_loop mem lx = lx\<lparr>lx_pos := Suc p, lx_state := Some Lexer_boolean\<rparr>"
      using at' LFalse mem len by (subst json_loop.simps) (simp add: next_char_def punctuation_def)
    with at' LFalse mem len show ?thesis
      by (simp add: lexer_next_loop_state lexer_boolean_def emit_cont_def emit_def next_char_def
          lexer_next_loop_token lx_at_def)
  next
    case LNull
    have "json_loop mem lx = lx\<lparr>lx_pos := Suc p, lx_state := Some Lexer_null\<rparr>"
      using at' LNull mem len by (subst json_loop.simps) (simp add: next_char_def punctuation_def)
    with at' LNull mem len show ?thesis
      by (simp add: lexer_next_loop_state lexer_null_def emit_cont_def emit_def next_char_def
          lexer_next_loop_token lx_at_def)
  qed
qed

lemma lexer_next_lexeme:
  assumes at: "lx_at e p lx" and ok: "lexeme_ok l" and ws: "list_all isspace ws"
    and mem: "at_mem mem p (ws @ lexeme_text l)" and len: "p + length ws + length (lexeme_text l) \<le> e"
    and stop: "\<And>s. l = LNumber s \<Longrightarrow> p + length ws + length s = e \<or> \<not> number_char (mem (p + length ws + length s))"
  shows "\<exists>lx'. lexer_next mem lx = Some (Some (lexeme_token (p + length ws) l), lx') \<and>
    lx_at e (p + length ws + length (lexeme_text l)) lx'"
proof -
  let ?lx = "lx\<lparr>lx_pos := lx_pos lx + length ws, lx_start := lx_pos lx + length ws\<rparr>"
  have "lexer_next mem lx = lexer_next_loop 1 mem (json_loop mem lx)"
    using at by (intro lexer_next_json) (simp_all add: lx_at_def)
  also have "json_loop mem lx = json_loop mem ?lx"
    using at ws mem len by (intro json_loop_space) (auto simp: lx_at_def)
  finally have eq: "lexer_next mem lx = lexer_next_loop 1 mem (json_loop mem ?lx)" .
  have "lx_at e (p + length ws) ?lx" using at by (simp add: lx_at_def)
  from lexer_next_lexeme_at [OF this ok _ len stop] mem show ?thesis by (simp add: eq)
qed

text \<open>Reading several tokens, and the lexemes of a payload.\<close>

fun read_tokens :: "nat \<Rightarrow> memory \<Rightarrow> lexer \<Rightarrow> token list \<times> lexer" where
  "read_tokens 0 mem lx = ([], lx)"
| "read_tokens (Suc n) mem lx =
     (case lexer_next mem lx of
        Some (Some t, lx') \<Rightarrow> (case read_tokens n mem lx' of (ts, lx'') \<Rightarrow> (t # ts, lx''))
      | Some (None, lx') \<Rightarrow> ([], lx')
      | None \<Rightarrow> ([], lx))"

fun payload_text :: "(string \<times> lexeme) list \<Rightarrow> string" where
  "payload_text [] = []"
| "payload_text ((ws, l) # ls) = ws @ lexeme_text l @ payload_text ls"

fun payload_tokens :: "nat \<Rightarrow> (string \<times> lexeme) list \<Rightarrow> token list" where
  "payload_tokens p [] = []"
| "payload_tokens p ((ws, l) # ls) =
     lexeme_token (p + length ws) l # payload_tokens (p + length ws + length (lexeme_text l)) ls"

text \<open>A number needs something behind it that does not continue it.\<close>

fun payload_ok :: "(string \<times> lexeme) list \<Rightarrow> bool" where
  "payload_ok [] \<longleftrightarrow> True"
| "payload_ok ((ws, l) # ls) \<longleftrightarrow> list_all isspace ws \<and> lexeme_ok l \<and>
     (case l of LNumber _ \<Rightarrow> payload_text ls = [] \<or> \<not> number_char (hd (payload_text ls)) | _ \<Rightarrow> True) \<and> payload_ok ls"

lemma read_payload:
  assumes "lx_at e p lx" "payload_ok ls" "at_mem mem p (payload_text ls)" "e = p + length (payload_text ls)"
  shows "\<exists>lx'. read_tokens (length ls) mem lx = (payload_tokens p ls, lx') \<and> lx_at e e lx'"
  using assms
proof (induction ls arbitrary: p lx)
  case Nil
  then show ?case by simp
next
  case (Cons wl ls)
  obtain ws l where wl: "wl = (ws, l)" by (cases wl)
  let ?q = "p + length ws + length (lexeme_text l)"
  have rest: "at_mem mem ?q (payload_text ls)" using Cons.prems(3) by (simp add: wl)
  have "?q = e \<or> \<not> number_char (mem ?q)" if "l = LNumber s" for s
    using Cons.prems(2,4) rest that by (cases "payload_text ls") (auto simp: wl)
  then have "\<exists>lx'. lexer_next mem lx = Some (Some (lexeme_token (p + length ws) l), lx') \<and> lx_at e ?q lx'"
    using Cons.prems by (intro lexer_next_lexeme) (auto simp: wl)
  then obtain lx1 where lx1: "lexer_next mem lx = Some (Some (lexeme_token (p + length ws) l), lx1)" "lx_at e ?q lx1"
    by blast
  from Cons.IH [OF lx1(2) _ rest] Cons.prems(2,4) obtain lx' where
    "read_tokens (length ls) mem lx1 = (payload_tokens ?q ls, lx')" "lx_at e e lx'" by (auto simp: wl)
  with lx1(1) show ?case by (simp add: wl)
qed

section \<open>Properties\<close>

text \<open>C36. \<^verbatim>\<open>lexer_next\<close> always returns.  Called on a lexer that is ready, it returns a token
  that lies inside the payload and behind everything read before, leaving the lexer ready
  and further on (so that reading all tokens ends); or an error token, after which the
  lexer is finished; or nothing, at the end of the payload.  A string token always has
  its closing quote inside the payload.\<close>

theorem lexer_next_sound:
  assumes "lx_ready lx"
  shows "\<exists>r lx'. lexer_next mem lx = Some (r, lx') \<and> lx_end lx' = lx_end lx \<and>
    (case r of
       None \<Rightarrow> lx_finished lx'
     | Some t \<Rightarrow>
         if tok_type t = JSON_TOK_ERROR then lx_finished lx'
         else lx_ready lx' \<and> lx_pos lx < lx_pos lx' \<and> tok_type t \<notin> {JSON_TOK_NONE, JSON_TOK_EOF} \<and>
           lx_start lx \<le> tok_start t \<and> tok_start t \<le> tok_end t \<and> tok_end t \<le> lx_end lx \<and>
           (tok_type t = JSON_TOK_STRING \<longrightarrow> tok_end t < lx_end lx))"
  using assms
proof (cases rule: lexer_next_cases [of lx mem])
  case (token lx')
  then show ?thesis using good_token_ready [OF token(1)] by (auto simp: good_token_def)
next
  case (stop lx')
  then show ?thesis by (auto simp: end_token_def lexer_consume_def lx_finished_def)
qed

theorem lexer_next_sound_witness:
  "\<exists>r lx'. lexer_next (\<lambda>i. ''{}'' ! i) (lexer_init 2) = Some (r, lx') \<and> lx_end lx' = lx_end (lexer_init 2) \<and>
    (case r of
       None \<Rightarrow> lx_finished lx'
     | Some t \<Rightarrow>
         if tok_type t = JSON_TOK_ERROR then lx_finished lx'
         else lx_ready lx' \<and> lx_pos (lexer_init 2) < lx_pos lx' \<and> tok_type t \<notin> {JSON_TOK_NONE, JSON_TOK_EOF} \<and>
           lx_start (lexer_init 2) \<le> tok_start t \<and> tok_start t \<le> tok_end t \<and> tok_end t \<le> lx_end (lexer_init 2) \<and>
           (tok_type t = JSON_TOK_STRING \<longrightarrow> tok_end t < lx_end (lexer_init 2)))"
  by (rule lexer_next_sound [OF lx_ready_init])

text \<open>C35. The lexer reads back what is written: on a payload made of lexemes, with any white
  space in between, it returns exactly one token per lexeme, in order, each with the type
  and the position of its lexeme (for a string, of the part between the quotes), and then
  nothing more.\<close>

theorem lexer_reads_payload:
  assumes "payload_ok ls"
  shows "\<exists>lx. read_tokens (length ls) (\<lambda>i. payload_text ls ! i) (lexer_init (length (payload_text ls))) =
      (payload_tokens 0 ls, lx) \<and>
    (\<exists>lx'. lexer_next (\<lambda>i. payload_text ls ! i) lx = Some (None, lx'))"
proof -
  let ?e = "length (payload_text ls)" and ?mem = "\<lambda>i. payload_text ls ! i"
  have "at_mem ?mem 0 (payload_text ls)" by (simp add: at_mem_def)
  from read_payload [OF lx_at_init assms this] obtain lx where
    lx: "read_tokens (length ls) ?mem (lexer_init ?e) = (payload_tokens 0 ls, lx)" "lx_at ?e ?e lx" by auto
  have "json_loop ?mem lx = emit_end (lx\<lparr>lx_pos := ?e + 1\<rparr>) JSON_TOK_EOF"
    using lx(2) by (subst json_loop.simps) (simp add: lx_at_def next_char_def)
  then have "\<exists>lx'. lexer_next ?mem lx = Some (None, lx')"
    using lx(2) by (simp add: lexer_next_json lx_at_def lexer_next_loop.simps emit_end_def emit_def lexer_consume_def)
  with lx(1) show ?thesis by blast
qed

definition sample_payload :: "(string \<times> lexeme) list" where
  "sample_payload = [([], LPunct CHR ''{''), ('' '', LString ''a''), ([], LPunct CHR '':''),
     ('' '', LNumber ''-12''), ([], LPunct CHR '','') , ([], LString ''b''), ([], LPunct CHR '':''),
     ([], LTrue), ([], LPunct CHR ''}'')]"

theorem lexer_reads_payload_witness:
  "(\<exists>lx. read_tokens 9 (\<lambda>i. payload_text sample_payload ! i) (lexer_init 20) =
      (payload_tokens 0 sample_payload, lx) \<and>
    (\<exists>lx'. lexer_next (\<lambda>i. payload_text sample_payload ! i) lx = Some (None, lx')))"
proof -
  have ok: "payload_ok sample_payload" by code_simp
  have len: "length sample_payload = 9" "length (payload_text sample_payload) = 20" by code_simp+
  show ?thesis using lexer_reads_payload [OF ok] unfolding len .
qed

end
