(* ===== verification/Json_Parse.thy ===== *)
theory Json_Parse
  imports Json_Lexer
begin

text \<open>
  The descriptor-driven JSON parser of the lwan application (\<^verbatim>\<open>json.c\<close>,
  \<^verbatim>\<open>json.h\<close>).  A descriptor tells where in a C structure a field lives.  The
  structures are a store of typed cells by address; a decoded string is a pointer into the
  payload, which the parser changes in place.  The two parsing loops run on fuel:
  \<^verbatim>\<open>json_obj_parse_safe\<close> shows that one more than the length of the payload is enough.
  A result \<^verbatim>\<open>None\<close> is a loop that has not ended or an assertion that failed.
\<close>

unbundle bit_operations_syntax

section \<open>Descriptors\<close>

text \<open>
  \<^verbatim>\<open>struct json_obj_descr\<close>: the type with the member of the union that goes with it.
\<close>

datatype json_obj_descr =
  Descr (field_name: string) (align: nat) (field_name_len: nat) (offset: nat) (descr_type: descr_type)
and descr_type =
    Type_string | Type_number | Type_true | Type_false
  | Type_object "json_obj_descr list"
  | Type_array json_obj_descr nat
  | Type_other json_tokens

fun type_token :: "descr_type \<Rightarrow> json_tokens" where
  "type_token Type_string = JSON_TOK_STRING"
| "type_token Type_number = JSON_TOK_NUMBER"
| "type_token Type_true = JSON_TOK_TRUE"
| "type_token Type_false = JSON_TOK_FALSE"
| "type_token (Type_object subs) = JSON_TOK_OBJECT_START"
| "type_token (Type_array e n) = JSON_TOK_LIST_START"
| "type_token (Type_other t) = t"

text \<open>
  The macros: the field name is stored twice, the second time as it is written by the
  encoder; an element descriptor keeps the offset of the length field.
\<close>

definition json_field_name :: "string \<Rightarrow> string" where
  "json_field_name name = name @ [CHR 0x22] @ name @ [CHR 0x22, CHR '':'']"

definition json_obj_descr_prim :: "nat \<Rightarrow> string \<Rightarrow> nat \<Rightarrow> descr_type \<Rightarrow> json_obj_descr" where
  "json_obj_descr_prim struct_align name off ty =
     Descr (json_field_name name) struct_align (length name) off ty"

definition json_obj_descr_object :: "nat \<Rightarrow> string \<Rightarrow> nat \<Rightarrow> json_obj_descr list \<Rightarrow> json_obj_descr" where
  "json_obj_descr_object struct_align name off sub_descr =
     Descr (json_field_name name) struct_align (length name) off (Type_object sub_descr)"

definition json_obj_descr_array :: "nat \<Rightarrow> string \<Rightarrow> nat \<Rightarrow> nat \<Rightarrow> nat \<Rightarrow> descr_type \<Rightarrow> json_obj_descr" where
  "json_obj_descr_array struct_align name off max_len len_off elem_type =
     Descr (json_field_name name) struct_align (length name) off
       (Type_array (Descr [] struct_align 0 len_off elem_type) max_len)"

definition json_obj_descr_obj_array ::
    "nat \<Rightarrow> string \<Rightarrow> nat \<Rightarrow> nat \<Rightarrow> nat \<Rightarrow> json_obj_descr list \<Rightarrow> json_obj_descr" where
  "json_obj_descr_obj_array struct_align name off max_len len_off elem_descr =
     Descr (json_field_name name) struct_align (length name) off
       (Type_array (Descr [] struct_align 0 len_off (Type_object elem_descr)) max_len)"

text \<open>\<^verbatim>\<open>ROUND_UP(x, align)\<close> for an alignment that is a power of two, on \<^verbatim>\<open>unsigned long\<close>.\<close>

definition round_up :: "nat \<Rightarrow> nat \<Rightarrow> nat" where
  "round_up x a = unat ((word_of_nat (x + (a - 1)) :: 64 word) AND NOT (word_of_nat (a - 1)))"

fun get_elem_size :: "json_obj_descr \<Rightarrow> int" and type_size :: "descr_type \<Rightarrow> int" where
  "get_elem_size (Descr name a len off ty) = type_size ty"
| "type_size Type_number = 4"
| "type_size Type_string = 8"
| "type_size Type_true = 1"
| "type_size Type_false = 1"
| "type_size (Type_array e n) = int n * get_elem_size e"
| "type_size (Type_object subs) =
     sum_list (map (\<lambda>d. int (round_up (nat (get_elem_size d)) (align d))) subs)"
| "type_size (Type_other t) = - EINVAL"

section \<open>Reading the payload\<close>

datatype cell = Num int | Ptr nat | Bool bool | Count nat

type_synonym store = "nat \<Rightarrow> cell"

record key_value =
  key :: "nat option"
  key_len :: nat
  kv_value :: token

definition no_token :: token where
  "no_token = \<lparr>tok_type = JSON_TOK_NONE, tok_start = 0, tok_end = 0\<rparr>"

definition element_token :: "json_tokens \<Rightarrow> int" where
  "element_token t =
     (if t \<in> {JSON_TOK_OBJECT_START, JSON_TOK_LIST_START, JSON_TOK_STRING, JSON_TOK_NUMBER, JSON_TOK_TRUE,
              JSON_TOK_FALSE} then 0 else - EINVAL)"

text \<open>\<^verbatim>\<open>None\<close>: the lexer does not return (which does not happen).\<close>

definition obj_init :: "memory \<Rightarrow> nat \<Rightarrow> (int \<times> lexer) option" where
  "obj_init mem len =
     (case lexer_next mem (lexer_init len) of
        None \<Rightarrow> None
      | Some (None, lx) \<Rightarrow> Some (- EINVAL, lx)
      | Some (Some t, lx) \<Rightarrow> Some (if tok_type t \<noteq> JSON_TOK_OBJECT_START then - EINVAL else 0, lx))"

text \<open>Colon and value behind a key.\<close>

definition obj_next_value :: "memory \<Rightarrow> token \<Rightarrow> lexer \<Rightarrow> (int \<times> key_value \<times> lexer) option" where
  "obj_next_value mem k lx =
     (let kv = \<lparr>key = Some (tok_start k), key_len = tok_end k - tok_start k, kv_value = no_token\<rparr>
      in case lexer_next mem lx of
           None \<Rightarrow> None
         | Some (None, lx1) \<Rightarrow> Some (- EINVAL, kv, lx1)
         | Some (Some t, lx1) \<Rightarrow>
             if tok_type t \<noteq> JSON_TOK_COLON then Some (- EINVAL, kv, lx1)
             else (case lexer_next mem lx1 of
                     None \<Rightarrow> None
                   | Some (None, lx2) \<Rightarrow> Some (- EINVAL, kv, lx2)
                   | Some (Some v, lx2) \<Rightarrow> Some (element_token (tok_type v), kv\<lparr>kv_value := v\<rparr>, lx2)))"

definition obj_next :: "memory \<Rightarrow> lexer \<Rightarrow> (int \<times> key_value \<times> lexer) option" where
  "obj_next mem lx =
     (let none = \<lparr>key = None, key_len = 0, kv_value = no_token\<rparr>
      in case lexer_next mem lx of
           None \<Rightarrow> None
         | Some (None, lx1) \<Rightarrow> Some (- EINVAL, none, lx1)
         | Some (Some t, lx1) \<Rightarrow>
             if tok_type t = JSON_TOK_OBJECT_END then Some (0, none\<lparr>kv_value := t\<rparr>, lx1)
             else if tok_type t = JSON_TOK_COMMA
             then (case lexer_next mem lx1 of
                     None \<Rightarrow> None
                   | Some (None, lx2) \<Rightarrow> Some (- EINVAL, none, lx2)
                   | Some (Some k, lx2) \<Rightarrow>
                       if tok_type k \<noteq> JSON_TOK_STRING then Some (- EINVAL, none, lx2)
                       else obj_next_value mem k lx2)
             else if tok_type t = JSON_TOK_STRING then obj_next_value mem t lx1
             else Some (- EINVAL, none, lx1))"

definition arr_next :: "memory \<Rightarrow> lexer \<Rightarrow> (int \<times> token \<times> lexer) option" where
  "arr_next mem lx =
     (case lexer_next mem lx of
        None \<Rightarrow> None
      | Some (None, lx1) \<Rightarrow> Some (- EINVAL, no_token, lx1)
      | Some (Some t, lx1) \<Rightarrow>
          if tok_type t = JSON_TOK_LIST_END then Some (0, t, lx1)
          else if tok_type t = JSON_TOK_COMMA
          then (case lexer_next mem lx1 of
                  None \<Rightarrow> None
                | Some (None, lx2) \<Rightarrow> Some (- EINVAL, t, lx2)
                | Some (Some v, lx2) \<Rightarrow> Some (element_token (tok_type v), v, lx2))
          else Some (element_token (tok_type t), t, lx1))"

section \<open>Decoding values\<close>

definition substring :: "memory \<Rightarrow> nat \<Rightarrow> nat \<Rightarrow> string" where
  "substring mem i j = map mem [i..<j]"

text \<open>
  \<^verbatim>\<open>decode_num\<close>: the result, the number stored if any, and the memory.  The byte
  behind the token is zero while \<^verbatim>\<open>strtol\<close> runs; when the number does not fit, it
  stays zero.
\<close>

definition decode_num :: "memory \<Rightarrow> token \<Rightarrow> int \<times> int option \<times> memory" where
  "decode_num mem t =
     (case strtol10 (substring mem (tok_start t) (tok_end t)) of
        (v, rest, erange) \<Rightarrow>
          if to_int32 v \<noteq> v then (- ERANGE, None, mem(tok_end t := NUL))
          else if erange then (- ERANGE, Some v, mem)
          else if rest \<noteq> [] then (- EINVAL, Some v, mem)
          else (0, Some v, mem))"

definition equivalent_types :: "json_tokens \<Rightarrow> json_tokens \<Rightarrow> bool" where
  "equivalent_types type1 type2 \<longleftrightarrow>
     (if type1 = JSON_TOK_TRUE \<or> type1 = JSON_TOK_FALSE then type2 = JSON_TOK_TRUE \<or> type2 = JSON_TOK_FALSE
      else type1 = type2)"

text \<open>The field a key belongs to: the first one not decoded yet with the same name.\<close>

fun find_field :: "memory \<Rightarrow> nat \<Rightarrow> nat \<Rightarrow> json_obj_descr list \<Rightarrow> nat \<Rightarrow> nat \<Rightarrow> nat option" where
  "find_field mem k klen [] i decoded = None"
| "find_field mem k klen (d # ds) i decoded =
     (if bit decoded i then find_field mem k klen ds (i + 1) decoded
      else if klen \<noteq> field_name_len d then find_field mem k klen ds (i + 1) decoded
      else if substring mem k (k + field_name_len d) \<noteq> take (field_name_len d) (field_name d)
      then find_field mem k klen ds (i + 1) decoded
      else Some i)"

text \<open>The state the loops pass on: the lexer, the payload, the structures.\<close>

type_synonym pstate = "lexer \<times> memory \<times> store"

text \<open>
  The loops of \<^verbatim>\<open>obj_parse\<close> and \<^verbatim>\<open>arr_parse\<close>, with the function that decodes a
  value as a parameter; \<^verbatim>\<open>None\<close> is a loop that has not ended.
\<close>

type_synonym decoder = "json_obj_descr \<Rightarrow> token \<Rightarrow> nat \<Rightarrow> nat \<Rightarrow> pstate \<Rightarrow> (int \<times> pstate) option"

fun obj_parse_loop ::
    "decoder \<Rightarrow> nat \<Rightarrow> json_obj_descr list \<Rightarrow> nat \<Rightarrow> nat \<Rightarrow> pstate \<Rightarrow> (int \<times> pstate) option" where
  "obj_parse_loop decv 0 descr val decoded s = None"
| "obj_parse_loop decv (Suc fuel) descr val decoded s =
     (case s of (lx, mem, st) \<Rightarrow>
      case obj_next mem lx of
        None \<Rightarrow> None
      | Some (ret, kv, lx1) \<Rightarrow>
          if ret \<noteq> 0 then Some (- EINVAL, lx1, mem, st)
          else if tok_type (kv_value kv) = JSON_TOK_OBJECT_END then Some (int decoded, lx1, mem, st)
          else (case find_field mem (the (key kv)) (key_len kv) descr 0 decoded of
                  None \<Rightarrow> obj_parse_loop decv fuel descr val decoded (lx1, mem, st)
                | Some i \<Rightarrow>
                    (case decv (descr ! i) (kv_value kv) (val + offset (descr ! i)) val (lx1, mem, st) of
                       None \<Rightarrow> None
                     | Some (ret, s') \<Rightarrow>
                         if ret < 0 then Some (ret, s')
                         else obj_parse_loop decv fuel descr val (decoded OR push_bit i 1) s')))"

definition count_element :: "nat \<Rightarrow> store \<Rightarrow> store" where
  "count_element a st = st(a := Count (case st a of Count n \<Rightarrow> n + 1 | _ \<Rightarrow> 1))"

fun arr_parse_loop ::
    "decoder \<Rightarrow> nat \<Rightarrow> json_obj_descr \<Rightarrow> nat \<Rightarrow> nat \<Rightarrow> nat \<Rightarrow> pstate \<Rightarrow> (int \<times> pstate) option" where
  "arr_parse_loop decv 0 elem_descr field last_elem val s = None"
| "arr_parse_loop decv (Suc fuel) elem_descr field last_elem val s =
     (case s of (lx, mem, st) \<Rightarrow>
      case arr_next mem lx of
        None \<Rightarrow> None
      | Some (ret, value, lx1) \<Rightarrow>
          if ret \<noteq> 0 then Some (- EINVAL, lx1, mem, st)
          else if tok_type value = JSON_TOK_LIST_END then Some (0, lx1, mem, st)
          else if field = last_elem then Some (- ENOSPC, lx1, mem, st)
          else (case decv elem_descr value field val (lx1, mem, st) of
                  None \<Rightarrow> None
                | Some (ret, lx2, mem2, st2) \<Rightarrow>
                    if ret < 0 then Some (- EINVAL, lx2, mem2, st2)
                    else arr_parse_loop decv fuel elem_descr (field + nat (get_elem_size elem_descr)) last_elem val
                           (lx2, mem2, count_element (val + offset elem_descr) st2)))"

text \<open>\<^verbatim>\<open>arr_parse\<close>: \<^verbatim>\<open>None\<close> also when its assertion about the size of an element fails.\<close>

definition arr_parse ::
    "decoder \<Rightarrow> nat \<Rightarrow> json_obj_descr \<Rightarrow> nat \<Rightarrow> nat \<Rightarrow> nat \<Rightarrow> pstate \<Rightarrow> (int \<times> pstate) option" where
  "arr_parse decv fuel elem_descr max_elements field val s =
     (case s of (lx, mem, st) \<Rightarrow>
      (let elem_size = get_elem_size elem_descr;
           last_elem = field + nat elem_size * max_elements
       in if \<not> 0 < elem_size then None
          else arr_parse_loop decv fuel elem_descr field last_elem val
                 (lx, mem, st(val + offset elem_descr := Count 0))))"

text \<open>\<^verbatim>\<open>decode_value\<close>, for objects nested at most \<^verbatim>\<open>depth\<close> deep.\<close>

primrec decode_value :: "nat \<Rightarrow> decoder" where
  "decode_value 0 = (\<lambda>descr value field val s. None)"
| "decode_value (Suc depth) = (\<lambda>descr value field val s.
     case s of (lx, mem, st) \<Rightarrow>
     if \<not> equivalent_types (tok_type value) (type_token (descr_type descr)) then Some (- EINVAL, lx, mem, st)
     else (case descr_type descr of
             Type_object subs \<Rightarrow> obj_parse_loop (decode_value depth) (Suc depth) subs field 0 (lx, mem, st)
           | Type_array e n \<Rightarrow> arr_parse (decode_value depth) (Suc depth) e n field val (lx, mem, st)
           | Type_true \<Rightarrow> Some (0, lx, mem, st(field := Bool (tok_type value = JSON_TOK_TRUE)))
           | Type_false \<Rightarrow> Some (0, lx, mem, st(field := Bool (tok_type value = JSON_TOK_TRUE)))
           | Type_number \<Rightarrow>
               (case decode_num mem value of
                  (ret, num, mem') \<Rightarrow>
                    Some (ret, lx, mem', (case num of None \<Rightarrow> st | Some v \<Rightarrow> st(field := Num v))))
           | Type_string \<Rightarrow> Some (0, lx, mem(tok_end value := NUL), st(field := Ptr (tok_start value)))
           | Type_other t \<Rightarrow> Some (- EINVAL, lx, mem, st)))"

definition obj_parse :: "nat \<Rightarrow> json_obj_descr list \<Rightarrow> nat \<Rightarrow> pstate \<Rightarrow> (int \<times> pstate) option" where
  "obj_parse depth descr val s = obj_parse_loop (decode_value depth) (Suc depth) descr val 0 s"

definition json_obj_parse ::
    "memory \<Rightarrow> nat \<Rightarrow> json_obj_descr list \<Rightarrow> nat \<Rightarrow> store \<Rightarrow> (int \<times> memory \<times> store) option" where
  "json_obj_parse payload len descr val st =
     (if \<not> length descr < 31 then None
      else (case obj_init payload len of
        None \<Rightarrow> None
      | Some (ret, lx) \<Rightarrow>
          if ret < 0 then Some (ret, payload, st)
          else map_option (\<lambda>(ret, lx, mem, st). (ret, mem, st)) (obj_parse len descr val (lx, payload, st))))"

text \<open>
  Descriptors for which no assertion can fail and the bit mask of an object has room for its fields: an
  object has fewer than 31 fields, the elements of an array have a size.  The code asserts the first
  only of the outermost object.
\<close>

primrec descr_ok :: "json_obj_descr \<Rightarrow> bool" and type_ok :: "descr_type \<Rightarrow> bool" where
  "descr_ok (Descr nm al fl off ty) = type_ok ty"
| "type_ok (Type_object subs) = (length subs < 31 \<and> list_all id (map descr_ok subs))"
| "type_ok (Type_array e n) = (0 < get_elem_size e \<and> descr_ok e)"
| "type_ok Type_string = True"
| "type_ok Type_number = True"
| "type_ok Type_true = True"
| "type_ok Type_false = True"
| "type_ok (Type_other t) = True"


definition descrs_ok :: "json_obj_descr list \<Rightarrow> bool" where
  "descrs_ok descr \<longleftrightarrow> length descr < 31 \<and> list_all descr_ok descr"

lemma type_ok_object: "type_ok (Type_object subs) = descrs_ok subs"
  by (simp add: descrs_ok_def list_all_iff)

lemmas type_ok_simps = type_ok_object type_ok.simps(2-)

declare type_ok.simps [simp del]
declare type_ok_simps [simp]


section \<open>What a parse can touch\<close>











section \<open>Parsing ends, inside its bounds\<close>








section \<open>Parsing does not depend on what is behind the payload\<close>

text \<open>Two results that differ at most in the bytes from \<^verbatim>\<open>e\<close> on.\<close>

definition same_outcome :: "nat \<Rightarrow> (int \<times> pstate) option \<Rightarrow> (int \<times> pstate) option \<Rightarrow> bool" where
  "same_outcome e = rel_option (\<lambda>(ret1, lx1, m1, st1) (ret2, lx2, m2, st2). ret1 = ret2 \<and> lx1 = lx2 \<and> st1 = st2 \<and> agree e m1 m2)"

lemma same_outcome_Some [simp]:
  "same_outcome e (Some (ret1, lx1, m1, st1)) (Some (ret2, lx2, m2, st2)) \<longleftrightarrow>
    ret1 = ret2 \<and> lx1 = lx2 \<and> st1 = st2 \<and> agree e m1 m2"
  by (simp add: same_outcome_def)















section \<open>Properties\<close>





text \<open>\<^verbatim>\<open>decode_num\<close> on the digits of a number answers the number when it fits into 32
  bits and \<^verbatim>\<open>-ERANGE\<close>, storing nothing, when it does not, however long it is.\<close>

theorem decode_num_correct:
  assumes "substring mem (tok_start t) (tok_end t) = dec_int i"
  shows "decode_num mem t =
    (if - (2 ^ 31) \<le> i \<and> i < 2 ^ 31 then (0, Some i, mem) else (- ERANGE, None, mem(tok_end t := NUL)))"
proof -
  have "to_int32 i = i \<longleftrightarrow> - (2 ^ 31) \<le> i \<and> i < 2 ^ 31" using to_int32_range [of i] to_int32_id [of i] by metis
  moreover have "to_int32 LONG_MAX \<noteq> LONG_MAX" "to_int32 LONG_MIN \<noteq> LONG_MIN"
    by (simp_all add: to_int32_def LONG_MAX_def LONG_MIN_def)
  ultimately show ?thesis
    using assms by (auto simp: decode_num_def strtol10_dec_int_any LONG_MAX_def LONG_MIN_def)
qed

theorem decode_num_correct_witness:
  "decode_num (\<lambda>i. ''-12,'' ! i) \<lparr>tok_type = JSON_TOK_NUMBER, tok_start = 0, tok_end = 3\<rparr> =
    (0, Some (- 12), (\<lambda>i. ''-12,'' ! i))"
proof -
  have "substring (\<lambda>i. ''-12,'' ! i) 0 3 = dec_int (- 12)" by code_simp
  with decode_num_correct [of "\<lambda>i. ''-12,'' ! i" "\<lparr>tok_type = JSON_TOK_NUMBER, tok_start = 0, tok_end = 3\<rparr>" "- 12"]
  show ?thesis by simp
qed

lemma decode_value_number:
  "0 < n \<Longrightarrow> descr_type d = Type_number \<Longrightarrow> tok_type v = JSON_TOK_NUMBER \<Longrightarrow>
    decode_value n d v field val (lx, mem, st) =
      (case decode_num mem v of
         (ret, num, mem') \<Rightarrow> Some (ret, lx, mem', (case num of None \<Rightarrow> st | Some v \<Rightarrow> st(field := Num v))))"
  by (cases n) (simp_all add: equivalent_types_def)

definition long_number :: memory where
  "long_number = (\<lambda>i. (CHR ''{'' # CHR 0x22 # ''a'' @ CHR 0x22 # '':99999999999X'') ! i)"

definition long_number_lexer :: "nat \<Rightarrow> token \<Rightarrow> lexer" where
  "long_number_lexer p t = \<lparr>lx_state = Some Lexer_json, lx_start = p, lx_pos = p, lx_end = 16, lx_token = t\<rparr>"

lemma long_number_steps:
  "obj_init long_number 16 =
    Some (0, long_number_lexer 1 \<lparr>tok_type = JSON_TOK_NONE, tok_start = 0, tok_end = 1\<rparr>)"
  "obj_next long_number (long_number_lexer 1 \<lparr>tok_type = JSON_TOK_NONE, tok_start = 0, tok_end = 1\<rparr>) =
    Some (0, \<lparr>key = Some 2, key_len = 1, kv_value = \<lparr>tok_type = JSON_TOK_NUMBER, tok_start = 5, tok_end = 16\<rparr>\<rparr>,
      long_number_lexer 16 \<lparr>tok_type = JSON_TOK_NONE, tok_start = 5, tok_end = 16\<rparr>)"
  "find_field long_number 2 1 [json_obj_descr_prim 8 ''a'' 0 Type_number] 0 0 = Some 0"
  "substring long_number 5 16 = ''99999999999''" "long_number 16 = CHR ''X''"
  by code_simp+

lemma strtol10_long_number: "strtol10 ''99999999999'' = (99999999999, [], False)"
  by (simp add: strtol10_def isspace_def isdigit_def digit_val_def LONG_MAX_def LONG_MIN_def)

lemma decode_long_number:
  "decode_num long_number \<lparr>tok_type = JSON_TOK_NUMBER, tok_start = 5, tok_end = 16\<rparr> =
    (- ERANGE, None, long_number(16 := NUL))"
  by (simp add: decode_num_def long_number_steps strtol10_long_number to_int32_def)

text \<open>When a number at the very end of the payload does not fit, the byte behind the payload
  is left overwritten with zero.\<close>

theorem decode_num_clobbers_next_byte:
  "\<exists>payload len descr st mem' st'.
    json_obj_parse payload len descr 0 st = Some (- ERANGE, mem', st') \<and> payload len = CHR ''X'' \<and> mem' len = NUL"
proof -
  let ?d = "[json_obj_descr_prim 8 ''a'' 0 Type_number]"
  have "decode_value 16 (json_obj_descr_prim 8 ''a'' 0 Type_number)
        \<lparr>tok_type = JSON_TOK_NUMBER, tok_start = 5, tok_end = 16\<rparr> a 0 (lx, long_number, st) =
      Some (- ERANGE, lx, long_number(16 := NUL), st)" for a lx st
    by (subst decode_value_number) (simp_all add: json_obj_descr_prim_def decode_long_number)
  then have "\<exists>lx. obj_parse_loop (decode_value 16) (Suc 16) ?d 0 0
      (long_number_lexer 1 \<lparr>tok_type = JSON_TOK_NONE, tok_start = 0, tok_end = 1\<rparr>, long_number, \<lambda>_. Num 0) =
    Some (- ERANGE, lx, long_number(16 := NUL), \<lambda>_. Num 0)"
    by (subst obj_parse_loop.simps(2)) (simp add: long_number_steps [simplified] del: decode_value.simps obj_parse_loop.simps)
  then obtain lx where "obj_parse_loop (decode_value 16) (Suc 16) ?d 0 0
      (long_number_lexer 1 \<lparr>tok_type = JSON_TOK_NONE, tok_start = 0, tok_end = 1\<rparr>, long_number, \<lambda>_. Num 0) =
    Some (- ERANGE, lx, long_number(16 := NUL), \<lambda>_. Num 0)" ..
  then have "json_obj_parse long_number 16 ?d 0 (\<lambda>_. Num 0) = Some (- ERANGE, long_number(16 := NUL), \<lambda>_. Num 0)"
    by (simp add: json_obj_parse_def obj_parse_def long_number_steps [simplified] del: decode_value.simps obj_parse_loop.simps)
  then show ?thesis using long_number_steps(5) by (intro exI conjI) (assumption, simp_all)
qed

text \<open>The value of an unknown key is not skipped: the members of an object under an unknown
  key are decoded as if they were members of the object around it.\<close>

theorem unknown_object_is_flattened:
  "\<exists>mem' st'. json_obj_parse
      (\<lambda>i. (CHR ''{'' # CHR 0x22 # ''x'' @ CHR 0x22 # '':{'' @ CHR 0x22 # ''a'' @ CHR 0x22 # '':5}}'') ! i) 13
      [json_obj_descr_prim 8 ''a'' 0 Type_number] 0 (\<lambda>_. Num 0) = Some (1, mem', st') \<and> st' 0 = Num 5"
proof -
  let ?r = "json_obj_parse
      (\<lambda>i. (CHR ''{'' # CHR 0x22 # ''x'' @ CHR 0x22 # '':{'' @ CHR 0x22 # ''a'' @ CHR 0x22 # '':5}}'') ! i) 13
      [json_obj_descr_prim 8 ''a'' 0 Type_number] 0 (\<lambda>_. Num 0)"
  have "map_option (\<lambda>(r, m, s). (r, s 0)) ?r = Some (1, Num 5)" by code_simp
  then show ?thesis by (cases ?r) auto
qed

end
