(* ===== verification/Json_Encode.thy ===== *)
theory Json_Encode
  imports Json_Escape Json_Parse
begin

text \<open>
  The descriptor-driven JSON encoder of the lwan application (\<^verbatim>\<open>json.c\<close>): it walks
  over the descriptors, reads the fields of the structure and hands the text to a callback.
  The text of a value is specified apart from the callbacks (\<^verbatim>\<open>value_text\<close>); the
  contract of the callbacks, the locale \<^verbatim>\<open>appender\<close>, carries it over to each of them.

  \<^verbatim>\<open>i2s\<close> is \<^verbatim>\<open>int_to_string\<close> of the lwan library, and \<^verbatim>\<open>strs\<close> the C string at
  an address.  Addresses are integers here: the code moves a pointer back by an offset that
  the callee adds again, which may be before the first byte of the model's memory.
\<close>

unbundle bit_operations_syntax

section \<open>Encoding\<close>

type_synonym 'd sink = "string \<Rightarrow> 'd \<Rightarrow> int \<times> 'd"
type_synonym 'd encoder = "int \<Rightarrow> 'd \<Rightarrow> int \<times> 'd"

text \<open>\<^verbatim>\<open>or_ret\<close>: a call whose result is or-ed into \<^verbatim>\<open>ret\<close>.\<close>

definition or_ret :: "('d \<Rightarrow> int \<times> 'd) \<Rightarrow> int \<times> 'd \<Rightarrow> int \<times> 'd" where
  "or_ret f rd = (case f (snd rd) of (r, d) \<Rightarrow> (fst rd OR r, d))"

text \<open>Reading a field; a cell of another type is not looked at by the properties.\<close>

fun cell_num :: "cell \<Rightarrow> int" where
  "cell_num (Num i) = i"
| "cell_num c = 0"

fun cell_ptr :: "cell \<Rightarrow> nat" where
  "cell_ptr (Ptr p) = p"
| "cell_ptr c = 0"

fun cell_bool :: "cell \<Rightarrow> bool" where
  "cell_bool (Bool b) = b"
| "cell_bool c = False"

fun cell_count :: "cell \<Rightarrow> nat" where
  "cell_count (Count n) = n"
| "cell_count c = 0"

abbreviation load :: "store \<Rightarrow> int \<Rightarrow> cell" where "load st a \<equiv> st (nat a)"

definition str_encode :: "(string \<Rightarrow> 'd \<Rightarrow> int \<times> 'd) \<Rightarrow> string \<Rightarrow> 'd \<Rightarrow> int \<times> 'd" where
  "str_encode append_bytes str d =
     append_or append_bytes [CHR 0x22]
       (or_ret (json_escape_internal append_bytes str) (append_or append_bytes [CHR 0x22] (0, d)))"

definition num_encode :: "'d sink \<Rightarrow> (int \<Rightarrow> string) \<Rightarrow> int \<Rightarrow> 'd \<Rightarrow> int \<times> 'd" where
  "num_encode append_bytes i2s num d = append_bytes (i2s num) d"

definition bool_encode :: "(string \<Rightarrow> 'd \<Rightarrow> int \<times> 'd) \<Rightarrow> bool \<Rightarrow> 'd \<Rightarrow> int \<times> 'd" where
  "bool_encode append_bytes b d = (if b then append_bytes ''true'' d else append_bytes ''false'' d)"

definition encode_key ::
    "(string \<Rightarrow> 'd \<Rightarrow> int \<times> 'd) \<Rightarrow> bool \<Rightarrow> json_obj_descr \<Rightarrow> 'd \<Rightarrow> int \<times> 'd" where
  "encode_key append_bytes escape_key descr d =
     (if \<not> escape_key
      then append_bytes (take (field_name_len descr + 3) (drop (field_name_len descr) (field_name descr))) d
      else append_or append_bytes '':'' (or_ret (str_encode append_bytes (field_name descr)) (0, d)))"

text \<open>
  The functions below take the encoders of the element and of the fields as parameters;
  \<^verbatim>\<open>encode\<close> closes the recursion.  \<^verbatim>\<open>arr_encode_loop\<close> runs over the elements but
  the last; the loop of \<^verbatim>\<open>json_obj_encode_full\<close> runs from the second descriptor, and
  the first comes last.
\<close>

primrec arr_encode_loop ::
    "'d sink \<Rightarrow> 'd encoder \<Rightarrow> json_obj_descr \<Rightarrow> nat \<Rightarrow> int \<Rightarrow> int \<times> 'd \<Rightarrow> int \<times> int \<times> 'd" where
  "arr_encode_loop ap enc e 0 field rd = (field, rd)"
| "arr_encode_loop ap enc e (Suc n) field rd =
     arr_encode_loop ap enc e n (field + get_elem_size e)
       (append_or ap '','' (or_ret (enc (field - int (offset e))) rd))"

definition arr_encode :: "'d sink \<Rightarrow> 'd encoder \<Rightarrow> store \<Rightarrow> json_obj_descr \<Rightarrow> int \<Rightarrow> int \<Rightarrow> 'd \<Rightarrow> int \<times> 'd" where
  "arr_encode ap enc st e field val d =
     (let n_elem = cell_count (load st (val + int (offset e)));
          rd = append_or ap ''['' (0, d)
      in append_or ap '']''
           (if n_elem \<noteq> 0
            then (case arr_encode_loop ap enc e (n_elem - 1) field rd of
                    (field', rd') \<Rightarrow> or_ret (enc (field' - int (offset e))) rd')
            else rd))"

primrec obj_encode_loop :: "'d sink \<Rightarrow> bool \<Rightarrow> (json_obj_descr \<times> 'd encoder) list \<Rightarrow> int \<Rightarrow> int \<times> 'd \<Rightarrow> int \<times> 'd" where
  "obj_encode_loop ap esc [] val rd = rd"
| "obj_encode_loop ap esc (de # des) val rd =
     obj_encode_loop ap esc des val
       (append_or ap '','' (or_ret (snd de val) (or_ret (encode_key ap esc (fst de)) rd)))"

fun obj_encode_fields :: "'d sink \<Rightarrow> bool \<Rightarrow> (json_obj_descr \<times> 'd encoder) list \<Rightarrow> int \<Rightarrow> 'd \<Rightarrow> int \<times> 'd" where
  "obj_encode_fields ap esc [] val d = append_or ap ''}'' (append_or ap ''{'' (0, d))"
| "obj_encode_fields ap esc (de # des) val d =
     append_or ap ''}''
       (or_ret (snd de val)
         (or_ret (encode_key ap esc (fst de))
           (obj_encode_loop ap esc des val (append_or ap ''{'' (0, d)))))"

primrec encode ::
    "'d sink \<Rightarrow> (int \<Rightarrow> string) \<Rightarrow> (nat \<Rightarrow> string) \<Rightarrow> bool \<Rightarrow> store \<Rightarrow> json_obj_descr \<Rightarrow> 'd encoder"
and encode_type ::
    "'d sink \<Rightarrow> (int \<Rightarrow> string) \<Rightarrow> (nat \<Rightarrow> string) \<Rightarrow> bool \<Rightarrow> store \<Rightarrow> descr_type \<Rightarrow> int \<Rightarrow> 'd encoder" where
  "encode ap i2s strs esc st (Descr nm al fl off ty) =
     (\<lambda>val. encode_type ap i2s strs esc st ty (val + int off) val)"
| "encode_type ap i2s strs esc st Type_false = (\<lambda>ptr val. bool_encode ap (cell_bool (load st ptr)))"
| "encode_type ap i2s strs esc st Type_true = (\<lambda>ptr val. bool_encode ap (cell_bool (load st ptr)))"
| "encode_type ap i2s strs esc st Type_string = (\<lambda>ptr val. str_encode ap (strs (cell_ptr (load st ptr))))"
| "encode_type ap i2s strs esc st (Type_array e n) =
     (\<lambda>ptr val. arr_encode ap (encode ap i2s strs esc st e) st e ptr val)"
| "encode_type ap i2s strs esc st (Type_object subs) =
     (\<lambda>ptr val. obj_encode_fields ap esc (zip subs (map (encode ap i2s strs esc st) subs)) ptr)"
| "encode_type ap i2s strs esc st Type_number = (\<lambda>ptr val. num_encode ap i2s (cell_num (load st ptr)))"
| "encode_type ap i2s strs esc st (Type_other t) = (\<lambda>ptr val d. (- EINVAL, d))"

definition json_obj_encode_full ::
    "'d sink \<Rightarrow> (int \<Rightarrow> string) \<Rightarrow> (nat \<Rightarrow> string) \<Rightarrow> bool \<Rightarrow> store \<Rightarrow>
     json_obj_descr list \<Rightarrow> int \<Rightarrow> 'd \<Rightarrow> int \<times> 'd" where
  "json_obj_encode_full ap i2s strs esc st descr val d =
     obj_encode_fields ap esc (zip descr (map (encode ap i2s strs esc st) descr)) val d"

definition json_arr_encode_full ::
    "'d sink \<Rightarrow> (int \<Rightarrow> string) \<Rightarrow> (nat \<Rightarrow> string) \<Rightarrow> bool \<Rightarrow> store \<Rightarrow>
     json_obj_descr \<Rightarrow> int \<Rightarrow> 'd \<Rightarrow> int \<times> 'd" where
  "json_arr_encode_full ap i2s strs esc st descr val d =
     (case descr_type descr of
        Type_array e n \<Rightarrow> arr_encode ap (encode ap i2s strs esc st e) st e (val + int (offset descr)) val d
      | _ \<Rightarrow> (0, d))"

definition json_obj_encode ::
    "'d sink \<Rightarrow> (int \<Rightarrow> string) \<Rightarrow> (nat \<Rightarrow> string) \<Rightarrow> store \<Rightarrow>
     json_obj_descr list \<Rightarrow> int \<Rightarrow> 'd \<Rightarrow> int \<times> 'd" where
  "json_obj_encode ap i2s strs st descr val d = json_obj_encode_full ap i2s strs True st descr val d"

definition json_arr_encode ::
    "'d sink \<Rightarrow> (int \<Rightarrow> string) \<Rightarrow> (nat \<Rightarrow> string) \<Rightarrow> store \<Rightarrow>
     json_obj_descr \<Rightarrow> int \<Rightarrow> 'd \<Rightarrow> int \<times> 'd" where
  "json_arr_encode ap i2s strs st descr val d = json_arr_encode_full ap i2s strs True st descr val d"

definition json_obj_encode_buf ::
    "(int \<Rightarrow> string) \<Rightarrow> (nat \<Rightarrow> string) \<Rightarrow> store \<Rightarrow> json_obj_descr list \<Rightarrow> int \<Rightarrow> string \<Rightarrow> int \<times> appender_t" where
  "json_obj_encode_buf i2s strs st descr val buf =
     json_obj_encode append_bytes_to_buf i2s strs st descr val
       \<lparr>buffer = buf, used = 0, a_size = length buf, overrun = False\<rparr>"

definition json_calc_encoded_len ::
    "(int \<Rightarrow> string) \<Rightarrow> (nat \<Rightarrow> string) \<Rightarrow> store \<Rightarrow> json_obj_descr list \<Rightarrow> int \<Rightarrow> int" where
  "json_calc_encoded_len i2s strs st descr val =
     (case json_obj_encode measure_bytes i2s strs st descr val 0 of
        (ret, n) \<Rightarrow> if ret < 0 then ret else n)"

section \<open>The text of a value\<close>

fun join :: "string list \<Rightarrow> string" where
  "join [] = []"
| "join [s] = s"
| "join (s # s' # ss) = s @ '','' @ join (s' # ss)"

lemma join_snoc: "join (ss @ [s]) = concat (map (\<lambda>s. s @ '','') ss) @ s"
  by (induction ss rule: join.induct) auto

definition quoted :: "string \<Rightarrow> string" where
  "quoted s = [CHR 0x22] @ s @ [CHR 0x22]"

text \<open>
  \<^verbatim>\<open>str\<close> is the text between the quotes of the string at an address, \<^verbatim>\<open>ktxt\<close> the
  text of a key with its colon.
\<close>

definition elements_text :: "(int \<Rightarrow> string) \<Rightarrow> json_obj_descr \<Rightarrow> int \<Rightarrow> nat \<Rightarrow> string" where
  "elements_text txt e field n =
     ''['' @ join (map (\<lambda>i. txt (field + int i * get_elem_size e - int (offset e))) [0..<n]) @ '']''"

definition object_text :: "string list \<Rightarrow> string" where
  "object_text flds = ''{'' @ join (rotate1 flds) @ ''}''"

primrec value_text :: "(nat \<Rightarrow> string) \<Rightarrow> (json_obj_descr \<Rightarrow> string) \<Rightarrow> store \<Rightarrow> json_obj_descr \<Rightarrow> int \<Rightarrow> string"
and type_text :: "(nat \<Rightarrow> string) \<Rightarrow> (json_obj_descr \<Rightarrow> string) \<Rightarrow> store \<Rightarrow> descr_type \<Rightarrow> int \<Rightarrow> int \<Rightarrow> string" where
  "value_text str ktxt st (Descr nm al fl off ty) = (\<lambda>val. type_text str ktxt st ty (val + int off) val)"
| "type_text str ktxt st Type_false = (\<lambda>ptr val. if cell_bool (load st ptr) then ''true'' else ''false'')"
| "type_text str ktxt st Type_true = (\<lambda>ptr val. if cell_bool (load st ptr) then ''true'' else ''false'')"
| "type_text str ktxt st Type_string = (\<lambda>ptr val. quoted (str (cell_ptr (load st ptr))))"
| "type_text str ktxt st (Type_array e n) =
     (\<lambda>ptr val. elements_text (value_text str ktxt st e) e ptr (cell_count (load st (val + int (offset e)))))"
| "type_text str ktxt st (Type_object subs) =
     (\<lambda>ptr val. object_text (map2 (\<lambda>d txt. ktxt d @ txt ptr) subs (map (value_text str ktxt st) subs)))"
| "type_text str ktxt st Type_number = (\<lambda>ptr val. dec_int (cell_num (load st ptr)))"
| "type_text str ktxt st (Type_other t) = (\<lambda>ptr val. [])"

text \<open>The two forms of a key: as the descriptor holds it, and what escaping makes of the whole field name.\<close>

definition plain_key :: "json_obj_descr \<Rightarrow> string" where
  "plain_key d = quoted (take (field_name_len d) (field_name d)) @ '':''"

definition escaped_key :: "json_obj_descr \<Rightarrow> string" where
  "escaped_key d = quoted (internal_text [] (field_name d)) @ '':''"

text \<open>Descriptors that the macros make: every type is one of the encoder, every key is named as they do.\<close>

definition named :: "json_obj_descr \<Rightarrow> bool" where
  "named d \<longleftrightarrow> field_name d = json_field_name (take (field_name_len d) (field_name d)) \<and>
     field_name_len d \<le> length (field_name d)"

primrec encodable :: "json_obj_descr \<Rightarrow> bool" and type_encodable :: "descr_type \<Rightarrow> bool" where
  "encodable (Descr nm al fl off ty) = type_encodable ty"
| "type_encodable (Type_array e n) = encodable e"
| "type_encodable (Type_object subs) = (list_all named subs \<and> list_all id (map encodable subs))"
| "type_encodable (Type_other t) = False"
| "type_encodable Type_false = True"
| "type_encodable Type_true = True"
| "type_encodable Type_string = True"
| "type_encodable Type_number = True"

section \<open>The encoder against the text\<close>

definition int32 :: "int \<Rightarrow> bool" where
  "int32 i \<longleftrightarrow> - (2 ^ 31) \<le> i \<and> i < 2 ^ 31"

text \<open>What \<^verbatim>\<open>int_to_string\<close> is documented to do, and numbers that are \<^verbatim>\<open>int32_t\<close>.\<close>

definition prints_int32 :: "(int \<Rightarrow> string) \<Rightarrow> bool" where
  "prints_int32 i2s \<longleftrightarrow> (\<forall>i. int32 i \<longrightarrow> i2s i = dec_int i)"

definition nums_int32 :: "store \<Rightarrow> bool" where
  "nums_int32 st \<longleftrightarrow> (\<forall>a. int32 (cell_num (st a)))"

context appender
begin

definition writes :: "string \<Rightarrow> ('d \<Rightarrow> int \<times> 'd) \<Rightarrow> bool" where
  "writes s f \<longleftrightarrow> (\<forall>d. wrote s (0, d) (f d))"

lemma writesI: "(\<And>d. wrote s (0, d) (f d)) \<Longrightarrow> writes s f"
  by (simp add: writes_def)

lemma wrote_or_ret:
  assumes "writes s f"
  shows "wrote s rd (or_ret f rd)"
proof (cases rd)
  case (Pair r d)
  obtain r' d' where a: "f d = (r', d')" by (cases "f d")
  have "wrote s (0, d) (f d)" using assms by (simp add: writes_def)
  then have "valid d \<Longrightarrow> r' \<in> codes" "valid d \<Longrightarrow> valid d'" "valid d \<Longrightarrow> r' = 0 \<Longrightarrow> observe d' = extend (observe d) s"
    "\<And>n. valid d \<Longrightarrow> enough d (length s + n) \<Longrightarrow> r' = 0 \<and> enough d' n"
    unfolding a wrote_def by (simp_all add: code_0)
  with code_or [of r r'] show ?thesis
    unfolding wrote_def or_ret_def Pair fst_conv snd_conv a prod.case or_eq_0_iff by metis
qed

lemma wrote_then_append: "wrote s rd rd' \<Longrightarrow> wrote (s @ s') rd (append_or append_bytes s' rd')"
  by (rule wrote_trans [OF _ wrote_append])

lemma wrote_then_or: "wrote s rd rd' \<Longrightarrow> writes s' f \<Longrightarrow> wrote (s @ s') rd (or_ret f rd')"
  by (rule wrote_trans [OF _ wrote_or_ret])

lemma append_writes: "writes s (append_bytes s)"
proof (rule writesI)
  fix d
  have "append_or append_bytes s (0, d) = append_bytes s d" by (simp add: append_or_def split: prod.splits)
  then show "wrote s (0, d) (append_bytes s d)" using wrote_append [of s "(0, d)"] by simp
qed

lemma str_encode_writes: "writes (quoted (internal_text [] s)) (str_encode append_bytes s)"
proof (rule writesI)
  fix d
  have "writes (internal_text [] s) (json_escape_internal append_bytes s)"
    by (intro writesI json_escape_internal_wrote)
  from wrote_then_append [OF wrote_then_or [OF wrote_append this], of "[CHR 0x22]" "[CHR 0x22]" "(0, d)"]
  show "wrote (quoted (internal_text [] s)) (0, d) (str_encode append_bytes s d)"
    by (simp add: str_encode_def quoted_def)
qed

lemma encode_key_writes:
  assumes "named k"
  shows "writes (if esc then escaped_key k else plain_key k) (encode_key append_bytes esc k)"
proof (cases esc)
  case True
  have "wrote (escaped_key k) (0, d) (encode_key append_bytes True k d)" for d
    using wrote_then_append [OF wrote_or_ret [OF str_encode_writes], of "field_name k" "'':''" "(0, d)"]
    by (simp add: escaped_key_def encode_key_def)
  with True show ?thesis by (simp add: writes_def)
next
  case False
  define name where "name = take (field_name_len k) (field_name k)"
  have "field_name k = json_field_name name" "length name = field_name_len k"
    using assms by (auto simp: named_def name_def)
  then have "take (field_name_len k + 3) (drop (field_name_len k) (field_name k)) = plain_key k"
    unfolding plain_key_def name_def [symmetric] by (simp add: json_field_name_def quoted_def)
  with False append_writes [of "plain_key k"] show ?thesis by (simp add: encode_key_def writes_def)
qed

lemma arr_encode_loop_wrote:
  assumes "\<And>v. writes (txt v) (enc v)"
  shows "\<exists>rd'. arr_encode_loop append_bytes enc e n field rd = (field + int n * get_elem_size e, rd') \<and>
    wrote (concat (map (\<lambda>i. txt (field + int i * get_elem_size e - int (offset e)) @ '','') [0..<n])) rd rd'"
proof (induction n arbitrary: field rd)
  case 0
  show ?case by (simp add: wrote_refl)
next
  case (Suc n)
  let ?es = "get_elem_size e" and ?t = "txt (field - int (offset e))"
  let ?rd = "append_or append_bytes '','' (or_ret (enc (field - int (offset e))) rd)"
  have head: "wrote (?t @ '','') rd ?rd" by (intro wrote_then_append wrote_or_ret assms)
  obtain rd' where rd': "arr_encode_loop append_bytes enc e n (field + ?es) ?rd = (field + ?es + int n * ?es, rd')"
    "wrote (concat (map (\<lambda>i. txt (field + ?es + int i * ?es - int (offset e)) @ '','') [0..<n])) ?rd rd'"
    using Suc.IH by blast
  have "map (\<lambda>i. txt (field + int i * ?es - int (offset e)) @ '','') [0..<Suc n] =
      (?t @ '','') # map (\<lambda>i. txt (field + ?es + int i * ?es - int (offset e)) @ '','') [0..<n]"
    by (simp only: upt_conv_Cons [OF zero_less_Suc] map_Suc_upt [symmetric] list.map map_map)
      (simp add: algebra_simps comp_def)
  then show ?case using wrote_trans [OF head rd'(2)] rd'(1) by (simp add: algebra_simps)
qed

lemma arr_encode_writes:
  assumes "\<And>v. writes (txt v) (enc v)"
  shows "writes (elements_text txt e field (cell_count (load st (val + int (offset e))))) (arr_encode append_bytes enc st e field val)"
proof (rule writesI)
  fix d
  let ?n = "cell_count (load st (val + int (offset e)))"
  let ?t = "\<lambda>i. txt (field + int i * get_elem_size e - int (offset e))"
  show "wrote (elements_text txt e field ?n) (0, d) (arr_encode append_bytes enc st e field val d)"
  proof (cases ?n)
    case 0
    then show ?thesis using wrote_then_append [OF wrote_append, of "''[''" "'']''" "(0, d)"]
      by (simp add: elements_text_def arr_encode_def)
  next
    case (Suc k)
    let ?rd = "append_or append_bytes ''['' (0, d)"
    obtain rd' where rd': "arr_encode_loop append_bytes enc e k field ?rd = (field + int k * get_elem_size e, rd')"
      "wrote (concat (map (\<lambda>i. ?t i @ '','') [0..<k])) ?rd rd'"
      using arr_encode_loop_wrote [of "txt" enc, OF assms] by blast
    from wrote_then_append [OF wrote_then_or [OF wrote_trans [OF wrote_append rd'(2)] assms]]
    have "wrote (((''['' @ concat (map (\<lambda>i. ?t i @ '','') [0..<k])) @ ?t k) @ '']'') (0, d)
      (append_or append_bytes '']'' (or_ret (enc (field + int k * get_elem_size e - int (offset e))) rd'))" .
    moreover have "join (map ?t [0..<Suc k]) = concat (map (\<lambda>i. ?t i @ '','') [0..<k]) @ ?t k"
      by (simp add: join_snoc comp_def)
    ultimately show ?thesis using rd'(1) Suc by (simp add: elements_text_def arr_encode_def Let_def del: upt_Suc)
  qed
qed

text \<open>\<^verbatim>\<open>field_writes esc ptr txt de\<close>: the encoder paired with a descriptor writes the field's text.\<close>

definition field_writes :: "bool \<Rightarrow> int \<Rightarrow> (json_obj_descr \<Rightarrow> string) \<Rightarrow> json_obj_descr \<times> 'd encoder \<Rightarrow> bool" where
  "field_writes esc ptr txt de \<longleftrightarrow> named (fst de) \<and> writes (txt (fst de)) (snd de ptr)"

definition field_text :: "bool \<Rightarrow> (json_obj_descr \<Rightarrow> string) \<Rightarrow> json_obj_descr \<Rightarrow> string" where
  "field_text esc txt d = (if esc then escaped_key d else plain_key d) @ txt d"

lemma field_wrote:
  "field_writes esc ptr txt de \<Longrightarrow> wrote s rd rd' \<Longrightarrow>
    wrote (s @ field_text esc txt (fst de)) rd (or_ret (snd de ptr) (or_ret (encode_key append_bytes esc (fst de)) rd'))"
  unfolding field_writes_def field_text_def append_assoc [symmetric]
  by (elim conjE, intro wrote_then_or encode_key_writes)

lemma obj_encode_loop_wrote:
  "list_all (field_writes esc ptr txt) des \<Longrightarrow> wrote s rd rd' \<Longrightarrow>
    wrote (s @ concat (map (\<lambda>de. field_text esc txt (fst de) @ '','') des)) rd (obj_encode_loop append_bytes esc des ptr rd')"
proof (induction des arbitrary: s rd')
  case Nil
  then show ?case by simp
next
  case (Cons de des)
  have "wrote ((s @ field_text esc txt (fst de)) @ '','') rd
      (append_or append_bytes '','' (or_ret (snd de ptr) (or_ret (encode_key append_bytes esc (fst de)) rd')))"
    using Cons.prems by (intro wrote_then_append field_wrote) simp_all
  from Cons.IH [OF _ this] Cons.prems(1) show ?case by simp
qed

lemma obj_encode_fields_writes:
  "list_all (field_writes esc ptr txt) des \<Longrightarrow>
    writes (object_text (map (\<lambda>de. field_text esc txt (fst de)) des)) (obj_encode_fields append_bytes esc des ptr)"
proof (rule writesI, cases des)
  case Nil
  fix d
  show "wrote (object_text (map (\<lambda>de. field_text esc txt (fst de)) des)) (0, d) (obj_encode_fields append_bytes esc des ptr d)"
    using wrote_then_append [OF wrote_append, of "''{''" "''}''" "(0, d)"] Nil by (simp add: object_text_def)
next
  case (Cons de ds)
  fix d
  assume *: "list_all (field_writes esc ptr txt) des"
  let ?t = "\<lambda>de. field_text esc txt (fst de)"
  have "wrote (''{'' @ concat (map (\<lambda>de. ?t de @ '','') ds)) (0, d)
      (obj_encode_loop append_bytes esc ds ptr (append_or append_bytes ''{'' (0, d)))"
    using * Cons by (intro obj_encode_loop_wrote wrote_append) simp
  from wrote_then_append [OF field_wrote [OF _ this], of esc ptr "txt" de "''}''"]
  show "wrote (object_text (map ?t des)) (0, d) (obj_encode_fields append_bytes esc des ptr d)"
    using * Cons join_snoc [of "map ?t ds" "?t de"] by (simp add: object_text_def comp_def)
qed

text \<open>The text of the fields as the encoder meets them.\<close>

lemma fields_text:
  "map2 (\<lambda>d t. (if esc then escaped_key else plain_key) d @ t ptr) subs (map vt subs) =
    map (\<lambda>de. field_text esc (\<lambda>d. vt d ptr) (fst de)) (zip subs (map enc subs))"
  by (induction subs) (auto simp: field_text_def)

lemma encode_writes:
  assumes "prints_int32 i2s" "nums_int32 st"
  shows "encodable d \<Longrightarrow>
      writes (value_text (\<lambda>p. internal_text [] (strs p)) (if esc then escaped_key else plain_key) st d val)
        (encode append_bytes i2s strs esc st d val)"
    and "type_encodable ty \<Longrightarrow>
      writes (type_text (\<lambda>p. internal_text [] (strs p)) (if esc then escaped_key else plain_key) st ty ptr val)
        (encode_type append_bytes i2s strs esc st ty ptr val)"
proof (induction d and ty arbitrary: val and ptr val)
  case (Descr nm al fl off ty)
  then show ?case by simp
next
  case (Type_object subs)
  let ?vt = "value_text (\<lambda>p. internal_text [] (strs p)) (if esc then escaped_key else plain_key) st"
  let ?enc = "encode append_bytes i2s strs esc st"
  have "list_all (field_writes esc ptr (\<lambda>d. ?vt d ptr)) (zip subs (map ?enc subs))"
    using Type_object by (auto simp: list_all_iff field_writes_def in_set_zip)
  from obj_encode_fields_writes [OF this] show ?case
    by (simp only: type_text.simps encode_type.simps fields_text [where enc = ?enc])
next
  case (Type_array e n)
  then show ?case by (simp add: arr_encode_writes)
next
  case Type_number
  have "i2s (cell_num (load st ptr)) = dec_int (cell_num (load st ptr))"
    using assms by (simp add: prints_int32_def nums_int32_def)
  with append_writes [of "dec_int (cell_num (load st ptr))"] show ?case
    by (simp add: num_encode_def [abs_def])
next
  case Type_true
  then show ?case using append_writes by (simp add: bool_encode_def [abs_def])
next
  case Type_false
  then show ?case using append_writes by (simp add: bool_encode_def [abs_def])
qed (simp_all add: str_encode_writes)

text \<open>The text of an object, and the encoder of objects.\<close>

lemma json_obj_encode_full_writes:
  assumes "prints_int32 i2s" "nums_int32 st" "type_encodable (Type_object descr)"
  shows "writes (type_text (\<lambda>p. internal_text [] (strs p)) (if esc then escaped_key else plain_key) st (Type_object descr) ptr val)
    (json_obj_encode_full append_bytes i2s strs esc st descr ptr)"
  using encode_writes(2) [OF assms, of strs esc ptr val] by (simp add: json_obj_encode_full_def [abs_def])

lemma json_arr_encode_full_writes:
  assumes "prints_int32 i2s" "nums_int32 st" "encodable d" "descr_type d = Type_array e n"
  shows "writes (value_text (\<lambda>p. internal_text [] (strs p)) (if esc then escaped_key else plain_key) st d val)
    (json_arr_encode_full append_bytes i2s strs esc st d val)"
proof (cases d)
  case (Descr nm al fl off ty)
  with encode_writes(1) [OF assms(1,2,3), of strs esc val] assms(4) show ?thesis
    by (simp add: json_arr_encode_full_def [abs_def])
qed

end

section \<open>Appending to the response\<close>

text \<open>
  \<^verbatim>\<open>append_to_strbuf\<close> of \<^verbatim>\<open>techempower.c\<close>; \<^verbatim>\<open>sb_append\<close> is
  \<^verbatim>\<open>lwan_strbuf_append_str\<close> of the lwan library, and what is documented of it is that
  it answers whether it could append the bytes.
\<close>

definition append_to_strbuf :: "('b \<Rightarrow> string \<Rightarrow> bool \<times> 'b) \<Rightarrow> 'b sink" where
  "append_to_strbuf sb_append bytes sb = (case sb_append sb bytes of (ok, sb') \<Rightarrow> (if ok then 0 else 1, sb'))"

definition strbuf_appends :: "('b \<Rightarrow> string \<Rightarrow> bool \<times> 'b) \<Rightarrow> ('b \<Rightarrow> string) \<Rightarrow> bool" where
  "strbuf_appends sb_append contents \<longleftrightarrow>
     (\<forall>sb s. fst (sb_append sb s) \<longrightarrow> contents (snd (sb_append sb s)) = contents sb @ s)"

lemma strbuf_appender:
  "strbuf_appends sb_append contents \<Longrightarrow>
    appender (append_to_strbuf sb_append) contents (@) (\<lambda>_. True) (\<lambda>_ _. \<forall>sb s. fst (sb_append sb s)) {0, 1}"
  by unfold_locales (auto simp: append_to_strbuf_def strbuf_appends_def split_beta split: if_splits)

section \<open>Properties\<close>

text \<open>C8. Encoding an object into the response, as the handlers do, with any descriptors that the macros
  of \<^verbatim>\<open>json.h\<close> make and any structure whose numbers are 32-bit integers: when the encoder
  answers 0, it has appended the fields of the object, the first one last, each key as the descriptor
  names it, without escaping, then arrays and nested objects in order, numbers in decimal, and for each
  string the text that \<^verbatim>\<open>json_escape_internal\<close> makes of it.  That text repeats a character
  that it escapes when nothing precedes it or an escaped one does; when the strings have no such character
  (\<^verbatim>\<open>escapes_apart\<close>), what was appended is the JSON text of the object with its strings
  properly escaped.\<close>

theorem encode_to_strbuf:
  assumes "strbuf_appends sb_append contents" "prints_int32 i2s" "nums_int32 st" "type_encodable (Type_object descr)"
    "json_obj_encode_full (append_to_strbuf sb_append) i2s strs False st descr val sb = (0, sb')"
  shows "contents sb' = contents sb @ type_text (\<lambda>p. internal_text [] (strs p)) plain_key st (Type_object descr) val val \<and>
    ((\<forall>p. escapes_apart False (strs p)) \<longrightarrow>
      contents sb' = contents sb @ type_text (\<lambda>p. escape_string (strs p)) plain_key st (Type_object descr) val val)"
proof -
  note ap = strbuf_appender [OF assms(1)]
  from appender.json_obj_encode_full_writes [OF ap assms(2,3,4), of strs False val val]
  have "appender.wrote contents (@) (\<lambda>_. True) (\<lambda>_ _. \<forall>sb s. fst (sb_append sb s)) {0, 1}
      (type_text (\<lambda>p. internal_text [] (strs p)) plain_key st (Type_object descr) val val) (0, sb) (0, sb')"
    unfolding appender.writes_def [OF ap] using assms(5) by (auto dest: spec [of _ sb])
  from appender.wrote_start(3) [OF ap this]
  have written: "contents sb' = contents sb @ type_text (\<lambda>p. internal_text [] (strs p)) plain_key st (Type_object descr) val val"
    by simp
  have "(\<lambda>p. internal_text [] (strs p)) = (\<lambda>p. escape_string (strs p))" if "\<forall>p. escapes_apart False (strs p)"
    using that by (simp add: internal_text_ok)
  with written show ?thesis by simp
qed

definition sample_store :: store where
  "sample_store = (\<lambda>a. if a = 0 then Num 7 else if a = 4 then Num (- 3) else Ptr 0)"

definition sample_descr :: "json_obj_descr list" where
  "sample_descr = [json_obj_descr_prim 4 ''id'' 0 Type_number, json_obj_descr_prim 4 ''n'' 4 Type_number,
     json_obj_descr_prim 8 ''s'' 8 Type_string]"

definition sample_text :: string where
  "sample_text = (let q = [CHR 0x22]
     in ''{'' @ q @ ''n'' @ q @ '':-3,'' @ q @ ''s'' @ q @ '':'' @ q @ ''hi'' @ q @ '','' @ q @ ''id'' @ q @ '':7}'')"

lemma sample_encodable: "type_encodable (Type_object sample_descr)" "nums_int32 sample_store" "prints_int32 dec_int"
  by (simp_all add: sample_descr_def json_obj_descr_prim_def named_def json_field_name_def nums_int32_def
      sample_store_def int32_def prints_int32_def)

lemma char_of_digits: "char_of (51 :: nat) = CHR ''3''" "char_of (55 :: nat) = CHR ''7''"
  by code_simp+

lemma sample_plain: "type_text (\<lambda>_. ''hi'') plain_key sample_store (Type_object sample_descr) 0 0 = sample_text"
  by (simp add: sample_descr_def json_obj_descr_prim_def json_field_name_def sample_store_def object_text_def
      plain_key_def quoted_def dec_int_def dec_small digit_char_def char_of_digits sample_text_def Let_def)

theorem encode_to_strbuf_witness:
  "snd (json_obj_encode_full (append_to_strbuf (\<lambda>sb s. (True, sb @ s))) dec_int (\<lambda>_. ''hi'') False sample_store sample_descr 0 [])
    = sample_text"
proof -
  let ?r = "json_obj_encode_full (append_to_strbuf (\<lambda>sb s. (True, sb @ s))) dec_int (\<lambda>_. ''hi'') False sample_store sample_descr 0 []"
  have "strbuf_appends (\<lambda>sb s. (True, sb @ s)) id" by (simp add: strbuf_appends_def)
  moreover have "?r = (0, snd ?r)" by code_simp
  moreover have "escape_string ''hi'' = ''hi''" "escapes_apart False ''hi''" by (simp_all add: escaped_char_def escape_letter_def)
  ultimately show ?thesis
    using encode_to_strbuf [of "\<lambda>sb s. (True, sb @ s)" id dec_int sample_store sample_descr "\<lambda>_. ''hi''" 0 "[]" "snd ?r"]
      sample_encodable sample_plain by simp
qed

text \<open>The length \<^verbatim>\<open>json_calc_encoded_len\<close> measures is the number of bytes the encoder writes:
  encoding into a buffer with one more byte succeeds, fills exactly so many bytes, writes
  nothing behind the buffer, and leaves the text in it; into a smaller buffer it fails.\<close>

theorem encoded_len_fits:
  fixes buf :: string
  assumes "prints_int32 i2s" "nums_int32 st" "type_encodable (Type_object descr)"
    "json_obj_encode_buf i2s strs st descr val buf = (r, a)"
  shows "if json_calc_encoded_len i2s strs st descr val < int (length buf)
    then r = 0 \<and> int (used a) = json_calc_encoded_len i2s strs st descr val \<and> \<not> overrun a \<and>
      take (used a) (buffer a) =
        type_text (\<lambda>p. internal_text [] (strs p)) escaped_key st (Type_object descr) val val
    else json_calc_encoded_len i2s strs st descr val = int (length buf) \<or> r < 0"
proof -
  let ?t = "type_text (\<lambda>p. internal_text [] (strs p)) escaped_key st (Type_object descr) val val"
  let ?a = "\<lparr>buffer = buf, used = 0, a_size = length buf, overrun = False\<rparr>"
  have valid: "buffer_valid ?a \<and> a_size ?a = length buf" by (simp add: buffer_valid_def)
  obtain mr n where m: "json_obj_encode_full measure_bytes i2s strs True st descr val 0 = (mr, n)"
    by (cases "json_obj_encode_full measure_bytes i2s strs True st descr val 0")
  have mw: "measured.wrote ?t (0, 0) (mr, n)"
    using measured.json_obj_encode_full_writes [OF assms(1,2,3), of strs True val val] m [symmetric]
    by (simp add: measured.writes_def)
  have "mr = 0" using measured.wrote_start(1) [OF mw] by simp
  then have len: "json_calc_encoded_len i2s strs st descr val = int (length ?t)"
    using measured.wrote_start(3) [OF mw] m by (simp add: json_calc_encoded_len_def json_obj_encode_def)
  have sw: "strict_buf.wrote (length buf) ?t (0, ?a) (r, a)"
    using strict_buf.json_obj_encode_full_writes
        [OF assms(1,2,3), of "length buf" strs True val val, unfolded strict_buf.writes_def, rule_format, of "?a"] assms(4)
    by (simp add: json_obj_encode_buf_def json_obj_encode_def)
  have r: "r \<le> 0" and used: "used a \<le> length (buffer a)" "length (buffer a) = length buf"
    and content: "r = 0 \<Longrightarrow> take (used a) (buffer a) = ?t"
    and fits: "length ?t < length buf \<Longrightarrow> r = 0 \<and> \<not> overrun a"
    using strict_buf.wrote_start(1,2,3) [OF sw valid] strict_buf.wrote_start(4,5) [OF sw valid, of 0]
    by (simp_all add: buffer_valid_def)
  have n: "length ?t = used a" if "r = 0" using arg_cong [OF content [OF that], of length] used by simp
  show ?thesis
  proof (cases "length ?t < length buf")
    case True
    then show ?thesis using fits content n len by simp
  next
    case False
    then have "r = 0 \<Longrightarrow> length ?t = length buf" using n used by linarith
    with False r show ?thesis using len by fastforce
  qed
qed

theorem encoded_len_fits_witness:
  "\<exists>a. json_obj_encode_buf dec_int (\<lambda>_. ''hi'') sample_store sample_descr 0 (replicate 60 NUL) = (0, a) \<and> used a = 43 \<and> \<not> overrun a"
proof -
  obtain r a where ra: "json_obj_encode_buf dec_int (\<lambda>_. ''hi'') sample_store sample_descr 0 (replicate 60 NUL) = (r, a)"
    by (cases "json_obj_encode_buf dec_int (\<lambda>_. ''hi'') sample_store sample_descr 0 (replicate 60 NUL)")
  have "json_calc_encoded_len dec_int (\<lambda>_. ''hi'') sample_store sample_descr 0 = 43" by code_simp
  with encoded_len_fits [OF sample_encodable(3,2,1) ra] ra show ?thesis by simp
qed

text \<open>\<^verbatim>\<open>json_obj_encode\<close> writes its keys wrongly: it escapes the whole field name of the descriptor,
  which holds the name twice, so that the key \<^verbatim>\<open>id\<close> comes out with a second, escaped
  \<^verbatim>\<open>id\<close> and a colon inside its quotes.\<close>

theorem escaped_key_doubled:
  "\<exists>a. json_obj_encode_buf dec_int strs (\<lambda>_. Num 5) [json_obj_descr_prim 4 ''id'' 0 Type_number] 0 (replicate 20 NUL) = (0, a) \<and>
    take (used a) (buffer a) = ''{'' @ [CHR 0x22] @ ''id'' @ [CHR 0x5C, CHR 0x22] @ ''id'' @ [CHR 0x5C, CHR 0x22] @ '':''
      @ [CHR 0x22] @ '':5}''"
proof -
  let ?r = "json_obj_encode_buf dec_int strs (\<lambda>_. Num 5) [json_obj_descr_prim 4 ''id'' 0 Type_number] 0 (replicate 20 NUL)"
  have "(fst ?r, take (used (snd ?r)) (buffer (snd ?r))) =
      (0, ''{'' @ [CHR 0x22] @ ''id'' @ [CHR 0x5C, CHR 0x22] @ ''id'' @ [CHR 0x5C, CHR 0x22] @ '':'' @ [CHR 0x22] @ '':5}'')"
    by code_simp
  then show ?thesis by (cases ?r) auto
qed

end
