(* ===== verification/Json_Descr.thy ===== *)
theory Json_Descr
  imports Json_Encode
begin

text \<open>
  The remaining macros of \<^verbatim>\<open>json.h\<close> that make descriptors: those for a field whose name
  in JSON differs from its name in the structure, and the one for arrays of arrays.  The argument of
  a macro is its source text: the preprocessor turns it into a string in
  \<^verbatim>\<open>JSON_FIELD_NAME\<close>, so that a string literal keeps its quotes.
\<close>

definition json_obj_descr_prim_named :: "nat \<Rightarrow> string \<Rightarrow> nat \<Rightarrow> descr_type \<Rightarrow> json_obj_descr" where
  "json_obj_descr_prim_named struct_align spelling off ty =
     Descr (json_field_name spelling) struct_align (length spelling) off ty"

definition json_obj_descr_object_named :: "nat \<Rightarrow> string \<Rightarrow> nat \<Rightarrow> json_obj_descr list \<Rightarrow> json_obj_descr" where
  "json_obj_descr_object_named struct_align spelling off sub_descr =
     Descr (json_field_name spelling) struct_align (length spelling) off (Type_object sub_descr)"

definition json_obj_descr_array_named :: "nat \<Rightarrow> string \<Rightarrow> nat \<Rightarrow> nat \<Rightarrow> nat \<Rightarrow> descr_type \<Rightarrow> json_obj_descr" where
  "json_obj_descr_array_named struct_align spelling off max_len len_off elem_type =
     Descr (json_field_name spelling) struct_align (length spelling) off
       (Type_array (Descr [] struct_align 0 len_off elem_type) max_len)"

text \<open>
  The macro for arrays of arrays fills in the members for an object under the type of an array;
  both lie at the same place, so the element of the inner array is the first descriptor given, and
  its bound is the number of descriptors.
\<close>

definition json_obj_descr_array_array :: "nat \<Rightarrow> string \<Rightarrow> nat \<Rightarrow> nat \<Rightarrow> nat \<Rightarrow> json_obj_descr list \<Rightarrow> json_obj_descr" where
  "json_obj_descr_array_array struct_align name off max_len len_off elem_descr =
     Descr (json_field_name name) struct_align (length name) off
       (Type_array (Descr [] struct_align 0 len_off (Type_array (hd elem_descr) (length elem_descr))) max_len)"

text \<open>With an identifier as the name they are the macros without a name of its own.\<close>

lemma named_identifier:
  "json_obj_descr_prim_named a name off ty = json_obj_descr_prim a name off ty"
  "json_obj_descr_object_named a name off subs = json_obj_descr_object a name off subs"
  "json_obj_descr_array_named a name off n len_off et = json_obj_descr_array a name off n len_off et"
  by (simp_all add: json_obj_descr_prim_named_def json_obj_descr_prim_def json_obj_descr_object_named_def json_obj_descr_object_def
      json_obj_descr_array_named_def json_obj_descr_array_def)

text \<open>
  With a string literal, as their documentation has it, the name begins with a quote.  No key in a
  payload does, because a quote ends the key: the field is never found, and it is encoded with two
  quotes on each side.
\<close>

definition literal :: "string \<Rightarrow> string" where
  "literal s = [CHR 0x22] @ s @ [CHR 0x22]"

theorem named_literal_never_found:
  assumes "mem k \<noteq> CHR 0x22"
  shows "find_field mem k klen [json_obj_descr_prim_named a (literal name) off ty] i decoded = None"
    "encode_key append_bytes False (json_obj_descr_prim_named a (literal name) off ty) d =
      append_bytes ([CHR 0x22, CHR 0x22] @ name @ [CHR 0x22, CHR 0x22, CHR '':'']) d"
proof -
  have "substring mem k (k + length (literal name)) \<noteq> take (length (literal name)) (json_field_name (literal name))"
    using assms by (simp add: substring_def literal_def json_field_name_def upt_rec [of k])
  then show "find_field mem k klen [json_obj_descr_prim_named a (literal name) off ty] i decoded = None"
    by (simp add: json_obj_descr_prim_named_def)
  show "encode_key append_bytes False (json_obj_descr_prim_named a (literal name) off ty) d =
      append_bytes ([CHR 0x22, CHR 0x22] @ name @ [CHR 0x22, CHR 0x22, CHR '':'']) d"
    by (simp add: encode_key_def json_obj_descr_prim_named_def literal_def json_field_name_def)
qed

end
