(* ===== verification/Http.thy ===== *)
theory Http
  imports Random_Ids
begin

text \<open>
  What the request handlers of the h2o application share (\<^verbatim>\<open>request_handler.c\<close>):
  status lines, headers, error responses, and reading parameters from the query string.
  The calls a handler makes to h2o to answer a request are recorded, in order, in the
  request; sending itself belongs to h2o.
\<close>

section \<open>Responses\<close>

datatype content_type_t = HTML | JSON | PLAIN

datatype http_status_code_t = OK | INTERNAL_SERVER_ERROR | BAD_GATEWAY | SERVICE_UNAVAILABLE | GATEWAY_TIMEOUT

fun status_number :: "http_status_code_t \<Rightarrow> nat" where
  "status_number OK = 200"
| "status_number INTERNAL_SERVER_ERROR = 500"
| "status_number BAD_GATEWAY = 502"
| "status_number SERVICE_UNAVAILABLE = 503"
| "status_number GATEWAY_TIMEOUT = 504"

fun status_code_to_string :: "http_status_code_t \<Rightarrow> string" where
  "status_code_to_string BAD_GATEWAY = ''Bad Gateway''"
| "status_code_to_string GATEWAY_TIMEOUT = ''Gateway Timeout''"
| "status_code_to_string INTERNAL_SERVER_ERROR = ''Internal Server Error''"
| "status_code_to_string OK = ''OK''"
| "status_code_to_string SERVICE_UNAVAILABLE = ''Service Unavailable''"

text \<open>The texts of the error answers.\<close>

definition DB_ERROR :: string where "DB_ERROR = ''database error'' @ [CHR 0x0A]"
definition DB_REQ_ERROR :: string where "DB_REQ_ERROR = ''too many concurrent database requests'' @ [CHR 0x0A]"
definition DB_TIMEOUT_ERROR :: string where "DB_TIMEOUT_ERROR = ''database timeout'' @ [CHR 0x0A]"
definition REQ_ERROR :: string where "REQ_ERROR = ''request error'' @ [CHR 0x0A]"

text \<open>
  The calls that answer a request: \<^verbatim>\<open>h2o_send_error_generic\<close>, \<^verbatim>\<open>h2o_send_error_503\<close>,
  \<^verbatim>\<open>h2o_send_inline\<close>, and \<^verbatim>\<open>h2o_start_response\<close> with a final \<^verbatim>\<open>h2o_send\<close>.
\<close>

datatype h2o_call =
    Send_error_generic nat string string
  | Send_error_503 string string
  | Send_inline string
  | Send_final string

record h2o_req =
  res_status :: nat
  res_reason :: string
  res_content_length :: nat
  res_headers :: "(string \<times> string) list"
  calls :: "h2o_call list"

definition h2o_add_header :: "string \<Rightarrow> string \<Rightarrow> h2o_req \<Rightarrow> h2o_req" where
  "h2o_add_header name val req = req\<lparr>res_headers := res_headers req @ [(name, val)]\<rparr>"

definition h2o_call :: "h2o_call \<Rightarrow> h2o_req \<Rightarrow> h2o_req" where
  "h2o_call c req = req\<lparr>calls := calls req @ [c]\<rparr>"

definition send_error :: "http_status_code_t \<Rightarrow> string \<Rightarrow> h2o_req \<Rightarrow> h2o_req" where
  "send_error status_code body req =
     h2o_call (Send_error_generic (status_number status_code) (status_code_to_string status_code) body) req"

text \<open>\<^verbatim>\<open>H2O_DEFAULT_HTTP1_REQ_TIMEOUT_IN_SECS\<close> of h2o as a string is a parameter.\<close>

definition send_service_unavailable_error :: "string \<Rightarrow> string \<Rightarrow> h2o_req \<Rightarrow> h2o_req" where
  "send_service_unavailable_error timeout body req =
     h2o_call (Send_error_503 (status_code_to_string SERVICE_UNAVAILABLE) body)
       (h2o_add_header ''retry-after'' timeout req)"

text \<open>\<^verbatim>\<open>h2o_resp_add_date_header\<close> adds the date, a parameter as well.\<close>

fun content_type_string :: "content_type_t \<Rightarrow> string" where
  "content_type_string JSON = ''application/json''"
| "content_type_string PLAIN = ''text/plain''"
| "content_type_string HTML = ''text/html; charset=utf-8''"

definition set_default_response_param :: "string \<Rightarrow> content_type_t \<Rightarrow> nat \<Rightarrow> h2o_req \<Rightarrow> h2o_req" where
  "set_default_response_param date content_type content_length req =
     h2o_add_header ''content-type'' (content_type_string content_type)
       (h2o_add_header ''date'' date
         (req\<lparr>res_content_length := content_length, res_status := status_number OK,
              res_reason := status_code_to_string OK\<rparr>))"

text \<open>The number of times a request has been answered.\<close>

definition answers :: "h2o_req \<Rightarrow> nat" where
  "answers req = length (calls req)"

lemma answers_simps [simp]:
  "answers (h2o_call c req) = Suc (answers req)" "answers (h2o_add_header n v req) = answers req"
  "answers (send_error s b req) = Suc (answers req)"
  "answers (send_service_unavailable_error t b req) = Suc (answers req)"
  "answers (set_default_response_param d ct l req) = answers req"
  by (simp_all add: answers_def h2o_call_def h2o_add_header_def send_error_def
      send_service_unavailable_error_def set_default_response_param_def)

text \<open>\<^verbatim>\<open>handlers/plaintext.c\<close>.\<close>

definition HELLO_RESPONSE :: string where
  "HELLO_RESPONSE = ''Hello, World!''"

definition plaintext :: "string \<Rightarrow> h2o_req \<Rightarrow> h2o_req" where
  "plaintext date req =
     h2o_call (Send_final HELLO_RESPONSE) (set_default_response_param date PLAIN (length HELLO_RESPONSE) req)"

section \<open>Query parameters\<close>

text \<open>\<^verbatim>\<open>memchr\<close>: the index of the first such character.\<close>

fun memchr :: "char \<Rightarrow> string \<Rightarrow> nat option" where
  "memchr c [] = None"
| "memchr c (x # xs) = (if x = c then Some 0 else map_option Suc (memchr c xs))"

lemma memchr_bound: "memchr c s = Some n \<Longrightarrow> n < length s"
  by (induction s arbitrary: n) (auto split: if_splits)

text \<open>
  \<^verbatim>\<open>get_query_param\<close>: \<^verbatim>\<open>buf\<close> holds the bytes from the start of the path on, the
  query occupies the \<^verbatim>\<open>query_len\<close> bytes from the index \<^verbatim>\<open>query\<close>; the result is an
  index into \<^verbatim>\<open>buf\<close> too.
\<close>

function get_query_param :: "string \<Rightarrow> nat \<Rightarrow> nat \<Rightarrow> string \<Rightarrow> nat option" where
  "get_query_param buf query query_len param =
     (if length param < query_len
      then (if take (length param) (drop query buf) = param then Some (query + length param)
            else (case memchr CHR ''&'' (take query_len (drop query buf)) of
                    None \<Rightarrow> None
                  | Some next' \<Rightarrow>
                      get_query_param buf (query + next' + 1) (query_len - (next' + 1)) param))
      else None)"
  by pat_completeness auto
termination
  by (relation "measure (\<lambda>(buf, query, query_len, param). query_len)") (auto dest!: memchr_bound)

declare get_query_param.simps [simp del]

text \<open>
  \<^verbatim>\<open>get_query_number\<close> (\<^verbatim>\<open>handlers/world.c\<close>): \<^verbatim>\<open>query_at\<close> is the index of the
  question mark, or \<^verbatim>\<open>None\<close> (\<^verbatim>\<open>SIZE_MAX\<close>); \<^verbatim>\<open>buf\<close> is the path of length
  \<^verbatim>\<open>path_len\<close> with what lies behind it in the buffer of the connection, which
  \<^verbatim>\<open>atoi\<close> may read.
\<close>

definition QUERIES_PARAMETER :: string where "QUERIES_PARAMETER = ''queries=''"

definition clamp_query_number :: "int \<Rightarrow> nat" where
  "clamp_query_number num_query =
     (if num_query < 1 then 1 else if int MAX_QUERIES < num_query then MAX_QUERIES else nat num_query)"

definition get_query_number :: "string \<Rightarrow> nat \<Rightarrow> nat option \<Rightarrow> nat" where
  "get_query_number buf path_len query_at =
     (let num_query =
            (case query_at of
               None \<Rightarrow> 0
             | Some q \<Rightarrow>
                 (case get_query_param buf (q + 1) (path_len - q - 1) QUERIES_PARAMETER of
                    None \<Rightarrow> 0
                  | Some n \<Rightarrow> atoi (drop n buf)))
      in clamp_query_number num_query)"

section \<open>Finding a parameter\<close>

text \<open>The segments before the one that is looked for: none of them starts with the parameter's name.\<close>

definition skips :: "string \<Rightarrow> string \<Rightarrow> bool" where
  "skips param seg \<longleftrightarrow> CHR ''&'' \<notin> set seg \<and> \<not> prefix param (seg @ ''&'')"

lemma memchr_append: "c \<notin> set s \<Longrightarrow> memchr c (s @ c # t) = Some (length s)"
  by (induction s) auto

lemma prefix_amp:
  assumes "CHR ''&'' \<notin> set param" "prefix param (seg @ CHR ''&'' # r)"
  shows "prefix param (seg @ ''&'')"
  using assms
proof (induction seg arbitrary: param)
  case Nil
  then show ?case by (cases param) auto
next
  case (Cons c seg)
  then show ?case by (cases param) auto
qed

lemma take_eq_prefix: "take (length p) s = p \<longleftrightarrow> prefix p s"
  by (metis append_eq_conv_conj prefix_def)

lemma get_query_param_skip:
  assumes "skips param seg" "CHR ''&'' \<notin> set param" "length param \<le> length rest"
    "drop query buf = seg @ CHR ''&'' # rest @ tail"
  shows "get_query_param buf query (length seg + 1 + length rest) param =
    get_query_param buf (query + length seg + 1) (length rest) param"
proof -
  have "take (length param) (drop query buf) \<noteq> param"
    using assms prefix_amp unfolding take_eq_prefix skips_def by fastforce
  moreover have "memchr CHR ''&'' (take (length seg + 1 + length rest) (drop query buf)) = Some (length seg)"
    using assms memchr_append [of "CHR ''&''" seg] by (simp add: skips_def)
  ultimately show ?thesis
    using assms(3) by (subst get_query_param.simps) simp
qed

lemma get_query_param_found:
  assumes "list_all (skips param) segs" "CHR ''&'' \<notin> set param" "v \<noteq> []"
    "drop query buf = concat (map (\<lambda>s. s @ ''&'') segs) @ param @ v @ tail"
  shows "get_query_param buf query (length (concat (map (\<lambda>s. s @ ''&'') segs)) + length param + length v) param =
    Some (query + length (concat (map (\<lambda>s. s @ ''&'') segs)) + length param)"
  using assms
proof (induction segs arbitrary: query)
  case Nil
  then show ?case by (subst get_query_param.simps) simp
next
  case (Cons seg segs)
  let ?pre = "concat (map (\<lambda>s. s @ ''&'') segs)"
  have "drop query buf = seg @ CHR ''&'' # (?pre @ param @ v) @ tail" using Cons.prems(4) by simp
  from get_query_param_skip [OF _ Cons.prems(2) _ this] Cons.prems(1)
  have "get_query_param buf query (length seg + 1 + length (?pre @ param @ v)) param =
      get_query_param buf (query + length seg + 1) (length (?pre @ param @ v)) param"
    by simp
  moreover have "drop (query + length seg + 1) buf = ?pre @ param @ v @ tail"
  proof -
    have "drop (query + length seg + 1) buf = drop (length seg + 1) (drop query buf)"
      by (simp add: add.commute add.left_commute)
    then show ?thesis using Cons.prems(4) by simp
  qed
  ultimately show ?case
    using Cons.IH [of "query + length seg + 1"] Cons.prems(1-3) by (simp add: algebra_simps)
qed

lemma clamp_range: "1 \<le> clamp_query_number i \<and> clamp_query_number i \<le> MAX_QUERIES"
  by (simp add: clamp_query_number_def MAX_QUERIES_def) linarith

lemma get_query_number_range:
  "1 \<le> get_query_number buf path_len query_at \<and> get_query_number buf path_len query_at \<le> MAX_QUERIES"
  unfolding get_query_number_def Let_def by (rule clamp_range)

lemma atoi_dec: "n < 2 ^ 31 \<Longrightarrow> rest = [] \<or> \<not> isdigit (hd rest) \<Longrightarrow> atoi (dec n @ rest) = int n"
  using strtol10_dec_int [of "int n" rest] by (simp add: atoi_def dec_int_def LONG_MIN_def LONG_MAX_def to_int32_id)

section \<open>Properties\<close>

text \<open>The number of queries of a request: for a query string with \<^verbatim>\<open>queries=N\<close> as a
  parameter, wherever it stands, the handlers run \<^verbatim>\<open>N\<close> queries, at least 1 and at most 500;
  with the parameter at the end of the path, whatever byte that is no digit follows the path in
  the buffer of the connection.\<close>

theorem get_query_number_correct:
  assumes "list_all (skips QUERIES_PARAMETER) segs" "n < 2 ^ 31"
    "others @ behind = [] \<or> \<not> isdigit (hd (others @ behind))"
    "path = path0 @ ''?'' @ concat (map (\<lambda>s. s @ ''&'') segs) @ QUERIES_PARAMETER @ dec n @ others"
  shows "get_query_number (path @ behind) (length path) (Some (length path0)) = max 1 (min 500 n)"
proof -
  let ?pre = "concat (map (\<lambda>s. s @ ''&'') segs)" and ?buf = "path @ behind"
  have drop: "drop (length path0 + 1) ?buf = ?pre @ QUERIES_PARAMETER @ (dec n @ others) @ behind"
    using assms(4) by simp
  have len: "length path - length path0 - 1 = length ?pre + length QUERIES_PARAMETER + length (dec n @ others)"
    using assms(4) by simp
  have amp: "CHR ''&'' \<notin> set QUERIES_PARAMETER" by (simp add: QUERIES_PARAMETER_def)
  have found: "get_query_param ?buf (length path0 + 1) (length path - length path0 - 1) QUERIES_PARAMETER =
      Some (length path0 + 1 + length ?pre + length QUERIES_PARAMETER)"
    unfolding len using get_query_param_found [OF assms(1) amp _ drop] by simp
  have "drop (length path0 + 1 + length ?pre + length QUERIES_PARAMETER) ?buf = dec n @ others @ behind"
    using assms(4) by simp
  then have "get_query_number ?buf (length path) (Some (length path0)) = clamp_query_number (int n)"
    using atoi_dec [OF assms(2,3)] by (simp add: get_query_number_def found [simplified])
  then show ?thesis by (auto simp: clamp_query_number_def MAX_QUERIES_def)
qed

theorem get_query_number_correct_witness:
  "get_query_number (''/queries?a=b&queries=20&x'' @ '' HTTP/1.1'') 25 (Some 8) = 20"
proof -
  let ?p = "''/queries?a=b&queries=20&x''"
  have "dec 20 = ''20''" by (simp add: dec_big dec_small digit_char_def) code_simp
  moreover have "list_all (skips QUERIES_PARAMETER) [''a=b'']" by (simp add: skips_def QUERIES_PARAMETER_def)
  ultimately have "get_query_number (?p @ '' HTTP/1.1'') (length ?p) (Some (length ''/queries'')) = max 1 (min 500 20)"
    by (intro get_query_number_correct [of "[''a=b'']" 20 "''&x''"]) (simp_all add: QUERIES_PARAMETER_def isdigit_def)
  moreover have "length ?p = 25" "length ''/queries'' = 8" by code_simp+
  moreover have "max 1 (min 500 20) = (20 :: nat)" by simp
  ultimately show ?thesis by (simp only:)
qed

end
