(* ===== verification/Json_Gen.thy ===== *)
theory Json_Gen
  imports Http
begin

text \<open>
  JSON responses of the h2o application: numbers (\<^verbatim>\<open>gen_integer\<close>), the pool of JSON
  generators of a thread (\<^verbatim>\<open>utility.c\<close>), sending a generator's text
  (\<^verbatim>\<open>request_handler.c\<close>), the items of the world handlers (\<^verbatim>\<open>handlers/world.c\<close>)
  and \<^verbatim>\<open>handlers/json_serializer.c\<close>.

  A generator belongs to the yajl library.  Its state is a type \<^verbatim>\<open>'y\<close>; \<^verbatim>\<open>op\<close> runs
  one generator function and answers whether its status was \<^verbatim>\<open>yajl_gen_status_ok\<close>;
  \<^verbatim>\<open>clear\<close> is \<^verbatim>\<open>yajl_gen_reset\<close> with \<^verbatim>\<open>yajl_gen_clear\<close>; \<^verbatim>\<open>text\<close> is the
  text of its buffer.
\<close>

section \<open>Numbers\<close>

text \<open>
  \<^verbatim>\<open>gen_integer\<close> writes the digits from the back of the buffer, which begins at the
  address \<^verbatim>\<open>buf\<close>.  \<^verbatim>\<open>gi_loop\<close>: the loop, with \<^verbatim>\<open>iter\<close> the last address
  written; it answers the new \<^verbatim>\<open>iter\<close>, or \<^verbatim>\<open>None\<close> for an invalid number.  Addresses
  are integers, so that a write before the buffer can be seen.
\<close>

type_synonym imemory = "int \<Rightarrow> char"

function gi_loop :: "int \<Rightarrow> int \<Rightarrow> nat \<Rightarrow> imemory \<Rightarrow> (int \<times> imemory) option" where
  "gi_loop buf iter number mem =
     (let iter = iter - 1
      in if buf < iter
         then (let mem' = mem(iter := digit_char (number mod 10)); number' = number div 10
               in if number' \<noteq> 0 then gi_loop buf iter number' mem' else Some (iter, mem'))
         else if number < 10 then Some (iter, mem(iter := digit_char number))
         else None)"
  by pat_completeness auto
termination by (relation "measure (\<lambda>(buf, iter, number, mem). number)") auto

declare gi_loop.simps [simp del]

definition LLONG_MIN :: int where "LLONG_MIN = - (2 ^ 63)"

text \<open>\<^verbatim>\<open>snprintf\<close>: at most \<^verbatim>\<open>len - 1\<close> characters and a zero; it answers the full length.\<close>

definition snprintf_at :: "int \<Rightarrow> nat \<Rightarrow> string \<Rightarrow> imemory \<Rightarrow> imemory" where
  "snprintf_at buf len s mem =
     (\<lambda>a. if buf \<le> a \<and> a < buf + int (min (length s) (len - 1)) then s ! nat (a - buf)
          else if a = buf + int (min (length s) (len - 1)) then NUL else mem a)"

text \<open>
  The result: the address and the length handed to \<^verbatim>\<open>yajl_gen_number\<close>, and the memory.
\<close>

definition gen_integer :: "int \<Rightarrow> int \<Rightarrow> nat \<Rightarrow> imemory \<Rightarrow> (int \<times> nat) option \<times> imemory" where
  "gen_integer number buf len mem =
     (if len = 0 then (None, mem)
      else if number = LLONG_MIN
      then (let l = length (dec_int number); mem' = snprintf_at buf len (dec_int number) mem
            in if len \<le> l then (None, mem') else (Some (buf, l), mem'))
      else (let negative = number < 0
            in case gi_loop (if negative then buf + 1 else buf) (buf + int len) (nat \<bar>number\<bar>) mem of
                 None \<Rightarrow> (None, mem)
               | Some (iter, mem') \<Rightarrow>
                   if negative then (Some (iter - 1, nat (buf + int len - (iter - 1))), mem'(iter - 1 := CHR ''-''))
                   else (Some (iter, nat (buf + int len - iter)), mem')))"

text \<open>The string at an address.\<close>

definition string_at :: "imemory \<Rightarrow> int \<Rightarrow> nat \<Rightarrow> string" where
  "string_at mem a n = map (\<lambda>i. mem (a + int i)) [0..<n]"

lemma string_at_snoc: "string_at mem a (Suc n) = string_at mem a n @ [mem (a + int n)]"
  by (simp add: string_at_def)

lemma string_at_Cons: "string_at mem a (Suc n) = mem a # string_at mem (a + 1) n"
  by (simp add: string_at_def map_upt_Suc add.assoc [symmetric] del: upt_Suc)

lemma string_at_cong: "(\<And>i. a \<le> i \<Longrightarrow> i < a + int n \<Longrightarrow> mem i = mem' i) \<Longrightarrow> string_at mem a n = string_at mem' a n"
  by (simp add: string_at_def)

lemma gi_loop_fits:
  "length (dec n) \<le> nat (iter - buf) \<Longrightarrow> buf < iter \<Longrightarrow>
    \<exists>mem'. gi_loop buf iter n mem = Some (iter - int (length (dec n)), mem') \<and>
      string_at mem' (iter - int (length (dec n))) (length (dec n)) = dec n \<and>
      (\<forall>a. a < iter - int (length (dec n)) \<or> iter \<le> a \<longrightarrow> mem' a = mem a)"
proof (induction n arbitrary: iter mem rule: dec.induct)
  case (1 n)
  show ?case
  proof (cases "n < 10")
    case True
    then show ?thesis using 1 by (subst gi_loop.simps) (auto simp: Let_def dec_small string_at_def)
  next
    case False
    let ?m = "mem(iter - 1 := digit_char (n mod 10))" and ?k = "length (dec (n div 10))"
    have k: "length (dec n) = Suc ?k" using False by (simp add: dec_big)
    have lt: "buf < iter - 1"
      using 1(2,3) k length_dec_pos [of "n div 10"] by linarith
    obtain mem' where m: "gi_loop buf (iter - 1) (n div 10) ?m = Some (iter - 1 - int ?k, mem')"
      "string_at mem' (iter - 1 - int ?k) ?k = dec (n div 10)"
      "\<forall>a. a < iter - 1 - int ?k \<or> iter - 1 \<le> a \<longrightarrow> mem' a = ?m a"
      using 1(1) [OF False, of "iter - 1" ?m] lt 1(2) k by fastforce
    have "gi_loop buf iter n mem = Some (iter - int (length (dec n)), mem')"
      using m(1) lt False k by (subst gi_loop.simps) (simp add: Let_def div_eq_0_iff algebra_simps)
    moreover have "string_at mem' (iter - int (length (dec n))) (length (dec n)) = dec n"
      using m(2,3) k False by (simp add: string_at_snoc dec_big algebra_simps)
    moreover have "\<forall>a. a < iter - int (length (dec n)) \<or> iter \<le> a \<longrightarrow> mem' a = mem a"
      using m(3) k by auto
    ultimately show ?thesis by blast
  qed
qed

lemma gi_loop_too_long:
  "nat (iter - buf) < length (dec n) \<Longrightarrow> buf < iter \<Longrightarrow> gi_loop buf iter n mem = None"
proof (induction n arbitrary: iter mem rule: dec.induct)
  case (1 n)
  have n: "\<not> n < 10" using 1(2,3) by (auto simp: dec_small)
  then have k: "length (dec n) = Suc (length (dec (n div 10)))" by (simp add: dec_big)
  show ?case
  proof (cases "buf < iter - 1")
    case True
    have "gi_loop buf (iter - 1) (n div 10) m = None" for m
      using 1(1) [OF n, of "iter - 1" m] 1(2) k True by simp
    then show ?thesis using True n by (subst gi_loop.simps) (simp add: Let_def div_eq_0_iff)
  next
    case False
    then show ?thesis using n by (subst gi_loop.simps) (simp add: Let_def)
  qed
qed

lemma length_dec_int: "length (dec_int i) = (if i < 0 then 1 else 0) + length (dec (nat \<bar>i\<bar>))"
  by (simp add: dec_int_def)

lemma snprintf_at_string: "length s < len \<Longrightarrow> string_at (snprintf_at buf len s mem) buf (length s) = s"
  by (intro nth_equalityI) (auto simp: string_at_def snprintf_at_def)

text \<open>What a call that succeeds hands on, and what it leaves alone.\<close>

definition wrote_number :: "int \<Rightarrow> nat \<Rightarrow> imemory \<Rightarrow> string \<Rightarrow> (int \<times> nat) option \<times> imemory \<Rightarrow> bool" where
  "wrote_number buf len mem s r \<longleftrightarrow>
     (\<exists>a mem'. r = (Some (a, length s), mem') \<and> string_at mem' a (length s) = s \<and> buf \<le> a \<and>
        a + int (length s) \<le> buf + int len \<and> (\<forall>i. i < buf \<or> buf + int len \<le> i \<longrightarrow> mem' i = mem i))"

lemma gen_integer_min:
  assumes "0 < len"
  shows "if length (dec_int LLONG_MIN) < len then wrote_number buf len mem (dec_int LLONG_MIN) (gen_integer LLONG_MIN buf len mem)
    else fst (gen_integer LLONG_MIN buf len mem) = None"
proof (cases "length (dec_int LLONG_MIN) < len")
  case True
  then have "\<forall>i. i < buf \<or> buf + int len \<le> i \<longrightarrow> snprintf_at buf len (dec_int LLONG_MIN) mem i = mem i"
    by (auto simp: snprintf_at_def min_def)
  with True show ?thesis
    using snprintf_at_string [OF True] by (simp add: gen_integer_def wrote_number_def Let_def)
next
  case False
  with assms show ?thesis by (simp add: gen_integer_def Let_def)
qed

lemma gen_integer_nonneg:
  assumes "0 < len" "0 \<le> number"
  shows "if length (dec_int number) \<le> len then wrote_number buf len mem (dec_int number) (gen_integer number buf len mem)
    else fst (gen_integer number buf len mem) = None"
proof -
  let ?n = "nat number" and ?e = "buf + int len"
  have d: "dec_int number = dec ?n" "nat \<bar>number\<bar> = ?n" "number \<noteq> LLONG_MIN"
    using assms(2) by (simp_all add: dec_int_def LLONG_MIN_def)
  show ?thesis
  proof (cases "length (dec ?n) \<le> len")
    case True
    then obtain mem' where "gi_loop buf ?e ?n mem = Some (?e - int (length (dec ?n)), mem')"
      "string_at mem' (?e - int (length (dec ?n))) (length (dec ?n)) = dec ?n"
      "\<forall>a. a < ?e - int (length (dec ?n)) \<or> ?e \<le> a \<longrightarrow> mem' a = mem a"
      using gi_loop_fits [of ?n ?e buf mem] assms(1) by auto
    with True assms d show ?thesis by (simp add: gen_integer_def wrote_number_def)
  next
    case False
    then have "gi_loop buf ?e ?n mem = None" using assms(1) by (intro gi_loop_too_long) simp_all
    with False assms d show ?thesis by (simp add: gen_integer_def)
  qed
qed

lemma gen_integer_neg:
  assumes "2 \<le> len" "number < 0" "number \<noteq> LLONG_MIN"
  shows "if length (dec_int number) \<le> len then wrote_number buf len mem (dec_int number) (gen_integer number buf len mem)
    else fst (gen_integer number buf len mem) = None"
proof -
  let ?n = "nat \<bar>number\<bar>" and ?e = "buf + int len"
  have d: "dec_int number = CHR ''-'' # dec ?n" using assms(2) by (simp add: dec_int_def)
  have e: "nat (?e - (buf + 1)) = len - 1" by simp
  show ?thesis
  proof (cases "length (dec ?n) \<le> len - 1")
    case True
    let ?i = "?e - int (length (dec ?n))"
    obtain mem' where m: "gi_loop (buf + 1) ?e ?n mem = Some (?i, mem')" "string_at mem' ?i (length (dec ?n)) = dec ?n"
      "\<forall>a. a < ?i \<or> ?e \<le> a \<longrightarrow> mem' a = mem a"
      using gi_loop_fits [of ?n ?e "buf + 1" mem, unfolded e] True assms(1) by auto
    have "string_at (mem'(?i - 1 := CHR ''-'')) (?i - 1) (Suc (length (dec ?n))) = dec_int number"
      using m(2) string_at_cong [of ?i "length (dec ?n)" "mem'(?i - 1 := CHR ''-'')" mem'] d by (simp add: string_at_Cons)
    moreover have "nat (?e - (?i - 1)) = Suc (length (dec ?n))" by simp
    ultimately show ?thesis
      using True assms m d by (auto simp: gen_integer_def wrote_number_def)
  next
    case False
    then have "gi_loop (buf + 1) ?e ?n mem = None" using assms(1) by (intro gi_loop_too_long) simp_all
    moreover have "\<not> length (dec_int number) \<le> len" using False assms(1) d by simp
    ultimately show ?thesis using assms by (simp add: gen_integer_def del: abs_of_neg)
  qed
qed

section \<open>The pool of generators\<close>

datatype yajl_op = Map_open | Map_close | Array_open | Array_close | Yajl_string string | Yajl_number string

record 'y yajl =
  op :: "yajl_op \<Rightarrow> 'y \<Rightarrow> bool \<times> 'y"
  clear :: "'y \<Rightarrow> 'y"
  get_buf :: "'y \<Rightarrow> string option"

text \<open>
  The generators of a thread: \<^verbatim>\<open>json_generator\<close> and \<^verbatim>\<open>json_generator_num\<close> of
  \<^verbatim>\<open>thread_context_t\<close>, the configured maximum, and, for the statements about leaks, the
  number of generators that have been allocated and not been freed.
\<close>

record 'y json_pool =
  json_generator :: "'y list"
  json_generator_num :: nat
  max_json_generator :: nat
  alive :: nat

text \<open>\<^verbatim>\<open>fresh\<close>: the generator \<^verbatim>\<open>yajl_gen_alloc\<close> answers, if any.\<close>

definition get_json_generator :: "'y option \<Rightarrow> 'y json_pool \<Rightarrow> 'y option \<times> 'y json_pool" where
  "get_json_generator fresh p =
     (case json_generator p of
        gen # rest \<Rightarrow> (Some gen, p\<lparr>json_generator := rest, json_generator_num := json_generator_num p - 1\<rparr>)
      | [] \<Rightarrow> (case fresh of None \<Rightarrow> (None, p) | Some gen \<Rightarrow> (Some gen, p\<lparr>alive := alive p + 1\<rparr>)))"

text \<open>\<^verbatim>\<open>use_pool\<close>: the pool is passed, and not a null pointer.\<close>

definition free_json_generator :: "'y yajl \<Rightarrow> bool \<Rightarrow> 'y option \<Rightarrow> 'y json_pool \<Rightarrow> 'y json_pool" where
  "free_json_generator yj use_pool gen p =
     (case gen of
        None \<Rightarrow> p
      | Some gen \<Rightarrow>
          if use_pool \<and> json_generator_num p < max_json_generator p
          then p\<lparr>json_generator := clear yj gen # json_generator p, json_generator_num := json_generator_num p + 1\<rparr>
          else p\<lparr>alive := alive p - 1\<rparr>)"

section \<open>Responses\<close>

text \<open>\<^verbatim>\<open>CHECK_YAJL_STATUS\<close>: go on if the status is right.\<close>

definition and_then :: "('s \<Rightarrow> bool \<times> 's) \<Rightarrow> ('s \<Rightarrow> bool \<times> 's) \<Rightarrow> 's \<Rightarrow> bool \<times> 's" where
  "and_then f g s = (case f s of (ok, s') \<Rightarrow> if ok then g s' else (False, s'))"

text \<open>
  The state of a serializer: the generator and the memory with the buffer of
  \<^verbatim>\<open>serialize_item\<close>, 32 bytes from the address 0.
\<close>

definition gen_op :: "'y yajl \<Rightarrow> yajl_op \<Rightarrow> 'y \<times> imemory \<Rightarrow> bool \<times> 'y \<times> imemory" where
  "gen_op yj x s = (case op yj x (fst s) of (ok, y) \<Rightarrow> (ok, y, snd s))"

definition gen_integer_op :: "'y yajl \<Rightarrow> int \<Rightarrow> nat \<Rightarrow> 'y \<times> imemory \<Rightarrow> bool \<times> 'y \<times> imemory" where
  "gen_integer_op yj number len s =
     (case gen_integer number 0 len (snd s) of
        (None, mem) \<Rightarrow> (False, fst s, mem)
      | (Some (a, l), mem) \<Rightarrow> (case op yj (Yajl_number (string_at mem a l)) (fst s) of (ok, y) \<Rightarrow> (ok, y, mem)))"

definition serialize_item :: "'y yajl \<Rightarrow> nat \<Rightarrow> nat \<Rightarrow> 'y \<times> imemory \<Rightarrow> bool \<times> 'y \<times> imemory" where
  "serialize_item yj item random_number =
     and_then (gen_op yj Map_open)
       (and_then (gen_op yj (Yajl_string ''id''))
         (and_then (gen_integer_op yj (int item) 32)
           (and_then (gen_op yj (Yajl_string ''randomNumber''))
             (and_then (gen_integer_op yj (int random_number) 32) (gen_op yj Map_close)))))"

fun serialize_items_loop :: "'y yajl \<Rightarrow> (nat \<times> nat) list \<Rightarrow> 'y \<times> imemory \<Rightarrow> bool \<times> 'y \<times> imemory" where
  "serialize_items_loop yj [] s = (True, s)"
| "serialize_items_loop yj ((item, random_number) # res) s =
     and_then (serialize_item yj item random_number) (serialize_items_loop yj res) s"

text \<open>
  \<^verbatim>\<open>send_json_response\<close>: the pool and the request in, whether it failed out.  With
  \<^verbatim>\<open>free_gen\<close> the generator goes back to the pool.
\<close>

definition send_json_response ::
    "'y yajl \<Rightarrow> string \<Rightarrow> 'y \<Rightarrow> bool \<Rightarrow> 'y json_pool \<times> h2o_req \<Rightarrow> bool \<times> 'y json_pool \<times> h2o_req" where
  "send_json_response yj date gen free_gen s =
     (case get_buf yj gen of
        None \<Rightarrow> (True, s)
      | Some body \<Rightarrow>
          (let req = set_default_response_param date JSON (length body) (snd s)
           in if free_gen then (False, free_json_generator yj True (Some gen) (fst s), h2o_call (Send_inline body) req)
              else (False, fst s, h2o_call (Send_final body) req)))"

text \<open>\<^verbatim>\<open>serialize_items\<close>: the generator that is left in the context, and the rest.\<close>


definition serialize_items ::
    "'y yajl \<Rightarrow> string \<Rightarrow> imemory \<Rightarrow> (nat \<times> nat) list \<Rightarrow> 'y \<Rightarrow> 'y json_pool \<times> h2o_req \<Rightarrow>
     'y option \<times> 'y json_pool \<times> h2o_req" where
  "serialize_items yj date mem res gen s =
     (let error = (\<lambda>s. (None, free_json_generator yj False (Some gen) (fst s), send_error INTERNAL_SERVER_ERROR REQ_ERROR (snd s)))
      in case and_then (gen_op yj Array_open) (and_then (serialize_items_loop yj res) (gen_op yj Array_close)) (gen, mem) of
           (ok, gen', mem') \<Rightarrow>
             if \<not> ok then error s
             else (case send_json_response yj date gen' False s of
                     (failed, s') \<Rightarrow> if \<not> failed then (Some gen', s') else error s'))"

text \<open>\<^verbatim>\<open>json_serializer\<close>.\<close>

definition json_serializer ::
    "'y yajl \<Rightarrow> string \<Rightarrow> 'y option \<Rightarrow> 'y json_pool \<times> h2o_req \<Rightarrow> 'y json_pool \<times> h2o_req" where
  "json_serializer yj date fresh s =
     (case get_json_generator fresh (fst s) of
        (None, p) \<Rightarrow> (p, send_error INTERNAL_SERVER_ERROR REQ_ERROR (snd s))
      | (Some gen, p) \<Rightarrow>
          (case and_then (op yj Map_open)
                  (and_then (op yj (Yajl_string ''message''))
                    (and_then (op yj (Yajl_string HELLO_RESPONSE)) (op yj Map_close))) gen of
             (ok, gen') \<Rightarrow>
               (case (if ok then send_json_response yj date gen' True (p, snd s) else (True, p, snd s)) of
                  (failed, p', req') \<Rightarrow>
                    if \<not> failed then (p', req')
                    else (free_json_generator yj False (Some gen') p', send_error INTERNAL_SERVER_ERROR REQ_ERROR req'))))"

section \<open>What the generators hold\<close>

text \<open>
  The documented behaviour of yajl: \<^verbatim>\<open>ops\<close> are the operations that a generator has
  taken since it was made or cleared, and its buffer is their text.
\<close>

definition yajl_contract :: "'y yajl \<Rightarrow> ('y \<Rightarrow> yajl_op list) \<Rightarrow> (yajl_op list \<Rightarrow> string) \<Rightarrow> bool" where
  "yajl_contract yj ops json_text \<longleftrightarrow>
     (\<forall>x y. fst (op yj x y) \<longrightarrow> ops (snd (op yj x y)) = ops y @ [x]) \<and>
     (\<forall>y. ops (clear yj y) = []) \<and> (\<forall>y s. get_buf yj y = Some s \<longrightarrow> s = json_text (ops y))"

definition pool_ok :: "('y \<Rightarrow> yajl_op list) \<Rightarrow> 'y json_pool \<Rightarrow> bool" where
  "pool_ok ops p \<longleftrightarrow> json_generator_num p = length (json_generator p) \<and> json_generator_num p \<le> max_json_generator p \<and>
     (\<forall>y \<in> set (json_generator p). ops y = []) \<and> length (json_generator p) \<le> alive p"

text \<open>The generators in use: those that are alive and not in the pool.\<close>

definition in_use :: "'y json_pool \<Rightarrow> nat" where
  "in_use p = alive p - length (json_generator p)"

definition emits :: "('y \<Rightarrow> yajl_op list) \<Rightarrow> ('s \<Rightarrow> 'y) \<Rightarrow> ('s \<Rightarrow> bool \<times> 's) \<Rightarrow> yajl_op list \<Rightarrow> bool" where
  "emits ops gen f xs \<longleftrightarrow> (\<forall>s. fst (f s) \<longrightarrow> ops (gen (snd (f s))) = ops (gen s) @ xs)"

lemma emits_and_then: "emits ops gen f xs \<Longrightarrow> emits ops gen g ys \<Longrightarrow> emits ops gen (and_then f g) (xs @ ys)"
  by (auto simp: emits_def and_then_def split: prod.splits)
    (metis append_assoc fst_conv snd_conv)

lemma emits_Nil: "emits ops gen (Pair True) []"
  by (simp add: emits_def)

lemma emits_op: "yajl_contract yj ops json_text \<Longrightarrow> emits ops (\<lambda>y. y) (op yj x) [x]"
  by (simp add: emits_def yajl_contract_def)

lemma emits_gen_op: "yajl_contract yj ops json_text \<Longrightarrow> emits ops fst (gen_op yj x) [x]"
  by (auto simp: emits_def yajl_contract_def gen_op_def split_beta)

lemma emits_gen_integer_op:
  fixes yj :: "'y yajl"
  assumes "yajl_contract yj ops json_text" "0 \<le> number" "0 < len" "length (dec_int number) \<le> len"
  shows "emits ops fst (gen_integer_op yj number len) [Yajl_number (dec_int number)]"
  unfolding emits_def
proof
  fix s :: "'y \<times> imemory"
  have "wrote_number 0 len (snd s) (dec_int number) (gen_integer number 0 len (snd s))"
    using gen_integer_nonneg [OF assms(3,2), of 0 "snd s"] assms(4) by simp
  then obtain a mem' where "gen_integer number 0 len (snd s) = (Some (a, length (dec_int number)), mem')"
    "string_at mem' a (length (dec_int number)) = dec_int number"
    by (auto simp: wrote_number_def)
  then show "fst (gen_integer_op yj number len s) \<longrightarrow>
      ops (fst (snd (gen_integer_op yj number len s))) = ops (fst s) @ [Yajl_number (dec_int number)]"
    using assms(1) by (simp add: gen_integer_op_def yajl_contract_def split_beta)
qed

text \<open>The operations of an item and of a list of items.\<close>

definition item_ops :: "nat \<times> nat \<Rightarrow> yajl_op list" where
  "item_ops r = [Map_open, Yajl_string ''id'', Yajl_number (dec (fst r)),
     Yajl_string ''randomNumber'', Yajl_number (dec (snd r)), Map_close]"

lemma dec_uint32: "n < 2 ^ 32 \<Longrightarrow> length (dec_int (int n)) \<le> 32" "dec_int (int n) = dec n"
proof -
  show "dec_int (int n) = dec n" by (simp add: dec_int_def)
  assume "n < 2 ^ 32"
  then have "n < 10 ^ 10" by simp
  from length_dec_le [OF this] show "length (dec_int (int n)) \<le> 32" by (simp add: dec_int_def)
qed

lemma emits_serialize_item:
  assumes "yajl_contract yj ops json_text" "item < 2 ^ 32" "random_number < 2 ^ 32"
  shows "emits ops fst (serialize_item yj item random_number) (item_ops (item, random_number))"
proof -
  note g = emits_gen_op [OF assms(1)] and n = emits_gen_integer_op [OF assms(1)]
  have i: "emits ops fst (gen_integer_op yj (int item) 32) [Yajl_number (dec item)]"
    "emits ops fst (gen_integer_op yj (int random_number) 32) [Yajl_number (dec random_number)]"
    using n [of "int item" 32] n [of "int random_number" 32] dec_uint32 assms(2,3) by simp_all
  show ?thesis
    using emits_and_then [OF g emits_and_then [OF g emits_and_then [OF i(1) emits_and_then [OF g emits_and_then [OF i(2) g]]]]]
    by (simp add: serialize_item_def item_ops_def)
qed

lemma emits_serialize_items_loop:
  "yajl_contract yj ops json_text \<Longrightarrow> list_all (\<lambda>(i, r). i < 2 ^ 32 \<and> r < 2 ^ 32) res \<Longrightarrow>
    emits ops fst (serialize_items_loop yj res) (concat (map item_ops res))"
proof (induction res)
  case Nil
  then show ?case by (simp add: emits_def)
next
  case (Cons x res)
  obtain i r where x: "x = (i, r)" by (cases x)
  have "emits ops fst (and_then (serialize_item yj i r) (serialize_items_loop yj res)) (item_ops x @ concat (map item_ops res))"
    using Cons x by (intro emits_and_then) (simp_all add: emits_serialize_item)
  then show ?case by (simp add: x emits_def)
qed

text \<open>Taking a generator out of the pool and giving it back.\<close>

lemma get_json_generator_ok:
  assumes "pool_ok ops p" "\<And>y. fresh = Some y \<Longrightarrow> ops y = []"
  shows "case get_json_generator fresh p of (gen, p') \<Rightarrow>
    (case gen of None \<Rightarrow> p' = p \<and> fresh = None \<and> json_generator p = []
     | Some y \<Rightarrow> ops y = [] \<and> in_use p' = in_use p + 1 \<and> pool_ok ops p' \<and> json_generator_num p' < alive p')"
  using assms by (cases "json_generator p"; cases fresh)
    (auto simp: get_json_generator_def pool_ok_def in_use_def)

lemma free_json_generator_ok:
  assumes "pool_ok ops p" "json_generator_num p < alive p" "\<And>y. ops (clear yj y) = []"
  shows "pool_ok ops (free_json_generator yj use_pool (Some y) p)"
    "in_use (free_json_generator yj use_pool (Some y) p) = in_use p - 1"
  using assms by (auto simp: free_json_generator_def pool_ok_def in_use_def)

text \<open>\<^verbatim>\<open>answered c req req'\<close>: one more answer has been given, the call \<^verbatim>\<open>c\<close>.\<close>

definition answered :: "h2o_call \<Rightarrow> h2o_req \<Rightarrow> h2o_req \<Rightarrow> bool" where
  "answered c req req' \<longleftrightarrow> calls req' = calls req @ [c]"

lemma answered_answers: "answered c req req' \<Longrightarrow> answers req' = Suc (answers req)"
  by (simp add: answered_def answers_def)

lemma calls_simps [simp]:
  "calls (h2o_call c req) = calls req @ [c]" "calls (set_default_response_param date ct l req) = calls req"
  "calls (h2o_add_header n v req) = calls req"
  by (simp_all add: h2o_call_def set_default_response_param_def h2o_add_header_def)

definition internal_error :: h2o_call where
  "internal_error = Send_error_generic 500 ''Internal Server Error'' REQ_ERROR"

lemma calls_internal_error [simp]: "calls (send_error INTERNAL_SERVER_ERROR REQ_ERROR req) = calls req @ [internal_error]"
  by (simp add: send_error_def internal_error_def)

definition array_ops :: "(nat \<times> nat) list \<Rightarrow> yajl_op list" where
  "array_ops res = Array_open # concat (map item_ops res) @ [Array_close]"

lemma serialize_items_ok:
  assumes "yajl_contract yj ops json_text" "list_all (\<lambda>(i, r). i < 2 ^ 32 \<and> r < 2 ^ 32) res" "ops gen = []"
    "pool_ok ops p" "json_generator_num p < alive p"
  shows "case serialize_items yj date mem res gen (p, req) of (gen', p', req') \<Rightarrow>
    (case gen' of
       None \<Rightarrow> pool_ok ops p' \<and> in_use p' = in_use p - 1 \<and> answered internal_error req req'
     | Some y \<Rightarrow> p' = p \<and> answered (Send_final (json_text (array_ops res))) req req')"
proof -
  note g = emits_gen_op [OF assms(1)]
  let ?f = "and_then (gen_op yj Array_open) (and_then (serialize_items_loop yj res) (gen_op yj Array_close))"
  have "emits ops fst ?f ([Array_open] @ concat (map item_ops res) @ [Array_close])"
    by (intro emits_and_then g emits_serialize_items_loop [OF assms(1,2)])
  then have ops: "fst (?f (gen, mem)) \<Longrightarrow> ops (fst (snd (?f (gen, mem)))) = array_ops res"
    using assms(3) by (simp add: emits_def array_ops_def)
  have clear: "\<And>y. ops (clear yj y) = []" using assms(1) by (simp add: yajl_contract_def)
  have buf: "\<And>y s. get_buf yj y = Some s \<Longrightarrow> s = json_text (ops y)" using assms(1) by (simp add: yajl_contract_def)
  obtain ok gen' mem' where r: "?f (gen, mem) = (ok, gen', mem')" by (cases "?f (gen, mem)")
  show ?thesis
  proof (cases "ok \<and> get_buf yj gen' \<noteq> None")
    case True
    then obtain body where b: "get_buf yj gen' = Some body" by blast
    with buf [OF b] ops r True have "body = json_text (array_ops res)" by simp
    then show ?thesis using True b r
      by (simp add: serialize_items_def send_json_response_def Let_def answered_def)
  next
    case False
    then show ?thesis using r free_json_generator_ok [OF assms(4,5) clear]
      by (auto simp: serialize_items_def send_json_response_def Let_def answered_def)
  qed
qed

lemma single_item_ok:
  assumes "yajl_contract yj ops json_text" "item < 2 ^ 32" "random_number < 2 ^ 32" "ops gen = []"
    "serialize_item yj item random_number (gen, mem) = (True, gen', mem')" "get_buf yj gen' = Some body"
  shows "body = json_text (item_ops (item, random_number))"
  using emits_serialize_item [OF assms(1-3)] assms(1,4-6) unfolding emits_def yajl_contract_def
  by (metis append_Nil fst_conv snd_conv)

section \<open>Properties\<close>

text \<open>\<^verbatim>\<open>gen_integer\<close>: with at least two bytes, or one for a number that is not negative, it
  hands the decimal numeral to the generator, from inside the buffer and without touching a
  byte outside it, if the numeral fits (with its zero, for the smallest \<^verbatim>\<open>long long\<close>),
  and reports an invalid number otherwise.\<close>

theorem gen_integer_correct:
  assumes "2 \<le> len \<or> 0 < len \<and> 0 \<le> number"
  shows "if length (dec_int number) + (if number = LLONG_MIN then 1 else 0) \<le> len
    then wrote_number buf len mem (dec_int number) (gen_integer number buf len mem)
    else fst (gen_integer number buf len mem) = None"
proof (cases "number = LLONG_MIN")
  case True
  have "0 < len" using assms by linarith
  from gen_integer_min [OF this, of buf mem] True show ?thesis by (auto split: if_splits)
next
  case False
  then show ?thesis
    using gen_integer_neg [of len number buf mem] gen_integer_nonneg [of len number buf mem] assms by fastforce
qed

theorem gen_integer_correct_witness:
  "wrote_number 0 4 (\<lambda>_. NUL) ''-120'' (gen_integer (- 120) 0 4 (\<lambda>_. NUL))"
proof -
  have "dec_int (- 120) = ''-120''" by (simp add: dec_int_def dec_big dec_small digit_char_def) code_simp
  with gen_integer_correct [of 4 "- 120" 0 "\<lambda>_. NUL"] show ?thesis by (simp add: LLONG_MIN_def)
qed

text \<open>With a buffer of a single byte a negative number of one digit is not refused: the sign is
  written before the buffer.\<close>

theorem gen_integer_underrun:
  "\<exists>mem'. gen_integer (- 5) buf 1 mem = (Some (buf - 1, 2), mem') \<and> mem' (buf - 1) = CHR ''-''"
  by (simp add: gen_integer_def LLONG_MIN_def gi_loop.simps)

text \<open>\<^verbatim>\<open>/json\<close>: whatever the pool of generators went through before, the request is answered
  exactly once, with the greeting as a JSON object or, when yajl fails, with status 500; no
  generator is lost, and those in the pool stay empty.\<close>

theorem json_serializer_correct:
  assumes "yajl_contract yj ops json_text" "pool_ok ops p" "\<forall>y. fresh = Some y \<longrightarrow> ops y = []"
  shows "case json_serializer yj date fresh (p, req) of (p', req') \<Rightarrow>
    pool_ok ops p' \<and> in_use p' = in_use p \<and>
    (answered internal_error req req' \<or>
     answered (Send_inline (json_text [Map_open, Yajl_string ''message'', Yajl_string ''Hello, World!'', Map_close])) req req')"
proof -
  obtain g p1 where get: "get_json_generator fresh p = (g, p1)" by (cases "get_json_generator fresh p")
  note ok = get_json_generator_ok [OF assms(2), of fresh, unfolded get prod.case]
  have clear: "\<And>y. ops (clear yj y) = []" using assms(1) by (simp add: yajl_contract_def)
  have buf: "\<And>y s. get_buf yj y = Some s \<Longrightarrow> s = json_text (ops y)" using assms(1) by (simp add: yajl_contract_def)
  show ?thesis
  proof (cases g)
    case None
    with ok assms(2,3) get show ?thesis by (simp add: json_serializer_def answered_def)
  next
    case (Some gen)
    let ?f = "and_then (op yj Map_open) (and_then (op yj (Yajl_string ''message''))
      (and_then (op yj (Yajl_string HELLO_RESPONSE)) (op yj Map_close)))"
    let ?ops = "[Map_open, Yajl_string ''message'', Yajl_string HELLO_RESPONSE, Map_close]"
    have p1: "ops gen = []" "in_use p1 = in_use p + 1" "pool_ok ops p1" "json_generator_num p1 < alive p1"
      using ok assms(3) Some by auto
    note e = emits_op [OF assms(1)]
    have "emits ops (\<lambda>y. y) ?f ([Map_open] @ [Yajl_string ''message''] @ [Yajl_string HELLO_RESPONSE] @ [Map_close])"
      by (intro emits_and_then e)
    then have ops: "fst (?f gen) \<Longrightarrow> ops (snd (?f gen)) = ?ops" using p1(1) by (simp add: emits_def)
    obtain b gen' where r: "?f gen = (b, gen')" by (cases "?f gen")
    note fr = free_json_generator_ok [OF p1(3,4) clear]
    show ?thesis
    proof (cases "b \<and> get_buf yj gen' \<noteq> None")
      case True
      then obtain body where body: "get_buf yj gen' = Some body" by blast
      then have "body = json_text ?ops" using buf [OF body] ops r True by simp
      then show ?thesis using True body r get Some fr p1(2)
        by (simp add: json_serializer_def send_json_response_def Let_def answered_def HELLO_RESPONSE_def)
    next
      case False
      then show ?thesis using r get Some fr p1(2)
        by (auto simp: json_serializer_def send_json_response_def Let_def answered_def)
    qed
  qed
qed

text \<open>A generator that keeps its operations: the contract can hold.\<close>

definition list_yajl :: "yajl_op list yajl" where
  "list_yajl = \<lparr>op = \<lambda>x y. (True, y @ [x]), clear = \<lambda>_. [], get_buf = \<lambda>y. Some (replicate (length y) CHR ''.'')\<rparr>"

lemma list_yajl_contract: "yajl_contract list_yajl id (\<lambda>y. replicate (length y) CHR ''.'')"
  by (simp add: yajl_contract_def list_yajl_def)

theorem json_serializer_correct_witness:
  "pool_ok id (fst (json_serializer list_yajl ''now'' None
    (\<lparr>json_generator = [[]], json_generator_num = 1, max_json_generator = 2, alive = 1\<rparr>,
     \<lparr>res_status = 0, res_reason = [], res_content_length = 0, res_headers = [], calls = []\<rparr>)))"
  using json_serializer_correct [OF list_yajl_contract, where date = "''now''" and fresh = None and
      p = "\<lparr>json_generator = [[]], json_generator_num = 1, max_json_generator = 2, alive = 1\<rparr>" and
      req = "\<lparr>res_status = 0, res_reason = [], res_content_length = 0, res_headers = [], calls = []\<rparr>"]
  by (simp add: pool_ok_def split: prod.splits)

end
