(* ===== verification/World.thy ===== *)
theory World
  imports Json_Gen Compare
begin

text \<open>
  The world handlers of the h2o application (\<^verbatim>\<open>handlers/world.c\<close>): the context of a
  request for several rows, its queries in flight, the update of all rows, the cache, and the
  single query.  What the database, the allocator of yajl and the disposal of the request do
  is input of the steps; the pool of connections promises one callback for each query it
  accepts (see \<^verbatim>\<open>Db_Pool_Step\<close>), which is what \<^verbatim>\<open>in_flight\<close> records.

  Ids and numbers are kept in host order: \<^verbatim>\<open>htonl\<close> and \<^verbatim>\<open>ntohl\<close> are applied in
  pairs at the boundary to the database.
\<close>

section \<open>State\<close>

text \<open>
  \<^verbatim>\<open>multiple_query_ctx_t\<close>; the flags as fields, and \<^verbatim>\<open>query_param\<close> as the ids its
  elements ask for.
\<close>

record 'y multiple_query_ctx =
  gen :: "'y option"
  req :: h2o_req
  query_param :: "nat list"
  num_query :: nat
  num_query_in_progress :: nat
  num_result :: nat
  DO_UPDATE :: bool
  USE_CACHE :: bool
  DO_CLEANUP :: bool
  IS_COMPLETED :: bool
  res :: "(nat \<times> nat) list"
  update_command :: string
  update_params :: "nat list"

text \<open>
  A query in flight: the one of an element of \<^verbatim>\<open>query_param\<close>, or the update.  \<^verbatim>\<open>freed\<close>
  counts how often the context has been freed, \<^verbatim>\<open>failed_assert\<close> records an assertion
  that did not hold.
\<close>

datatype db_query = Select nat | Update

record 'y world =
  ctx :: "'y multiple_query_ctx"
  pool :: "'y json_pool"
  in_flight :: "db_query list"
  freed :: nat
  failed_assert :: bool

text \<open>What stays the same while a request is served: yajl, the date header, the retry time.\<close>

record 'y env =
  yj :: "'y yajl"
  date :: string
  retry_after :: string
  buf_mem :: imemory


abbreviation upd_ctx :: "('y multiple_query_ctx \<Rightarrow> 'y multiple_query_ctx) \<Rightarrow> 'y world \<Rightarrow> 'y world" where
  "upd_ctx f w \<equiv> w\<lparr>ctx := f (ctx w)\<rparr>"

definition set_cleanup :: "'y world \<Rightarrow> 'y world" where
  "set_cleanup w = upd_ctx (\<lambda>c. c\<lparr>DO_CLEANUP := True\<rparr>) w"

definition reply :: "(h2o_req \<Rightarrow> h2o_req) \<Rightarrow> 'y world \<Rightarrow> 'y world" where
  "reply f w = upd_ctx (\<lambda>c. c\<lparr>req := f (req c)\<rparr>) w"

text \<open>The answer when the pool of connections refuses a query.\<close>

definition refuse :: "'y env \<Rightarrow> 'y world \<Rightarrow> 'y world" where
  "refuse e w = reply (send_service_unavailable_error (retry_after e) DB_REQ_ERROR) (set_cleanup w)"

section \<open>Releasing the context\<close>

definition cleanup_multiple_query :: "'y env \<Rightarrow> 'y world \<Rightarrow> 'y world" where
  "cleanup_multiple_query e w =
     w\<lparr>pool := free_json_generator (yj e) True (gen (ctx w)) (pool w), freed := freed w + 1\<rparr>"

definition cleanup_multiple_query_request :: "'y env \<Rightarrow> 'y world \<Rightarrow> 'y world" where
  "cleanup_multiple_query_request e w =
     (let w = upd_ctx (\<lambda>c. c\<lparr>IS_COMPLETED := True\<rparr>) w
      in if DO_CLEANUP (ctx w)
         then (if num_query_in_progress (ctx w) = 0 then cleanup_multiple_query e w else w)
         else set_cleanup w)"

section \<open>Updates\<close>

definition compare_items :: "nat \<times> nat \<Rightarrow> nat \<times> nat \<Rightarrow> int" where
  "compare_items r1 r2 = (if fst r1 < fst r2 then - 1 else if fst r2 < fst r1 then 1 else 0)"

definition UPDATE_QUERY_NAME_PREFIX :: string where "UPDATE_QUERY_NAME_PREFIX = ''WorldUpdate''"

text \<open>
  \<^verbatim>\<open>do_updates\<close>: \<^verbatim>\<open>rnd\<close> are the results of \<^verbatim>\<open>get_random_number(MAX_ID)\<close>, one
  for each row, and \<^verbatim>\<open>accepted\<close> is whether \<^verbatim>\<open>execute_database_query\<close> takes the query.
\<close>

definition do_updates :: "'y env \<Rightarrow> (nat \<Rightarrow> nat) \<Rightarrow> bool \<Rightarrow> 'y world \<Rightarrow> 'y world" where
  "do_updates e rnd accepted w =
     (let n = num_result (ctx w);
          command_size = length UPDATE_QUERY_NAME_PREFIX + length (dec MAX_QUERIES) + 1 - (length UPDATE_QUERY_NAME_PREFIX + 1) + 1
      in if command_size \<le> length (dec n)
         then reply (send_error INTERNAL_SERVER_ERROR REQ_ERROR) (set_cleanup w)
         else (let sorted = qsort compare_items (take n (res (ctx w)));
                   rows = map (\<lambda>i. (fst (sorted ! i), 1 + rnd i)) [0..<n];
                   w = upd_ctx (\<lambda>c. c\<lparr>res := rows @ drop n (res c), update_command := UPDATE_QUERY_NAME_PREFIX @ dec n,
                                    update_params := concat (map (\<lambda>r. [fst r, snd r]) rows)\<rparr>) w
               in if \<not> accepted then refuse e w
                  else upd_ctx (\<lambda>c. c\<lparr>num_query_in_progress := num_query_in_progress c + 1\<rparr>)
                         (w\<lparr>in_flight := in_flight w @ [Update]\<rparr>)))"

section \<open>Completion\<close>

text \<open>The rows are serialized with a generator from the pool; \<^verbatim>\<open>fresh\<close> is one that yajl may allocate.\<close>

definition respond_items :: "'y env \<Rightarrow> 'y option \<Rightarrow> 'y world \<Rightarrow> 'y world" where
  "respond_items e fresh w =
     (case get_json_generator fresh (pool w) of
        (None, p) \<Rightarrow> reply (send_error INTERNAL_SERVER_ERROR REQ_ERROR) (upd_ctx (\<lambda>c. c\<lparr>gen := None\<rparr>) (w\<lparr>pool := p\<rparr>))
      | (Some g, p) \<Rightarrow>
          (case serialize_items (yj e) (date e) (buf_mem e) (take (num_result (ctx w)) (res (ctx w))) g (p, req (ctx w)) of
             (g', p', req') \<Rightarrow> upd_ctx (\<lambda>c. c\<lparr>gen := g', req := req'\<rparr>) (w\<lparr>pool := p'\<rparr>)))"

definition complete_multiple_query :: "'y env \<Rightarrow> 'y option \<Rightarrow> (nat \<Rightarrow> nat) \<Rightarrow> bool \<Rightarrow> 'y world \<Rightarrow> 'y world" where
  "complete_multiple_query e fresh rnd accepted w =
     (let w = w\<lparr>failed_assert := failed_assert w \<or> num_result (ctx w) \<noteq> num_query (ctx w)\<rparr>
      in if DO_UPDATE (ctx w) then do_updates e rnd accepted w
         else respond_items e fresh (set_cleanup w))"

section \<open>Results\<close>

text \<open>
  A value of a row: the number in the four bytes of a binary column, or the characters of a
  text column.  \<^verbatim>\<open>process_result\<close> answers \<^verbatim>\<open>None\<close> when an assertion fails.
\<close>

datatype pg_value = Binary nat | Text string

fun uint32_value :: "pg_value \<Rightarrow> nat option" where
  "uint32_value (Binary n) = Some (n mod 2 ^ 32)"
| "uint32_value (Text s) = (if s \<noteq> [] \<and> isdigit (hd s) then Some (nat (atoi s mod 2 ^ 32)) else None)"

definition process_result :: "pg_value \<times> pg_value \<Rightarrow> (nat \<times> nat) option" where
  "process_result row =
     (case uint32_value (fst row) of
        None \<Rightarrow> None
      | Some i \<Rightarrow> if MAX_ID < i then None
                  else (case uint32_value (snd row) of None \<Rightarrow> None | Some r \<Rightarrow> Some (i, r)))"

text \<open>The first lines of the callbacks: the query is no longer in progress.\<close>

definition query_done :: "db_query \<Rightarrow> 'y world \<Rightarrow> 'y world" where
  "query_done q w = upd_ctx (\<lambda>c. c\<lparr>num_query_in_progress := num_query_in_progress c - 1\<rparr>)
     (w\<lparr>in_flight := remove1 q (in_flight w)\<rparr>)"

definition cleanup_if_last :: "'y env \<Rightarrow> 'y world \<Rightarrow> 'y world" where
  "cleanup_if_last e w =
     (if num_query_in_progress (ctx w) = 0 \<and> IS_COMPLETED (ctx w) then cleanup_multiple_query e w else w)"

definition on_multiple_query_error :: "'y env \<Rightarrow> string \<Rightarrow> db_query \<Rightarrow> 'y world \<Rightarrow> 'y world" where
  "on_multiple_query_error e error_string q w =
     (let w = query_done q w
      in if DO_CLEANUP (ctx w) then cleanup_if_last e w
         else reply (send_error BAD_GATEWAY error_string) (set_cleanup w))"

definition on_multiple_query_timeout :: "'y env \<Rightarrow> db_query \<Rightarrow> 'y world \<Rightarrow> 'y world" where
  "on_multiple_query_timeout e q w =
     (let w = query_done q w
      in if DO_CLEANUP (ctx w) then cleanup_if_last e w
         else reply (send_error GATEWAY_TIMEOUT DB_TIMEOUT_ERROR) (set_cleanup w))"

text \<open>
  \<^verbatim>\<open>rows\<close>: the rows of a result with the status \<^verbatim>\<open>PGRES_TUPLES_OK\<close>, or \<^verbatim>\<open>None\<close>.
\<close>

definition on_multiple_query_result ::
    "'y env \<Rightarrow> 'y option \<Rightarrow> (nat \<Rightarrow> nat) \<Rightarrow> bool \<Rightarrow> (pg_value \<times> pg_value) list option \<Rightarrow> nat \<Rightarrow> 'y world \<Rightarrow> 'y world" where
  "on_multiple_query_result e fresh rnd accepted rows k w =
     (let w = query_done (Select k) w
      in if DO_CLEANUP (ctx w) then cleanup_if_last e w
         else (case rows of
                 None \<Rightarrow> reply (send_error BAD_GATEWAY DB_ERROR) (set_cleanup w)
               | Some rows \<Rightarrow>
                   (case (if length rows = 1 then process_result (hd rows) else None) of
                      None \<Rightarrow> w\<lparr>failed_assert := True\<rparr>
                    | Some row \<Rightarrow>
                        (let w = upd_ctx (\<lambda>c. c\<lparr>res := (res c)[num_result c := row], num_result := num_result c + 1\<rparr>) w;
                             c = ctx w;
                             num_query_remaining = num_query c - num_result c
                         in if num_query_in_progress c < num_query_remaining
                            then (let idx = num_result c + num_query_in_progress c;
                                      w = upd_ctx (\<lambda>c. c\<lparr>query_param := (query_param c)[k := fst (res c ! idx)]\<rparr>) w
                                  in if \<not> accepted then refuse e w
                                     else upd_ctx (\<lambda>c. c\<lparr>num_query_in_progress := num_query_in_progress c + 1\<rparr>)
                                            (w\<lparr>in_flight := in_flight w @ [Select k]\<rparr>))
                            else if num_result c = num_query c then complete_multiple_query e fresh rnd accepted w
                            else w))))"

definition on_update_result :: "'y env \<Rightarrow> 'y option \<Rightarrow> bool \<Rightarrow> 'y world \<Rightarrow> 'y world" where
  "on_update_result e fresh command_ok w =
     (let cleanup = DO_CLEANUP (ctx w); w = query_done Update (set_cleanup w)
      in if cleanup then cleanup_multiple_query e w
         else if command_ok then respond_items e fresh w
         else reply (send_error BAD_GATEWAY DB_ERROR) w)"

section \<open>Starting\<close>

text \<open>
  The number of queries a request may have in progress: the product on \<^verbatim>\<open>size_t\<close>, and
  the check for its overflow.
\<close>

definition in_progress_limit :: "64 word \<Rightarrow> 64 word \<Rightarrow> nat \<Rightarrow> nat" where
  "in_progress_limit max_db_conn_num max_pipeline_query_num n =
     (let p = max_db_conn_num * max_pipeline_query_num
      in if p < max_db_conn_num \<or> p < max_pipeline_query_num then n else min n (unat p))"

definition new_world :: "bool \<Rightarrow> bool \<Rightarrow> nat list \<Rightarrow> h2o_req \<Rightarrow> 'y json_pool \<Rightarrow> 'y world" where
  "new_world upd use_cache ids rq p =
     \<lparr>ctx = \<lparr>gen = None, req = rq, query_param = [], num_query = length ids, num_query_in_progress = 0,
             num_result = 0, DO_UPDATE = upd, USE_CACHE = use_cache, DO_CLEANUP = False, IS_COMPLETED = False,
             res = map (\<lambda>i. (i, 0)) ids, update_command = [], update_params = []\<rparr>,
      pool = p, in_flight = [], freed = 0, failed_assert = False\<rparr>"

text \<open>
  The queries of the elements of \<^verbatim>\<open>query_param\<close> are handed to the pool of connections in
  order; \<^verbatim>\<open>accept\<close> is the number it takes before it refuses one.
\<close>

definition start_queries :: "'y env \<Rightarrow> nat \<Rightarrow> nat \<Rightarrow> 'y world \<Rightarrow> 'y world" where
  "start_queries e limit accept w =
     (let c = ctx w;
          n = min limit (num_query c - num_result c);
          w = upd_ctx (\<lambda>c. c\<lparr>num_query_in_progress := n,
                query_param := map (\<lambda>i. fst (res c ! (num_result c + i))) [0..<n]\<rparr>) w
      in if n \<le> accept then w\<lparr>in_flight := map Select [0..<n]\<rparr>
         else refuse e (upd_ctx (\<lambda>c. c\<lparr>num_query_in_progress := accept\<rparr>) (w\<lparr>in_flight := map Select [0..<accept]\<rparr>)))"

text \<open>The table of a cache entry: a number for each id.\<close>

definition fetch_table :: "nat list \<Rightarrow> 'y world \<Rightarrow> 'y world" where
  "fetch_table table w =
     upd_ctx (\<lambda>c. c\<lparr>res := map (\<lambda>r. (fst r, table ! fst r)) (res c), num_result := num_query c\<rparr>)
       (w\<lparr>failed_assert := failed_assert w \<or> list_ex (\<lambda>r. MAX_ID < fst r) (res (ctx w))\<rparr>)"

text \<open>
  \<^verbatim>\<open>do_multiple_queries\<close>: \<^verbatim>\<open>ids\<close> come from \<^verbatim>\<open>initialize_ids\<close>, \<^verbatim>\<open>cached\<close> is
  the table that \<^verbatim>\<open>fetch_from_cache\<close> finds, if any.
\<close>

definition do_multiple_queries ::
    "'y env \<Rightarrow> bool \<Rightarrow> bool \<Rightarrow> nat list \<Rightarrow> nat list option \<Rightarrow> nat \<Rightarrow> nat \<Rightarrow> 'y option \<Rightarrow> h2o_req \<Rightarrow> 'y json_pool \<Rightarrow>
     'y world" where
  "do_multiple_queries e upd use_cache ids cached limit accept fresh rq p =
     (let w = new_world upd use_cache ids rq p;
          w = (case (if use_cache then cached else None) of None \<Rightarrow> w | Some table \<Rightarrow> fetch_table table w)
      in if use_cache \<and> num_result (ctx w) = num_query (ctx w)
         then complete_multiple_query e fresh (\<lambda>_. 0) True w
         else start_queries e limit accept w)"

end
