(* ===== verification/World_Inv.thy ===== *)
theory World_Inv
  imports World
begin

text \<open>
  The life of a request for several rows: the steps of its context, and the invariant they
  keep.  A step is a callback of a query in flight, or the disposal of the request, which may
  come at any time.
\<close>

section \<open>Steps\<close>

text \<open>
  What a run is about: the environment with what its generators hold, the numbers the
  database may answer for an id, the ids the request was given, the request and the number of
  generators in use at the start, and whether the rows are updated.
\<close>

record 'y run =
  run_env :: "'y env"
  run_ops :: "'y \<Rightarrow> yajl_op list"
  run_text :: "yajl_op list \<Rightarrow> string"
  run_db :: "nat \<Rightarrow> nat \<Rightarrow> bool"
  run_ids :: "nat list"
  run_req :: h2o_req
  run_in_use :: nat
  run_upd :: bool

definition run_ok :: "'y run \<Rightarrow> bool" where
  "run_ok R \<longleftrightarrow> yajl_contract (yj (run_env R)) (run_ops R) (run_text R) \<and>
     (\<forall>i r. run_db R i r \<longrightarrow> r < 2 ^ 32) \<and> (\<forall>i \<in> set (run_ids R). i \<le> MAX_ID) \<and> length (run_ids R) \<le> MAX_QUERIES"

text \<open>What yajl and the random numbers give: a new generator is empty.\<close>

definition inputs_ok :: "'y run \<Rightarrow> 'y option \<Rightarrow> (nat \<Rightarrow> nat) \<Rightarrow> bool" where
  "inputs_ok R fresh rnd \<longleftrightarrow> (\<forall>y. fresh = Some y \<longrightarrow> run_ops R y = []) \<and> (\<forall>i. rnd i < MAX_ID)"

inductive world_step :: "'y run \<Rightarrow> 'y world \<Rightarrow> 'y world \<Rightarrow> bool" for R where
  row: "Select k \<in> set (in_flight w) \<Longrightarrow> run_db R (query_param (ctx w) ! k) r \<Longrightarrow> inputs_ok R fresh rnd \<Longrightarrow>
    world_step R w (on_multiple_query_result (run_env R) fresh rnd accepted
      (Some [(Binary (query_param (ctx w) ! k), Binary r)]) k w)"
| no_row: "Select k \<in> set (in_flight w) \<Longrightarrow>
    world_step R w (on_multiple_query_result (run_env R) fresh rnd accepted None k w)"
| error: "q \<in> set (in_flight w) \<Longrightarrow> world_step R w (on_multiple_query_error (run_env R) msg q w)"
| timeout: "q \<in> set (in_flight w) \<Longrightarrow> world_step R w (on_multiple_query_timeout (run_env R) q w)"
| updated: "Update \<in> set (in_flight w) \<Longrightarrow> inputs_ok R fresh (\<lambda>_. 0) \<Longrightarrow>
    world_step R w (on_update_result (run_env R) fresh command_ok w)"
| disposed: "\<not> IS_COMPLETED (ctx w) \<Longrightarrow> world_step R w (cleanup_multiple_query_request (run_env R) w)"

section \<open>The invariant\<close>

definition asked :: "'y multiple_query_ctx \<Rightarrow> db_query \<Rightarrow> nat" where
  "asked c q = (case q of Select k \<Rightarrow> query_param c ! k | Update \<Rightarrow> 0)"

text \<open>The rows that may be answered.\<close>

definition rows_good :: "'y run \<Rightarrow> (nat \<times> nat) list \<Rightarrow> bool" where
  "rows_good R rows \<longleftrightarrow> mset (map fst rows) = mset (run_ids R) \<and>
     (if run_upd R then sorted (map fst rows) \<and> (\<forall>r \<in> set rows. 1 \<le> snd r \<and> snd r \<le> MAX_ID)
      else (\<forall>r \<in> set rows. run_db R (fst r) (snd r)))"

fun good_answer :: "'y run \<Rightarrow> h2o_call \<Rightarrow> bool" where
  "good_answer R (Send_final s) = (\<exists>rows. rows_good R rows \<and> s = run_text R (array_ops rows))"
| "good_answer R (Send_inline s) = False"
| "good_answer R (Send_error_generic n reason msg) = (n \<in> {500, 502, 504})"
| "good_answer R (Send_error_503 reason msg) = True"

text \<open>Not answered yet, and no update in flight; queries may be in flight.\<close>

definition quiet :: "'y run \<Rightarrow> 'y world \<Rightarrow> bool" where
  "quiet R w \<longleftrightarrow> \<not> DO_CLEANUP (ctx w) \<and> \<not> IS_COMPLETED (ctx w) \<and>
     num_query_in_progress (ctx w) = length (in_flight w) \<and> distinct (in_flight w) \<and> Update \<notin> set (in_flight w) \<and>
     freed w = 0 \<and> calls (req (ctx w)) = calls (run_req R) \<and> gen (ctx w) = None \<and> \<not> failed_assert w \<and>
     DO_UPDATE (ctx w) = run_upd R \<and> num_query (ctx w) = length (run_ids R) \<and>
     length (res (ctx w)) = num_query (ctx w) \<and>
     pool_ok (run_ops R) (pool w) \<and> in_use (pool w) = run_in_use R"

definition select_data :: "'y run \<Rightarrow> 'y world \<Rightarrow> bool" where
  "select_data R w \<longleftrightarrow>
     num_result (ctx w) + length (in_flight w) \<le> num_query (ctx w) \<and>
     (\<forall>q \<in> set (in_flight w). \<exists>k < length (query_param (ctx w)). q = Select k) \<and>
     (\<forall>r \<in> set (take (num_result (ctx w)) (res (ctx w))). run_db R (fst r) (snd r)) \<and>
     mset (map fst (take (num_result (ctx w)) (res (ctx w)))) + mset (map (asked (ctx w)) (in_flight w)) +
       mset (map fst (drop (num_result (ctx w) + length (in_flight w)) (res (ctx w)))) = mset (run_ids R)"

text \<open>Waiting for rows; waiting for the update; answered or disposed of.\<close>

definition select_open :: "'y run \<Rightarrow> 'y world \<Rightarrow> bool" where
  "select_open R w \<longleftrightarrow> quiet R w \<and> in_flight w \<noteq> [] \<and> select_data R w"

definition update_open :: "'y run \<Rightarrow> 'y world \<Rightarrow> bool" where
  "update_open R w \<longleftrightarrow> quiet R (query_done Update w) \<and> in_flight w = [Update] \<and> num_query_in_progress (ctx w) = 1 \<and>
     run_upd R \<and> num_result (ctx w) = num_query (ctx w) \<and> rows_good R (res (ctx w)) \<and>
     update_params (ctx w) = concat (map (\<lambda>r. [fst r, snd r]) (res (ctx w)))"

definition closed_inv :: "'y run \<Rightarrow> 'y world \<Rightarrow> bool" where
  "closed_inv R w \<longleftrightarrow> DO_CLEANUP (ctx w) \<and> num_query_in_progress (ctx w) = length (in_flight w) \<and>
     distinct (in_flight w) \<and> (Update \<in> set (in_flight w) \<longrightarrow> in_flight w = [Update] \<and> IS_COMPLETED (ctx w)) \<and>
     freed w = (if IS_COMPLETED (ctx w) \<and> in_flight w = [] then 1 else 0) \<and> \<not> failed_assert w \<and>
     (IS_COMPLETED (ctx w) \<and> calls (req (ctx w)) = calls (run_req R) \<or>
      (\<exists>a. good_answer R a \<and> calls (req (ctx w)) = calls (run_req R) @ [a])) \<and>
     pool_ok (run_ops R) (pool w) \<and>
     (if freed w = 0 \<and> gen (ctx w) \<noteq> None
      then in_use (pool w) = run_in_use R + 1
      else in_use (pool w) = run_in_use R)"

definition world_inv :: "'y run \<Rightarrow> 'y world \<Rightarrow> bool" where
  "world_inv R w \<longleftrightarrow> select_open R w \<or> update_open R w \<or> closed_inv R w"

section \<open>Closing\<close>

lemma in_use_alive: "pool_ok ops p \<Longrightarrow> 0 < in_use p \<Longrightarrow> json_generator_num p < alive p"
  by (simp add: pool_ok_def in_use_def)

lemma world_simps [simp]:
  "gen (ctx (query_done q w)) = gen (ctx w)" "req (ctx (query_done q w)) = req (ctx w)"
  "query_param (ctx (query_done q w)) = query_param (ctx w)" "num_query (ctx (query_done q w)) = num_query (ctx w)"
  "num_query_in_progress (ctx (query_done q w)) = num_query_in_progress (ctx w) - 1"
  "num_result (ctx (query_done q w)) = num_result (ctx w)" "res (ctx (query_done q w)) = res (ctx w)"
  "DO_CLEANUP (ctx (query_done q w)) = DO_CLEANUP (ctx w)" "IS_COMPLETED (ctx (query_done q w)) = IS_COMPLETED (ctx w)"
  "DO_UPDATE (ctx (query_done q w)) = DO_UPDATE (ctx w)" "in_flight (query_done q w) = remove1 q (in_flight w)"
  "pool (query_done q w) = pool w" "freed (query_done q w) = freed w" "failed_assert (query_done q w) = failed_assert w"
  by (simp_all add: query_done_def)

lemma quiet_done: "quiet R w \<Longrightarrow> q \<in> set (in_flight w) \<Longrightarrow> quiet R (query_done q w)"
  by (auto simp: quiet_def length_remove1 dest: in_set_remove1)

lemma quiet_reply:
  "quiet R w \<Longrightarrow> (\<And>r. calls (f r) = calls r @ [a]) \<Longrightarrow> good_answer R a \<Longrightarrow> closed_inv R (reply f (set_cleanup w))"
  by (auto simp: quiet_def closed_inv_def reply_def set_cleanup_def)

lemma calls_errors [simp]:
  "calls (send_error s b r) = calls r @ [Send_error_generic (status_number s) (status_code_to_string s) b]"
  "calls (send_service_unavailable_error t b r) = calls r @ [Send_error_503 ''Service Unavailable'' b]"
  by (simp_all add: send_error_def send_service_unavailable_error_def)

lemma quiet_refuse: "quiet R w \<Longrightarrow> closed_inv R (refuse e w)"
  unfolding refuse_def
  by (rule quiet_reply [where a = "Send_error_503 ''Service Unavailable'' DB_REQ_ERROR"]) simp_all

lemma quiet_error:
  "quiet R w \<Longrightarrow> s \<in> {INTERNAL_SERVER_ERROR, BAD_GATEWAY, GATEWAY_TIMEOUT} \<Longrightarrow>
    closed_inv R (reply (send_error s msg) (set_cleanup w))"
  by (rule quiet_reply [where a = "Send_error_generic (status_number s) (status_code_to_string s) msg"]) auto

lemma rows_uint32:
  assumes "run_ok R" "rows_good R rows"
  shows "list_all (\<lambda>(i, r). i < 2 ^ 32 \<and> r < 2 ^ 32) rows"
proof -
  have "set (map fst rows) = set (run_ids R)" using assms(2) unfolding rows_good_def by (metis mset_eq_set)
  then have "\<forall>r \<in> set rows. fst r \<le> MAX_ID" using assms(1) by (auto simp: run_ok_def)
  moreover have "\<forall>r \<in> set rows. snd r < 2 ^ 32"
    using assms by (fastforce simp: rows_good_def run_ok_def MAX_ID_def split: if_splits)
  ultimately show ?thesis by (fastforce simp: list_all_iff MAX_ID_def)
qed

lemma quiet_respond:
  assumes "quiet R w" "run_ok R" "rows_good R (take (num_result (ctx w)) (res (ctx w)))" "inputs_ok R fresh rnd"
  shows "closed_inv R (respond_items (run_env R) fresh (set_cleanup w))"
proof -
  let ?e = "run_env R" and ?rows = "take (num_result (ctx w)) (res (ctx w))"
  have q: "pool_ok (run_ops R) (pool w)" "in_use (pool w) = run_in_use R" "calls (req (ctx w)) = calls (run_req R)"
    using assms(1) by (simp_all add: quiet_def)
  obtain g p where get: "get_json_generator fresh (pool w) = (g, p)" by (cases "get_json_generator fresh (pool w)")
  have gok: "case g of None \<Rightarrow> p = pool w | Some y \<Rightarrow> run_ops R y = [] \<and> in_use p = in_use (pool w) + 1 \<and>
      pool_ok (run_ops R) p \<and> json_generator_num p < alive p"
    using get_json_generator_ok [OF q(1), of fresh] assms(4) get by (simp add: inputs_ok_def split: option.splits)
  show ?thesis
  proof (cases g)
    case None
    then show ?thesis using gok get assms(1)
      by (auto simp: respond_items_def set_cleanup_def reply_def closed_inv_def quiet_def internal_error_def)
  next
    case (Some y)
    then have y: "run_ops R y = []" "in_use p = run_in_use R + 1" "pool_ok (run_ops R) p" "json_generator_num p < alive p"
      using gok q(2) by auto
    obtain g' p' req' where s: "serialize_items (yj ?e) (date ?e) (buf_mem ?e) ?rows y (p, req (ctx w)) = (g', p', req')"
      by (cases "serialize_items (yj ?e) (date ?e) (buf_mem ?e) ?rows y (p, req (ctx w))")
    have "yajl_contract (yj ?e) (run_ops R) (run_text R)" using assms(2) by (simp add: run_ok_def)
    from serialize_items_ok [OF this rows_uint32 [OF assms(2,3)] y(1,3,4), where date = "date ?e" and mem = "buf_mem ?e" and req = "req (ctx w)"]
    show ?thesis
      using Some get s y assms(1,3) q
      by (cases g') (auto simp: respond_items_def set_cleanup_def closed_inv_def quiet_def answered_def internal_error_def)
  qed
qed

section \<open>Callbacks\<close>

lemma closed_cleanup:
  assumes "run_ok R" "closed_inv R w" "IS_COMPLETED (ctx w)" "in_flight w = [q]"
  shows "closed_inv R (cleanup_multiple_query (run_env R) (query_done q w))"
proof -
  have clear: "\<And>y. run_ops R (clear (yj (run_env R)) y) = []" using assms(1) by (simp add: run_ok_def yajl_contract_def)
  show ?thesis
  proof (cases "gen (ctx w)")
    case None
    with assms(2-4) show ?thesis
      by (auto simp: closed_inv_def cleanup_multiple_query_def query_done_def free_json_generator_def)
  next
    case (Some y)
    then have p: "pool_ok (run_ops R) (pool w)" "in_use (pool w) = run_in_use R + 1"
      using assms(2,4) by (simp_all add: closed_inv_def split: if_splits)
    from free_json_generator_ok [OF p(1) in_use_alive [OF p(1)] clear] p(2) Some assms(2-4) show ?thesis
      by (auto simp: closed_inv_def cleanup_multiple_query_def query_done_def)
  qed
qed

lemma closed_done:
  assumes "run_ok R" "closed_inv R w" "q \<in> set (in_flight w)"
  shows "closed_inv R (cleanup_if_last (run_env R) (query_done q w))"
proof (cases "num_query_in_progress (ctx w) = 1 \<and> IS_COMPLETED (ctx w)")
  case True
  then have "in_flight w = [q]" using assms(2,3) by (cases "in_flight w") (auto simp: closed_inv_def)
  with True closed_cleanup [OF assms(1,2)] show ?thesis by (simp add: cleanup_if_last_def)
next
  case False
  have len: "num_query_in_progress (ctx w) = length (in_flight w)" "0 < length (in_flight w)" "distinct (in_flight w)"
    using assms(2,3) by (auto simp: closed_inv_def)
  have "Update \<notin> set (in_flight w)" using assms(2,3) False len by (auto simp: closed_inv_def)
  moreover have "remove1 q (in_flight w) = [] \<longrightarrow> \<not> IS_COMPLETED (ctx w)"
    using assms(3) len False by (cases "in_flight w") (auto split: if_splits)
  moreover have "Update \<notin> set (remove1 q (in_flight w))" using calculation(1) by (meson in_set_remove1 notin_set_remove1)
  moreover have "freed w = 0" using assms(2) len by (auto simp: closed_inv_def)
  ultimately have "closed_inv R (query_done q w)"
    using assms(2,3) len unfolding closed_inv_def world_simps by (simp add: length_remove1) blast
  moreover have "num_query_in_progress (ctx w) - 1 = 0 \<longleftrightarrow> num_query_in_progress (ctx w) = 1" using len by linarith
  ultimately show ?thesis using False by (auto simp: cleanup_if_last_def)
qed

lemma dispose_open: "quiet R (query_done Update w) \<and> in_flight w = [Update] \<and> num_query_in_progress (ctx w) = 1 \<or>
    quiet R w \<and> in_flight w \<noteq> [] \<Longrightarrow> closed_inv R (cleanup_multiple_query_request e w)"
  by (auto simp: quiet_def closed_inv_def Let_def cleanup_multiple_query_request_def set_cleanup_def)

lemma dispose_closed:
  assumes "run_ok R" "closed_inv R w" "\<not> IS_COMPLETED (ctx w)"
  shows "closed_inv R (cleanup_multiple_query_request (run_env R) w)"
proof -
  have clear: "\<And>y. run_ops R (clear (yj (run_env R)) y) = []" using assms(1) by (simp add: run_ok_def yajl_contract_def)
  show ?thesis
  proof (cases "gen (ctx w)")
    case None
    with assms(2,3) show ?thesis
      by (auto simp: closed_inv_def Let_def cleanup_multiple_query_request_def cleanup_multiple_query_def free_json_generator_def)
  next
    case (Some y)
    then have p: "pool_ok (run_ops R) (pool w)" "in_use (pool w) = run_in_use R + 1"
      using assms(2,3) by (simp_all add: closed_inv_def split: if_splits)
    from free_json_generator_ok [OF p(1) in_use_alive [OF p(1)] clear] p(2) Some assms(2,3) show ?thesis
      by (auto simp: closed_inv_def Let_def cleanup_multiple_query_request_def cleanup_multiple_query_def)
  qed
qed

text \<open>An error or a timeout.\<close>

lemma error_inv:
  assumes "run_ok R" "world_inv R w" "q \<in> set (in_flight w)"
  shows "world_inv R (on_multiple_query_error (run_env R) msg q w)" "world_inv R (on_multiple_query_timeout (run_env R) q w)"
proof -
  have open_done: "quiet R (query_done q w)" if "\<not> closed_inv R w"
  proof (cases "select_open R w")
    case True
    then show ?thesis using assms(3) quiet_done by (auto simp: select_open_def)
  next
    case False
    then show ?thesis using that assms(2,3) by (auto simp: world_inv_def update_open_def)
  qed
  have "closed_inv R (on_multiple_query_error (run_env R) msg q w) \<and> closed_inv R (on_multiple_query_timeout (run_env R) q w)"
  proof (cases "closed_inv R w")
    case True
    then have "DO_CLEANUP (ctx w)" by (simp add: closed_inv_def)
    with closed_done [OF assms(1) True assms(3)] show ?thesis
      by (simp add: on_multiple_query_error_def on_multiple_query_timeout_def Let_def)
  next
    case False
    from open_done [OF this] have "quiet R (query_done q w)" .
    then have "\<not> DO_CLEANUP (ctx w)" by (simp add: quiet_def)
    with quiet_error [OF \<open>quiet R (query_done q w)\<close>] show ?thesis
      by (simp add: on_multiple_query_error_def on_multiple_query_timeout_def Let_def)
  qed
  then show "world_inv R (on_multiple_query_error (run_env R) msg q w)" "world_inv R (on_multiple_query_timeout (run_env R) q w)"
    by (simp_all add: world_inv_def)
qed

lemma updated_inv:
  assumes "run_ok R" "world_inv R w" "Update \<in> set (in_flight w)" "inputs_ok R fresh rnd"
  shows "world_inv R (on_update_result (run_env R) fresh ok w)"
proof (cases "closed_inv R w")
  case True
  then have c: "DO_CLEANUP (ctx w)" "in_flight w = [Update]" "IS_COMPLETED (ctx w)"
    using assms(3) by (auto simp: closed_inv_def)
  moreover have "set_cleanup w = w" using c by (simp add: set_cleanup_def)
  ultimately show ?thesis using closed_cleanup [OF assms(1) True c(3,2)] by (simp add: world_inv_def on_update_result_def Let_def)
next
  case False
  then have u: "update_open R w" using assms(2,3) by (auto simp: world_inv_def select_open_def quiet_def)
  then have q: "quiet R (query_done Update w)" by (simp add: update_open_def)
  then have c: "\<not> DO_CLEANUP (ctx w)" by (simp add: quiet_def)
  have comm: "query_done Update (set_cleanup w) = set_cleanup (query_done Update w)"
    by (simp add: query_done_def set_cleanup_def)
  have "rows_good R (take (num_result (ctx w)) (res (ctx w)))" using u q by (simp add: update_open_def quiet_def)
  then have "closed_inv R (respond_items (run_env R) fresh (set_cleanup (query_done Update w)))"
    using quiet_respond [OF q assms(1) _ assms(4)] by simp
  moreover have "closed_inv R (reply (send_error BAD_GATEWAY DB_ERROR) (set_cleanup (query_done Update w)))"
    using quiet_error [OF q] by simp
  ultimately show ?thesis using c comm by (simp add: world_inv_def on_update_result_def Let_def)
qed

section \<open>Rows\<close>

lemma compare_items_le: "compare_items x y \<le> 0 \<longleftrightarrow> fst x \<le> fst y"
  by (auto simp: compare_items_def)

interpretation item_order: comparator compare_items
  by unfold_locales (auto simp: compare_items_le)

lemma qsort_items: "mset (qsort compare_items xs) = mset xs \<and> sorted (map fst (qsort compare_items xs))"
  using item_order.qsort_sorted [of xs] by (simp add: compare_items_le sorted_map)

text \<open>What is left to do when all rows are there.\<close>

lemma dec_small_number: "n \<le> MAX_QUERIES \<Longrightarrow> length (dec n) \<le> 3"
  using length_dec_le [of n 3] by (simp add: MAX_QUERIES_def)

lemma length_dec_MAX_QUERIES: "length (dec MAX_QUERIES) = 3"
  by (simp add: MAX_QUERIES_def dec_big dec_small)

lemma updates_inv:
  assumes "run_ok R" "quiet R w" "in_flight w = []" "run_upd R" "num_result (ctx w) = num_query (ctx w)"
    "mset (map fst (res (ctx w))) = mset (run_ids R)" "inputs_ok R fresh rnd"
  shows "world_inv R (do_updates (run_env R) rnd accepted w)"
proof -
  let ?n = "num_query (ctx w)" and ?s = "qsort compare_items (res (ctx w))"
  let ?rows = "map (\<lambda>i. (fst (?s ! i), Suc (rnd i))) [0..<num_query (ctx w)]"
  have n: "length (res (ctx w)) = ?n" "?n \<le> MAX_QUERIES" using assms(1,2) by (simp_all add: quiet_def run_ok_def)
  have s: "length ?s = ?n" using qsort_items [of "res (ctx w)"] n by (metis size_mset)
  have "map fst ?rows = map fst ?s"
    by (rule nth_equalityI) (simp_all add: s)
  then have rows: "rows_good R ?rows"
    using qsort_items [of "res (ctx w)"] assms(4,6,7) by (auto simp: rows_good_def inputs_ok_def Suc_le_eq)
  have q: "quiet R (upd_ctx (\<lambda>c. c\<lparr>res := ?rows, update_command := cmd, update_params := ps\<rparr>) w)" for cmd ps
    using assms(2) n by (simp add: quiet_def)
  have fits: "\<not> length (dec MAX_QUERIES) + 1 \<le> length (dec ?n)"
    using dec_small_number [OF n(2)] length_dec_MAX_QUERIES by simp
  show ?thesis
  proof (cases accepted)
    case False
    then show ?thesis using quiet_refuse [OF q] fits assms(5) n
      by (simp add: do_updates_def Let_def world_inv_def)
  next
    case True
    then show ?thesis using q rows fits assms(2-5) n
      by (simp add: do_updates_def Let_def world_inv_def update_open_def query_done_def quiet_def)
  qed
qed

lemma complete_inv:
  assumes "run_ok R" "quiet R w" "in_flight w = []" "num_result (ctx w) = num_query (ctx w)"
    "mset (map fst (res (ctx w))) = mset (run_ids R)"
    "\<not> run_upd R \<Longrightarrow> \<forall>r \<in> set (res (ctx w)). run_db R (fst r) (snd r)" "inputs_ok R fresh rnd"
  shows "world_inv R (complete_multiple_query (run_env R) fresh rnd accepted w)"
proof -
  have w: "w\<lparr>failed_assert := failed_assert w \<or> num_result (ctx w) \<noteq> num_query (ctx w)\<rparr> = w"
    using assms(2,4) by (simp add: quiet_def)
  have u: "DO_UPDATE (ctx w) = run_upd R" "length (res (ctx w)) = num_query (ctx w)" using assms(2) by (simp_all add: quiet_def)
  show ?thesis
  proof (cases "run_upd R")
    case True
    then show ?thesis using updates_inv [OF assms(1-3) True assms(4,5,7)] u
      by (simp add: complete_multiple_query_def w)
  next
    case False
    then have "rows_good R (take (num_result (ctx w)) (res (ctx w)))" using assms(4-6) u by (simp add: rows_good_def)
    from quiet_respond [OF assms(2,1) this assms(7)] False u show ?thesis
      by (simp add: complete_multiple_query_def w world_inv_def)
  qed
qed

lemma process_binary: "i \<le> MAX_ID \<Longrightarrow> r < 2 ^ 32 \<Longrightarrow> process_result (Binary i, Binary r) = Some (i, r)"
  by (simp add: process_result_def MAX_ID_def)

text \<open>The data after a row has been taken, and after the next query has been started.\<close>

definition take_row :: "nat \<times> nat \<Rightarrow> 'y world \<Rightarrow> 'y world" where
  "take_row row w = upd_ctx (\<lambda>c. c\<lparr>res := (res c)[num_result c := row], num_result := num_result c + 1\<rparr>) w"

definition next_query :: "nat \<Rightarrow> 'y world \<Rightarrow> 'y world" where
  "next_query k w =
     upd_ctx (\<lambda>c. c\<lparr>query_param := (query_param c)[k := fst (res c ! (num_result c + num_query_in_progress c))],
        num_query_in_progress := num_query_in_progress c + 1\<rparr>) (w\<lparr>in_flight := in_flight w @ [Select k]\<rparr>)"

lemma take_row_data:
  assumes "select_open R w" "Select k \<in> set (in_flight w)" "run_db R (query_param (ctx w) ! k) r"
  shows "quiet R (take_row (query_param (ctx w) ! k, r) (query_done (Select k) w))"
    "select_data R (take_row (query_param (ctx w) ! k, r) (query_done (Select k) w))"
proof -
  let ?row = "(query_param (ctx w) ! k, r)" and ?c = "ctx w"
  let ?nr = "num_result ?c" and ?fl = "in_flight w"
  have q: "quiet R w" and d: "select_data R w" using assms(1) by (simp_all add: select_open_def)
  show "quiet R (take_row ?row (query_done (Select k) w))"
    using quiet_done [OF q assms(2)] by (simp add: quiet_def take_row_def)
  have len: "length (res ?c) = num_query ?c" "?nr + length ?fl \<le> num_query ?c" using q d by (simp_all add: quiet_def select_data_def)
  have pos: "0 < length ?fl" using assms(2) by (cases ?fl) auto
  have lt: "?nr < length (res ?c)" using len pos by linarith
  have t: "take (Suc ?nr) ((res ?c)[?nr := ?row]) = take ?nr (res ?c) @ [?row]"
    using lt by (simp add: take_Suc_conv_app_nth)
  have dr: "drop (?nr + length ?fl) ((res ?c)[?nr := ?row]) = drop (?nr + length ?fl) (res ?c)" using pos by simp
  have rm: "length (remove1 (Select k) ?fl) + 1 = length ?fl" using assms(2) pos by (simp add: length_remove1)
  then have idx: "Suc (?nr + length (remove1 (Select k) ?fl)) = ?nr + length ?fl" by simp
  have "mset ?fl = add_mset (Select k) (mset (remove1 (Select k) ?fl))" using assms(2) by simp
  then have "image_mset (asked ?c) (mset ?fl) = add_mset (asked ?c (Select k)) (image_mset (asked ?c) (mset (remove1 (Select k) ?fl)))"
    by (simp del: mset_remove1)
  then have fl: "mset (map (asked ?c) ?fl) = add_mset (query_param ?c ! k) (mset (map (asked ?c) (remove1 (Select k) ?fl)))"
    by (simp add: asked_def del: mset_remove1)
  have asked: "asked (ctx (take_row ?row (query_done (Select k) w))) = asked ?c"
    by (rule ext) (simp add: asked_def take_row_def split: db_query.split)
  show "select_data R (take_row ?row (query_done (Select k) w))"
    using d len lt rm assms(3) unfolding select_data_def asked
    by (simp add: take_row_def t idx dr fl del: mset_remove1 mset_map) (auto dest: notin_set_remove1)
qed

lemma next_query_data:
  assumes "quiet R w" "select_data R w" "num_query_in_progress (ctx w) < num_query (ctx w) - num_result (ctx w)"
    "Select k \<notin> set (in_flight w)" "k < length (query_param (ctx w))"
  shows "select_open R (next_query k w)"
proof -
  let ?c = "ctx w" and ?fl = "in_flight w"
  let ?i = "num_result ?c + length ?fl"
  have q: "num_query_in_progress ?c = length ?fl" "length (res ?c) = num_query ?c" using assms(1) by (simp_all add: quiet_def)
  have lt: "?i < length (res ?c)" using assms(3) q by linarith
  have asked: "map (asked (?c\<lparr>query_param := (query_param ?c)[k := x], num_query_in_progress := m\<rparr>)) ?fl = map (asked ?c) ?fl" for x m
      proof (rule map_cong [OF refl])
    fix q assume "q \<in> set ?fl"
    with assms(4) have "q \<noteq> Select k" by blast
    then show "asked (?c\<lparr>query_param := (query_param ?c)[k := x], num_query_in_progress := m\<rparr>) q = asked ?c q"
      by (cases q) (simp_all add: asked_def)
  qed
  have dr: "drop ?i (map fst (res ?c)) = fst (res ?c ! ?i) # drop (Suc ?i) (map fst (res ?c))"
    using lt by (simp add: Cons_nth_drop_Suc [symmetric])
  have "quiet R (next_query k w)" using assms(1,4) by (auto simp: quiet_def next_query_def)
  moreover have "select_data R (next_query k w)"
    using assms(2,5) lt q unfolding select_data_def
    by (auto simp: next_query_def asked drop_map [symmetric] dr) (simp_all add: asked_def)
  ultimately show ?thesis by (simp add: select_open_def next_query_def)
qed

lemma asked_in_ids:
  assumes "select_data R w" "Select k \<in> set (in_flight w)"
  shows "query_param (ctx w) ! k \<in> set (run_ids R)" "k < length (query_param (ctx w))"
proof -
  have "query_param (ctx w) ! k \<in># mset (map (asked (ctx w)) (in_flight w))"
    using assms(2) by (force simp: asked_def)
  then have "query_param (ctx w) ! k \<in># mset (run_ids R)"
    using assms(1) unfolding select_data_def by (metis union_iff)
  then show "query_param (ctx w) ! k \<in> set (run_ids R)" by simp
  show "k < length (query_param (ctx w))" using assms unfolding select_data_def by blast
qed

lemma row_inv:
  assumes "run_ok R" "world_inv R w" "Select k \<in> set (in_flight w)" "run_db R (query_param (ctx w) ! k) r" "inputs_ok R fresh rnd"
  shows "world_inv R (on_multiple_query_result (run_env R) fresh rnd accepted
    (Some [(Binary (query_param (ctx w) ! k), Binary r)]) k w)"
proof (cases "closed_inv R w")
  case True
  then have "DO_CLEANUP (ctx w)" by (simp add: closed_inv_def)
  with closed_done [OF assms(1) True assms(3)] show ?thesis
    by (simp add: world_inv_def on_multiple_query_result_def Let_def)
next
  case False
  then have so: "select_open R w" using assms(2,3) by (auto simp: world_inv_def update_open_def)
  let ?i = "query_param (ctx w) ! k" and ?w = "query_done (Select k) w"
  let ?row = "(query_param (ctx w) ! k, r)"
  let ?w1 = "take_row ?row ?w"
  have d: "select_data R w" and cl: "\<not> DO_CLEANUP (ctx w)" using so by (simp_all add: select_open_def quiet_def)
  have "?i \<le> MAX_ID" "r < 2 ^ 32"
    using asked_in_ids(1) [OF d assms(3)] assms(1,4) unfolding run_ok_def by blast+
  then have pr: "process_result (Binary ?i, Binary r) = Some ?row" by (rule process_binary)
  note q1 = take_row_data(1) [OF so assms(3,4)] and d1 = take_row_data(2) [OF so assms(3,4)]
  have fl: "Select k \<notin> set (in_flight ?w1)"
    using so by (simp add: take_row_def select_open_def quiet_def)
  have qp: "k < length (query_param (ctx ?w1))" using asked_in_ids(2) [OF d assms(3)] by (simp add: take_row_def)
  have nip: "num_query_in_progress (ctx ?w1) = length (in_flight ?w1)" "length (res (ctx ?w1)) = num_query (ctx ?w1)"
    using q1 by (simp_all add: quiet_def)
  have sum: "num_result (ctx ?w1) + length (in_flight ?w1) \<le> num_query (ctx ?w1)" using d1 by (simp add: select_data_def)
  let ?c = "ctx ?w1"
  have eq: "on_multiple_query_result (run_env R) fresh rnd accepted (Some [(Binary ?i, Binary r)]) k w =
      (if num_query_in_progress ?c < num_query ?c - num_result ?c
       then (if \<not> accepted
             then refuse (run_env R) (upd_ctx (\<lambda>c. c\<lparr>query_param := (query_param c)
               [k := fst (res ?c ! (num_result ?c + num_query_in_progress ?c))]\<rparr>) ?w1)
             else next_query k ?w1)
       else if num_result ?c = num_query ?c then complete_multiple_query (run_env R) fresh rnd accepted ?w1 else ?w1)"
    using cl pr by (simp add: on_multiple_query_result_def Let_def take_row_def next_query_def)
  show ?thesis
  proof (cases "num_query_in_progress ?c < num_query ?c - num_result ?c")
    case True
    have "quiet R (upd_ctx (\<lambda>c. c\<lparr>query_param := (query_param c)[k := x]\<rparr>) ?w1)" for x using q1 by (simp add: quiet_def)
    from quiet_refuse [OF this] next_query_data [OF q1 d1 True fl qp] True show ?thesis
      unfolding eq world_inv_def by simp
  next
    case more: False
    show ?thesis
    proof (cases "num_result ?c = num_query ?c")
      case True
      then have e: "in_flight ?w1 = []" using sum by simp
      have "mset (map fst (res ?c)) = mset (run_ids R)" "\<forall>r \<in> set (res ?c). run_db R (fst r) (snd r)"
        using d1 True e nip(2) by (simp_all add: select_data_def)
      from complete_inv [OF assms(1) q1 e True this(1) _ assms(5)] this(2) more True show ?thesis
        unfolding eq by simp
    next
      case False
      then have "in_flight ?w1 \<noteq> []" using more sum nip by auto
      then have "select_open R ?w1" using q1 d1 by (simp add: select_open_def)
      with False more show ?thesis unfolding eq world_inv_def by simp
    qed
  qed
qed

lemma no_row_inv:
  assumes "run_ok R" "world_inv R w" "Select k \<in> set (in_flight w)"
  shows "world_inv R (on_multiple_query_result (run_env R) fresh rnd accepted None k w)"
proof (cases "closed_inv R w")
  case True
  then have "DO_CLEANUP (ctx w)" by (simp add: closed_inv_def)
  with closed_done [OF assms(1) True assms(3)] show ?thesis
    by (simp add: world_inv_def on_multiple_query_result_def Let_def)
next
  case False
  then have "quiet R w" using assms(2,3) by (auto simp: world_inv_def update_open_def select_open_def)
  then have q: "quiet R (query_done (Select k) w)" using assms(3) by (rule quiet_done)
  then have "\<not> DO_CLEANUP (ctx w)" by (simp add: quiet_def)
  with quiet_error [OF q] show ?thesis by (simp add: world_inv_def on_multiple_query_result_def Let_def)
qed

theorem world_step_inv: "world_step R w w' \<Longrightarrow> run_ok R \<Longrightarrow> world_inv R w \<Longrightarrow> world_inv R w'"
proof (induction rule: world_step.cases)
  case (row k w r fresh rnd accepted)
  then show ?case using row_inv by blast
next
  case (no_row k w fresh rnd accepted)
  then show ?case using no_row_inv by blast
next
  case (error q w msg)
  then show ?case using error_inv by blast
next
  case (timeout q w)
  then show ?case using error_inv by blast
next
  case (updated w fresh ok)
  then show ?case using updated_inv by blast
next
  case (disposed w)
  then show ?case
    using dispose_closed dispose_open unfolding world_inv_def update_open_def select_open_def by blast
qed

section \<open>Starting\<close>

lemma start_inv:
  assumes "run_ok R" "quiet R (w\<lparr>in_flight := []\<rparr>)" "num_query_in_progress (ctx w) = 0" "num_result (ctx w) = 0"
    "map fst (res (ctx w)) = run_ids R" "run_ids R \<noteq> []" "0 < limit"
  shows "world_inv R (start_queries (run_env R) limit accept w)"
proof -
  let ?c = "ctx w"
  let ?n = "min limit (num_query ?c)"
  let ?w = "upd_ctx (\<lambda>c. c\<lparr>num_query_in_progress := ?n, query_param := map (\<lambda>i. fst (res c ! i)) [0..<?n]\<rparr>) w"
  have len: "length (res ?c) = num_query ?c" "num_query ?c = length (run_ids R)" using assms(2) by (simp_all add: quiet_def)
  have dist: "distinct (map Select [0..<k])" "Update \<notin> set (map Select [0..<k])" for k by (auto simp: distinct_map inj_on_def)
  have q: "quiet R (upd_ctx (\<lambda>c. c\<lparr>num_query_in_progress := k, query_param := ps\<rparr>) (w\<lparr>in_flight := map Select [0..<k]\<rparr>))" for k ps
    using assms(2,3) dist [of k] unfolding quiet_def by auto
  show ?thesis
  proof (cases "?n \<le> accept")
    case False
    have "quiet R (upd_ctx (\<lambda>c. c\<lparr>query_param := ps, num_query_in_progress := k\<rparr>) (w\<lparr>in_flight := map Select [0..<k]\<rparr>))" for k ps
      using q [where k = k and ps = ps] unfolding quiet_def by simp
    from quiet_refuse [OF this] False assms(4) show ?thesis by (simp add: start_queries_def Let_def world_inv_def)
  next
    case True
    let ?w' = "?w\<lparr>in_flight := map Select [0..<?n]\<rparr>"
    have asked: "map (asked (ctx ?w')) (in_flight ?w') = take ?n (run_ids R)"
    proof (rule nth_equalityI)
      fix i assume "i < length (map (asked (ctx ?w')) (in_flight ?w'))"
      then have "i < ?n" by simp
      moreover have "fst (res ?c ! i) = run_ids R ! i" using arg_cong [OF assms(5), of "\<lambda>xs. xs ! i"] \<open>i < ?n\<close> len by simp
      ultimately show "map (asked (ctx ?w')) (in_flight ?w') ! i = take ?n (run_ids R) ! i" by (simp add: asked_def)
    qed (use len in simp)
    have "?n \<noteq> 0" using assms(6,7) len by simp
    moreover have "mset (take ?n (run_ids R)) + mset (drop ?n (run_ids R)) = mset (run_ids R)"
      by (metis append_take_drop_id mset_append)
    moreover have "map fst (drop ?n (res ?c)) = drop ?n (run_ids R)" by (simp add: drop_map [symmetric] assms(5))
    moreover have "quiet R ?w'"
      using q [where k = "?n" and ps = "map (\<lambda>i. fst (res ?c ! i)) [0..<?n]"] dist unfolding quiet_def by simp
    ultimately have "select_open R ?w'"
      using asked len assms(4) unfolding select_open_def select_data_def by (simp del: mset_map)
    with True assms(4) show ?thesis by (simp add: start_queries_def Let_def world_inv_def)
  qed
qed

text \<open>
  The states a request can start in: the handler has run with ids, a limit and a pool of
  generators; a cached table holds numbers the database may answer.
\<close>

inductive started :: "'y run \<Rightarrow> 'y world \<Rightarrow> bool" for R where
  started: "run_ids R \<noteq> [] \<Longrightarrow> \<not> (run_upd R \<and> use_cache) \<Longrightarrow> 0 < limit \<Longrightarrow> pool_ok (run_ops R) p \<Longrightarrow>
    in_use p = run_in_use R \<Longrightarrow> (\<forall>table. cached = Some table \<longrightarrow> (\<forall>i \<in> set (run_ids R). run_db R i (table ! i))) \<Longrightarrow>
    inputs_ok R fresh (\<lambda>_. 0) \<Longrightarrow>
    started R (do_multiple_queries (run_env R) (run_upd R) use_cache (run_ids R) cached limit accept fresh (run_req R) p)"

lemma new_world_quiet:
  "pool_ok (run_ops R) p \<Longrightarrow> in_use p = run_in_use R \<Longrightarrow> quiet R (new_world (run_upd R) use_cache (run_ids R) (run_req R) p)"
  by (simp add: quiet_def new_world_def)

lemma started_inv:
  assumes "started R w" "run_ok R"
  shows "world_inv R w"
  using assms(1)
proof cases
  case (started use_cache limit p cached fresh accept)
  let ?w = "new_world (run_upd R) use_cache (run_ids R) (run_req R) p"
  have q: "quiet R ?w" using new_world_quiet started by blast
  show ?thesis
  proof (cases "if use_cache then cached else None")
    case None
    have "world_inv R (start_queries (run_env R) limit accept ?w)"
      using started q by (intro start_inv assms(2)) (simp_all add: new_world_def quiet_def comp_def)
    moreover have "num_result (ctx ?w) \<noteq> num_query (ctx ?w)" using started by (simp add: new_world_def)
    ultimately show ?thesis using started(1) None by (simp add: do_multiple_queries_def Let_def)
  next
    case (Some table)
    then have uc: "use_cache" "cached = Some table" by (auto split: if_splits)
    let ?w1 = "fetch_table table ?w"
    have ids: "\<forall>i \<in> set (run_ids R). i \<le> MAX_ID" using assms(2) by (simp add: run_ok_def)
    have q1: "quiet R ?w1" using q ids by (auto simp: quiet_def fetch_table_def list_ex_iff new_world_def)
    have r: "res (ctx ?w1) = map (\<lambda>i. (i, table ! i)) (run_ids R)" "in_flight ?w1 = []" "num_result (ctx ?w1) = num_query (ctx ?w1)"
      by (simp_all add: fetch_table_def new_world_def)
    have "mset (map fst (res (ctx ?w1))) = mset (run_ids R)" unfolding r by (simp add: comp_def)
    moreover have "\<forall>r \<in> set (res (ctx ?w1)). run_db R (fst r) (snd r)" unfolding r using started(7) uc by auto
    ultimately have "world_inv R (complete_multiple_query (run_env R) fresh (\<lambda>_. 0) True ?w1)"
      using complete_inv [OF assms(2) q1 r(2,3)] started(8) by blast
    then show ?thesis using started(1) uc r(3) by (simp add: do_multiple_queries_def Let_def)
  qed
qed

lemma world_reachable_inv:
  assumes "started R w0" "run_ok R" "(world_step R)\<^sup>*\<^sup>* w0 w"
  shows "world_inv R w"
  using assms(3) started_inv [OF assms(1,2)] by (induction) (blast intro: world_step_inv [OF _ assms(2)])+

lemma world_inv_cases:
  assumes "world_inv R w"
  obtains (waiting) "\<not> DO_CLEANUP (ctx w)" "\<not> IS_COMPLETED (ctx w)" "in_flight w \<noteq> []" "freed w = 0" "\<not> failed_assert w"
      "calls (req (ctx w)) = calls (run_req R)"
    | (closed) "closed_inv R w"
  using assms by (auto simp: world_inv_def select_open_def update_open_def quiet_def)

section \<open>Properties\<close>

text \<open>C2. A request for several rows is answered at most once; its context is freed exactly once,
  when the request is disposed of and the last query in flight has had its callback, never
  before; then its JSON generator is back; while it is not disposed of, it is answered or waits
  for a query in flight; and no assertion fails: with every outcome of the database, every
  order of the callbacks and the disposal at any time.\<close>

theorem world_request_life:
  assumes "started R w0" "run_ok R" "(world_step R)\<^sup>*\<^sup>* w0 w"
  shows "answers (req (ctx w)) \<le> Suc (answers (run_req R)) \<and>
    freed w = (if IS_COMPLETED (ctx w) \<and> in_flight w = [] then 1 else 0) \<and>
    (freed w = 1 \<longrightarrow> in_use (pool w) = run_in_use R) \<and>
    (\<not> IS_COMPLETED (ctx w) \<longrightarrow> in_flight w \<noteq> [] \<or> answers (req (ctx w)) = Suc (answers (run_req R))) \<and>
    \<not> failed_assert w"
proof -
  note inv = world_reachable_inv [OF assms]
  show ?thesis
    using inv by (cases rule: world_inv_cases) (auto simp: closed_inv_def answers_def)
qed

text \<open>C25. The rows of an answer: when a request is answered with rows, the ids are those drawn for the
  request, each once; the number of an id is the one the database (or the cache) holds for it,
  or, for an update, the rows are sorted by id, with new numbers between 1 and 10000.\<close>

theorem world_answer_rows:
  assumes "started R w0" "run_ok R" "(world_step R)\<^sup>*\<^sup>* w0 w"
  shows "\<forall>s. calls (req (ctx w)) = calls (run_req R) @ [Send_final s] \<longrightarrow>
    (\<exists>rows. s = run_text R (array_ops rows) \<and> mset (map fst rows) = mset (run_ids R) \<and>
      (if run_upd R then sorted (map fst rows) \<and> (\<forall>r \<in> set rows. 1 \<le> snd r \<and> snd r \<le> MAX_ID)
       else (\<forall>r \<in> set rows. run_db R (fst r) (snd r))))"
proof -
  note inv = world_reachable_inv [OF assms]
  show ?thesis
    using inv
  proof (cases rule: world_inv_cases)
    case waiting
    then show ?thesis by simp
  next
    case closed
    have "good_answer R (Send_final s) \<Longrightarrow> \<exists>rows. s = run_text R (array_ops rows) \<and> rows_good R rows" for s by auto
    moreover have "good_answer R (Send_final s)" if "calls (req (ctx w)) = calls (run_req R) @ [Send_final s]" for s
      using closed that by (auto simp: closed_inv_def)
    ultimately show ?thesis unfolding rows_good_def by blast
  qed
qed

text \<open>After the request has been disposed of, no callback touches it: a late result, error or
  timeout leaves it as it is.\<close>

theorem world_silent_after_disposal:
  assumes "started R w0" "run_ok R" "(world_step R)\<^sup>*\<^sup>* w0 w" "IS_COMPLETED (ctx w)" "world_step R w w'"
  shows "req (ctx w') = req (ctx w) \<and> IS_COMPLETED (ctx w')"
proof -
  have c: "DO_CLEANUP (ctx w)"
    using world_reachable_inv [OF assms(1-3)] assms(4) by (cases rule: world_inv_cases) (auto simp: closed_inv_def)
  show ?thesis
    using assms(5)
    by cases (use assms(4) c in \<open>auto simp: on_multiple_query_result_def on_multiple_query_error_def
      on_multiple_query_timeout_def on_update_result_def cleanup_if_last_def cleanup_multiple_query_def Let_def
      set_cleanup_def query_done_def\<close>)
qed

text \<open>The number of queries in progress: for any configured numbers of connections and of queries
  in a pipeline that are not zero, even when their product overflows, at least one query and at
  most as many as the request has are started at once.\<close>

theorem in_progress_limit_bounds:
  assumes "conns \<noteq> 0" "pipeline \<noteq> 0" "0 < n"
  shows "1 \<le> in_progress_limit conns pipeline n \<and> in_progress_limit conns pipeline n \<le> n"
proof -
  have "in_progress_limit conns pipeline n \<noteq> 0"
  proof (cases "conns * pipeline < conns \<or> conns * pipeline < pipeline")
    case True
    then show ?thesis using assms(3) by (simp add: in_progress_limit_def Let_def)
  next
    case False
    then have "conns * pipeline \<noteq> 0" using assms(1) by (auto simp: word_gt_0)
    then have "unat (conns * pipeline) \<noteq> 0" by (simp add: unat_eq_zero)
    then show ?thesis using False assms(3) by (simp add: in_progress_limit_def Let_def)
  qed
  then show ?thesis by (auto simp: in_progress_limit_def Let_def)
qed

theorem in_progress_limit_bounds_witness:
  "1 \<le> in_progress_limit 0x100000001 0x100000001 20 \<and> in_progress_limit 0x100000001 0x100000001 20 \<le> 20"
  by (rule in_progress_limit_bounds) simp_all

text \<open>A request for two rows, one of which is answered before the request is disposed of.\<close>

definition sample_run :: "yajl_op list run" where
  "sample_run = \<lparr>run_env = \<lparr>yj = list_yajl, date = ''now'', retry_after = ''10'', buf_mem = \<lambda>_. NUL\<rparr>,
     run_ops = id, run_text = \<lambda>y. replicate (length y) CHR ''.'', run_db = \<lambda>i r. i < 10 \<and> r = i + 1,
     run_ids = [3, 5], run_req = \<lparr>res_status = 0, res_reason = [], res_content_length = 0, res_headers = [], calls = []\<rparr>,
     run_in_use = 0, run_upd = False\<rparr>"

definition sample_start :: "yajl_op list world" where
  "sample_start = do_multiple_queries (run_env sample_run) False False [3, 5] None 2 2 None (run_req sample_run)
     \<lparr>json_generator = [], json_generator_num = 0, max_json_generator = 32, alive = 0\<rparr>"

lemma sample_run_ok: "run_ok sample_run"
  using list_yajl_contract by (simp add: run_ok_def sample_run_def MAX_ID_def MAX_QUERIES_def)

definition sample_row :: "nat \<Rightarrow> nat \<Rightarrow> yajl_op list world \<Rightarrow> yajl_op list world" where
  "sample_row k i = on_multiple_query_result (run_env sample_run) (Some []) (\<lambda>_. 0) True (Some [(Binary i, Binary (i + 1))]) k"

lemma sample_started: "started sample_run sample_start"
proof -
  have "started sample_run (do_multiple_queries (run_env sample_run) (run_upd sample_run) False (run_ids sample_run) None 2 2 None
      (run_req sample_run) \<lparr>json_generator = [], json_generator_num = 0, max_json_generator = 32, alive = 0\<rparr>)"
    by (rule started.started) (simp_all add: sample_run_def pool_ok_def in_use_def inputs_ok_def MAX_ID_def)
  then show ?thesis by (simp add: sample_start_def sample_run_def)
qed

lemma sample_step:
  assumes "Select k \<in> set (in_flight w)" "query_param (ctx w) ! k = i" "i < 10"
  shows "world_step sample_run w (sample_row k i w)"
proof -
  have "run_db sample_run (query_param (ctx w) ! k) (i + 1)" "inputs_ok sample_run (Some []) (\<lambda>_. 0)"
    using assms by (simp_all add: sample_run_def inputs_ok_def MAX_ID_def)
  from world_step.row [OF assms(1) this, of True] assms(2) show ?thesis by (simp add: sample_row_def)
qed

lemmas sample_simps = sample_start_def do_multiple_queries_def new_world_def start_queries_def Let_def upt_rec

lemma sample_start_eq:
  "in_flight sample_start = [Select 0, Select 1]" "query_param (ctx sample_start) = [3, 5]" "\<not> IS_COMPLETED (ctx sample_start)"
  by (simp_all add: sample_simps)

lemma sample_mid_eq: "sample_row 1 5 sample_start = sample_start\<lparr>in_flight := [Select 0],
    ctx := (ctx sample_start)\<lparr>num_query_in_progress := 1, num_result := 1, res := [(5, 6), (5, 0)]\<rparr>\<rparr>"
  by (simp add: sample_row_def on_multiple_query_result_def query_done_def process_binary MAX_ID_def sample_simps)

abbreviation sample_end :: "yajl_op list world" where
  "sample_end \<equiv> sample_row 0 3 (sample_row 1 5 sample_start)"

lemma sample_end_calls: "\<exists>s. calls (req (ctx sample_end)) = [Send_final s]"
  by (simp add: sample_mid_eq, simp add: sample_row_def on_multiple_query_result_def query_done_def process_binary MAX_ID_def
      sample_simps complete_multiple_query_def sample_run_def respond_items_def set_cleanup_def get_json_generator_def,
      simp add: serialize_items_def and_then_def gen_op_def list_yajl_def serialize_item_def gen_integer_op_def
        gen_integer_def LLONG_MIN_def gi_loop.simps send_json_response_def)

lemma sample_steps: "(world_step sample_run)\<^sup>*\<^sup>* sample_start sample_end"
proof -
  have "world_step sample_run sample_start (sample_row 1 5 sample_start)"
    by (rule sample_step) (simp_all add: sample_start_eq)
  moreover have "Select 0 \<in> set (in_flight (sample_row 1 5 sample_start))"
    "query_param (ctx (sample_row 1 5 sample_start)) ! 0 = 3"
    unfolding sample_mid_eq by (simp_all add: sample_start_eq)
  then have "world_step sample_run (sample_row 1 5 sample_start) sample_end" by (rule sample_step) simp
  ultimately show ?thesis by (meson rtranclp.rtrancl_into_rtrancl rtranclp.rtrancl_refl)
qed

theorem world_request_life_witness: "answers (req (ctx sample_end)) \<le> 1 \<and> freed sample_end \<le> 1 \<and> \<not> failed_assert sample_end"
  using world_request_life [OF sample_started sample_run_ok sample_steps]
  by (simp add: sample_run_def answers_def)

theorem world_answer_rows_witness:
  "\<exists>s rows. calls (req (ctx sample_end)) = [Send_final s] \<and>
    s = run_text sample_run (array_ops rows) \<and> mset (map fst rows) = {#3, 5#} \<and> (\<forall>r \<in> set rows. snd r = fst r + 1)"
proof -
  obtain s where s: "calls (req (ctx sample_end)) = calls (run_req sample_run) @ [Send_final s]"
    using sample_end_calls by (auto simp: sample_run_def)
  have u: "\<not> run_upd sample_run" "run_ids sample_run = [3, 5]" "\<And>i r. run_db sample_run i r \<Longrightarrow> r = i + 1"
    "calls (run_req sample_run) = []"
    by (simp_all add: sample_run_def)
  obtain rows where "s = run_text sample_run (array_ops rows)" "mset (map fst rows) = mset (run_ids sample_run)"
    "\<forall>r \<in> set rows. run_db sample_run (fst r) (snd r)"
    using world_answer_rows [OF sample_started sample_run_ok sample_steps] s u(1) by auto
  with s u show ?thesis by (intro exI [of _ s] exI [of _ rows]) auto
qed

theorem world_silent_after_disposal_witness:
  "\<exists>w w'. IS_COMPLETED (ctx w) \<and> world_step sample_run w w' \<and> req (ctx w') = req (ctx w)"
proof -
  let ?w = "cleanup_multiple_query_request (run_env sample_run) sample_start"
  have c: "IS_COMPLETED (ctx ?w)" "in_flight ?w = [Select 0, Select 1]" "query_param (ctx ?w) = [3, 5]"
    using sample_start_eq by (simp_all add: cleanup_multiple_query_request_def set_cleanup_def Let_def cleanup_multiple_query_def)
  have s: "(world_step sample_run)\<^sup>*\<^sup>* sample_start ?w"
    using world_step.disposed [OF sample_start_eq(3), of sample_run] by blast
  have "world_step sample_run ?w (sample_row 1 5 ?w)" by (rule sample_step) (simp_all add: c)
  with world_silent_after_disposal [OF sample_started sample_run_ok s c(1)] c(1) show ?thesis by blast
qed

end
