(* ===== verification/Shared_Context.thy ===== *)
theory Shared_Context
  imports Http
begin

text \<open>
  A protocol several handlers of the h2o application follow: a context is shared by one
  database query and by the request that waits for it.  The callback of the query and the
  disposal of the request come in either order; the first of the two sets a flag, the second
  frees the context, and only a callback that comes first answers the request.
\<close>

locale shared_context =
  fixes callback :: "'i \<Rightarrow> 's \<Rightarrow> 's"
    and dispose :: "'s \<Rightarrow> 's"
    and flag :: "'s \<Rightarrow> bool"
    and frees :: "'s \<Rightarrow> nat"
    and request :: "'s \<Rightarrow> h2o_req"
    and usable :: "'i \<Rightarrow> 's \<Rightarrow> bool"
  assumes callback_first: "usable i s \<Longrightarrow> \<not> flag s \<Longrightarrow>
      flag (callback i s) \<and> frees (callback i s) = frees s \<and> answers (request (callback i s)) = Suc (answers (request s))"
    and callback_second: "flag s \<Longrightarrow> frees (callback i s) = Suc (frees s) \<and> request (callback i s) = request s"
    and dispose_first: "\<not> flag s \<Longrightarrow> flag (dispose s) \<and> frees (dispose s) = frees s \<and> request (dispose s) = request s"
    and dispose_second: "flag s \<Longrightarrow> frees (dispose s) = Suc (frees s) \<and> request (dispose s) = request s"
begin

text \<open>Answered first, disposed of later; or disposed of with the query still in flight.\<close>

lemma answered_then_disposed:
  assumes "usable i s" "\<not> flag s"
  shows "frees (dispose (callback i s)) = Suc (frees s)"
    "answers (request (dispose (callback i s))) = Suc (answers (request s))" "frees (callback i s) = frees s"
  using callback_first [OF assms] dispose_second [of "callback i s"] by simp_all

lemma disposed_then_called:
  assumes "\<not> flag s"
  shows "frees (callback i (dispose s)) = Suc (frees s)" "request (callback i (dispose s)) = request s"
    "frees (dispose s) = frees s"
  using dispose_first [OF assms] callback_second [of "dispose s" i] by simp_all

text \<open>A request whose query is refused: the flag is set, and only the disposal is left.\<close>

lemma refused_then_disposed: "flag s \<Longrightarrow> frees (dispose s) = Suc (frees s)"
  using dispose_second by blast

end

end
