(* ===== verification/World_More.thy ===== *)
theory World_More
  imports World_Inv Shared_Context
begin

text \<open>
  The rest of \<^verbatim>\<open>handlers/world.c\<close>: the query for a single row, the cache of all rows and
  the query that fills it, the prepared statements of the updates, and where the parameters of
  an update lie in the memory of its context.
\<close>

section \<open>A single row\<close>

record 'y single_query_ctx =
  sq_id :: nat
  sq_cleanup :: bool
  sq_req :: h2o_req
  sq_pool :: "'y json_pool"
  sq_freed :: nat

definition cleanup_single_query :: "'y single_query_ctx \<Rightarrow> 'y single_query_ctx" where
  "cleanup_single_query c = c\<lparr>sq_freed := sq_freed c + 1\<rparr>"

definition cleanup_single_query_request :: "'y single_query_ctx \<Rightarrow> 'y single_query_ctx" where
  "cleanup_single_query_request c =
     (if sq_cleanup c then cleanup_single_query c else c\<lparr>sq_cleanup := True\<rparr>)"

definition on_single_query_error :: "string \<Rightarrow> 'y single_query_ctx \<Rightarrow> 'y single_query_ctx" where
  "on_single_query_error error_string c =
     (if sq_cleanup c then cleanup_single_query c
      else c\<lparr>sq_cleanup := True, sq_req := send_error BAD_GATEWAY error_string (sq_req c)\<rparr>)"

definition on_single_query_timeout :: "'y single_query_ctx \<Rightarrow> 'y single_query_ctx" where
  "on_single_query_timeout c =
     (if sq_cleanup c then cleanup_single_query c
      else c\<lparr>sq_cleanup := True, sq_req := send_error GATEWAY_TIMEOUT DB_TIMEOUT_ERROR (sq_req c)\<rparr>)"

text \<open>
  \<^verbatim>\<open>number\<close>: the number in the four bytes of the second column of the row, or \<^verbatim>\<open>None\<close>
  for a result without rows.
\<close>

definition on_single_query_result ::
    "'y env \<Rightarrow> 'y option \<Rightarrow> nat option \<Rightarrow> 'y single_query_ctx \<Rightarrow> 'y single_query_ctx" where
  "on_single_query_result e fresh number c =
     (let cleanup = sq_cleanup c; c = c\<lparr>sq_cleanup := True\<rparr>
      in if cleanup then cleanup_single_query c
         else (case number of
                 None \<Rightarrow> c\<lparr>sq_req := send_error BAD_GATEWAY DB_ERROR (sq_req c)\<rparr>
               | Some random_number \<Rightarrow>
                   (case get_json_generator fresh (sq_pool c) of
                      (None, p) \<Rightarrow> c\<lparr>sq_pool := p, sq_req := send_error INTERNAL_SERVER_ERROR REQ_ERROR (sq_req c)\<rparr>
                    | (Some g, p) \<Rightarrow>
                        (case serialize_item (yj e) (sq_id c) random_number (g, buf_mem e) of
                           (ok, g', mem) \<Rightarrow>
                             (case (if ok then send_json_response (yj e) (date e) g' True (p, sq_req c) else (True, p, sq_req c)) of
                                (failed, p', req') \<Rightarrow>
                                  if failed
                                  then c\<lparr>sq_pool := free_json_generator (yj e) False (Some g') p',
                                         sq_req := send_error INTERNAL_SERVER_ERROR REQ_ERROR req'\<rparr>
                                  else c\<lparr>sq_pool := p', sq_req := req'\<rparr>)))))"

text \<open>\<^verbatim>\<open>single_query\<close>: \<^verbatim>\<open>rnd\<close> is the result of \<^verbatim>\<open>get_random_number(MAX_ID)\<close>.\<close>

definition single_query :: "'y env \<Rightarrow> nat \<Rightarrow> bool \<Rightarrow> h2o_req \<Rightarrow> 'y json_pool \<Rightarrow> 'y single_query_ctx" where
  "single_query e rnd accepted rq p =
     (let c = \<lparr>sq_id = rnd + 1, sq_cleanup = False, sq_req = rq, sq_pool = p, sq_freed = 0\<rparr>
      in if accepted then c
         else c\<lparr>sq_cleanup := True, sq_req := send_service_unavailable_error (retry_after e) DB_REQ_ERROR (sq_req c)\<rparr>)"

text \<open>The callbacks of a query: error, timeout, or a result.\<close>

datatype 'y outcome = Failed string | Timed_out | Result "'y option" "nat option"

fun single_callback :: "'y env \<Rightarrow> 'y outcome \<Rightarrow> 'y single_query_ctx \<Rightarrow> 'y single_query_ctx" where
  "single_callback e (Failed msg) c = on_single_query_error msg c"
| "single_callback e Timed_out c = on_single_query_timeout c"
| "single_callback e (Result fresh number) c = on_single_query_result e fresh number c"

lemma send_json_answers:
  "answers (snd (snd (send_json_response y d g b s))) =
    (if fst (send_json_response y d g b s) then answers (snd s) else Suc (answers (snd s)))"
  by (simp add: send_json_response_def Let_def split: option.split)

lemma single_result_first:
  assumes "\<not> sq_cleanup c"
  shows "sq_cleanup (on_single_query_result e fresh number c)" "sq_freed (on_single_query_result e fresh number c) = sq_freed c"
    "answers (sq_req (on_single_query_result e fresh number c)) = Suc (answers (sq_req c))"
  using assms
  by (simp_all add: on_single_query_result_def Let_def split_beta send_json_answers split: option.split)

interpretation single: shared_context "single_callback e" cleanup_single_query_request sq_cleanup sq_freed sq_req "\<lambda>_ _. True" for e
proof unfold_locales
  fix i :: "'a outcome" and s :: "'a single_query_ctx"
  assume "\<not> sq_cleanup s"
  then show "sq_cleanup (single_callback e i s) \<and> sq_freed (single_callback e i s) = sq_freed s \<and>
      answers (sq_req (single_callback e i s)) = Suc (answers (sq_req s))"
    by (cases i) (simp_all add: on_single_query_error_def on_single_query_timeout_def single_result_first)
next
  fix i :: "'a outcome" and s :: "'a single_query_ctx"
  assume "sq_cleanup s"
  then show "sq_freed (single_callback e i s) = Suc (sq_freed s) \<and> sq_req (single_callback e i s) = sq_req s"
    by (cases i) (simp_all add: on_single_query_error_def on_single_query_timeout_def on_single_query_result_def
        cleanup_single_query_def Let_def)
qed (simp_all add: cleanup_single_query_request_def cleanup_single_query_def)

lemma single_row_answer:
  assumes "yajl_contract (yj e) ops json_text" "pool_ok ops (sq_pool c)" "\<forall>y. fresh = Some y \<longrightarrow> ops y = []"
    "\<not> sq_cleanup c" "sq_id c < 2 ^ 32" "number < 2 ^ 32"
  shows "pool_ok ops (sq_pool (on_single_query_result e fresh (Some number) c)) \<and>
    in_use (sq_pool (on_single_query_result e fresh (Some number) c)) = in_use (sq_pool c) \<and>
    (answered internal_error (sq_req c) (sq_req (on_single_query_result e fresh (Some number) c)) \<or>
     answered (Send_inline (json_text (item_ops (sq_id c, number)))) (sq_req c)
       (sq_req (on_single_query_result e fresh (Some number) c)))"
proof -
  have clear: "\<And>y. ops (clear (yj e) y) = []" using assms(1) by (simp add: yajl_contract_def)
  obtain g p where get: "get_json_generator fresh (sq_pool c) = (g, p)" by (cases "get_json_generator fresh (sq_pool c)")
  note gok = get_json_generator_ok [OF assms(2), of fresh, unfolded get prod.case]
  show ?thesis
  proof (cases g)
    case None
    then show ?thesis using gok get assms(2-4)
      by (simp add: on_single_query_result_def Let_def answered_def internal_error_def)
  next
    case (Some y)
    then have y: "ops y = []" "in_use p = in_use (sq_pool c) + 1" "pool_ok ops p" "json_generator_num p < alive p"
      using gok assms(3) by auto
    obtain ok g' mem where s: "serialize_item (yj e) (sq_id c) number (y, buf_mem e) = (ok, g', mem)"
      by (cases "serialize_item (yj e) (sq_id c) number (y, buf_mem e)")
    note fr = free_json_generator_ok [OF y(3,4) clear]
    show ?thesis
    proof (cases "ok \<and> get_buf (yj e) g' \<noteq> None")
      case True
      then obtain body where "get_buf (yj e) g' = Some body" by blast
      with single_item_ok [OF assms(1,5,6) y(1)] s True show ?thesis using get Some fr y(2) assms(4)
        by (simp add: on_single_query_result_def send_json_response_def Let_def answered_def)
    next
      case False
      then show ?thesis using get Some fr y(2) s assms(4)
        by (auto simp: on_single_query_result_def send_json_response_def Let_def answered_def internal_error_def)
    qed
  qed
qed

section \<open>The cache\<close>

text \<open>
  The cache of h2o: creating one may fail; an entry is fetched at a time, unless it is missing
  or has expired; \<^verbatim>\<open>cache_set\<close> puts a table into it.
\<close>

record 'c cache_lib =
  cache_create :: "'c option"
  cache_fetch :: "'c \<Rightarrow> nat \<Rightarrow> nat list option"
  cache_set :: "'c \<Rightarrow> nat \<Rightarrow> nat list \<Rightarrow> 'c"

text \<open>
  The thread's data: the cache, the number of queries in flight that fill it, and the number
  that have been sent so far.
\<close>

record 'c world_thread_data =
  world_cache :: "'c option"
  populating :: nat
  populate_queries :: nat

definition on_populate_cache_error :: "'c world_thread_data \<Rightarrow> 'c world_thread_data" where
  "on_populate_cache_error td = td\<lparr>world_cache := None, populating := populating td - 1\<rparr>"

definition on_populate_cache_timeout :: "'c world_thread_data \<Rightarrow> 'c world_thread_data" where
  "on_populate_cache_timeout td = on_populate_cache_error td"

definition fetch_from_cache ::
    "'c cache_lib \<Rightarrow> nat \<Rightarrow> bool \<Rightarrow> 'c world_thread_data \<Rightarrow> nat list option \<times> 'c world_thread_data" where
  "fetch_from_cache lib now accepted td =
     (case world_cache td of
        Some c \<Rightarrow> (cache_fetch lib c now, td)
      | None \<Rightarrow>
          (None,
           case cache_create lib of
             None \<Rightarrow> td
           | Some c \<Rightarrow>
               (let td = td\<lparr>world_cache := Some c, populating := populating td + 1\<rparr>
                in if accepted then td\<lparr>populate_queries := populate_queries td + 1\<rparr> else on_populate_cache_error td)))"

definition UINT16_MAX :: nat where "UINT16_MAX = 65535"

text \<open>The loop over the rows; \<^verbatim>\<open>None\<close> is a failed assertion.\<close>

fun populate_table :: "(pg_value \<times> pg_value) list \<Rightarrow> nat list \<Rightarrow> nat list option" where
  "populate_table [] table = Some table"
| "populate_table (row # rows) table =
     (case process_result row of
        None \<Rightarrow> None
      | Some (i, r) \<Rightarrow> if UINT16_MAX < r then None else populate_table rows (table[i := r]))"

definition on_populate_cache_result ::
    "'c cache_lib \<Rightarrow> nat \<Rightarrow> (pg_value \<times> pg_value) list option \<Rightarrow> 'c world_thread_data \<Rightarrow> 'c world_thread_data option" where
  "on_populate_cache_result lib now rows td =
     (case rows of
        None \<Rightarrow> Some (on_populate_cache_error td)
      | Some rows \<Rightarrow>
          (case populate_table rows (replicate (MAX_ID + 1) 0) of
             None \<Rightarrow> None
           | Some table \<Rightarrow>
               Some (td\<lparr>world_cache := map_option (\<lambda>c. cache_set lib c now table) (world_cache td),
                        populating := populating td - 1\<rparr>)))"

text \<open>The rows of the table as the database sends them: text, without parameters in the query.\<close>

definition text_row :: "nat \<times> nat \<Rightarrow> pg_value \<times> pg_value" where
  "text_row r = (Text (dec (fst r)), Text (dec (snd r)))"

lemma uint32_text: "n < 2 ^ 31 \<Longrightarrow> uint32_value (Text (dec n)) = Some n"
  using atoi_dec [of n "[]"] hd_dec_digit [of n "[]"] by simp

lemma populate_table_ok:
  assumes "\<forall>r \<in> set rows. fst r \<le> MAX_ID \<and> snd r \<le> UINT16_MAX" "distinct (map fst rows)" "length table = MAX_ID + 1"
  shows "\<exists>t. populate_table (map text_row rows) table = Some t \<and> length t = MAX_ID + 1 \<and>
    (\<forall>r \<in> set rows. t ! fst r = snd r) \<and> (\<forall>i. i \<notin> fst ` set rows \<longrightarrow> t ! i = table ! i)"
  using assms
proof (induction rows arbitrary: table)
  case Nil
  then show ?case by simp
next
  case (Cons r rows)
  have "fst r < 2 ^ 31" "snd r < 2 ^ 31" using Cons.prems(1) by (auto simp: MAX_ID_def UINT16_MAX_def)
  then have p: "process_result (text_row r) = Some (fst r, snd r)"
    using Cons.prems(1) by (simp add: process_result_def text_row_def uint32_text del: uint32_value.simps)
  obtain t where "populate_table (map text_row rows) (table[fst r := snd r]) = Some t" "length t = MAX_ID + 1"
    "\<forall>x \<in> set rows. t ! fst x = snd x" "\<forall>i. i \<notin> fst ` set rows \<longrightarrow> t ! i = table[fst r := snd r] ! i"
    using Cons.IH [of "table[fst r := snd r]"] Cons.prems by auto
  moreover have "fst r < length table" using Cons.prems(1,3) by auto
  moreover have "fst r \<notin> fst ` set rows" using Cons.prems(2) by simp
  ultimately show ?case using p Cons.prems(1) by (cases r) auto
qed

text \<open>
  Requests at the times \<^verbatim>\<open>nows\<close>: once the entry has expired, a cache that exists is never
  filled again.
\<close>

fun fetch_all :: "'c cache_lib \<Rightarrow> nat list \<Rightarrow> 'c world_thread_data \<Rightarrow> nat list option list \<times> 'c world_thread_data" where
  "fetch_all lib [] td = ([], td)"
| "fetch_all lib (now # nows) td =
     (case fetch_from_cache lib now True td of
        (t, td1) \<Rightarrow> (case fetch_all lib nows td1 of (ts, td2) \<Rightarrow> (t # ts, td2)))"

lemma fetch_all_expired:
  "world_cache td = Some c \<Longrightarrow> \<forall>now \<in> set nows. cache_fetch lib c now = None \<Longrightarrow>
    fetch_all lib nows td = (replicate (length nows) None, td)"
  by (induction nows) (simp_all add: fetch_from_cache_def)

section \<open>The statements of the updates\<close>

definition UPDATE_QUERY_BEGIN :: string where "UPDATE_QUERY_BEGIN = ''UPDATE World SET randomNumber = CASE id ''"
definition UPDATE_QUERY_MIDDLE :: string where
  "UPDATE_QUERY_MIDDLE = ''ELSE randomNumber END WHERE id IN ($1::integer''"
definition UPDATE_QUERY_END :: string where "UPDATE_QUERY_END = '');''"

definition UPDATE_QUERY_ELEM :: "string \<Rightarrow> string \<Rightarrow> string" where
  "UPDATE_QUERY_ELEM a b = ''WHEN $'' @ a @ ''::integer THEN $'' @ b @ ''::integer ''"
definition UPDATE_QUERY_ELEM2 :: "string \<Rightarrow> string" where
  "UPDATE_QUERY_ELEM2 a = '',$'' @ a @ ''::integer''"

text \<open>\<^verbatim>\<open>MAX_UPDATE_QUERY_LEN(n)\<close>; \<^verbatim>\<open>sizeof\<close> counts the terminating zero.\<close>

definition size_of :: "string \<Rightarrow> nat" where "size_of s = length s + 1"

definition MAX_UPDATE_QUERY_LEN :: "nat \<Rightarrow> nat" where
  "MAX_UPDATE_QUERY_LEN n =
     size_of UPDATE_QUERY_BEGIN + size_of UPDATE_QUERY_MIDDLE + size_of UPDATE_QUERY_END - 1
       - size_of (UPDATE_QUERY_ELEM2 ''%zu'')
       + n * (size_of (UPDATE_QUERY_ELEM ''%zu'' ''%zu'') - 1 + size_of (UPDATE_QUERY_ELEM2 ''%zu'') - 1
              + 3 * size_of (dec MAX_QUERIES) - 3 * (size_of ''%zu'' - 1))"

text \<open>
  The loops of \<^verbatim>\<open>initialize_world_handlers\<close>: \<^verbatim>\<open>out\<close> is what the buffer holds, with
  \<^verbatim>\<open>sz\<close> bytes left; a piece that does not fit is skipped.
\<close>

fun append_pieces :: "string list \<Rightarrow> string \<times> nat \<Rightarrow> string \<times> nat" where
  "append_pieces [] s = s"
| "append_pieces (p # ps) (out, sz) =
     (if sz \<le> length p then append_pieces ps (out, sz) else append_pieces ps (out @ p, sz - length p))"

definition elem_pieces :: "nat \<Rightarrow> string list" where
  "elem_pieces i = map (\<lambda>j. UPDATE_QUERY_ELEM (dec (2 * j + 1)) (dec (2 * j + 2))) [0..<i + 1]"

definition elem2_pieces :: "nat \<Rightarrow> string list" where
  "elem2_pieces i = map (\<lambda>j. UPDATE_QUERY_ELEM2 (dec (2 * j + 1))) [1..<i + 1]"

text \<open>The text of the statement for \<^verbatim>\<open>i + 1\<close> rows, or \<^verbatim>\<open>None\<close> when an assertion fails.\<close>

definition update_statement :: "nat \<Rightarrow> string option" where
  "update_statement i =
     (case append_pieces (elem_pieces i)
             (UPDATE_QUERY_BEGIN, MAX_UPDATE_QUERY_LEN MAX_QUERIES - size_of UPDATE_QUERY_BEGIN + 1) of
        (out, sz) \<Rightarrow>
          if sz < size_of UPDATE_QUERY_MIDDLE then None
          else (case append_pieces (elem2_pieces i) (out @ UPDATE_QUERY_MIDDLE, sz - (size_of UPDATE_QUERY_MIDDLE - 1)) of
                  (out, sz) \<Rightarrow> if sz < size_of UPDATE_QUERY_END then None else Some (out @ UPDATE_QUERY_END)))"

text \<open>
  \<^verbatim>\<open>add_prepared_statement\<close> puts a statement in front of the list.  The loop body runs for
  \<^verbatim>\<open>i < MAX_QUERIES\<close>; a name that does not fit would be skipped.
\<close>

definition add_prepared_statement :: "string \<Rightarrow> string \<Rightarrow> (string \<times> string) list \<Rightarrow> (string \<times> string) list" where
  "add_prepared_statement name query prepared_statements = (name, query) # prepared_statements"

fun prepare_updates :: "nat list \<Rightarrow> (string \<times> string) list \<Rightarrow> (string \<times> string) list option" where
  "prepare_updates [] ps = Some ps"
| "prepare_updates (i # rest) ps =
     (if length (dec MAX_QUERIES) + 1 \<le> length (dec (i + 1)) then prepare_updates rest ps
      else (case update_statement i of
              None \<Rightarrow> None
            | Some query \<Rightarrow> prepare_updates rest (add_prepared_statement (UPDATE_QUERY_NAME_PREFIX @ dec (i + 1)) query ps)))"

definition WORLD_TABLE_NAME :: string where "WORLD_TABLE_NAME = ''World''"
definition WORLD_QUERY :: string where "WORLD_QUERY = ''SELECT * FROM World WHERE id = $1::integer;''"

definition initialize_world_handlers :: "(string \<times> string) list \<Rightarrow> (string \<times> string) list option" where
  "initialize_world_handlers ps =
     map_option (add_prepared_statement WORLD_TABLE_NAME WORLD_QUERY) (prepare_updates [0..<MAX_QUERIES] ps)"

text \<open>Nothing is skipped.\<close>

lemma append_pieces_all:
  "sum_list (map length ps) < sz \<Longrightarrow> append_pieces ps (out, sz) = (out @ concat ps, sz - sum_list (map length ps))"
  by (induction ps arbitrary: out sz) auto

lemma sum_length_le: "\<forall>p \<in> set ps. length p \<le> m \<Longrightarrow> sum_list (map length ps) \<le> length ps * m"
  by (induction ps) auto

lemma dec_4: "n \<le> 1000 \<Longrightarrow> length (dec n) \<le> 4"
  using length_dec_le [of n 4] by simp

definition elem_max :: nat where "elem_max = length (UPDATE_QUERY_ELEM [] []) + 8"
definition elem2_max :: nat where "elem2_max = length (UPDATE_QUERY_ELEM2 []) + 4"

lemma elem_pieces_length: "i < MAX_QUERIES \<Longrightarrow> sum_list (map length (elem_pieces i)) \<le> (i + 1) * elem_max"
proof -
  assume i: "i < MAX_QUERIES"
  have "\<forall>p \<in> set (elem_pieces i). length p \<le> elem_max"
  proof
    fix p assume "p \<in> set (elem_pieces i)"
    then obtain j where "p = UPDATE_QUERY_ELEM (dec (2 * j + 1)) (dec (2 * j + 2))" "j \<le> i" by (auto simp: elem_pieces_def)
    with i dec_4 [of "2 * j + 1"] dec_4 [of "2 * j + 2"] show "length p \<le> elem_max"
      by (simp add: elem_max_def UPDATE_QUERY_ELEM_def MAX_QUERIES_def)
  qed
  from sum_length_le [OF this] show ?thesis by (simp add: elem_pieces_def)
qed

lemma elem2_pieces_length: "i < MAX_QUERIES \<Longrightarrow> sum_list (map length (elem2_pieces i)) \<le> i * elem2_max"
proof -
  assume i: "i < MAX_QUERIES"
  have "\<forall>p \<in> set (elem2_pieces i). length p \<le> elem2_max"
  proof
    fix p assume "p \<in> set (elem2_pieces i)"
    then obtain j where "p = UPDATE_QUERY_ELEM2 (dec (2 * j + 1))" "j \<le> i" by (auto simp: elem2_pieces_def)
    with i dec_4 [of "2 * j + 1"] show "length p \<le> elem2_max"
      by (simp add: elem2_max_def UPDATE_QUERY_ELEM2_def MAX_QUERIES_def)
  qed
  from sum_length_le [OF this] show ?thesis by (simp add: elem2_pieces_def del: upt_Suc)
qed

lemma update_statement_full:
  assumes "i < MAX_QUERIES"
  shows "update_statement i = Some (UPDATE_QUERY_BEGIN @ concat (elem_pieces i) @ UPDATE_QUERY_MIDDLE @
    concat (elem2_pieces i) @ UPDATE_QUERY_END)"
proof -
  let ?s1 = "sum_list (map length (elem_pieces i))" and ?s2 = "sum_list (map length (elem2_pieces i))"
  let ?sz = "MAX_UPDATE_QUERY_LEN MAX_QUERIES - size_of UPDATE_QUERY_BEGIN + 1"
  have s: "?s1 \<le> (i + 1) * elem_max" "?s2 \<le> i * elem2_max" using assms elem_pieces_length elem2_pieces_length by blast+
  have "(i + 1) * elem_max \<le> 500 * elem_max" "i * elem2_max \<le> 499 * elem2_max"
    using assms by (auto intro!: mult_le_mono1 simp: MAX_QUERIES_def)
  moreover have sz: "?sz = 500 * elem_max + 499 * elem2_max + length UPDATE_QUERY_MIDDLE + size_of UPDATE_QUERY_END + 1"
    by (simp add: MAX_UPDATE_QUERY_LEN_def size_of_def elem_max_def elem2_max_def UPDATE_QUERY_ELEM_def UPDATE_QUERY_ELEM2_def
        UPDATE_QUERY_BEGIN_def UPDATE_QUERY_MIDDLE_def UPDATE_QUERY_END_def length_dec_MAX_QUERIES)
      (simp add: MAX_QUERIES_def)
  ultimately have le: "?s1 + ?s2 + length UPDATE_QUERY_MIDDLE + size_of UPDATE_QUERY_END \<le> ?sz" using s by linarith
  then have a: "append_pieces (elem_pieces i) (UPDATE_QUERY_BEGIN, ?sz) = (UPDATE_QUERY_BEGIN @ concat (elem_pieces i), ?sz - ?s1)"
    by (intro append_pieces_all) (simp add: size_of_def)
  have b: "append_pieces (elem2_pieces i) (out, ?sz - ?s1 - (size_of UPDATE_QUERY_MIDDLE - 1)) =
      (out @ concat (elem2_pieces i), ?sz - ?s1 - (size_of UPDATE_QUERY_MIDDLE - 1) - ?s2)" for out
    using le by (intro append_pieces_all) (simp add: size_of_def)
  have "\<not> ?sz - ?s1 < size_of UPDATE_QUERY_MIDDLE" "\<not> ?sz - ?s1 - (size_of UPDATE_QUERY_MIDDLE - 1) - ?s2 < size_of UPDATE_QUERY_END"
    using le unfolding size_of_def by linarith+
  then show ?thesis unfolding update_statement_def a prod.case b by simp
qed

lemma prepare_updates_all:
  "\<forall>i \<in> set rest. i < MAX_QUERIES \<Longrightarrow>
    prepare_updates rest ps = Some (rev (map (\<lambda>i. (UPDATE_QUERY_NAME_PREFIX @ dec (i + 1),
      UPDATE_QUERY_BEGIN @ concat (elem_pieces i) @ UPDATE_QUERY_MIDDLE @ concat (elem2_pieces i) @ UPDATE_QUERY_END)) rest) @ ps)"
proof (induction rest arbitrary: ps)
  case (Cons i rest)
  have "\<not> length (dec MAX_QUERIES) + 1 \<le> length (dec (i + 1))"
    using Cons.prems dec_small_number [of "i + 1"] length_dec_MAX_QUERIES by simp
  with Cons show ?case by (simp add: update_statement_full add_prepared_statement_def)
qed simp

section \<open>The memory of the context\<close>

text \<open>
  Sizes and alignments of the C types, and the offset of \<^verbatim>\<open>res\<close> in the context.
\<close>

record layout =
  off_res :: nat
  size_result :: nat
  size_param :: nat
  align_param :: nat
  size_ptr :: nat
  align_ptr :: nat
  size_int :: nat
  align_int :: nat

definition layout_ok :: "layout \<Rightarrow> bool" where
  "layout_ok L \<longleftrightarrow> 0 < align_param L \<and> 0 < align_ptr L \<and> 0 < align_int L"

definition align_up :: "nat \<Rightarrow> nat \<Rightarrow> nat" where
  "align_up x a = (x + a - 1) div a * a"

definition name_size :: nat where
  "name_size = length UPDATE_QUERY_NAME_PREFIX + size_of (dec MAX_QUERIES)"

text \<open>The size \<^verbatim>\<open>do_multiple_queries\<close> allocates, and where \<^verbatim>\<open>query_param\<close> begins.\<close>

definition base_size :: "layout \<Rightarrow> nat \<Rightarrow> nat" where
  "base_size L nq = align_up (off_res L + nq * size_result L) (align_param L)"

definition context_size :: "layout \<Rightarrow> bool \<Rightarrow> nat \<Rightarrow> nat \<Rightarrow> nat" where
  "context_size L upd nq n_params =
     (let sz = base_size L nq + n_params * size_param L;
          s = base_size L nq + size_param L;
          s = align_up s (align_ptr L) + 2 * nq * size_ptr L;
          s = align_up s (align_int L) + 4 * nq * size_int L;
          s = s + name_size
      in if upd \<and> sz < s then s else sz)"

text \<open>The offsets of \<^verbatim>\<open>do_updates\<close>: values, formats, lengths, command.\<close>

definition update_offsets :: "layout \<Rightarrow> nat \<Rightarrow> nat \<times> nat \<times> nat \<times> nat" where
  "update_offsets L nr =
     (let offset = align_up (off_res L + nr * size_result L) (align_param L) + size_param L;
          values_at = align_up offset (align_ptr L);
          nParams = nr * 2;
          formats = align_up (values_at + nParams * size_ptr L) (align_int L);
          lengths = formats + nParams * size_int L
      in (values_at, formats, lengths, lengths + nParams * size_int L))"

lemma align_up: "0 < a \<Longrightarrow> x \<le> align_up x a" "a dvd align_up x a"
proof -
  show "a dvd align_up x a" by (simp add: align_up_def)
  assume "0 < a"
  then have "(x + a - 1) mod a < a" by (rule mod_less_divisor)
  moreover have "(x + a - 1) div a * a + (x + a - 1) mod a = x + a - 1" by (rule div_mult_mod_eq)
  ultimately show "x \<le> align_up x a" unfolding align_up_def by linarith
qed

section \<open>Properties\<close>

text \<open>A request for a single row: for every outcome of its query, the request is answered once
  if the outcome comes before the disposal and not at all otherwise, and in both orders the
  context is freed once, by the later of the two; when the query is refused the request is
  answered at once and the disposal frees the context.\<close>

theorem single_query_life:
  "let c = single_query e rnd True rq p; r = single_query e rnd False rq p
   in sq_freed (single_callback e i c) = 0 \<and> sq_freed (cleanup_single_query_request (single_callback e i c)) = 1 \<and>
      answers (sq_req (cleanup_single_query_request (single_callback e i c))) = Suc (answers rq) \<and>
      sq_freed (cleanup_single_query_request c) = 0 \<and> sq_freed (single_callback e i (cleanup_single_query_request c)) = 1 \<and>
      sq_req (single_callback e i (cleanup_single_query_request c)) = rq \<and>
      answers (sq_req r) = Suc (answers rq) \<and> sq_freed r = 0 \<and> sq_freed (cleanup_single_query_request r) = 1"
proof -
  let ?c = "single_query e rnd True rq p" and ?r = "single_query e rnd False rq p"
  have c: "\<not> sq_cleanup ?c" "sq_freed ?c = 0" "sq_req ?c = rq" and r: "sq_cleanup ?r" "sq_freed ?r = 0"
    "answers (sq_req ?r) = Suc (answers rq)"
    by (simp_all add: single_query_def)
  show ?thesis
    unfolding Let_def
    using single.answered_then_disposed [OF TrueI c(1), where e = e and i = i]
      single.disposed_then_called(1,2) [OF c(1), where e = e and i = i] single.disposed_then_called(3) [OF c(1)]
      single.refused_then_disposed [OF r(1)] c r by simp
qed

text \<open>The answer for a single row: with a generator from any pool, the request is answered with the
  JSON object of its id and its number, or with status 500, and the pool gets its generator
  back.\<close>

theorem single_query_answer:
  assumes "yajl_contract (yj e) ops json_text" "pool_ok ops p" "\<forall>y. fresh = Some y \<longrightarrow> ops y = []"
    "rnd < MAX_ID" "number < 2 ^ 32"
  shows "let c = on_single_query_result e fresh (Some number) (single_query e rnd True rq p)
    in pool_ok ops (sq_pool c) \<and> in_use (sq_pool c) = in_use p \<and>
      (answered internal_error rq (sq_req c) \<or> answered (Send_inline (json_text (item_ops (rnd + 1, number)))) rq (sq_req c))"
proof -
  have "rnd + 1 < 2 ^ 32" using assms(4) by (simp add: MAX_ID_def)
  with single_row_answer [OF assms(1), of "single_query e rnd True rq p" fresh number] assms(2,3,5) show ?thesis
    by (simp add: single_query_def)
qed

definition sample_pool :: "yajl_op list json_pool" where
  "sample_pool = \<lparr>json_generator = [[]], json_generator_num = 1, max_json_generator = 2, alive = 1\<rparr>"

definition sample_env :: "yajl_op list env" where
  "sample_env = \<lparr>yj = list_yajl, date = ''now'', retry_after = ''10'', buf_mem = \<lambda>_. NUL\<rparr>"

definition sample_req :: h2o_req where
  "sample_req = \<lparr>res_status = 0, res_reason = [], res_content_length = 0, res_headers = [], calls = []\<rparr>"

theorem single_query_answer_witness:
  "pool_ok id (sq_pool (on_single_query_result sample_env None (Some 77) (single_query sample_env 41 True sample_req sample_pool)))"
proof -
  have "yajl_contract (yj sample_env) id (\<lambda>y. replicate (length y) CHR ''.'')" using list_yajl_contract by (simp add: sample_env_def)
  moreover have "pool_ok id sample_pool" by (simp add: pool_ok_def sample_pool_def)
  ultimately show ?thesis
    using single_query_answer [of sample_env id "\<lambda>y. replicate (length y) CHR ''.''" sample_pool None 41 77 sample_req]
    by (simp add: MAX_ID_def Let_def)
qed

text \<open>Filling the cache: from the rows of the table as the database sends them, in any order, the
  cache gets the number of every row at its id, no assertion fails and nothing is written
  outside the table; a request that finds the entry gets these numbers.\<close>

theorem cache_holds_rows:
  assumes "\<forall>r \<in> set rows. fst r \<le> MAX_ID \<and> snd r \<le> UINT16_MAX" "distinct (map fst rows)" "world_cache td = Some c"
    "cache_fetch lib (cache_set lib c now t) later = Some t" "populate_table (map text_row rows) (replicate (MAX_ID + 1) 0) = Some t"
  shows "\<exists>td'. on_populate_cache_result lib now (Some (map text_row rows)) td = Some td' \<and>
    (\<exists>table td''. fetch_from_cache lib later True td' = (Some table, td'') \<and> length table = MAX_ID + 1 \<and>
      (\<forall>r \<in> set rows. table ! fst r = snd r))"
  using populate_table_ok [OF assms(1,2), of "replicate (MAX_ID + 1) 0"] assms(3-5)
  by (auto simp: on_populate_cache_result_def fetch_from_cache_def)

theorem cache_holds_rows_witness:
  "\<exists>td' table td''. on_populate_cache_result \<lparr>cache_create = Some [], cache_fetch = \<lambda>c now. Some c, cache_set = \<lambda>c now t. t\<rparr> 5
      (Some (map text_row [(2, 9), (1, 7)])) \<lparr>world_cache = Some [], populating = 1, populate_queries = 1\<rparr> = Some td' \<and>
    fetch_from_cache \<lparr>cache_create = Some [], cache_fetch = \<lambda>c now. Some c, cache_set = \<lambda>c now t. t\<rparr> 6 True td' = (Some table, td'') \<and>
    table ! 1 = 7 \<and> table ! 2 = 9"
proof -
  let ?rows = "[(2, 9), (1, 7)] :: (nat \<times> nat) list"
  have ok: "\<forall>r \<in> set ?rows. fst r \<le> MAX_ID \<and> snd r \<le> UINT16_MAX" "distinct (map fst ?rows)"
    by (simp_all add: MAX_ID_def UINT16_MAX_def)
  obtain t where "populate_table (map text_row ?rows) (replicate (MAX_ID + 1) 0) = Some t"
    using populate_table_ok [OF ok, of "replicate (MAX_ID + 1) 0"] by auto
  from cache_holds_rows [OF ok _ _ this, of "\<lparr>world_cache = Some [], populating = 1, populate_queries = 1\<rparr>" "[]"
      "\<lparr>cache_create = Some [], cache_fetch = \<lambda>c now. Some c, cache_set = \<lambda>c now t. t\<rparr>" 5 6]
  show ?thesis by fastforce
qed

text \<open>Once the entry of the cache has expired it is never filled again: however many requests
  follow, each goes to the database, and no query to fill the cache is sent.\<close>

theorem cache_never_refilled:
  assumes "world_cache td = Some c" "\<forall>now \<in> set nows. cache_fetch lib c now = None"
  shows "fetch_all lib nows td = (replicate (length nows) None, td)"
  by (rule fetch_all_expired [OF assms])

theorem cache_never_refilled_witness:
  "fetch_all \<lparr>cache_create = Some (), cache_fetch = \<lambda>c now. if now < 3600000 then Some [] else None, cache_set = \<lambda>c now t. c\<rparr>
      [3600000, 3600001] \<lparr>world_cache = Some (), populating = 0, populate_queries = 1\<rparr> =
    ([None, None], \<lparr>world_cache = Some (), populating = 0, populate_queries = 1\<rparr>)"
  by (subst cache_never_refilled [where c = "()"]) (simp_all add: numeral_2_eq_2)

text \<open>The prepared statements of the updates: no piece of a statement is cut off by the buffer and
  no assertion fails; afterwards, for every number of rows from 1 to 500, the name that
  \<^verbatim>\<open>do_updates\<close> uses is prepared with the statement that sets the row with the id in
  parameter \<^verbatim>\<open>2j + 1\<close> to parameter \<^verbatim>\<open>2j + 2\<close>.\<close>

theorem update_statements_prepared:
  "\<exists>ps'. initialize_world_handlers ps = Some ps' \<and>
    (\<forall>n. 1 \<le> n \<and> n \<le> MAX_QUERIES \<longrightarrow>
      (UPDATE_QUERY_NAME_PREFIX @ dec n,
       UPDATE_QUERY_BEGIN @ concat (map (\<lambda>j. UPDATE_QUERY_ELEM (dec (2 * j + 1)) (dec (2 * j + 2))) [0..<n]) @
       UPDATE_QUERY_MIDDLE @ concat (map (\<lambda>j. UPDATE_QUERY_ELEM2 (dec (2 * j + 1))) [1..<n]) @ UPDATE_QUERY_END) \<in> set ps')"
proof -
  let ?f = "\<lambda>i. (UPDATE_QUERY_NAME_PREFIX @ dec (i + 1),
      UPDATE_QUERY_BEGIN @ concat (elem_pieces i) @ UPDATE_QUERY_MIDDLE @ concat (elem2_pieces i) @ UPDATE_QUERY_END)"
  have p: "prepare_updates [0..<MAX_QUERIES] ps = Some (rev (map ?f [0..<MAX_QUERIES]) @ ps)"
    by (rule prepare_updates_all) simp
  have "?f (n - 1) \<in> set (rev (map ?f [0..<MAX_QUERIES]) @ ps)" if "1 \<le> n" "n \<le> MAX_QUERIES" for n
    using that by (simp add: less_eq_Suc_le image_iff) (intro disjI1 bexI [of _ "n - 1"], auto)
  then show ?thesis unfolding initialize_world_handlers_def p
    by (auto simp: add_prepared_statement_def elem_pieces_def elem2_pieces_def intro!: disjI2)
qed

theorem update_statements_prepared_witness:
  "\<exists>ps' query. initialize_world_handlers [] = Some ps' \<and> (''WorldUpdate1'', query) \<in> set ps'"
proof -
  have "UPDATE_QUERY_NAME_PREFIX @ dec 1 = ''WorldUpdate1''" by code_simp
  moreover have "1 \<le> (1 :: nat) \<and> 1 \<le> MAX_QUERIES" by (simp add: MAX_QUERIES_def)
  moreover obtain ps' where "initialize_world_handlers [] = Some ps'" "1 \<le> (1 :: nat) \<and> 1 \<le> MAX_QUERIES \<longrightarrow>
      (UPDATE_QUERY_NAME_PREFIX @ dec 1,
       UPDATE_QUERY_BEGIN @ concat (map (\<lambda>j. UPDATE_QUERY_ELEM (dec (2 * j + 1)) (dec (2 * j + 2))) [0..<1]) @
       UPDATE_QUERY_MIDDLE @ concat (map (\<lambda>j. UPDATE_QUERY_ELEM2 (dec (2 * j + 1))) [1..<1]) @ UPDATE_QUERY_END) \<in> set ps'"
    using update_statements_prepared [of "[]"] by blast
  ultimately show ?thesis by auto
qed

text \<open>The parameters of an update lie inside the memory of the context, one behind the other, aligned,
  and behind the results and the query they replace; the name of the statement fits behind
  them.\<close>

theorem update_layout_fits:
  assumes "layout_ok L"
  shows "case update_offsets L n of (values_at, formats, lengths, command) \<Rightarrow>
    off_res L + n * size_result L \<le> base_size L n \<and> base_size L n + size_param L \<le> values_at \<and>
    values_at + 2 * n * size_ptr L \<le> formats \<and> formats + 2 * n * size_int L = lengths \<and> lengths + 2 * n * size_int L = command \<and>
    align_ptr L dvd values_at \<and> align_int L dvd formats \<and> command + name_size \<le> context_size L True n m"
  using assms align_up by (auto simp: layout_ok_def update_offsets_def context_size_def base_size_def Let_def algebra_simps)

theorem update_layout_fits_witness:
  "case update_offsets \<lparr>off_res = 64, size_result = 8, size_param = 120, align_param = 8, size_ptr = 8, align_ptr = 8,
      size_int = 4, align_int = 4\<rparr> 20 of
    (values_at, formats, lengths, command) \<Rightarrow> values_at = 344 \<and> command + name_size \<le> 1000"
proof -
  let ?L = "\<lparr>off_res = 64, size_result = 8, size_param = 120, align_param = 8, size_ptr = 8, align_ptr = 8,
      size_int = 4, align_int = 4\<rparr>"
  have "layout_ok ?L" by (simp add: layout_ok_def)
  from update_layout_fits [OF this, of 20 1] show ?thesis
    by (simp add: update_offsets_def align_up_def Let_def context_size_def base_size_def name_size_def size_of_def
        length_dec_MAX_QUERIES UPDATE_QUERY_NAME_PREFIX_def)
qed

end
