(* ===== verification/Fortune.thy ===== *)
theory Fortune
  imports Sort_List Shared_Context
begin

text \<open>
  The fortunes handler of the h2o application (\<^verbatim>\<open>handlers/fortune.c\<close>): it reads the
  fortunes, adds one, sorts the intrusive list with \<^verbatim>\<open>sort_list\<close> and renders the template.
  The mustache library is a parameter: rendering a template calls back the section and the
  variables of this file.  Nodes live in a store of \<^verbatim>\<open>next\<close> pointers, as in
  \<^verbatim>\<open>Intrusive_List\<close>.
\<close>

section \<open>Comparing fortunes\<close>

record fortune =
  f_id :: string
  f_message :: string

definition compare_fortunes :: "(addr \<Rightarrow> fortune) \<Rightarrow> addr cmp" where
  "compare_fortunes data x y =
     (let m1 = f_message (data x); m2 = f_message (data y);
          ret = memcmp (min (length m1) (length m2)) m1 m2
      in if ret = 0 then (if length m1 < length m2 then - 1 else if length m2 < length m1 then 1 else 0) else ret)"

lemma compare_fortunes_le: "compare_fortunes data x y \<le> 0 \<longleftrightarrow> bytes_le (f_message (data x)) (f_message (data y))"
  using memcmp_le [of "f_message (data x)" "f_message (data y)"] by (simp add: compare_fortunes_def Let_def)

interpretation fortune_order: comparator "compare_fortunes data" for data
proof
  show "compare_fortunes data x y \<le> 0 \<or> compare_fortunes data y x \<le> 0" for x y
    unfolding compare_fortunes_le by (rule bytes_le_total)
  show "compare_fortunes data x y \<le> 0 \<Longrightarrow> compare_fortunes data y z \<le> 0 \<Longrightarrow> compare_fortunes data x z \<le> 0" for x y z
    unfolding compare_fortunes_le by (rule bytes_le_trans)
qed

section \<open>The context\<close>

record fortune_ctx =
  fc_heap :: heap
  fc_data :: "addr \<Rightarrow> fortune"
  fc_next :: addr
  fc_result :: "addr option"
  fc_num_result :: nat
  fc_iter :: "addr option"
  fc_buffer :: string
  fc_cleanup :: bool
  fc_req :: h2o_req
  fc_freed :: nat
  fc_failed_assert :: bool

definition add_iovec :: "string \<Rightarrow> fortune_ctx \<Rightarrow> bool \<times> fortune_ctx" where
  "add_iovec buffer c = (True, c\<lparr>fc_buffer := fc_buffer c @ buffer\<rparr>)"

definition cleanup_fortunes :: "fortune_ctx \<Rightarrow> fortune_ctx" where
  "cleanup_fortunes c = c\<lparr>fc_freed := fc_freed c + 1\<rparr>"

definition cleanup_request :: "fortune_ctx \<Rightarrow> fortune_ctx" where
  "cleanup_request c = (if fc_cleanup c then cleanup_fortunes c else c\<lparr>fc_cleanup := True\<rparr>)"

definition NEW_FORTUNE_MESSAGE :: string where
  "NEW_FORTUNE_MESSAGE = ''Additional fortune added at request time.''"


text \<open>\<^verbatim>\<open>fortunes\<close>: the context with the additional fortune in the node 0.\<close>

definition new_fortune_ctx :: "h2o_req \<Rightarrow> fortune_ctx" where
  "new_fortune_ctx rq =
     \<lparr>fc_heap = (\<lambda>_. None), fc_data = (\<lambda>_. \<lparr>f_id = ''0'', f_message = NEW_FORTUNE_MESSAGE\<rparr>), fc_next = 1,
      fc_result = Some 0, fc_num_result = 1, fc_iter = None, fc_buffer = [], fc_cleanup = False, fc_req = rq,
      fc_freed = 0, fc_failed_assert = False\<rparr>"

definition fortunes :: "string \<Rightarrow> bool \<Rightarrow> h2o_req \<Rightarrow> fortune_ctx" where
  "fortunes retry_after accepted rq =
     (let c = new_fortune_ctx rq
      in if accepted then c
         else c\<lparr>fc_cleanup := True, fc_req := send_service_unavailable_error retry_after DB_REQ_ERROR (fc_req c)\<rparr>)"

definition on_fortune_error :: "string \<Rightarrow> fortune_ctx \<Rightarrow> fortune_ctx" where
  "on_fortune_error error_string c =
     (if fc_cleanup c then cleanup_fortunes c
      else c\<lparr>fc_cleanup := True, fc_req := send_error BAD_GATEWAY error_string (fc_req c)\<rparr>)"

definition on_fortune_timeout :: "fortune_ctx \<Rightarrow> fortune_ctx" where
  "on_fortune_timeout c =
     (if fc_cleanup c then cleanup_fortunes c
      else c\<lparr>fc_cleanup := True, fc_req := send_error GATEWAY_TIMEOUT DB_TIMEOUT_ERROR (fc_req c)\<rparr>)"

section \<open>Rendering\<close>

text \<open>
  \<^verbatim>\<open>on_fortune_section\<close>: \<^verbatim>\<open>render\<close> is \<^verbatim>\<open>mustache_render\<close> on the tokens of the
  section; the loop follows the list, one fortune more than there are results is never
  reached.
\<close>

fun section_loop :: "(fortune_ctx \<Rightarrow> bool \<times> fortune_ctx) \<Rightarrow> nat \<Rightarrow> addr option \<Rightarrow> fortune_ctx \<Rightarrow> bool \<times> fortune_ctx" where
  "section_loop render 0 iter c = (True, c)"
| "section_loop render (Suc n) iter c =
     (case iter of
        None \<Rightarrow> (True, c)
      | Some a \<Rightarrow>
          (let c = c\<lparr>fc_iter := Some a\<rparr>; next' = fc_heap c a
           in case render c of
                (False, c') \<Rightarrow> (False, c')
              | (True, c') \<Rightarrow> section_loop render n next' c'))"

definition on_fortune_section :: "(fortune_ctx \<Rightarrow> bool \<times> fortune_ctx) \<Rightarrow> fortune_ctx \<Rightarrow> bool \<times> fortune_ctx" where
  "on_fortune_section render c =
     (if fc_num_result c \<noteq> 0
      then section_loop render (fc_num_result c) (fc_result c) (c\<lparr>fc_failed_assert := fc_failed_assert c \<or> fc_result c = None\<rparr>)
      else (True, c))"

text \<open>The fields a variable of the template can stand for (\<^verbatim>\<open>token->userdata\<close>).\<close>

datatype field = Id_field | Message_field

fun field_value :: "field \<Rightarrow> fortune \<Rightarrow> string" where
  "field_value Id_field f = f_id f"
| "field_value Message_field f = f_message f"

definition on_fortune_variable :: "field \<Rightarrow> fortune_ctx \<Rightarrow> bool \<times> fortune_ctx" where
  "on_fortune_variable fld c = add_iovec (field_value fld (fc_data c (the (fc_iter c)))) c"

text \<open>
  Before a template is used, its section has to be \<^verbatim>\<open>Fortune\<close> and its variables, which
  may stand in the section only, \<^verbatim>\<open>id\<close> and \<^verbatim>\<open>message\<close>; \<^verbatim>\<open>prerender\<close> is
  \<^verbatim>\<open>mustache_prerender\<close> on the tokens of the section.
\<close>

definition prerender_section :: "(bool \<Rightarrow> bool) \<Rightarrow> string \<Rightarrow> bool \<Rightarrow> bool \<times> bool" where
  "prerender_section prerender name in_section =
     (if \<not> in_section \<and> name = ''Fortune'' then (prerender True, False) else (False, in_section))"

definition prerender_variable :: "string \<Rightarrow> bool \<Rightarrow> field option" where
  "prerender_variable label in_section =
     (if \<not> in_section then None
      else if label = ''id'' then Some Id_field
      else if label = ''message'' then Some Message_field
      else None)"

section \<open>The result\<close>

text \<open>
  One row: \<^verbatim>\<open>escape\<close> is \<^verbatim>\<open>h2o_htmlescape\<close>.  An assertion asks for an id that starts
  with a digit.
\<close>

definition add_fortune :: "(string \<Rightarrow> string) \<Rightarrow> string \<times> string \<Rightarrow> fortune_ctx \<Rightarrow> fortune_ctx" where
  "add_fortune escape row c =
     (let a = fc_next c
      in c\<lparr>fc_data := (fc_data c)(a := \<lparr>f_id = fst row, f_message = escape (snd row)\<rparr>),
           fc_heap := (fc_heap c)(a := fc_result c), fc_next := a + 1, fc_result := Some a,
           fc_num_result := fc_num_result c + 1,
           fc_failed_assert := fc_failed_assert c \<or> fst row = [] \<or> \<not> isdigit (hd (fst row))\<rparr>)"

text \<open>
  \<^verbatim>\<open>on_fortune_result\<close>: \<^verbatim>\<open>rows\<close> for a result with the status
  \<^verbatim>\<open>PGRES_TUPLES_OK\<close>, \<^verbatim>\<open>mustache_render\<close> renders the whole template with a callback
  for its section.  The fuel of \<^verbatim>\<open>sort_list\<close> is enough for any list of this length.
\<close>

definition on_fortune_result ::
    "string \<Rightarrow> (string \<Rightarrow> string) \<Rightarrow> ((fortune_ctx \<Rightarrow> bool \<times> fortune_ctx) \<Rightarrow> fortune_ctx \<Rightarrow> bool \<times> fortune_ctx) \<Rightarrow>
     (fortune_ctx \<Rightarrow> bool \<times> fortune_ctx) \<Rightarrow> (string \<times> string) list option \<Rightarrow> fortune_ctx \<Rightarrow> fortune_ctx" where
  "on_fortune_result date escape mustache_render render_section rows c =
     (let cleanup = fc_cleanup c; c = c\<lparr>fc_cleanup := True\<rparr>
      in if cleanup then cleanup_fortunes c
         else (case rows of
                 None \<Rightarrow> c\<lparr>fc_req := send_error BAD_GATEWAY DB_ERROR (fc_req c)\<rparr>
               | Some rows \<Rightarrow>
                   (let c = fold (add_fortune escape) rows c;
                        c = c\<lparr>fc_buffer := []\<rparr>;
                        c = (case sort_list (2 * fc_num_result c + 3) (compare_fortunes (fc_data c)) (fc_heap c, fc_result c) of
                               None \<Rightarrow> c
                             | Some (h, v) \<Rightarrow> c\<lparr>fc_heap := h, fc_result := v\<rparr>)
                    in case mustache_render (on_fortune_section render_section) c of
                         (ok, c') \<Rightarrow>
                           if ok
                           then c'\<lparr>fc_req := h2o_call (Send_final (fc_buffer c'))
                                     (set_default_response_param date HTML (length (fc_buffer c')) (fc_req c'))\<rparr>
                           else c'\<lparr>fc_req := send_error INTERNAL_SERVER_ERROR REQ_ERROR (fc_req c')\<rparr>)))"

text \<open>
  What the library does: rendering keeps the request and the flags, the template is a text
  before its section, the section, and a text behind it, and the tokens of the section append
  a text of the current fortune.
\<close>

definition keeps :: "fortune_ctx \<Rightarrow> fortune_ctx \<Rightarrow> bool" where
  "keeps c c' \<longleftrightarrow> fc_req c' = fc_req c \<and> fc_cleanup c' = fc_cleanup c \<and> fc_freed c' = fc_freed c"

definition renders_template ::
    "((fortune_ctx \<Rightarrow> bool \<times> fortune_ctx) \<Rightarrow> fortune_ctx \<Rightarrow> bool \<times> fortune_ctx) \<Rightarrow> string \<Rightarrow> string \<Rightarrow> bool" where
  "renders_template mustache_render before behind \<longleftrightarrow>
     (\<forall>sect c. mustache_render sect c =
        (case sect (snd (add_iovec before c)) of (ok, c') \<Rightarrow> if ok then add_iovec behind c' else (False, c')))"

definition renders_fortune :: "(fortune_ctx \<Rightarrow> bool \<times> fortune_ctx) \<Rightarrow> (fortune \<Rightarrow> string) \<Rightarrow> bool" where
  "renders_fortune render body \<longleftrightarrow>
     (\<forall>c a. fc_iter c = Some a \<longrightarrow> render c = add_iovec (body (fc_data c a)) c)"

section \<open>Building, sorting and rendering the list\<close>

lemma section_loop_renders:
  assumes "renders_fortune render body" "list_at (fc_heap c) p xs" "length xs \<le> n"
  shows "\<exists>c'. section_loop render n p c = (True, c') \<and>
    fc_buffer c' = fc_buffer c @ concat (map (\<lambda>a. body (fc_data c a)) xs) \<and> fc_req c' = fc_req c \<and>
    fc_cleanup c' = fc_cleanup c \<and> fc_freed c' = fc_freed c \<and> fc_failed_assert c' = fc_failed_assert c"
  using assms(2,3)
proof (induction xs arbitrary: n p c)
  case Nil
  then show ?case by (cases n) auto
next
  case (Cons a xs)
  then obtain m where n: "n = Suc m" by (cases n) auto
  let ?c = "snd (add_iovec (body (fc_data c a)) (c\<lparr>fc_iter := Some a\<rparr>))"
  have r: "render (c\<lparr>fc_iter := Some a\<rparr>) = (True, ?c)"
    using assms(1) by (simp add: renders_fortune_def add_iovec_def)
  have "list_at (fc_heap ?c) (fc_heap c a) xs" "p = Some a" using Cons.prems(1) by (simp_all add: add_iovec_def)
  from Cons.IH [OF this(1), of m] r this(2) n Cons.prems(2) show ?case
    by (auto simp: add_iovec_def)
qed

text \<open>The list and its fortunes: the nodes carry the messages, all below the next free address.\<close>

definition holds :: "fortune_ctx \<Rightarrow> addr list \<Rightarrow> fortune list \<Rightarrow> bool" where
  "holds c xs fs \<longleftrightarrow> list_at (fc_heap c) (fc_result c) xs \<and> map (fc_data c) xs = fs \<and> fc_num_result c = length xs \<and>
     (\<forall>a \<in> set xs. a < fc_next c)"

lemma add_fortune_holds:
  assumes "holds c xs fs"
  shows "holds (add_fortune escape row c) (fc_next c # xs) (\<lparr>f_id = fst row, f_message = escape (snd row)\<rparr> # fs)"
proof -
  have new: "fc_next c \<notin> set xs" using assms by (auto simp: holds_def)
  then have "map ((fc_data c)(fc_next c := f)) xs = map (fc_data c) xs" for f by auto
  with assms new show ?thesis by (auto simp: holds_def add_fortune_def Let_def)
qed

lemma add_fortunes_holds:
  "holds c xs fs \<Longrightarrow>
    \<exists>ys. holds (fold (add_fortune escape) rows c) ys
      (rev (map (\<lambda>r. \<lparr>f_id = fst r, f_message = escape (snd r)\<rparr>) rows) @ fs)"
proof (induction rows arbitrary: c xs fs)
  case (Cons r rows)
  from Cons.IH [OF add_fortune_holds [OF Cons.prems]] show ?case by simp
qed auto

lemma add_fortunes_keeps:
  "fc_req (fold (add_fortune escape) rows c) = fc_req c \<and> fc_cleanup (fold (add_fortune escape) rows c) = fc_cleanup c \<and>
   fc_freed (fold (add_fortune escape) rows c) = fc_freed c \<and>
   fc_failed_assert (fold (add_fortune escape) rows c) =
     (fc_failed_assert c \<or> (\<exists>r \<in> set rows. fst r = [] \<or> \<not> isdigit (hd (fst r))))"
  by (induction rows arbitrary: c) (auto simp: add_fortune_def Let_def)


text \<open>The fuel of \<^verbatim>\<open>sort_list\<close> is enough: the list comes back sorted, with the same nodes.\<close>

lemma sort_fortunes:
  assumes "holds c xs fs"
  shows "\<exists>h v ys. sort_list (2 * fc_num_result c + 3) (compare_fortunes (fc_data c)) (fc_heap c, fc_result c) = Some (h, v) \<and>
    list_at h v ys \<and> length ys = length xs \<and>
    sorted_wrt (\<lambda>f g. bytes_le (f_message f) (f_message g)) (map (fc_data c) ys) \<and> mset (map (fc_data c) ys) = mset fs"
proof -
  have "length xs + num_runs (compare_fortunes (fc_data c)) xs + 2 < 2 * fc_num_result c + 3"
    using num_runs_le_length [of "compare_fortunes (fc_data c)" xs] assms by (simp add: holds_def)
  with sort_list_works [OF fortune_order.comparator_axioms] assms obtain h v ys where
    s: "sort_list (2 * fc_num_result c + 3) (compare_fortunes (fc_data c)) (fc_heap c, fc_result c) = Some (h, v)"
      "list_at h v ys" "sorted_wrt (\<lambda>a b. compare_fortunes (fc_data c) a b \<le> 0) ys" "mset ys = mset xs"
    unfolding holds_def by blast
  have "sorted_wrt (\<lambda>f g. bytes_le (f_message f) (f_message g)) (map (fc_data c) ys)"
    using s(3) by (simp add: sorted_wrt_map compare_fortunes_le)
  moreover have "mset (map (fc_data c) ys) = mset fs"
    using s(4) assms by (metis holds_def mset_map)
  moreover have "length ys = length xs" using s(4) by (rule mset_eq_length)
  ultimately show ?thesis using s(1,2) by blast
qed

lemma fortune_result_renders:
  assumes "renders_template mustache_render before behind" "renders_fortune render_section body"
    "holds c xs fs" "xs \<noteq> []" "\<not> fc_cleanup c"
  shows "\<exists>ys c'. on_fortune_result date escape mustache_render render_section (Some rows) c = c' \<and>
    sorted_wrt (\<lambda>f g. bytes_le (f_message f) (f_message g)) ys \<and>
    mset ys = mset (map (\<lambda>r. \<lparr>f_id = fst r, f_message = escape (snd r)\<rparr>) rows) + mset fs \<and>
    fc_req c' = h2o_call (Send_final (before @ concat (map body ys) @ behind))
      (set_default_response_param date HTML (length (before @ concat (map body ys) @ behind)) (fc_req c)) \<and>
    fc_cleanup c' \<and> fc_freed c' = fc_freed c \<and>
    fc_failed_assert c' = (fc_failed_assert c \<or> (\<exists>r \<in> set rows. fst r = [] \<or> \<not> isdigit (hd (fst r))))"
proof -
  let ?c = "c\<lparr>fc_cleanup := True\<rparr>"
  define c1 where "c1 = (fold (add_fortune escape) rows ?c)\<lparr>fc_buffer := []\<rparr>"
  have "holds ?c xs fs" using assms(3) by (simp add: holds_def)
  from add_fortunes_holds [OF this, of escape rows] obtain ys where
    "holds (fold (add_fortune escape) rows ?c) ys (rev (map (\<lambda>r. \<lparr>f_id = fst r, f_message = escape (snd r)\<rparr>) rows) @ fs)"
    by blast
  then have h1: "holds c1 ys (rev (map (\<lambda>r. \<lparr>f_id = fst r, f_message = escape (snd r)\<rparr>) rows) @ fs)"
    by (simp add: holds_def c1_def)
  have "fs \<noteq> []" using assms(3,4) by (auto simp: holds_def)
  then have ne: "ys \<noteq> []" using h1 by (auto simp: holds_def)
  from sort_fortunes [OF h1] obtain h v zs where
    s: "sort_list (2 * fc_num_result c1 + 3) (compare_fortunes (fc_data c1)) (fc_heap c1, fc_result c1) = Some (h, v)"
      "list_at h v zs" "length zs = length ys"
      "sorted_wrt (\<lambda>f g. bytes_le (f_message f) (f_message g)) (map (fc_data c1) zs)"
      "mset (map (fc_data c1) zs) = mset (rev (map (\<lambda>r. \<lparr>f_id = fst r, f_message = escape (snd r)\<rparr>) rows) @ fs)"
    by blast
  define c2 where "c2 = snd (add_iovec before (c1\<lparr>fc_heap := h, fc_result := v\<rparr>))"
  have n: "fc_num_result c1 = length zs" "zs \<noteq> []" using h1 s(3) ne by (auto simp: holds_def)
  have "list_at (fc_heap c2) (fc_result c2) zs" "v \<noteq> None" using s(2) n(2) by (cases zs; auto simp: c2_def add_iovec_def)+
  from section_loop_renders [OF assms(2), of c2 "fc_result c2" zs "length zs"] this obtain c3 where
    c3: "section_loop render_section (length zs) (fc_result c2) c2 = (True, c3)"
      "fc_buffer c3 = fc_buffer c2 @ concat (map (\<lambda>a. body (fc_data c2 a)) zs)" "fc_req c3 = fc_req c2"
      "fc_cleanup c3 = fc_cleanup c2" "fc_freed c3 = fc_freed c2" "fc_failed_assert c3 = fc_failed_assert c2" by auto
  have "fc_num_result c2 = length zs" "fc_result c2 \<noteq> None" using n(1) \<open>v \<noteq> None\<close> by (simp_all add: c2_def add_iovec_def)
  then have sect: "on_fortune_section render_section c2 = (True, c3)"
    using c3(1) n(2) by (auto simp: on_fortune_section_def)
  have "mustache_render (on_fortune_section render_section) (c1\<lparr>fc_heap := h, fc_result := v\<rparr>) = add_iovec behind c3"
    using assms(1) sect by (simp add: renders_template_def c2_def)
  then have r: "on_fortune_result date escape mustache_render render_section (Some rows) c =
      (let c' = snd (add_iovec behind c3)
       in c'\<lparr>fc_req := h2o_call (Send_final (fc_buffer c')) (set_default_response_param date HTML (length (fc_buffer c')) (fc_req c'))\<rparr>)"
    using assms(5) s(1) by (simp add: on_fortune_result_def c1_def add_iovec_def Let_def)
  have buf: "fc_buffer (snd (add_iovec behind c3)) = before @ concat (map body (map (fc_data c1) zs)) @ behind"
    using c3(2) by (simp add: add_iovec_def c2_def c1_def comp_def)
  have kept: "fc_req c3 = fc_req c" "fc_cleanup c3" "fc_freed c3 = fc_freed c"
    "fc_failed_assert c3 = (fc_failed_assert c \<or> (\<exists>r \<in> set rows. fst r = [] \<or> \<not> isdigit (hd (fst r))))"
    using c3(3-6) add_fortunes_keeps [of escape rows ?c] by (simp_all add: c2_def c1_def add_iovec_def)
  show ?thesis
    by (rule exI [of _ "map (fc_data c1) zs"])
      (use s(4,5) r buf kept in \<open>simp add: Let_def add_iovec_def add.assoc\<close>)
qed

section \<open>The life of a request\<close>

datatype outcome = Failed string | Timed_out | Result "(string \<times> string) list option"

fun fortune_callback ::
    "string \<Rightarrow> (string \<Rightarrow> string) \<Rightarrow> ((fortune_ctx \<Rightarrow> bool \<times> fortune_ctx) \<Rightarrow> fortune_ctx \<Rightarrow> bool \<times> fortune_ctx) \<Rightarrow>
     (fortune_ctx \<Rightarrow> bool \<times> fortune_ctx) \<Rightarrow> outcome \<Rightarrow> fortune_ctx \<Rightarrow> fortune_ctx" where
  "fortune_callback date escape mustache_render render_section (Failed msg) c = on_fortune_error msg c"
| "fortune_callback date escape mustache_render render_section Timed_out c = on_fortune_timeout c"
| "fortune_callback date escape mustache_render render_section (Result rows) c =
     on_fortune_result date escape mustache_render render_section rows c"

text \<open>Rendering keeps the request and the flags when the section does, and the section does.\<close>

definition render_keeps ::
    "((fortune_ctx \<Rightarrow> bool \<times> fortune_ctx) \<Rightarrow> fortune_ctx \<Rightarrow> bool \<times> fortune_ctx) \<Rightarrow> (fortune_ctx \<Rightarrow> bool \<times> fortune_ctx) \<Rightarrow> bool" where
  "render_keeps mustache_render render_section \<longleftrightarrow>
     (\<forall>sect. (\<forall>c. keeps c (snd (sect c))) \<longrightarrow> (\<forall>c. keeps c (snd (mustache_render sect c)))) \<and>
     (\<forall>c. keeps c (snd (render_section c)))"

lemma section_keeps:
  assumes "\<forall>c. keeps c (snd (render_section c))"
  shows "keeps c (snd (on_fortune_section render_section c))"
proof -
  have loop: "keeps c (snd (section_loop render_section n p c))" for n p c
  proof (induction n arbitrary: p c)
    case (Suc n)
    show ?case
    proof (cases p)
      case (Some a)
      obtain ok c' where r: "render_section (c\<lparr>fc_iter := Some a\<rparr>) = (ok, c')" by fastforce
      with assms have "keeps (c\<lparr>fc_iter := Some a\<rparr>) c'" by (metis snd_conv)
      with Suc [of c' "fc_heap c a"] r Some show ?thesis by (simp add: keeps_def split: bool.split)
    qed (simp add: keeps_def)
  qed (simp add: keeps_def)
  show ?thesis using loop [of "c\<lparr>fc_failed_assert := fc_failed_assert c \<or> fc_result c = None\<rparr>"]
    by (simp add: on_fortune_section_def keeps_def)
qed

lemma fortune_result_first:
  assumes "render_keeps mustache_render render_section" "\<not> fc_cleanup c"
  shows "fc_cleanup (on_fortune_result date escape mustache_render render_section rows c) \<and>
    fc_freed (on_fortune_result date escape mustache_render render_section rows c) = fc_freed c \<and>
    answers (fc_req (on_fortune_result date escape mustache_render render_section rows c)) = Suc (answers (fc_req c))"
proof -
  have k: "keeps c (snd (mustache_render (on_fortune_section render_section) c))" for c
    using assms(1) section_keeps unfolding render_keeps_def by blast
  show ?thesis
  proof (cases rows)
    case (Some rs)
    let ?f = "fold (add_fortune escape) rs (c\<lparr>fc_cleanup := True\<rparr>)"
    define c1 where "c1 = (case sort_list (2 * fc_num_result ?f + 3) (compare_fortunes (fc_data ?f)) (fc_heap ?f, fc_result ?f) of
        None \<Rightarrow> ?f\<lparr>fc_buffer := []\<rparr> | Some (h, v) \<Rightarrow> ?f\<lparr>fc_buffer := [], fc_heap := h, fc_result := v\<rparr>)"
    have c1: "fc_req c1 = fc_req c" "fc_cleanup c1" "fc_freed c1 = fc_freed c"
      using add_fortunes_keeps [of escape rs "c\<lparr>fc_cleanup := True\<rparr>"] by (simp_all add: c1_def split: option.split)
    obtain ok c' where m: "mustache_render (on_fortune_section render_section) c1 = (ok, c')" by fastforce
    with k [of c1] c1 have "fc_req c' = fc_req c" "fc_cleanup c'" "fc_freed c' = fc_freed c" by (simp_all add: keeps_def)
    then show ?thesis using assms(2) m Some
      by (simp add: on_fortune_result_def Let_def c1_def)
  qed (use assms(2) in \<open>simp add: on_fortune_result_def Let_def\<close>)
qed

interpretation fortune: shared_context
    "fortune_callback date escape mustache_render render_section" cleanup_request fc_cleanup fc_freed fc_req
    "\<lambda>_ _. render_keeps mustache_render render_section" for date escape mustache_render render_section
proof unfold_locales
  fix i :: outcome and s :: fortune_ctx
  assume "render_keeps mustache_render render_section" "\<not> fc_cleanup s"
  then show "fc_cleanup (fortune_callback date escape mustache_render render_section i s) \<and>
      fc_freed (fortune_callback date escape mustache_render render_section i s) = fc_freed s \<and>
      answers (fc_req (fortune_callback date escape mustache_render render_section i s)) = Suc (answers (fc_req s))"
    by (cases i) (simp_all add: on_fortune_error_def on_fortune_timeout_def fortune_result_first)
next
  fix i :: outcome and s :: fortune_ctx
  assume "fc_cleanup s"
  then show "fc_freed (fortune_callback date escape mustache_render render_section i s) = Suc (fc_freed s) \<and>
      fc_req (fortune_callback date escape mustache_render render_section i s) = fc_req s"
    by (cases i) (simp_all add: on_fortune_error_def on_fortune_timeout_def on_fortune_result_def cleanup_fortunes_def Let_def)
qed (simp_all add: cleanup_request_def cleanup_fortunes_def)

text \<open>The template of the witnesses: each fortune as its id and its message.\<close>

definition sample_template ::
    "(fortune_ctx \<Rightarrow> bool \<times> fortune_ctx) \<Rightarrow> fortune_ctx \<Rightarrow> bool \<times> fortune_ctx" where
  "sample_template sect c =
     (case sect (snd (add_iovec ''<'' c)) of (ok, c') \<Rightarrow> if ok then add_iovec ''>'' c' else (False, c'))"

definition sample_section :: "fortune_ctx \<Rightarrow> bool \<times> fortune_ctx" where
  "sample_section c = (case on_fortune_variable Id_field c of (ok, c') \<Rightarrow> if ok then on_fortune_variable Message_field c' else (False, c'))"

lemma sample_renders:
  "renders_template sample_template ''<'' ''>''" "renders_fortune sample_section (\<lambda>f. f_id f @ f_message f)"
  by (simp_all add: renders_template_def sample_template_def renders_fortune_def sample_section_def on_fortune_variable_def
      add_iovec_def)

lemma sample_keeps: "render_keeps sample_template sample_section"
  unfolding render_keeps_def
proof (intro conjI allI impI)
  fix sect :: "fortune_ctx \<Rightarrow> bool \<times> fortune_ctx" and c :: fortune_ctx
  assume a: "\<forall>c. keeps c (snd (sect c))"
  obtain ok c' where "sect (snd (add_iovec ''<'' c)) = (ok, c')" by fastforce
  with a [rule_format, of "snd (add_iovec ''<'' c)"] show "keeps c (snd (sample_template sect c))"
    by (simp add: sample_template_def keeps_def add_iovec_def)
qed (simp add: sample_section_def on_fortune_variable_def add_iovec_def keeps_def)

text \<open>C28. The answer to a request for the fortunes, when the query succeeds before the request is
  disposed of, is the template with the additional fortune and every row of the table, with its message
  escaped, once each, in the order of the bytes of the escaped messages, which need not be the order of
  the bytes of the messages themselves; it is given in one call, and no assertion fails when every id
  starts with a digit, as the ids of the table do.\<close>

theorem fortunes_sorted:
  assumes "renders_template mustache_render before behind" "renders_fortune render_section body"
    "\<forall>r \<in> set rows. fst r \<noteq> [] \<and> isdigit (hd (fst r))"
  shows "\<exists>ys. sorted_wrt (\<lambda>f g. bytes_le (f_message f) (f_message g)) ys \<and>
    mset ys = add_mset \<lparr>f_id = ''0'', f_message = NEW_FORTUNE_MESSAGE\<rparr>
      (mset (map (\<lambda>r. \<lparr>f_id = fst r, f_message = escape (snd r)\<rparr>) rows)) \<and>
    fc_req (on_fortune_result date escape mustache_render render_section (Some rows) (fortunes retry_after True rq)) =
      h2o_call (Send_final (before @ concat (map body ys) @ behind))
        (set_default_response_param date HTML (length (before @ concat (map body ys) @ behind)) rq) \<and>
    \<not> fc_failed_assert (on_fortune_result date escape mustache_render render_section (Some rows) (fortunes retry_after True rq))"
proof -
  have h: "holds (fortunes retry_after True rq) [0] [\<lparr>f_id = ''0'', f_message = NEW_FORTUNE_MESSAGE\<rparr>]"
    "\<not> fc_cleanup (fortunes retry_after True rq)" "fc_req (fortunes retry_after True rq) = rq"
    "\<not> fc_failed_assert (fortunes retry_after True rq)"
    by (simp_all add: fortunes_def new_fortune_ctx_def holds_def)
  from fortune_result_renders [OF assms(1,2) h(1) _ h(2), of date escape rows] h(3,4) assms(3)
  show ?thesis by fastforce
qed

theorem fortunes_sorted_witness:
  "\<exists>ys. sorted_wrt (\<lambda>f g. bytes_le (f_message f) (f_message g)) ys \<and>
    mset ys = add_mset \<lparr>f_id = ''0'', f_message = NEW_FORTUNE_MESSAGE\<rparr>
      {#\<lparr>f_id = ''1'', f_message = ''b''\<rparr>, \<lparr>f_id = ''2'', f_message = ''a''\<rparr>#} \<and>
    fc_req (on_fortune_result ''now'' (\<lambda>s. s) sample_template sample_section (Some [(''1'', ''b''), (''2'', ''a'')])
        (fortunes ''1'' True \<lparr>res_status = 0, res_reason = [], res_content_length = 0, res_headers = [], calls = []\<rparr>)) =
      h2o_call (Send_final (''<'' @ concat (map (\<lambda>f. f_id f @ f_message f) ys) @ ''>''))
        (set_default_response_param ''now'' HTML (length (''<'' @ concat (map (\<lambda>f. f_id f @ f_message f) ys) @ ''>''))
          \<lparr>res_status = 0, res_reason = [], res_content_length = 0, res_headers = [], calls = []\<rparr>)"
  using fortunes_sorted [OF sample_renders, where rows = "[(''1'', ''b''), (''2'', ''a'')]" and date = "''now''" and
      escape = "\<lambda>s. s" and retry_after = "''1''" and
      rq = "\<lparr>res_status = 0, res_reason = [], res_content_length = 0, res_headers = [], calls = []\<rparr>"]
  by (simp add: isdigit_def) blast

text \<open>C19. A request for the fortunes is answered exactly once, whichever callback comes first, and
  not at all when it has been disposed of before; its context is freed exactly once, by the later
  of the callback and the disposal, and by the disposal alone when the query was refused.\<close>

theorem fortunes_life:
  assumes "render_keeps mustache_render render_section"
  shows "fc_freed (cleanup_request (fortune_callback date escape mustache_render render_section i (fortunes retry_after True rq))) = 1 \<and>
    answers (fc_req (cleanup_request (fortune_callback date escape mustache_render render_section i (fortunes retry_after True rq)))) =
      Suc (answers rq) \<and>
    fc_freed (fortune_callback date escape mustache_render render_section i (fortunes retry_after True rq)) = 0 \<and>
    fc_freed (fortune_callback date escape mustache_render render_section i (cleanup_request (fortunes retry_after True rq))) = 1 \<and>
    fc_req (fortune_callback date escape mustache_render render_section i (cleanup_request (fortunes retry_after True rq))) = rq \<and>
    fc_freed (cleanup_request (fortunes retry_after False rq)) = 1 \<and>
    answers (fc_req (cleanup_request (fortunes retry_after False rq))) = Suc (answers rq)"
proof -
  let ?c = "fortunes retry_after True rq"
  have c: "\<not> fc_cleanup ?c" "fc_freed ?c = 0" "fc_req ?c = rq" by (simp_all add: fortunes_def new_fortune_ctx_def)
  have r: "fc_cleanup (fortunes retry_after False rq)" "fc_freed (fortunes retry_after False rq) = 0"
    "answers (fc_req (cleanup_request (fortunes retry_after False rq))) = Suc (answers rq)"
    by (simp_all add: fortunes_def new_fortune_ctx_def cleanup_request_def cleanup_fortunes_def)
  show ?thesis
    using fortune.answered_then_disposed [OF assms c(1)] fortune.disposed_then_called [OF c(1)]
      fortune.refused_then_disposed [OF r(1)] c(2,3) r(2,3) by simp
qed

theorem fortunes_life_witness:
  "fc_freed (cleanup_request (fortune_callback ''now'' (\<lambda>s. s) sample_template sample_section (Result (Some [(''1'', ''b'')]))
     (fortunes ''1'' True \<lparr>res_status = 0, res_reason = [], res_content_length = 0, res_headers = [], calls = []\<rparr>))) = 1"
  using fortunes_life [OF sample_keeps] by blast

end
