(* ===== verification/Joined_Threads.thy ===== *)
theory Joined_Threads
  imports Main
begin

text \<open>
  Programs that acquire, use and release resources while they start threads and wait for
  them.  A program is the list of what it does; the scheduler runs the main program and the
  started threads in any interleaving.  Two static checks, one for the main program and one
  for a thread, are shown to be sound: whatever passes them never releases or uses what is not
  held, never deadlocks, and ends with exactly the resources it was to keep.
\<close>

section \<open>Programs\<close>

datatype 'r event =
    Acquire 'r
  | Release 'r
  | Use 'r
  | Start nat
  | Join nat

text \<open>
  The main program, the threads that were started with what is left of each, the resources
  that are held and whether one was used wrongly.
\<close>

record 'r system =
  main_left :: "'r event list"
  thread_left :: "nat \<Rightarrow> 'r event list option"
  held :: "'r set"
  fault :: bool

definition act :: "'r event \<Rightarrow> 'r system \<Rightarrow> 'r system" where
  "act e s =
     (case e of
        Acquire r \<Rightarrow> s\<lparr>held := insert r (held s), fault := fault s \<or> r \<in> held s\<rparr>
      | Release r \<Rightarrow> s\<lparr>held := held s - {r}, fault := fault s \<or> r \<notin> held s\<rparr>
      | Use r \<Rightarrow> s\<lparr>fault := fault s \<or> r \<notin> held s\<rparr>
      | Start i \<Rightarrow> s\<lparr>fault := True\<rparr>
      | Join i \<Rightarrow> s\<lparr>fault := True\<rparr>)"

inductive sys_step :: "(nat \<Rightarrow> 'r event list) \<Rightarrow> 'r system \<Rightarrow> 'r system \<Rightarrow> bool" for worker where
  main_start: "main_left s = Start i # es \<Longrightarrow>
     sys_step worker s (s\<lparr>main_left := es, thread_left := (thread_left s)(i \<mapsto> worker i),
       fault := fault s \<or> (thread_left s i \<noteq> None \<and> thread_left s i \<noteq> Some [])\<rparr>)"
| main_join: "main_left s = Join i # es \<Longrightarrow> thread_left s i = Some [] \<Longrightarrow> sys_step worker s (s\<lparr>main_left := es\<rparr>)"
| main_act: "main_left s = e # es \<Longrightarrow> \<forall>i. e \<noteq> Start i \<and> e \<noteq> Join i \<Longrightarrow>
     sys_step worker s ((act e s)\<lparr>main_left := es\<rparr>)"
| thread_act: "thread_left s i = Some (e # es) \<Longrightarrow>
     sys_step worker s ((act e s)\<lparr>thread_left := (thread_left s)(i \<mapsto> es)\<rparr>)"

inductive_cases sys_stepE: "sys_step worker s s'"

definition initial_system :: "'r event list \<Rightarrow> 'r system" where
  "initial_system main = \<lparr>main_left = main, thread_left = (\<lambda>_. None), held = {}, fault = False\<rparr>"

section \<open>The checks\<close>

text \<open>
  A thread acquires resources of its own and uses those and the shared ones.  The main program
  keeps the shared ones as long as a thread runs.
\<close>

fun thread_ok :: "('r \<Rightarrow> nat option) \<Rightarrow> 'r set \<Rightarrow> nat \<Rightarrow> 'r set \<Rightarrow> 'r event list \<Rightarrow> bool" where
  "thread_ok owner shared i H [] \<longleftrightarrow> H = {}"
| "thread_ok owner shared i H (Acquire r # es) \<longleftrightarrow> owner r = Some i \<and> r \<notin> H \<and> thread_ok owner shared i (insert r H) es"
| "thread_ok owner shared i H (Release r # es) \<longleftrightarrow> r \<in> H \<and> thread_ok owner shared i (H - {r}) es"
| "thread_ok owner shared i H (Use r # es) \<longleftrightarrow> r \<in> H \<union> shared \<and> thread_ok owner shared i H es"
| "thread_ok owner shared i H (Start j # es) \<longleftrightarrow> False"
| "thread_ok owner shared i H (Join j # es) \<longleftrightarrow> False"

fun main_ok :: "('r \<Rightarrow> nat option) \<Rightarrow> 'r set \<Rightarrow> 'r set \<Rightarrow> 'r set \<Rightarrow> nat set \<Rightarrow> 'r event list \<Rightarrow> bool" where
  "main_ok owner shared kept H W [] \<longleftrightarrow> H = kept \<and> W = {}"
| "main_ok owner shared kept H W (Acquire r # es) \<longleftrightarrow> owner r = None \<and> r \<notin> H \<and> main_ok owner shared kept (insert r H) W es"
| "main_ok owner shared kept H W (Release r # es) \<longleftrightarrow>
     r \<in> H \<and> (W = {} \<or> r \<notin> shared) \<and> main_ok owner shared kept (H - {r}) W es"
| "main_ok owner shared kept H W (Use r # es) \<longleftrightarrow> r \<in> H \<and> main_ok owner shared kept H W es"
| "main_ok owner shared kept H W (Start i # es) \<longleftrightarrow> i \<notin> W \<and> shared \<subseteq> H \<and> main_ok owner shared kept H (insert i W) es"
| "main_ok owner shared kept H W (Join i # es) \<longleftrightarrow> i \<in> W \<and> main_ok owner shared kept H (W - {i}) es"

lemma thread_ok_append:
  "\<forall>e \<in> set xs. \<exists>r. e = Use r \<and> r \<in> shared \<Longrightarrow> thread_ok owner shared i H (xs @ es) = thread_ok owner shared i H es"
  by (induction xs) auto

lemma thread_ok_acquire:
  "distinct rs \<Longrightarrow> set rs \<inter> H = {} \<Longrightarrow> \<forall>r \<in> set rs. owner r = Some i \<Longrightarrow>
    thread_ok owner shared i H (map Acquire rs @ es) = thread_ok owner shared i (H \<union> set rs) es"
  by (induction rs arbitrary: H) (auto simp: insert_commute)

lemma thread_ok_release:
  "distinct rs \<Longrightarrow> set rs \<subseteq> H \<Longrightarrow>
    thread_ok owner shared i H (map Release rs @ es) = thread_ok owner shared i (H - set rs) es"
proof (induction rs arbitrary: H)
  case (Cons r rs)
  have "set rs \<subseteq> H - {r}" using Cons.prems by auto
  moreover have "H - {r} - set rs = H - insert r (set rs)" by auto
  ultimately show ?case using Cons by simp
qed simp

lemma main_ok_starts:
  "distinct xs \<Longrightarrow> set xs \<inter> W = {} \<Longrightarrow> shared \<subseteq> H \<Longrightarrow>
    main_ok owner shared kept H W (map Start xs @ es) = main_ok owner shared kept H (W \<union> set xs) es"
  by (induction xs arbitrary: W) (auto simp: insert_commute)

lemma main_ok_joins:
  "distinct xs \<Longrightarrow> set xs \<subseteq> W \<Longrightarrow>
    main_ok owner shared kept H W (map Join xs @ es) = main_ok owner shared kept H (W - set xs) es"
proof (induction xs arbitrary: W)
  case (Cons x xs)
  have "set xs \<subseteq> W - {x}" using Cons.prems by auto
  moreover have "W - {x} - set xs = W - insert x (set xs)" by auto
  ultimately show ?case using Cons by simp
qed simp

lemma main_ok_acquire:
  "distinct rs \<Longrightarrow> set rs \<inter> H = {} \<Longrightarrow> \<forall>r \<in> set rs. owner r = None \<Longrightarrow>
    main_ok owner shared kept H W (map Acquire rs @ es) = main_ok owner shared kept (H \<union> set rs) W es"
  by (induction rs arbitrary: H) (auto simp: insert_commute)

lemma main_ok_release:
  "distinct rs \<Longrightarrow> set rs \<subseteq> H \<Longrightarrow> W = {} \<or> set rs \<inter> shared = {} \<Longrightarrow>
    main_ok owner shared kept H W (map Release rs @ es) = main_ok owner shared kept (H - set rs) W es"
proof (induction rs arbitrary: H)
  case (Cons r rs)
  have "set rs \<subseteq> H - {r}" using Cons.prems by auto
  moreover have "H - {r} - set rs = H - insert r (set rs)" by auto
  ultimately show ?case using Cons by auto
qed simp

section \<open>Soundness\<close>

locale joined_threads =
  fixes main :: "'r event list" and worker :: "nat \<Rightarrow> 'r event list"
    and owner :: "'r \<Rightarrow> nat option" and shared :: "'r set" and kept :: "'r set"
  assumes main_checked: "main_ok owner shared kept {} {} main"
    and worker_checked: "Start i \<in> set main \<Longrightarrow> thread_ok owner shared i {} (worker i)"
begin

text \<open>
  What is left of a thread that holds some resources and runs or not; then what the main
  program holds, what each thread holds, and who runs.
\<close>

definition left_slot :: "nat \<Rightarrow> bool \<Rightarrow> 'r set \<Rightarrow> 'r event list option \<Rightarrow> bool" where
  "left_slot i running k left \<longleftrightarrow>
     (case left of
        None \<Rightarrow> \<not> running \<and> k = {}
      | Some es \<Rightarrow> thread_ok owner shared i k es \<and> (\<not> running \<longrightarrow> es = []))"

lemma left_slot_simps [simp]:
  "left_slot i running k None \<longleftrightarrow> \<not> running \<and> k = {}"
  "left_slot i running k (Some es) \<longleftrightarrow> thread_ok owner shared i k es \<and> (\<not> running \<longrightarrow> es = [])"
  by (simp_all add: left_slot_def)

lemma left_slot_stopped: "left_slot i False k left \<longleftrightarrow> (left = None \<or> left = Some []) \<and> k = {}"
  by (cases left) auto

definition typed :: "'r set \<Rightarrow> (nat \<Rightarrow> 'r set) \<Rightarrow> nat set \<Rightarrow> 'r system \<Rightarrow> bool" where
  "typed H K W s \<longleftrightarrow> \<not> fault s \<and> held s = H \<union> (\<Union>i. K i) \<and> main_ok owner shared kept H W (main_left s) \<and>
     set (main_left s) \<subseteq> set main \<and> (\<forall>r \<in> H. owner r = None) \<and> (\<forall>i. \<forall>r \<in> K i. owner r = Some i) \<and> (W \<noteq> {} \<longrightarrow> shared \<subseteq> H) \<and>
     (\<forall>i. left_slot i (i \<in> W) (K i) (thread_left s i))"

lemma typed_initial: "typed {} (\<lambda>_. {}) {} (initial_system main)"
  using main_checked by (simp add: typed_def initial_system_def)

lemma own_only: "typed H K W s \<Longrightarrow> owner r = None \<Longrightarrow> r \<in> held s \<longleftrightarrow> r \<in> H"
  by (auto simp: typed_def)

lemma own_thread:
  assumes "typed H K W s" "owner r = Some i"
  shows "r \<in> held s \<longleftrightarrow> r \<in> K i"
proof -
  have "r \<notin> H" "\<And>j. r \<in> K j \<Longrightarrow> j = i" using assms by (fastforce simp: typed_def)+
  then show ?thesis using assms(1) by (auto simp: typed_def)
qed

lemma typed_main:
  assumes t: "typed H K W s" and e: "main_left s = e # es" "\<forall>i. e \<noteq> Start i \<and> e \<noteq> Join i"
  shows "\<exists>H'. typed H' K W ((act e s)\<lparr>main_left := es\<rparr>)"
proof (cases e)
  case (Acquire r)
  then have r: "owner r = None" "r \<notin> H" using t e(1) by (auto simp: typed_def)
  then have "r \<notin> held s" using own_only [OF t] by blast
  with t e(1) r Acquire have "typed (insert r H) K W ((act e s)\<lparr>main_left := es\<rparr>)"
    by (auto simp: typed_def act_def)
  then show ?thesis ..
next
  case (Release r)
  then have r: "r \<in> H" "W = {} \<or> r \<notin> shared" using t e(1) by (auto simp: typed_def)
  have "r \<notin> K i" for i using t r(1) by (fastforce simp: typed_def)
  then have "held s - {r} = (H - {r}) \<union> (\<Union>i. K i)" using t by (auto simp: typed_def)
  with t e(1) r Release have "typed (H - {r}) K W ((act e s)\<lparr>main_left := es\<rparr>)"
    by (auto simp: typed_def act_def)
  then show ?thesis ..
next
  case (Use r)
  with t e(1) have "typed H K W ((act e s)\<lparr>main_left := es\<rparr>)" by (auto simp: typed_def act_def)
  then show ?thesis ..
qed (use e(2) in auto)

lemma union_without:
  assumes "\<And>j. j \<noteq> i \<Longrightarrow> r \<notin> K j"
  shows "(\<Union>j. K j) - {r} = (\<Union>j. (K(i := K i - {r})) j)"
proof (intro equalityI subsetI)
  fix x assume "x \<in> (\<Union>j. K j) - {r}"
  then obtain j where "x \<in> K j" "x \<noteq> r" by auto
  then show "x \<in> (\<Union>j. (K(i := K i - {r})) j)" by (intro UN_I [of j]) auto
qed (use assms in \<open>auto split: if_splits\<close>)

lemma left_slots: "typed H K W s \<Longrightarrow> left_slot i (i \<in> W) (K i) (thread_left s i)"
  by (simp add: typed_def)

lemma typed_thread:
  assumes t: "typed H K W s" and e: "thread_left s i = Some (e # es)"
  shows "\<exists>K'. typed H K' W ((act e s)\<lparr>thread_left := (thread_left s)(i \<mapsto> es)\<rparr>)"
proof -
  have w: "thread_ok owner shared i (K i) (e # es)" "i \<in> W" and sh: "shared \<subseteq> H"
    using left_slots [OF t, of i] t e by (auto simp: typed_def)
  show ?thesis
  proof (cases e)
    case (Acquire r)
    then have r: "owner r = Some i" "r \<notin> held s" using w(1) own_thread [OF t, of r i] by auto
    have "typed H (K(i := insert r (K i))) W ((act e s)\<lparr>thread_left := (thread_left s)(i \<mapsto> es)\<rparr>)"
      using t w r Acquire by (auto simp: typed_def act_def split: if_splits)
    then show ?thesis by blast
  next
    case (Release r)
    then have r: "r \<in> K i" using w(1) by auto
    then have o: "owner r = Some i" using t by (auto simp: typed_def)
    have "r \<notin> H" using t o by (fastforce simp: typed_def)
    have "r \<notin> K j" if "j \<noteq> i" for j using t o that by (fastforce simp: typed_def)
    then have "(\<Union>j. K j) - {r} = (\<Union>j. (K(i := K i - {r})) j)" by (rule union_without)
    with \<open>r \<notin> H\<close> have "held s - {r} = H \<union> (\<Union>j. (K(i := K i - {r})) j)" 
      using t by (simp add: typed_def Un_Diff)
    then have "typed H (K(i := K i - {r})) W ((act e s)\<lparr>thread_left := (thread_left s)(i \<mapsto> es)\<rparr>)"
      using t w r own_thread [OF t o] Release by (simp add: typed_def act_def)
    then show ?thesis by blast
  next
    case (Use r)
    have "typed H K W ((act e s)\<lparr>thread_left := (thread_left s)(i \<mapsto> es)\<rparr>)"
      using t w sh Use by (auto simp: typed_def act_def)
    then show ?thesis by blast
  qed (use w in auto)
qed

lemma typed_step:
  assumes "sys_step worker s s'" "typed H K W s"
  shows "\<exists>H' K' W'. typed H' K' W' s'"
  using assms(1)
proof cases
  case (main_start i es)
  then have i: "i \<notin> W" "shared \<subseteq> H" using assms(2) by (auto simp: typed_def)
  have idle: "thread_left s i = None \<or> thread_left s i = Some []" and k: "K i = {}"
    using left_slots [OF assms(2), of i] i(1) by (auto simp: left_slot_stopped)
  have "typed H K (insert i W) s'"
    using assms(2) i idle k worker_checked [of i] main_start by (fastforce simp: typed_def)
  then show ?thesis by blast
next
  case (main_join i es)
  then have i: "i \<in> W" "K i = {}" using assms(2) left_slots [OF assms(2), of i] by (auto simp: typed_def)
  have "left_slot j (j \<in> W - {i}) (K j) (thread_left s' j)" for j
    using left_slots [OF assms(2), of j] i main_join by (cases "j = i") auto
  with assms(2) i main_join have "typed H K (W - {i}) s'" by (auto simp: typed_def)
  then show ?thesis by blast
next
  case (main_act e es)
  then show ?thesis using typed_main [OF assms(2)] by blast
next
  case (thread_act i e es)
  then show ?thesis using typed_thread [OF assms(2)] by blast
qed

lemma typed_reachable: "(sys_step worker)\<^sup>*\<^sup>* (initial_system main) s \<Longrightarrow> \<exists>H K W. typed H K W s"
  by (induction rule: rtranclp_induct) (use typed_initial typed_step in blast)+

lemma never_faults: "(sys_step worker)\<^sup>*\<^sup>* (initial_system main) s \<Longrightarrow> \<not> fault s"
  using typed_reachable by (fastforce simp: typed_def)

text \<open>Threads that are waited for run to their end, so the main program is never stuck.\<close>

lemma progress:
  assumes "(sys_step worker)\<^sup>*\<^sup>* (initial_system main) s" "main_left s \<noteq> []"
  shows "\<exists>s'. sys_step worker s s'"
proof -
  obtain H K W where t: "typed H K W s" using typed_reachable [OF assms(1)] by blast
  obtain e es where e: "main_left s = e # es" using assms(2) by (cases "main_left s") auto
  show ?thesis
  proof (cases e)
    case (Start i) then show ?thesis using e sys_step.main_start by blast
  next
    case (Join i)
    then have "i \<in> W" using t e by (simp add: typed_def)
    then obtain xs where "thread_left s i = Some xs" using left_slots [OF t, of i] by (cases "thread_left s i") auto
    then show ?thesis
      using e Join sys_step.main_join [of s i es] sys_step.thread_act [of s i] by (cases xs) blast+
  qed (use e in \<open>blast intro: sys_step.main_act\<close>)+
qed

lemma at_the_end:
  assumes "(sys_step worker)\<^sup>*\<^sup>* (initial_system main) s" "main_left s = []"
  shows "held s = kept \<and> (\<forall>i. thread_left s i = None \<or> thread_left s i = Some [])"
proof -
  obtain H K W where t: "typed H K W s" using typed_reachable [OF assms(1)] by blast
  then have "H = kept" "W = {}" using assms(2) by (auto simp: typed_def)
  then have ends: "thread_left s i = None \<or> thread_left s i = Some []" "K i = {}" for i
    using left_slots [OF t, of i] by (auto simp: left_slot_stopped)
  then have "held s = kept" using t \<open>H = kept\<close> by (auto simp: typed_def)
  with ends show ?thesis by blast
qed

text \<open>
  Every step does some of the work that is left, so from every state that is reached the program
  comes to its end, and there every thread that it starts has run.
\<close>

definition weight :: "'r event \<Rightarrow> nat" where
  "weight e = (case e of Start i \<Rightarrow> Suc (length (worker i)) | _ \<Rightarrow> 1)"

definition started :: "nat set" where
  "started = {i. Start i \<in> set main}"

definition work :: "'r system \<Rightarrow> nat" where
  "work s = (\<Sum>e \<leftarrow> main_left s. weight e) + (\<Sum>i \<in> started. length (case thread_left s i of None \<Rightarrow> [] | Some es \<Rightarrow> es))"

lemma finite_started: "finite started"
proof -
  have "started = Start -` set main" by (auto simp: started_def)
  then show ?thesis by (simp add: finite_vimageI inj_def)
qed

lemma work_upd:
  assumes "i \<in> started"
  shows "(\<Sum>j \<in> started. length (case (t(i \<mapsto> es)) j of None \<Rightarrow> [] | Some es \<Rightarrow> es)) +
      length (case t i of None \<Rightarrow> [] | Some es \<Rightarrow> es) =
    (\<Sum>j \<in> started. length (case t j of None \<Rightarrow> [] | Some es \<Rightarrow> es)) + length es"
proof -
  let ?f = "\<lambda>t j. length (case t j of None \<Rightarrow> [] | Some es \<Rightarrow> es)"
  have "(\<Sum>j \<in> started - {i}. ?f (t(i \<mapsto> es)) j) = (\<Sum>j \<in> started - {i}. ?f t j)" by (rule sum.cong) simp_all
  then show ?thesis
    using sum.remove [OF finite_started assms, of "?f (t(i \<mapsto> es))"] sum.remove [OF finite_started assms, of "?f t"] by simp
qed

definition threads_of :: "'r system \<Rightarrow> bool" where
  "threads_of s \<longleftrightarrow> set (main_left s) \<subseteq> set main \<and> (\<forall>i. thread_left s i \<noteq> None \<longrightarrow> i \<in> started) \<and>
     (\<forall>i \<in> started. Start i \<in> set (main_left s) \<or> thread_left s i \<noteq> None)"

lemma threads_of_step: "sys_step worker s s' \<Longrightarrow> threads_of s \<Longrightarrow> threads_of s'"
  by (erule sys_step.cases) (auto simp: threads_of_def started_def act_def split: event.splits)

lemma threads_of_reachable: "(sys_step worker)\<^sup>*\<^sup>* (initial_system main) s \<Longrightarrow> threads_of s"
proof (induction rule: rtranclp_induct)
  case base
  show ?case by (simp add: threads_of_def initial_system_def started_def)
next
  case (step y z)
  then show ?case by (blast intro: threads_of_step)
qed

lemma act_left [simp]: "main_left (act e s) = main_left s" "thread_left (act e s) = thread_left s"
  by (simp_all add: act_def split: event.splits)

lemma weight_pos: "0 < weight e"
  by (simp add: weight_def split: event.splits)

lemma work_less:
  assumes "sys_step worker s s'" "threads_of s"
  shows "work s' < work s"
  using assms(1)
proof cases
  case (main_start i es)
  then have "i \<in> started" using assms(2) by (auto simp: threads_of_def started_def)
  from work_upd [OF this, of "thread_left s" "worker i"] main_start show ?thesis
    by (simp add: work_def weight_def)
next
  case (thread_act i e es)
  then have "i \<in> started" using assms(2) by (auto simp: threads_of_def)
  from work_upd [OF this, of "thread_left s" es] thread_act show ?thesis by (simp add: work_def)
qed (use weight_pos in \<open>simp_all add: work_def\<close>)

lemma comes_to_end:
  assumes "(sys_step worker)\<^sup>*\<^sup>* (initial_system main) s"
  shows "\<exists>s'. (sys_step worker)\<^sup>*\<^sup>* s s' \<and> main_left s' = []"
  using assms
proof (induction "work s" arbitrary: s rule: less_induct)
  case less
  show ?case
  proof (cases "main_left s = []")
    case False
    then obtain s' where s': "sys_step worker s s'" using progress less.prems by blast
    have "(sys_step worker)\<^sup>*\<^sup>* (initial_system main) s'" using less.prems s' by (rule rtranclp.rtrancl_into_rtrancl)
    with less.hyps work_less [OF s' threads_of_reachable [OF less.prems]] s' show ?thesis
      by (meson converse_rtranclp_into_rtranclp)
  qed blast
qed

lemma all_threads_run:
  assumes "(sys_step worker)\<^sup>*\<^sup>* (initial_system main) s" "main_left s = []"
  shows "thread_left s i = (if Start i \<in> set main then Some [] else None)"
proof -
  have "thread_left s i \<noteq> None \<longleftrightarrow> Start i \<in> set main"
    using threads_of_reachable [OF assms(1)] assms(2) by (auto simp: threads_of_def started_def)
  with at_the_end [OF assms] show ?thesis by (metis option.distinct(1))
qed

end

end
