(* ===== verification/Lwan_Db.thy ===== *)
theory Lwan_Db
  imports Prelude
begin

text \<open>
  The database layer of the lwan application (\<^verbatim>\<open>database.c\<close>): statements with a table of
  functions, and the two drivers that fill the table.  The libraries of MySQL and SQLite are
  parameters with what their documentation promises.  Both drivers work on pointers to the
  locals of their callers, so memory is explicit: the rows a caller fills, the integers and
  the character buffers it wants to have filled.
\<close>

section \<open>Memory and statements\<close>

datatype db_value = DInt int | DStr string

fun as_int :: "db_value \<Rightarrow> int" where
  "as_int (DInt i) = i"
| "as_int (DStr s) = 0"

fun as_str :: "db_value \<Rightarrow> string" where
  "as_str (DStr s) = s"
| "as_str (DInt i) = []"

text \<open>\<^verbatim>\<open>struct db_row\<close>; the union holds what its kind says.\<close>

record db_row =
  kind :: char
  u :: db_value

record db_mem =
  m_rows :: "nat \<Rightarrow> db_row"
  m_ints :: "nat \<Rightarrow> int"
  m_bufs :: "nat \<Rightarrow> string"

text \<open>
  What a process holds: allocated blocks, statements and connections of the libraries, arrays of
  lwan that have elements and so may own storage that only their reset gives back, and the
  blocks whose release is deferred to the end of the coroutine (\<^verbatim>\<open>coro_strdup\<close>).
  A MySQL statement counts the blocks of its own arrays; they come to the count of the process
  when the statement is finalized.
\<close>

record resources =
  blocks :: int
  statements :: int
  connections :: int
  arrays :: int
  deferred :: int

text \<open>
  \<^verbatim>\<open>struct db_stmt\<close>: binding the rows at an address, a step that fills the pointers in
  the variable arguments (a pointer and a size for a string), and the end.
\<close>

record 'st db_stmt =
  stmt_bind :: "nat \<Rightarrow> nat \<Rightarrow> db_mem \<Rightarrow> 'st \<Rightarrow> bool \<times> 'st"
  stmt_step :: "string \<Rightarrow> nat list \<Rightarrow> 'st \<times> db_mem \<Rightarrow> bool \<times> 'st \<times> db_mem"
  stmt_finalize :: "'st \<Rightarrow> resources \<Rightarrow> resources"

text \<open>\<^verbatim>\<open>struct db\<close>: preparing a query, with the functions of its statements.\<close>

record 'st db =
  db_prepare :: "string \<Rightarrow> resources \<Rightarrow> 'st option \<times> resources"
  db_stmt_ops :: "'st db_stmt"

definition db_stmt_bind :: "'st db_stmt \<Rightarrow> nat \<Rightarrow> nat \<Rightarrow> db_mem \<Rightarrow> 'st \<Rightarrow> bool \<times> 'st" where
  "db_stmt_bind ops at n mem st = stmt_bind ops at n mem st"

definition db_stmt_step :: "'st db_stmt \<Rightarrow> string \<Rightarrow> nat list \<Rightarrow> 'st \<times> db_mem \<Rightarrow> bool \<times> 'st \<times> db_mem" where
  "db_stmt_step ops signature ap s = stmt_step ops signature ap s"

definition db_stmt_finalize :: "'st db_stmt \<Rightarrow> 'st \<Rightarrow> resources \<Rightarrow> resources" where
  "db_stmt_finalize ops st r = stmt_finalize ops st r"

definition db_prepare_stmt :: "'st db \<Rightarrow> string \<Rightarrow> resources \<Rightarrow> 'st option \<times> resources" where
  "db_prepare_stmt db sql r = db_prepare db sql r"

section \<open>MySQL\<close>

text \<open>
  \<^verbatim>\<open>bind_blocks\<close> is no field of the code: it counts the calls of \<^verbatim>\<open>calloc\<close> for the two
  arrays of a statement less those of \<^verbatim>\<open>free\<close> for them, where \<^verbatim>\<open>free\<close> of a null
  pointer does not count.
\<close>

text \<open>\<^verbatim>\<open>MYSQL_BIND\<close> of a parameter points to the union of a row; \<^verbatim>\<open>calloc\<close> leaves \<^verbatim>\<open>None\<close>.\<close>

datatype my_param = Param_string nat | Param_long nat
datatype my_result = Result_string nat nat | Result_long nat

text \<open>
  The library: results that are \<^verbatim>\<open>True\<close> (or not \<^verbatim>\<open>0\<close>) are errors.  A statement is
  executed with what its parameters point to at that time; \<^verbatim>\<open>my_alloc\<close> tells whether an
  allocation succeeds.
\<close>

record 's mysql_lib =
  my_alloc :: "'s \<Rightarrow> bool"
  my_reset :: "'s \<Rightarrow> 's"
  my_bind_param :: "my_param option list \<Rightarrow> 's \<Rightarrow> bool \<times> 's"
  my_execute :: "db_mem \<Rightarrow> 's \<Rightarrow> bool \<times> 's"
  my_bind_result :: "my_result list \<Rightarrow> 's \<Rightarrow> bool \<times> 's"
  my_fetch :: "'s \<times> db_mem \<Rightarrow> nat \<times> 's \<times> db_mem"

record 's db_stmt_mysql =
  my_stmt :: 's
  param_bind :: "my_param option list option"
  result_bind :: "my_result list option"
  must_execute_again :: bool
  bind_blocks :: int

text \<open>The blocks of an array: none of a null pointer.\<close>

definition array_blocks :: "'a option \<Rightarrow> int" where
  "array_blocks p = of_bool (p \<noteq> None)"

fun bind_params :: "db_mem \<Rightarrow> nat \<Rightarrow> nat \<Rightarrow> my_param option list \<Rightarrow> bool \<times> my_param option list" where
  "bind_params mem at 0 ps = (True, ps)"
| "bind_params mem at (Suc n) ps =
     (let k = kind (m_rows mem at)
      in if k = NUL then (True, ps)
         else if k = CHR ''s'' then map_prod id ((#) (Some (Param_string at))) (bind_params mem (at + 1) n (tl ps))
         else if k = CHR ''i'' then map_prod id ((#) (Some (Param_long at))) (bind_params mem (at + 1) n (tl ps))
         else (False, ps))"

definition db_stmt_bind_mysql ::
    "'s mysql_lib \<Rightarrow> nat \<Rightarrow> nat \<Rightarrow> db_mem \<Rightarrow> 's db_stmt_mysql \<Rightarrow> bool \<times> 's db_stmt_mysql" where
  "db_stmt_bind_mysql lib at n mem st =
     (let st = st\<lparr>must_execute_again := True\<rparr>;
          st = (case param_bind st of
                  None \<Rightarrow> if my_alloc lib (my_stmt st) 
                          then st\<lparr>param_bind := Some (replicate n None), bind_blocks := bind_blocks st + 1\<rparr> else st
                | Some ps \<Rightarrow> st\<lparr>my_stmt := my_reset lib (my_stmt st)\<rparr>)
      in case param_bind st of
           None \<Rightarrow> (False, st)
         | Some ps \<Rightarrow>
             (case bind_params mem at n ps of
                (False, ps') \<Rightarrow> (False, st\<lparr>param_bind := Some ps'\<rparr>)
              | (True, ps') \<Rightarrow>
                  (case my_bind_param lib ps' (my_stmt st) of
                     (failed, s') \<Rightarrow> (\<not> failed, st\<lparr>param_bind := Some ps', my_stmt := s'\<rparr>))))"

text \<open>The result buffers of a signature; a letter of another kind, or arguments that are missing, end it.\<close>

fun bind_results :: "string \<Rightarrow> nat list \<Rightarrow> my_result list option" where
  "bind_results [] ap = Some []"
| "bind_results (c # cs) ap =
     (if c = CHR ''s'' then (case ap of p # n # ap' \<Rightarrow> map_option ((#) (Result_string p n)) (bind_results cs ap') | _ \<Rightarrow> None)
      else if c = CHR ''i'' then (case ap of p # ap' \<Rightarrow> map_option ((#) (Result_long p)) (bind_results cs ap') | _ \<Rightarrow> None)
      else None)"

definition bind_mysql_result ::
    "'s mysql_lib \<Rightarrow> string \<Rightarrow> nat list \<Rightarrow> 's db_stmt_mysql \<Rightarrow> bool \<times> 's db_stmt_mysql" where
  "bind_mysql_result lib signature ap st =
     (case result_bind st of
        Some bs \<Rightarrow> (True, st)
      | None \<Rightarrow>
          if signature = [] \<or> \<not> my_alloc lib (my_stmt st) then (False, st)
          else
            (let st = st\<lparr>bind_blocks := bind_blocks st + 1\<rparr>;
                 st = st\<lparr>bind_blocks := bind_blocks st - array_blocks (param_bind st), param_bind := None\<rparr>
             in case bind_results signature ap of
                  None \<Rightarrow> (False, st\<lparr>bind_blocks := bind_blocks st - 1\<rparr>)
                | Some bs \<Rightarrow>
                    (case my_bind_result lib bs (my_stmt st) of
                       (failed, s') \<Rightarrow>
                         if failed then (False, st\<lparr>my_stmt := s', bind_blocks := bind_blocks st - 1\<rparr>)
                         else (True, st\<lparr>my_stmt := s', result_bind := Some bs\<rparr>))))"

definition db_stmt_step_mysql ::
    "'s mysql_lib \<Rightarrow> string \<Rightarrow> nat list \<Rightarrow> 's db_stmt_mysql \<times> db_mem \<Rightarrow> bool \<times> 's db_stmt_mysql \<times> db_mem" where
  "db_stmt_step_mysql lib signature ap s =
     (case s of (st, mem) \<Rightarrow>
        (let again = must_execute_again st; st = st\<lparr>must_execute_again := False\<rparr>
         in case (if again then my_execute lib mem (my_stmt st) else (False, my_stmt st)) of
              (failed, s') \<Rightarrow>
                (let st = st\<lparr>my_stmt := s'\<rparr>
                 in if failed then (False, st, mem)
                    else (case bind_mysql_result lib signature ap st of
                            (False, st) \<Rightarrow> (False, st, mem)
                          | (True, st) \<Rightarrow>
                              (case my_fetch lib (my_stmt st, mem) of
                                 (code, s', mem') \<Rightarrow> (code = 0, st\<lparr>my_stmt := s'\<rparr>, mem'))))))"

definition db_stmt_finalize_mysql :: "'s db_stmt_mysql \<Rightarrow> resources \<Rightarrow> resources" where
  "db_stmt_finalize_mysql st r =
     (let r = r\<lparr>statements := statements r - 1, blocks := blocks r + bind_blocks st\<rparr>;
          r = r\<lparr>blocks := blocks r - array_blocks (result_bind st)\<rparr>;
          r = r\<lparr>blocks := blocks r - array_blocks (param_bind st)\<rparr>
      in r\<lparr>blocks := blocks r - 1\<rparr>)"

definition mysql_ops :: "'s mysql_lib \<Rightarrow> 's db_stmt_mysql db_stmt" where
  "mysql_ops lib = \<lparr>stmt_bind = db_stmt_bind_mysql lib, stmt_step = db_stmt_step_mysql lib, stmt_finalize = db_stmt_finalize_mysql\<rparr>"

section \<open>SQLite\<close>

record 's sqlite_lib =
  sq_reset :: "'s \<Rightarrow> 's"
  sq_clear :: "'s \<Rightarrow> 's"
  sq_bind_text :: "nat \<Rightarrow> string \<Rightarrow> 's \<Rightarrow> bool \<times> 's"
  sq_bind_int :: "nat \<Rightarrow> int \<Rightarrow> 's \<Rightarrow> bool \<times> 's"
  sq_step :: "'s \<Rightarrow> bool \<times> 's"
  sq_column_int :: "'s \<Rightarrow> nat \<Rightarrow> int"
  sq_column_text :: "'s \<Rightarrow> nat \<Rightarrow> string"

text \<open>The loop over the rows; \<^verbatim>\<open>i\<close> counts them from one.\<close>

fun bind_sqlite_rows :: "'s sqlite_lib \<Rightarrow> db_mem \<Rightarrow> nat \<Rightarrow> nat \<Rightarrow> nat \<Rightarrow> 's \<Rightarrow> bool \<times> 's" where
  "bind_sqlite_rows lib mem at i 0 s = (True, s)"
| "bind_sqlite_rows lib mem at i (Suc n) s =
     (let r = m_rows mem at
      in if kind r = CHR ''s'' then
           (case sq_bind_text lib i (as_str (u r)) s of
              (ok, s') \<Rightarrow> if ok then bind_sqlite_rows lib mem (at + 1) (i + 1) n s' else (False, s'))
         else if kind r = CHR ''i'' then
           (case sq_bind_int lib i (as_int (u r)) s of
              (ok, s') \<Rightarrow> if ok then bind_sqlite_rows lib mem (at + 1) (i + 1) n s' else (False, s'))
         else (False, s))"

definition db_stmt_bind_sqlite :: "'s sqlite_lib \<Rightarrow> nat \<Rightarrow> nat \<Rightarrow> db_mem \<Rightarrow> 's \<Rightarrow> bool \<times> 's" where
  "db_stmt_bind_sqlite lib at n mem s = bind_sqlite_rows lib mem at 1 n (sq_clear lib (sq_reset lib s))"

text \<open>\<^verbatim>\<open>strncpy\<close>: cut to the size of the buffer, or filled up with zeros.\<close>

definition strncpy :: "string \<Rightarrow> nat \<Rightarrow> string" where
  "strncpy s n = take n s @ replicate (n - length s) NUL"

fun read_columns :: "'s sqlite_lib \<Rightarrow> 's \<Rightarrow> nat \<Rightarrow> string \<Rightarrow> nat list \<Rightarrow> db_mem \<Rightarrow> bool \<times> db_mem" where
  "read_columns lib s r [] ap mem = (True, mem)"
| "read_columns lib s r (c # cs) ap mem =
     (if c = CHR ''i'' then
        (case ap of
           p # ap' \<Rightarrow> read_columns lib s (r + 1) cs ap' (mem\<lparr>m_ints := (m_ints mem)(p := sq_column_int lib s r)\<rparr>)
         | _ \<Rightarrow> (False, mem))
      else if c = CHR ''s'' then
        (case ap of
           p # n # ap' \<Rightarrow>
             read_columns lib s (r + 1) cs ap' (mem\<lparr>m_bufs := (m_bufs mem)(p := strncpy (sq_column_text lib s r) n)\<rparr>)
         | _ \<Rightarrow> (False, mem))
      else (False, mem))"

definition db_stmt_step_sqlite :: "'s sqlite_lib \<Rightarrow> string \<Rightarrow> nat list \<Rightarrow> 's \<times> db_mem \<Rightarrow> bool \<times> 's \<times> db_mem" where
  "db_stmt_step_sqlite lib signature ap s =
     (case s of (st, mem) \<Rightarrow>
        (case sq_step lib st of
           (False, st) \<Rightarrow> (False, st, mem)
         | (True, st) \<Rightarrow> (case read_columns lib st 0 signature ap mem of (ok, mem') \<Rightarrow> (ok, st, mem'))))"

definition db_stmt_finalize_sqlite :: "'s \<Rightarrow> resources \<Rightarrow> resources" where
  "db_stmt_finalize_sqlite s r = r\<lparr>statements := statements r - 1, blocks := blocks r - 1\<rparr>"

definition sqlite_ops :: "'s sqlite_lib \<Rightarrow> 's db_stmt" where
  "sqlite_ops lib = \<lparr>stmt_bind = db_stmt_bind_sqlite lib, stmt_step = db_stmt_step_sqlite lib, stmt_finalize = db_stmt_finalize_sqlite\<rparr>"

section \<open>Preparing and connecting\<close>

text \<open>The outcome of each call to the libraries is a parameter.\<close>

definition db_prepare_mysql ::
    "bool \<Rightarrow> 's option \<Rightarrow> ('s \<Rightarrow> bool \<times> 's) \<Rightarrow> resources \<Rightarrow> 's db_stmt_mysql option \<times> resources" where
  "db_prepare_mysql malloc_ok init prepare r =
     (if \<not> malloc_ok then (None, r)
      else (let r = r\<lparr>blocks := blocks r + 1\<rparr>
            in case init of
                 None \<Rightarrow> (None, r\<lparr>blocks := blocks r - 1\<rparr>)
               | Some s \<Rightarrow>
                   (let r = r\<lparr>statements := statements r + 1\<rparr>
                    in case prepare s of
                         (failed, s') \<Rightarrow>
                           if failed then (None, r\<lparr>statements := statements r - 1, blocks := blocks r - 1\<rparr>)
                           else (Some \<lparr>my_stmt = s', param_bind = None, result_bind = None, must_execute_again = True, bind_blocks = 0\<rparr>, r))))"

definition db_prepare_sqlite :: "bool \<Rightarrow> bool \<times> 's \<Rightarrow> resources \<Rightarrow> 's option \<times> resources" where
  "db_prepare_sqlite malloc_ok prepared r =
     (if \<not> malloc_ok then (None, r)
      else (let r = r\<lparr>blocks := blocks r + 1\<rparr>
            in case prepared of
                 (False, s) \<Rightarrow> (None, r\<lparr>blocks := blocks r - 1\<rparr>)
               | (True, s) \<Rightarrow> (Some s, r\<lparr>statements := statements r + 1\<rparr>)))"

definition db_connect_mysql :: "bool \<Rightarrow> bool \<Rightarrow> bool \<Rightarrow> bool \<Rightarrow> resources \<Rightarrow> bool \<times> resources" where
  "db_connect_mysql malloc_ok init_ok connect_ok charset_ok r =
     (if \<not> malloc_ok then (False, r)
      else (let r = r\<lparr>blocks := blocks r + 1\<rparr>
            in if \<not> init_ok then (False, r\<lparr>blocks := blocks r - 1\<rparr>)
               else (let r = r\<lparr>connections := connections r + 1\<rparr>
                     in if connect_ok \<and> charset_ok then (True, r)
                        else (False, r\<lparr>connections := connections r - 1, blocks := blocks r - 1\<rparr>))))"

definition db_disconnect_mysql :: "resources \<Rightarrow> resources" where
  "db_disconnect_mysql r = r\<lparr>connections := connections r - 1, blocks := blocks r - 1\<rparr>"

text \<open>
  \<^verbatim>\<open>sqlite3_open_v2\<close> gives a connection also when it fails, unless there is no memory for
  one (\<^verbatim>\<open>handle\<close>); its documentation asks to close it in either case.
\<close>

definition db_connect_sqlite :: "bool \<Rightarrow> bool \<Rightarrow> bool \<Rightarrow> resources \<Rightarrow> bool \<times> resources" where
  "db_connect_sqlite malloc_ok handle open_ok r =
     (if \<not> malloc_ok then (False, r)
      else (let r = r\<lparr>blocks := blocks r + 1\<rparr>;
                r = r\<lparr>connections := connections r + of_bool handle\<rparr>
            in if \<not> open_ok then (False, r\<lparr>blocks := blocks r - 1\<rparr>) else (True, r)))"

definition db_disconnect_sqlite :: "resources \<Rightarrow> resources" where
  "db_disconnect_sqlite r = r\<lparr>connections := connections r - 1, blocks := blocks r - 1\<rparr>"

section \<open>What the libraries promise\<close>

text \<open>
  A query maps the values of its parameters to the rows of its result.  For MySQL:
  \<^verbatim>\<open>params\<close>, \<^verbatim>\<open>pending\<close> and \<^verbatim>\<open>bound\<close> observe the parameters, the rows that have
  not been fetched, and the result buffers of a statement.
\<close>

type_synonym query = "db_value list \<Rightarrow> db_value list list"

fun param_value :: "db_mem \<Rightarrow> my_param option \<Rightarrow> db_value" where
  "param_value mem (Some (Param_string a)) = DStr (as_str (u (m_rows mem a)))"
| "param_value mem (Some (Param_long a)) = DInt (as_int (u (m_rows mem a)))"
| "param_value mem None = DStr []"

text \<open>A string that is shorter than its buffer is terminated; a longer one is an error of the fetch.\<close>

definition write_string :: "string \<Rightarrow> nat \<Rightarrow> string \<Rightarrow> string" where
  "write_string s n old = (if length s < n then s @ NUL # drop (length s + 1) old else take n s)"

fun write_results :: "my_result list \<Rightarrow> db_value list \<Rightarrow> db_mem \<Rightarrow> db_mem" where
  "write_results (Result_long p # bs) (v # vs) mem =
     write_results bs vs (mem\<lparr>m_ints := (m_ints mem)(p := as_int v)\<rparr>)"
| "write_results (Result_string p n # bs) (v # vs) mem =
     write_results bs vs (mem\<lparr>m_bufs := (m_bufs mem)(p := write_string (as_str v) n (m_bufs mem p))\<rparr>)"
| "write_results bs vs mem = mem"

definition mysql_contract ::
    "'s mysql_lib \<Rightarrow> query \<Rightarrow> ('s \<Rightarrow> my_param option list) \<Rightarrow> ('s \<Rightarrow> db_value list list) \<Rightarrow> ('s \<Rightarrow> my_result list) \<Rightarrow> bool" where
  "mysql_contract lib query params pending bound \<longleftrightarrow>
     (\<forall>s. bound (my_reset lib s) = bound s) \<and>
     (\<forall>ps s. bound (snd (my_bind_param lib ps s)) = bound s \<and>
        (\<not> fst (my_bind_param lib ps s) \<longrightarrow> params (snd (my_bind_param lib ps s)) = ps)) \<and>
     (\<forall>mem s. bound (snd (my_execute lib mem s)) = bound s \<and>
        (\<not> fst (my_execute lib mem s) \<longrightarrow>
           pending (snd (my_execute lib mem s)) = query (map (param_value mem) (params s)))) \<and>
     (\<forall>bs s. \<not> fst (my_bind_result lib bs s) \<longrightarrow>
        bound (snd (my_bind_result lib bs s)) = bs \<and> pending (snd (my_bind_result lib bs s)) = pending s) \<and>
     (\<forall>s mem code s' mem'. my_fetch lib (s, mem) = (code, s', mem') \<longrightarrow> bound s' = bound s \<and>
        (code = 0 \<longrightarrow> (\<exists>row. pending s = row # pending s' \<and> mem' = write_results (bound s) row mem)))"

text \<open>
  For SQLite: the values of the parameters by their number, the rows not yet stepped to
  (\<^verbatim>\<open>None\<close> before the first step), and the row of the last step.
\<close>

definition sqlite_contract ::
    "'s sqlite_lib \<Rightarrow> query \<Rightarrow> ('s \<Rightarrow> db_value list) \<Rightarrow> ('s \<Rightarrow> db_value list list option) \<Rightarrow> ('s \<Rightarrow> db_value list) \<Rightarrow> bool" where
  "sqlite_contract lib query params pending current \<longleftrightarrow>
     (\<forall>s. pending (sq_reset lib s) = None) \<and>
     (\<forall>s. params (sq_clear lib s) = [] \<and> pending (sq_clear lib s) = pending s) \<and>
     (\<forall>i v s s'. sq_bind_int lib i v s = (True, s') \<longrightarrow> i = length (params s) + 1 \<longrightarrow>
        params s' = params s @ [DInt v] \<and> pending s' = pending s) \<and>
     (\<forall>i v s s'. sq_bind_text lib i v s = (True, s') \<longrightarrow> i = length (params s) + 1 \<longrightarrow>
        params s' = params s @ [DStr v] \<and> pending s' = pending s) \<and>
     (\<forall>s s'. sq_step lib s = (True, s') \<longrightarrow>
        (\<exists>row rest. (case pending s of None \<Rightarrow> query (params s) | Some rs \<Rightarrow> rs) = row # rest \<and>
           current s' = row \<and> pending s' = Some rest)) \<and>
     (\<forall>s r. r < length (current s) \<longrightarrow> sq_column_int lib s r = as_int (current s ! r) \<and>
        sq_column_text lib s r = as_str (current s ! r))"

section \<open>The interface of the drivers\<close>

text \<open>
  What the handlers rely on: binding an integer and stepping to a row of two integers gives the
  first row of the query for this integer, and the statement can be used in the same way again.
  \<^verbatim>\<open>usable\<close> says that a statement of this query fills these two integers.
\<close>

locale db_driver =
  fixes ops :: "'st db_stmt"
    and usable :: "query \<Rightarrow> nat \<Rightarrow> nat \<Rightarrow> 'st \<Rightarrow> bool"
  assumes row_of_key: "usable query a b st \<Longrightarrow> a \<noteq> b \<Longrightarrow> \<forall>v. \<forall>row \<in> set (query v). length row = 2 \<Longrightarrow>
      kind (m_rows mem at) = CHR ''i'' \<Longrightarrow> db_stmt_bind ops at 1 mem st = (True, st1) \<Longrightarrow>
      db_stmt_step ops ''ii'' [a, b] (st1, mem) = (True, st2, mem') \<Longrightarrow>
      usable query a b st2 \<and> m_rows mem' = m_rows mem \<and>
      (\<exists>x y rest. query [DInt (as_int (u (m_rows mem at)))] = [x, y] # rest \<and>
         m_ints mem' a = as_int x \<and> m_ints mem' b = as_int y)"

definition mysql_usable ::
    "'s mysql_lib \<Rightarrow> ('s \<Rightarrow> my_param option list) \<Rightarrow> ('s \<Rightarrow> db_value list list) \<Rightarrow> ('s \<Rightarrow> my_result list) \<Rightarrow>
     query \<Rightarrow> nat \<Rightarrow> nat \<Rightarrow> 's db_stmt_mysql \<Rightarrow> bool" where
  "mysql_usable lib params pending bound query a b st \<longleftrightarrow> mysql_contract lib query params pending bound \<and>
     (case param_bind st of None \<Rightarrow> True | Some ps \<Rightarrow> length ps = 1) \<and>
     (case result_bind st of None \<Rightarrow> True
      | Some bs \<Rightarrow> bs = [Result_long a, Result_long b] \<and> bound (my_stmt st) = bs)"

lemma mysql_execute:
  assumes "mysql_contract lib query params pending bound" "my_execute lib mem s = (False, s')"
  shows "bound s' = bound s" "pending s' = query (map (param_value mem) (params s))"
proof -
  have "\<forall>mem s. bound (snd (my_execute lib mem s)) = bound s \<and>
      (\<not> fst (my_execute lib mem s) \<longrightarrow> pending (snd (my_execute lib mem s)) = query (map (param_value mem) (params s)))"
    using assms(1) unfolding mysql_contract_def by (elim conjE)
  from this [rule_format, of mem s] assms(2) show "bound s' = bound s" "pending s' = query (map (param_value mem) (params s))" by simp_all
qed

lemma mysql_bind_result:
  assumes "mysql_contract lib query params pending bound" "my_bind_result lib bs s = (False, s')"
  shows "bound s' = bs" "pending s' = pending s"
proof -
  have "\<forall>bs s. \<not> fst (my_bind_result lib bs s) \<longrightarrow>
      bound (snd (my_bind_result lib bs s)) = bs \<and> pending (snd (my_bind_result lib bs s)) = pending s"
    using assms(1) unfolding mysql_contract_def by (elim conjE)
  from this [rule_format, of bs s] assms(2) show "bound s' = bs" "pending s' = pending s" by simp_all
qed

lemma sqlite_row:
  assumes "sqlite_contract lib query params pending current" "sq_step lib s = (True, s')"
  shows "\<exists>rest. (case pending s of None \<Rightarrow> query (params s) | Some rs \<Rightarrow> rs) = current s' # rest \<and> pending s' = Some rest"
proof -
  have "\<forall>s s'. sq_step lib s = (True, s') \<longrightarrow>
      (\<exists>row rest. (case pending s of None \<Rightarrow> query (params s) | Some rs \<Rightarrow> rs) = row # rest \<and>
         current s' = row \<and> pending s' = Some rest)"
    using assms(1) unfolding sqlite_contract_def by (elim conjE)
  from this [rule_format, OF assms(2)] show ?thesis by auto
qed

lemma sqlite_column:
  assumes "sqlite_contract lib query params pending current" "r < length (current s)"
  shows "sq_column_int lib s r = as_int (current s ! r)" "sq_column_text lib s r = as_str (current s ! r)"
  using assms unfolding sqlite_contract_def by blast+

lemma mysql_bind_key:
  assumes "mysql_usable lib params pending bound query a b st" "kind (m_rows mem at) = CHR ''i''"
    "db_stmt_bind_mysql lib at 1 mem st = (True, st1)"
  shows "mysql_usable lib params pending bound query a b st1 \<and> must_execute_again st1 \<and>
    params (my_stmt st1) = [Some (Param_long at)]"
proof -
  have c: "mysql_contract lib query params pending bound" using assms(1) by (simp add: mysql_usable_def)
  have keeps: "bound (my_reset lib s) = bound s" "bound (snd (my_bind_param lib ps s)) = bound s"
    "\<not> fst (my_bind_param lib ps s) \<Longrightarrow> params (snd (my_bind_param lib ps s)) = ps" for s ps
    using c unfolding mysql_contract_def by blast+
  show ?thesis
  proof (cases "param_bind st")
    case None
    then show ?thesis using assms keeps
      by (auto simp: db_stmt_bind_mysql_def mysql_usable_def Let_def split_beta split: if_splits option.splits)
  next
    case (Some ps)
    then have "tl ps = []" using assms(1) by (cases ps) (auto simp: mysql_usable_def)
    with Some show ?thesis using assms keeps
      by (auto simp: db_stmt_bind_mysql_def mysql_usable_def Let_def split_beta split: if_splits option.splits)
  qed
qed

lemma mysql_result_key:
  assumes "mysql_contract lib query params pending bound" "pending (my_stmt st) = rs"
    "case param_bind st of None \<Rightarrow> True | Some ps \<Rightarrow> length ps = 1"
    "case result_bind st of None \<Rightarrow> True | Some bs \<Rightarrow> bs = [Result_long a, Result_long b] \<and> bound (my_stmt st) = bs"
    "bind_mysql_result lib ''ii'' [a, b] st = (True, st1)"
  shows "mysql_usable lib params pending bound query a b st1 \<and> pending (my_stmt st1) = rs \<and>
    bound (my_stmt st1) = [Result_long a, Result_long b]"
proof (cases "result_bind st")
  case None
  obtain failed s' where b: "my_bind_result lib [Result_long a, Result_long b] (my_stmt st) = (failed, s')"
    by (cases "my_bind_result lib [Result_long a, Result_long b] (my_stmt st)")
  with None assms(5) have nf: "\<not> failed" and "st1 = st\<lparr>bind_blocks := bind_blocks st + 1 - array_blocks (param_bind st), param_bind := None,
      my_stmt := s', result_bind := Some [Result_long a, Result_long b]\<rparr>"
    by (auto simp: bind_mysql_result_def Let_def split: if_splits)
  moreover have "bound s' = [Result_long a, Result_long b]" "pending s' = pending (my_stmt st)"
    using mysql_bind_result [OF assms(1)] b nf by auto
  ultimately show ?thesis using assms(1,2) by (simp add: mysql_usable_def)
next
  case (Some bs)
  then show ?thesis using assms by (simp add: mysql_usable_def bind_mysql_result_def)
qed

lemma mysql_step_key:
  assumes "mysql_usable lib params pending bound query a b st" "must_execute_again st"
    "db_stmt_step_mysql lib ''ii'' [a, b] (st, mem) = (True, st2, mem')"
  shows "mysql_usable lib params pending bound query a b st2 \<and>
    (\<exists>row rest. query (map (param_value mem) (params (my_stmt st))) = row # rest \<and>
      mem' = write_results [Result_long a, Result_long b] row mem)"
proof -
  have c: "mysql_contract lib query params pending bound" using assms(1) by (simp add: mysql_usable_def)
  obtain failed s1 where e: "my_execute lib mem (my_stmt st) = (failed, s1)" by (cases "my_execute lib mem (my_stmt st)")
  let ?st = "st\<lparr>must_execute_again := False, my_stmt := s1\<rparr>"
  obtain ok st1 where r: "bind_mysql_result lib ''ii'' [a, b] ?st = (ok, st1)" by (cases "bind_mysql_result lib ''ii'' [a, b] ?st")
  obtain code s' m' where f: "my_fetch lib (my_stmt st1, mem) = (code, s', m')"
    by (cases "my_fetch lib (my_stmt st1, mem)")
  have go: "\<not> failed" "ok" "code = 0" "st2 = st1\<lparr>my_stmt := s'\<rparr>" "mem' = m'"
    using assms(2,3) e r f by (auto simp: db_stmt_step_mysql_def Let_def split: if_splits bool.splits)
  have ex: "bound s1 = bound (my_stmt st)" "pending s1 = query (map (param_value mem) (params (my_stmt st)))"
    using mysql_execute [OF c] e go(1) by auto
  have "case param_bind ?st of None \<Rightarrow> True | Some ps \<Rightarrow> length ps = 1"
    "case result_bind ?st of None \<Rightarrow> True | Some bs \<Rightarrow> bs = [Result_long a, Result_long b] \<and> bound (my_stmt ?st) = bs"
    using assms(1) ex(1) by (auto simp: mysql_usable_def split: option.splits)
  from mysql_result_key [OF c refl this, of st1] r go(2)
  have st1: "mysql_usable lib params pending bound query a b st1" "pending (my_stmt st1) = pending s1"
    "bound (my_stmt st1) = [Result_long a, Result_long b]" by auto
  have fetch: "bound s' = bound (my_stmt st1)"
    "\<exists>row. pending (my_stmt st1) = row # pending s' \<and> m' = write_results (bound (my_stmt st1)) row mem"
    using c f go(3) unfolding mysql_contract_def by blast+
  from st1(1) fetch(1) have "mysql_usable lib params pending bound query a b st2"
    by (auto simp: mysql_usable_def go(4) split: option.splits)
  moreover obtain row where "query (map (param_value mem) (params (my_stmt st))) = row # pending s'"
    "mem' = write_results [Result_long a, Result_long b] row mem"
    using fetch(2) st1(2,3) ex(2) go(5) by auto
  ultimately show ?thesis by blast
qed

lemma write_two_ints:
  assumes "a \<noteq> b" "length row = 2"
  obtains x y where "row = [x, y]" "m_rows (write_results [Result_long a, Result_long b] row mem) = m_rows mem"
    "m_ints (write_results [Result_long a, Result_long b] row mem) a = as_int x"
    "m_ints (write_results [Result_long a, Result_long b] row mem) b = as_int y"
proof -
  from assms(2) obtain x y where "row = [x, y]" by (auto simp: numeral_2_eq_2 length_Suc_conv)
  with that assms(1) show thesis by simp
qed

interpretation mysql: db_driver "mysql_ops lib" "mysql_usable lib params pending bound" for lib params pending bound
proof
  fix query :: query and a b and st :: "'a db_stmt_mysql" and mem :: db_mem and at st1 st2 mem'
  assume us: "mysql_usable lib params pending bound query a b st" and ab: "a \<noteq> b"
    and two: "\<forall>v. \<forall>row \<in> set (query v). length row = 2"
    and k: "kind (m_rows mem at) = CHR ''i''"
    and bind: "db_stmt_bind (mysql_ops lib) at 1 mem st = (True, st1)"
    and step: "db_stmt_step (mysql_ops lib) ''ii'' [a, b] (st1, mem) = (True, st2, mem')"
  from mysql_bind_key [OF us k] bind
  have st1: "mysql_usable lib params pending bound query a b st1" "must_execute_again st1"
    "params (my_stmt st1) = [Some (Param_long at)]"
    by (auto simp: db_stmt_bind_def mysql_ops_def)
  from mysql_step_key [OF st1(1,2), of mem st2 mem'] step obtain row rest where
    q: "mysql_usable lib params pending bound query a b st2" "query [DInt (as_int (u (m_rows mem at)))] = row # rest"
      "mem' = write_results [Result_long a, Result_long b] row mem"
    by (auto simp: db_stmt_step_def mysql_ops_def st1(3))
  have "length row = 2" using two q(2) by (metis list.set_intros(1))
  with write_two_ints [OF ab] obtain x y where "row = [x, y]" "m_rows mem' = m_rows mem" "m_ints mem' a = as_int x" "m_ints mem' b = as_int y"
    unfolding q(3) by metis
  with q(1,2) show "mysql_usable lib params pending bound query a b st2 \<and> m_rows mem' = m_rows mem \<and>
      (\<exists>x y rest. query [DInt (as_int (u (m_rows mem at)))] = [x, y] # rest \<and> m_ints mem' a = as_int x \<and> m_ints mem' b = as_int y)"
    by blast
qed

definition sqlite_usable ::
    "'s sqlite_lib \<Rightarrow> ('s \<Rightarrow> db_value list) \<Rightarrow> ('s \<Rightarrow> db_value list list option) \<Rightarrow> ('s \<Rightarrow> db_value list) \<Rightarrow>
     query \<Rightarrow> nat \<Rightarrow> nat \<Rightarrow> 's \<Rightarrow> bool" where
  "sqlite_usable lib params pending current query a b st \<longleftrightarrow> sqlite_contract lib query params pending current"

interpretation sqlite: db_driver "sqlite_ops lib" "sqlite_usable lib params pending current" for lib params pending current
proof
  fix query :: query and a b and st :: 'a and mem :: db_mem and at st1 st2 mem'
  assume us: "sqlite_usable lib params pending current query a b st" and ab: "a \<noteq> b"
    and two: "\<forall>v. \<forall>row \<in> set (query v). length row = 2"
    and k: "kind (m_rows mem at) = CHR ''i''"
    and bind: "db_stmt_bind (sqlite_ops lib) at 1 mem st = (True, st1)"
    and step: "db_stmt_step (sqlite_ops lib) ''ii'' [a, b] (st1, mem) = (True, st2, mem')"
  have c: "sqlite_contract lib query params pending current" using us by (simp add: sqlite_usable_def)
  let ?s = "sq_clear lib (sq_reset lib st)"
  have "sq_bind_int lib 1 (as_int (u (m_rows mem at))) ?s = (True, st1)"
    using bind k by (simp add: db_stmt_bind_def sqlite_ops_def db_stmt_bind_sqlite_def Let_def split: prod.splits if_splits)
  moreover have "params ?s = []" "pending ?s = None" using c by (simp_all add: sqlite_contract_def)
  moreover have "sq_bind_int lib 1 v s = (True, s') \<Longrightarrow> params s = [] \<Longrightarrow> params s' = [DInt v] \<and> pending s' = pending s" for v s s'
    using c [unfolded sqlite_contract_def, THEN conjunct2, THEN conjunct2, THEN conjunct1, rule_format, of 1 v s s'] by simp
  ultimately have st1: "params st1 = [DInt (as_int (u (m_rows mem at)))]" "pending st1 = None" by metis+
  obtain ok s2 where s: "sq_step lib st1 = (ok, s2)" by (cases "sq_step lib st1")
  have ok: "ok" "st2 = s2"
    "mem' = mem\<lparr>m_ints := (m_ints mem)(a := sq_column_int lib s2 0, b := sq_column_int lib s2 1)\<rparr>"
    using step s by (auto simp: db_stmt_step_def sqlite_ops_def db_stmt_step_sqlite_def split: bool.splits)
  from sqlite_row [OF c, of st1 s2] s ok(1) st1 obtain row rest where
    q: "query [DInt (as_int (u (m_rows mem at)))] = row # rest" "current s2 = row" by auto
  have "length row = 2" using two q(1) by (metis list.set_intros(1))
  then obtain x y where row: "row = [x, y]" by (auto simp: numeral_2_eq_2 length_Suc_conv)
  note col = sqlite_column(1) [OF c, where s = s2]
  have "sq_column_int lib s2 0 = as_int x" "sq_column_int lib s2 1 = as_int y"
    using col [of 0] col [of 1] q(2) row by auto
  with ok(3) ab us q(1) row show "sqlite_usable lib params pending current query a b st2 \<and> m_rows mem' = m_rows mem \<and>
      (\<exists>x y rest. query [DInt (as_int (u (m_rows mem at)))] = [x, y] # rest \<and> m_ints mem' a = as_int x \<and> m_ints mem' b = as_int y)"
    by (auto simp: sqlite_usable_def)
qed

text \<open>
  The addresses of the results count in the first step of a MySQL statement only: later steps
  write where the first one was told to, whatever they are given.
\<close>

lemma mysql_step_ignores_pointers:
  "result_bind st \<noteq> None \<Longrightarrow>
    db_stmt_step_mysql lib signature ap (st, mem) = db_stmt_step_mysql lib signature' ap' (st, mem)"
  by (auto simp: db_stmt_step_mysql_def bind_mysql_result_def Let_def split: prod.splits)

section \<open>Scanning a table\<close>

text \<open>A row of the fortunes: its message has no zero and fits with one into the buffer of 256 bytes.\<close>

fun short_row :: "db_value list \<Rightarrow> bool" where
  "short_row [DInt i, DStr s] = (length s < 256 \<and> NUL \<notin> set s)"
| "short_row row = False"

definition c_string :: "string \<Rightarrow> string option" where
  "c_string buf = (if NUL \<in> set buf then Some (takeWhile (\<lambda>c. c \<noteq> NUL) buf) else None)"

lemma c_string_terminated: "NUL \<notin> set s \<Longrightarrow> c_string (s @ NUL # rest) = Some s"
  unfolding c_string_def by (induction s) auto

lemma c_string_strncpy: "length s < n \<Longrightarrow> NUL \<notin> set s \<Longrightarrow> c_string (strncpy s n) = Some s"
  using c_string_terminated [of s "replicate (n - length s - 1) NUL"]
  by (cases "n - length s") (auto simp: strncpy_def)

text \<open>
  A statement that yields the given rows, to an integer and a buffer, and then none; the
  libraries are taken to report no errors here, which cannot be told from the end of the rows.
\<close>

locale db_scan =
  fixes ops :: "'st db_stmt"
    and scan :: "nat \<Rightarrow> nat \<Rightarrow> db_value list list \<Rightarrow> 'st \<Rightarrow> bool"
  assumes scan_end: "scan a b [] st \<Longrightarrow> fst (db_stmt_step ops ''is'' [a, b, 256] (st, mem)) = False"
    and scan_row: "scan a b ([DInt i, DStr s] # rest) st \<Longrightarrow> short_row [DInt i, DStr s] \<Longrightarrow>
      \<exists>st' mem'. db_stmt_step ops ''is'' [a, b, 256] (st, mem) = (True, st', mem') \<and> scan a b rest st' \<and>
        m_ints mem' a = i \<and> c_string (m_bufs mem' b) = Some s"

definition mysql_reliable ::
    "'s mysql_lib \<Rightarrow> ('s \<Rightarrow> db_value list list) \<Rightarrow> ('s \<Rightarrow> my_result list) \<Rightarrow> bool" where
  "mysql_reliable lib pending bound \<longleftrightarrow>
     (\<forall>s. my_alloc lib s) \<and> (\<forall>mem s. \<not> fst (my_execute lib mem s)) \<and> (\<forall>bs s. \<not> fst (my_bind_result lib bs s)) \<and>
     (\<forall>s mem. fst (my_fetch lib (s, mem)) = 0 \<longleftrightarrow>
        (\<exists>row rest. pending s = row # rest \<and> (\<forall>p n i. bound s ! i = Result_string p n \<longrightarrow> i < length (bound s) \<longrightarrow>
           length (as_str (row ! i)) \<le> n)))"

text \<open>Before the first step the rows are those of the query, afterwards those that are left.\<close>

definition mysql_scan ::
    "'s mysql_lib \<Rightarrow> query \<Rightarrow> ('s \<Rightarrow> my_param option list) \<Rightarrow> ('s \<Rightarrow> db_value list list) \<Rightarrow> ('s \<Rightarrow> my_result list) \<Rightarrow>
     nat \<Rightarrow> nat \<Rightarrow> db_value list list \<Rightarrow> 's db_stmt_mysql \<Rightarrow> bool" where
  "mysql_scan lib query params pending bound a b rs st \<longleftrightarrow>
     mysql_contract lib query params pending bound \<and> mysql_reliable lib pending bound \<and>
     (if must_execute_again st
      then result_bind st = None \<and> rs = query [] \<and> params (my_stmt st) = []
      else result_bind st = Some [Result_long a, Result_string b 256] \<and>
        bound (my_stmt st) = [Result_long a, Result_string b 256] \<and> pending (my_stmt st) = rs)"

lemma mysql_scan_fetch:
  assumes "mysql_contract lib query params pending bound" "mysql_reliable lib pending bound"
    "bound (my_stmt st) = [Result_long a, Result_string b 256]"
    "result_bind st = Some [Result_long a, Result_string b 256]" "\<not> must_execute_again st"
  shows "pending (my_stmt st) = [] \<Longrightarrow> fst (db_stmt_step_mysql lib ''is'' [a, b, 256] (st, mem)) = False"
    and "pending (my_stmt st) = [DInt i, DStr s] # rest \<Longrightarrow> short_row [DInt i, DStr s] \<Longrightarrow>
      \<exists>st' mem'. db_stmt_step_mysql lib ''is'' [a, b, 256] (st, mem) = (True, st', mem') \<and>
        mysql_scan lib query params pending bound a b rest st' \<and> m_ints mem' a = i \<and> c_string (m_bufs mem' b) = Some s"
proof -
  obtain code s' mem' where f: "my_fetch lib (my_stmt st, mem) = (code, s', mem')" by (cases "my_fetch lib (my_stmt st, mem)")
  have step: "db_stmt_step_mysql lib ''is'' [a, b, 256] (st, mem) = (code = 0, st\<lparr>my_stmt := s'\<rparr>, mem')"
    using assms(4,5) f by (simp add: db_stmt_step_mysql_def bind_mysql_result_def Let_def)
  have code: "code = 0 \<longleftrightarrow> (\<exists>row rest. pending (my_stmt st) = row # rest \<and>
      (\<forall>p n i. bound (my_stmt st) ! i = Result_string p n \<longrightarrow> i < length (bound (my_stmt st)) \<longrightarrow> length (as_str (row ! i)) \<le> n))"
    using assms(2) f unfolding mysql_reliable_def by (metis fst_conv)
  show "fst (db_stmt_step_mysql lib ''is'' [a, b, 256] (st, mem)) = False" if "pending (my_stmt st) = []"
    using that step code by simp
  assume p: "pending (my_stmt st) = [DInt i, DStr s] # rest" and short: "short_row [DInt i, DStr s]"
  have "code = 0" unfolding code p assms(3) using short by (simp add: nth_Cons split: nat.splits)
  moreover have "bound s' = bound (my_stmt st)"
    "code = 0 \<longrightarrow> (\<exists>row. pending (my_stmt st) = row # pending s' \<and> mem' = write_results (bound (my_stmt st)) row mem)"
    using assms(1) f unfolding mysql_contract_def by blast+
  ultimately have "bound s' = [Result_long a, Result_string b 256]" "pending s' = rest"
    "mem' = write_results [Result_long a, Result_string b 256] [DInt i, DStr s] mem"
    using p assms(3) by auto
  then show "\<exists>st' mem'. db_stmt_step_mysql lib ''is'' [a, b, 256] (st, mem) = (True, st', mem') \<and>
        mysql_scan lib query params pending bound a b rest st' \<and> m_ints mem' a = i \<and> c_string (m_bufs mem' b) = Some s"
    using step \<open>code = 0\<close> assms short c_string_terminated [of s]
    by (simp add: mysql_scan_def write_string_def)
qed

lemma mysql_reliable_calls:
  assumes "mysql_reliable lib pending bound"
  shows "my_alloc lib s" "\<exists>s'. my_execute lib mem s = (False, s')" "\<exists>s'. my_bind_result lib bs s = (False, s')"
proof -
  have r: "my_alloc lib s" "\<not> fst (my_execute lib mem s)" "\<not> fst (my_bind_result lib bs s)"
    using assms by (simp_all add: mysql_reliable_def)
  show "my_alloc lib s" by (rule r(1))
  show "\<exists>s'. my_execute lib mem s = (False, s')" using r(2) by (cases "my_execute lib mem s") simp
  show "\<exists>s'. my_bind_result lib bs s = (False, s')" using r(3) by (cases "my_bind_result lib bs s") simp
qed

lemma mysql_scan_start:
  assumes "mysql_scan lib query params pending bound a b rs st" "must_execute_again st"
  shows "\<exists>st1. db_stmt_step_mysql lib ''is'' [a, b, 256] (st, mem) = db_stmt_step_mysql lib ''is'' [a, b, 256] (st1, mem) \<and>
    mysql_scan lib query params pending bound a b rs st1 \<and> \<not> must_execute_again st1"
proof -
  have c: "mysql_contract lib query params pending bound" "mysql_reliable lib pending bound" "result_bind st = None"
    "rs = query []" "params (my_stmt st) = []" using assms by (simp_all add: mysql_scan_def)
  note calls = mysql_reliable_calls [OF c(2)]
  obtain s1 where e: "my_execute lib mem (my_stmt st) = (False, s1)" using calls(2) by blast
  obtain s2 where b: "my_bind_result lib [Result_long a, Result_string b 256] s1 = (False, s2)" using calls(3) by blast
  note alloc = calls(1)
  have "pending s1 = query []" using mysql_execute(2) [OF c(1) e] c(5) by simp
  moreover note mysql_bind_result [OF c(1) b]
  ultimately show ?thesis
    using c e b alloc assms(2)
    by (intro exI [of _ "st\<lparr>must_execute_again := False, my_stmt := s2, param_bind := None,
      result_bind := Some [Result_long a, Result_string b 256], bind_blocks := bind_blocks st + 1 - array_blocks (param_bind st)\<rparr>"])
      (cases st, simp add: mysql_scan_def db_stmt_step_mysql_def bind_mysql_result_def Let_def)
qed

interpretation mysql_rows: db_scan "mysql_ops lib" "mysql_scan lib query params pending bound" for lib query params pending bound
proof
  fix a b and st :: "'a db_stmt_mysql" and mem
  have ops: "db_stmt_step (mysql_ops lib) = db_stmt_step_mysql lib"
    by (intro ext) (simp add: db_stmt_step_def mysql_ops_def)
  have first: "\<exists>st1. db_stmt_step_mysql lib ''is'' [a, b, 256] (st, mem) = db_stmt_step_mysql lib ''is'' [a, b, 256] (st1, mem) \<and>
      mysql_scan lib query params pending bound a b rs st1 \<and> \<not> must_execute_again st1"
    if "mysql_scan lib query params pending bound a b rs st" for rs
    using mysql_scan_start [OF that, of mem] that by blast
  show "fst (db_stmt_step (mysql_ops lib) ''is'' [a, b, 256] (st, mem)) = False"
    if "mysql_scan lib query params pending bound a b [] st"
  proof -
    from first [OF that] obtain st1 where
      st1: "db_stmt_step_mysql lib ''is'' [a, b, 256] (st, mem) = db_stmt_step_mysql lib ''is'' [a, b, 256] (st1, mem)"
        "mysql_scan lib query params pending bound a b [] st1" "\<not> must_execute_again st1" by blast
    then show ?thesis unfolding ops st1(1)
      by (intro mysql_scan_fetch(1) [where query = query and params = params and pending = pending and bound = bound])
        (auto simp: mysql_scan_def)
  qed
  fix i s rest
  assume sc: "mysql_scan lib query params pending bound a b ([DInt i, DStr s] # rest) st" and short: "short_row [DInt i, DStr s]"
  from first [OF sc] obtain st1 where
    st1: "db_stmt_step_mysql lib ''is'' [a, b, 256] (st, mem) = db_stmt_step_mysql lib ''is'' [a, b, 256] (st1, mem)"
      "mysql_scan lib query params pending bound a b ([DInt i, DStr s] # rest) st1" "\<not> must_execute_again st1" by blast
  then show "\<exists>st' mem'. db_stmt_step (mysql_ops lib) ''is'' [a, b, 256] (st, mem) = (True, st', mem') \<and>
      mysql_scan lib query params pending bound a b rest st' \<and> m_ints mem' a = i \<and> c_string (m_bufs mem' b) = Some s"
    unfolding ops st1(1) by (intro mysql_scan_fetch(2) short) (auto simp: mysql_scan_def)
qed

definition sqlite_scan ::
    "'s sqlite_lib \<Rightarrow> query \<Rightarrow> ('s \<Rightarrow> db_value list) \<Rightarrow> ('s \<Rightarrow> db_value list list option) \<Rightarrow> ('s \<Rightarrow> db_value list) \<Rightarrow>
     nat \<Rightarrow> nat \<Rightarrow> db_value list list \<Rightarrow> 's \<Rightarrow> bool" where
  "sqlite_scan lib query params pending current a b rs st \<longleftrightarrow>
     sqlite_contract lib query params pending current \<and>
     (\<forall>s. (case pending s of None \<Rightarrow> query (params s) | Some rs \<Rightarrow> rs) \<noteq> [] \<longrightarrow> fst (sq_step lib s)) \<and>
     (case pending st of None \<Rightarrow> query (params st) | Some rs \<Rightarrow> rs) = rs"

interpretation sqlite_rows: db_scan "sqlite_ops lib" "sqlite_scan lib query params pending current" for lib query params pending current
proof
  fix a b and st :: 'a and mem
  let ?step = "db_stmt_step_sqlite lib ''is'' [a, b, 256] (st, mem)"
  have ops: "db_stmt_step (sqlite_ops lib) ''is'' [a, b, 256] (st, mem) = ?step"
    by (simp add: db_stmt_step_def sqlite_ops_def)
  obtain ok st' where s: "sq_step lib st = (ok, st')" by (cases "sq_step lib st")
  have row: "\<exists>row rest. rs = row # rest \<and> current st' = row \<and> pending st' = Some rest"
    if "sqlite_scan lib query params pending current a b rs st" "ok" for rs
    using sqlite_row [of lib query params pending current st st'] that s by (auto simp: sqlite_scan_def)
  show "fst (db_stmt_step (sqlite_ops lib) ''is'' [a, b, 256] (st, mem)) = False"
    if "sqlite_scan lib query params pending current a b [] st"
    using row [OF that] s unfolding ops by (cases ok) (auto simp: db_stmt_step_sqlite_def)
  fix i t rest
  assume sc: "sqlite_scan lib query params pending current a b ([DInt i, DStr t] # rest) st" and short: "short_row [DInt i, DStr t]"
  then have ok: "ok" using s unfolding sqlite_scan_def by (metis fst_conv list.distinct(1))
  from row [OF sc ok] have cur: "current st' = [DInt i, DStr t]" "pending st' = Some rest" by auto
  have "sq_column_int lib st' 0 = i" "sq_column_text lib st' 1 = t"
    using sqlite_column [where s = st'] sc cur(1) by (auto simp: sqlite_scan_def)
  then show "\<exists>st' mem'. db_stmt_step (sqlite_ops lib) ''is'' [a, b, 256] (st, mem) = (True, st', mem') \<and>
      sqlite_scan lib query params pending current a b rest st' \<and> m_ints mem' a = i \<and> c_string (m_bufs mem' b) = Some t"
    unfolding ops using s ok cur(2) sc short
    by (simp add: db_stmt_step_sqlite_def sqlite_scan_def c_string_strncpy)
qed

section \<open>What is released\<close>

text \<open>\<^verbatim>\<open>struct db\<close> as the two functions that connect fill it.\<close>

definition mysql_db ::
    "(resources \<Rightarrow> bool) \<Rightarrow> (resources \<Rightarrow> 's option) \<Rightarrow> (string \<Rightarrow> 's \<Rightarrow> bool \<times> 's) \<Rightarrow> 's mysql_lib \<Rightarrow> 's db_stmt_mysql db" where
  "mysql_db malloc_ok init prepare lib =
     \<lparr>db_prepare = (\<lambda>sql r. db_prepare_mysql (malloc_ok r) (init r) (prepare sql) r), db_stmt_ops = mysql_ops lib\<rparr>"

definition sqlite_db ::
    "(resources \<Rightarrow> bool) \<Rightarrow> (string \<Rightarrow> resources \<Rightarrow> bool \<times> 's) \<Rightarrow> 's sqlite_lib \<Rightarrow> 's db" where
  "sqlite_db malloc_ok prepare lib =
     \<lparr>db_prepare = (\<lambda>sql r. db_prepare_sqlite (malloc_ok r) (prepare sql r) r), db_stmt_ops = sqlite_ops lib\<rparr>"

text \<open>
  What a client asks of the statements of a database: preparing one takes a statement and a
  block or, when it fails, nothing; binding and stepping, also when they fail, keep a condition
  under which finalizing gives back exactly these two.
\<close>

locale db_ledger =
  fixes database :: "'st db"
    and ok :: "'st \<Rightarrow> bool"
  assumes prepare_fails: "db_prepare_stmt database sql r = (None, r') \<Longrightarrow> r' = r"
    and prepare_takes: "db_prepare_stmt database sql r = (Some st, r') \<Longrightarrow>
      ok st \<and> r' = r\<lparr>statements := statements r + 1, blocks := blocks r + 1\<rparr>"
    and bind_keeps: "ok st \<Longrightarrow> db_stmt_bind (db_stmt_ops database) at n mem st = (bound, st') \<Longrightarrow> ok st'"
    and step_keeps: "ok st \<Longrightarrow> db_stmt_step (db_stmt_ops database) signature ap (st, mem) = (bound, st', mem') \<Longrightarrow> ok st'"
    and finalize_gives: "ok st \<Longrightarrow>
      db_stmt_finalize (db_stmt_ops database) st r = r\<lparr>statements := statements r - 1, blocks := blocks r - 1\<rparr>"

text \<open>The arrays of a MySQL statement are counted when, and only when, its pointers are not null.\<close>

definition mysql_ok :: "'s db_stmt_mysql \<Rightarrow> bool" where
  "mysql_ok st \<longleftrightarrow> bind_blocks st = array_blocks (result_bind st) + array_blocks (param_bind st)"

lemmas mysql_ok_simps = mysql_ok_def array_blocks_def Let_def

lemma mysql_bind_ok:
  assumes "mysql_ok st" "db_stmt_bind_mysql lib at n mem st = (bound, st')"
  shows "mysql_ok st'"
proof -
  let ?st = "st\<lparr>must_execute_again := True\<rparr>"
  define st1 where "st1 = (case param_bind ?st of
      None \<Rightarrow> if my_alloc lib (my_stmt ?st)
              then ?st\<lparr>param_bind := Some (replicate n None), bind_blocks := bind_blocks ?st + 1\<rparr> else ?st
    | Some ps \<Rightarrow> ?st\<lparr>my_stmt := my_reset lib (my_stmt ?st)\<rparr>)"
  have ok: "mysql_ok st1"
    using assms(1) by (cases "param_bind st") (simp_all add: st1_def mysql_ok_simps)
  from assms(2) show ?thesis unfolding db_stmt_bind_mysql_def Let_def st1_def [symmetric]
    using ok by (auto simp: mysql_ok_simps split: option.splits prod.splits bool.splits)
qed

lemma bind_mysql_result_ok:
  assumes "mysql_ok st" "bind_mysql_result lib signature ap st = (bound, st')"
  shows "mysql_ok st'"
  using assms by (auto simp: bind_mysql_result_def mysql_ok_simps split: option.splits prod.splits if_splits)

lemma mysql_step_ok:
  assumes "mysql_ok st" "db_stmt_step_mysql lib signature ap (st, mem) = (stepped, st', mem')"
  shows "mysql_ok st'"
proof -
  have upd: "mysql_ok (x\<lparr>my_stmt := s\<rparr>) = mysql_ok x" "mysql_ok (x\<lparr>must_execute_again := b\<rparr>) = mysql_ok x" for x :: "'a db_stmt_mysql" and s b
    by (simp_all add: mysql_ok_def)
  have ok0: "mysql_ok (st\<lparr>must_execute_again := False\<rparr>)" using assms(1) by (simp add: upd)
  then have ok: "mysql_ok (st\<lparr>must_execute_again := False, my_stmt := s\<rparr>)" for s by (simp add: upd)
  from assms(2) show ?thesis unfolding db_stmt_step_mysql_def Let_def
    using ok bind_mysql_result_ok [OF ok, of lib signature ap] bind_mysql_result_ok [OF ok0, of lib signature ap] upd
    by (auto split: prod.splits bool.splits if_split_asm)
qed

interpretation mysql_ledger: db_ledger "mysql_db malloc_ok init prepare lib" mysql_ok for malloc_ok init prepare lib
proof
  fix sql st r r'
  show "db_prepare_stmt (mysql_db malloc_ok init prepare lib) sql r = (None, r') \<Longrightarrow> r' = r"
    by (auto simp: db_prepare_stmt_def mysql_db_def db_prepare_mysql_def Let_def split: option.splits prod.splits if_splits)
  show "db_prepare_stmt (mysql_db malloc_ok init prepare lib) sql r = (Some st, r') \<Longrightarrow>
      mysql_ok st \<and> r' = r\<lparr>statements := statements r + 1, blocks := blocks r + 1\<rparr>"
    by (auto simp: db_prepare_stmt_def mysql_db_def db_prepare_mysql_def mysql_ok_simps split: option.splits prod.splits if_splits)
  show "mysql_ok st \<Longrightarrow> db_stmt_finalize (db_stmt_ops (mysql_db malloc_ok init prepare lib)) st r =
      r\<lparr>statements := statements r - 1, blocks := blocks r - 1\<rparr>"
    by (simp add: db_stmt_finalize_def mysql_db_def mysql_ops_def db_stmt_finalize_mysql_def mysql_ok_def Let_def)
qed (auto simp: db_stmt_bind_def db_stmt_step_def mysql_db_def mysql_ops_def intro: mysql_bind_ok mysql_step_ok)

interpretation sqlite_ledger: db_ledger "sqlite_db malloc_ok prepare lib" "\<lambda>_. True" for malloc_ok prepare lib
  by unfold_locales (auto simp: db_prepare_stmt_def sqlite_db_def db_prepare_sqlite_def db_stmt_finalize_def sqlite_ops_def
      db_stmt_finalize_sqlite_def Let_def split: prod.splits bool.splits if_splits)

text \<open>Connecting to MySQL releases everything when it fails; connecting to SQLite does not close the
  connection that \<^verbatim>\<open>sqlite3_open_v2\<close> gives also when it fails.\<close>

theorem db_resources_balanced:
  "(case db_connect_mysql malloc_ok init_ok connect_ok charset_ok r of
      (False, r') \<Rightarrow> r' = r | (True, r') \<Rightarrow> db_disconnect_mysql r' = r) \<and>
   (case db_connect_sqlite malloc_ok True open_ok r of
      (False, r') \<Rightarrow> r' = r\<lparr>connections := connections r + of_bool malloc_ok\<rparr>
    | (True, r') \<Rightarrow> db_disconnect_sqlite r' = r)"
  by (auto simp: db_connect_mysql_def db_disconnect_mysql_def db_connect_sqlite_def db_disconnect_sqlite_def Let_def
      split: prod.splits bool.splits)

end
