(* ===== verification/Lwan_App.thy ===== *)
theory Lwan_App
  imports Lwan_Db Json_Encode Compare
begin

text \<open>
  The handlers of the lwan application (\<^verbatim>\<open>techempower.c\<close>), over the statements of
  \<^verbatim>\<open>Lwan_Db\<close> and the encoder of \<^verbatim>\<open>Json_Encode\<close>.  The lwan library (string buffers,
  caches, coroutines, templates, \<^verbatim>\<open>parse_long\<close>, \<^verbatim>\<open>int_to_string\<close>) is a parameter.
  \<^verbatim>\<open>rand\<close> is a stream: its value at \<^verbatim>\<open>i\<close> is the result of the \<^verbatim>\<open>i\<close>-th call.

  The locals of \<^verbatim>\<open>db_query_key\<close> are the frame, three addresses; every call of a loop
  finds them at the same place.
\<close>

section \<open>Answers\<close>

datatype http_status = HTTP_OK | HTTP_INTERNAL_ERROR

record 'b lwan_response =
  response_buffer :: 'b
  mime_type :: string

record 'b lwan_lib =
  sb_append :: "'b \<Rightarrow> string \<Rightarrow> bool \<times> 'b"
  sb_grow_to :: "'b \<Rightarrow> nat \<Rightarrow> 'b"
  sb_set_static :: "'b \<Rightarrow> string \<Rightarrow> 'b"
  int_to_str :: "int \<Rightarrow> string"
  parse_long :: "string \<Rightarrow> int \<Rightarrow> int"

definition json_response_obj ::
    "'b lwan_lib \<Rightarrow> (nat \<Rightarrow> string) \<Rightarrow> store \<Rightarrow> json_obj_descr list \<Rightarrow> 'b lwan_response \<Rightarrow> http_status \<times> 'b lwan_response" where
  "json_response_obj lib strs st descr resp =
     (case json_obj_encode_full (append_to_strbuf (sb_append lib)) (int_to_str lib) strs False st descr 0 (response_buffer resp) of
        (ret, b) \<Rightarrow>
          if ret \<noteq> 0 then (HTTP_INTERNAL_ERROR, resp\<lparr>response_buffer := b\<rparr>)
          else (HTTP_OK, resp\<lparr>response_buffer := b, mime_type := ''application/json''\<rparr>))"

definition json_response_arr ::
    "'b lwan_lib \<Rightarrow> (nat \<Rightarrow> string) \<Rightarrow> store \<Rightarrow> json_obj_descr \<Rightarrow> 'b lwan_response \<Rightarrow> http_status \<times> 'b lwan_response" where
  "json_response_arr lib strs st descr resp =
     (case json_arr_encode_full (append_to_strbuf (sb_append lib)) (int_to_str lib) strs False st descr 0 (response_buffer resp) of
        (ret, b) \<Rightarrow>
          if ret \<noteq> 0 then (HTTP_INTERNAL_ERROR, resp\<lparr>response_buffer := b\<rparr>)
          else (HTTP_OK, resp\<lparr>response_buffer := b, mime_type := ''application/json''\<rparr>))"

definition hello_world :: string where "hello_world = ''Hello, World!''"

definition hello_world_json_desc :: "json_obj_descr list" where
  "hello_world_json_desc = [json_obj_descr_prim 8 ''message'' 0 Type_string]"

definition json :: "'b lwan_lib \<Rightarrow> 'b lwan_response \<Rightarrow> http_status \<times> 'b lwan_response" where
  "json lib resp = json_response_obj lib (\<lambda>_. hello_world) (\<lambda>_. Ptr 0) hello_world_json_desc resp"

definition plaintext :: "'b lwan_lib \<Rightarrow> 'b lwan_response \<Rightarrow> http_status \<times> 'b lwan_response" where
  "plaintext lib resp =
     (HTTP_OK, resp\<lparr>response_buffer := sb_set_static lib (response_buffer resp) hello_world, mime_type := ''text/plain''\<rparr>)"

section \<open>Rows of the database\<close>

text \<open>\<^verbatim>\<open>struct db_json\<close>: the id and the random number, four bytes each.\<close>

type_synonym db_json = "int \<times> int"

definition db_json_desc :: "json_obj_descr list" where
  "db_json_desc = [json_obj_descr_prim 4 ''id'' 0 Type_number, json_obj_descr_prim 4 ''randomNumber'' 4 Type_number]"

definition queries_array_desc :: json_obj_descr where
  "queries_array_desc = json_obj_descr_obj_array 8 ''queries'' 0 500 4000 db_json_desc"

text \<open>The structures as the encoder reads them: \<^verbatim>\<open>struct queries_json\<close> has its length behind the 500 rows.\<close>

definition db_json_store :: "db_json \<Rightarrow> store" where
  "db_json_store item = (\<lambda>a. if a = 0 then Num (fst item) else Num (snd item))"

definition queries_store :: "db_json list \<Rightarrow> store" where
  "queries_store items =
     (\<lambda>a. if a = 4000 then Count (length items)
          else if a div 8 < length items then Num (if a mod 8 = 0 then fst (items ! (a div 8)) else snd (items ! (a div 8)))
          else Num 0)"

record frame =
  at_row :: nat
  at_number :: nat
  at_id :: nat

definition db_query_key ::
    "'st db_stmt \<Rightarrow> frame \<Rightarrow> int \<Rightarrow> 'st \<times> db_mem \<Rightarrow> db_json option \<times> 'st \<times> db_mem" where
  "db_query_key ops fr k s =
     (case s of (st, mem) \<Rightarrow>
        (let mem = mem\<lparr>m_rows := (m_rows mem)(at_row fr := \<lparr>kind = CHR ''i'', u = DInt (k + 1)\<rparr>)\<rparr>
         in case db_stmt_bind ops (at_row fr) 1 mem st of
              (False, st) \<Rightarrow> (None, st, mem)
            | (True, st) \<Rightarrow>
                (case db_stmt_step ops ''ii'' [at_number fr, at_id fr] (st, mem) of
                   (False, st, mem) \<Rightarrow> (None, st, mem)
                 | (True, st, mem) \<Rightarrow>
                     (Some (to_int32 (m_ints mem (at_id fr)), to_int32 (m_ints mem (at_number fr))), st, mem))))"

definition db_query ::
    "'st db_stmt \<Rightarrow> frame \<Rightarrow> nat \<Rightarrow> 'st \<times> db_mem \<Rightarrow> db_json option \<times> 'st \<times> db_mem" where
  "db_query ops fr random s = db_query_key ops fr (int (random mod 10000)) s"

definition random_number_query :: string where
  "random_number_query = ''SELECT randomNumber, id FROM world WHERE id=?''"

definition cached_random_number_query :: string where
  "cached_random_number_query = ''SELECT randomNumber, id FROM world WHERE id=?''"

definition db ::
    "'b lwan_lib \<Rightarrow> 'st db \<Rightarrow> frame \<Rightarrow> (nat \<Rightarrow> nat) \<Rightarrow> db_mem \<Rightarrow> 'b lwan_response \<times> resources \<Rightarrow>
     http_status \<times> 'b lwan_response \<times> resources" where
  "db lib database fr rand mem s =
     (case s of (resp, r) \<Rightarrow>
        (case db_prepare_stmt database random_number_query r of
           (None, r) \<Rightarrow> (HTTP_INTERNAL_ERROR, resp, r)
         | (Some stmt, r) \<Rightarrow>
             (case db_query (db_stmt_ops database) fr (rand 0) (stmt, mem) of
                (queried, stmt, mem) \<Rightarrow>
                  (let r = db_stmt_finalize (db_stmt_ops database) stmt r
                   in case queried of
                        None \<Rightarrow> (HTTP_INTERNAL_ERROR, resp, r)
                      | Some item \<Rightarrow>
                          (case json_response_obj lib (\<lambda>_. []) (db_json_store item) db_json_desc resp of
                             (ret, resp) \<Rightarrow> (ret, resp, r))))))"

definition count_parameter :: "'b lwan_lib \<Rightarrow> string option \<Rightarrow> int" where
  "count_parameter lib queries_str =
     (case queries_str of Some str \<Rightarrow> min 500 (max 1 (parse_long lib str (- 1))) | None \<Rightarrow> 1)"

text \<open>The loop of \<^verbatim>\<open>queries\<close>: the items from the \<^verbatim>\<open>i\<close>-th call of \<^verbatim>\<open>rand\<close> on.\<close>

fun query_loop ::
    "'st db_stmt \<Rightarrow> frame \<Rightarrow> (nat \<Rightarrow> nat) \<Rightarrow> nat \<Rightarrow> nat \<Rightarrow> 'st \<times> db_mem \<Rightarrow> db_json list option \<times> 'st \<times> db_mem" where
  "query_loop ops fr rand i 0 s = (Some [], s)"
| "query_loop ops fr rand i (Suc n) s =
     (case db_query ops fr (rand i) s of
        (None, s) \<Rightarrow> (None, s)
      | (Some item, s) \<Rightarrow>
          (case query_loop ops fr rand (i + 1) n s of (items, s) \<Rightarrow> (map_option ((#) item) items, s)))"

definition queries ::
    "'b lwan_lib \<Rightarrow> 'st db \<Rightarrow> frame \<Rightarrow> (nat \<Rightarrow> nat) \<Rightarrow> db_mem \<Rightarrow> string option \<Rightarrow> 'b lwan_response \<times> resources \<Rightarrow>
     http_status \<times> 'b lwan_response \<times> resources" where
  "queries lib database fr rand mem queries_str s =
     (case s of (resp, r) \<Rightarrow>
        (let queries = nat (count_parameter lib queries_str)
         in case db_prepare_stmt database random_number_query r of
              (None, r) \<Rightarrow> (HTTP_INTERNAL_ERROR, resp, r)
            | (Some stmt, r) \<Rightarrow>
                (case query_loop (db_stmt_ops database) fr rand 0 queries (stmt, mem) of
                   (None, stmt, mem) \<Rightarrow> (HTTP_INTERNAL_ERROR, resp, db_stmt_finalize (db_stmt_ops database) stmt r)
                 | (Some items, stmt, mem) \<Rightarrow>
                     (let resp = resp\<lparr>response_buffer := sb_grow_to lib (response_buffer resp) (32 * queries)\<rparr>
                      in case json_response_arr lib (\<lambda>_. []) (queries_store items) queries_array_desc resp of
                           (ret, resp) \<Rightarrow> (ret, resp, db_stmt_finalize (db_stmt_ops database) stmt r)))))"

section \<open>Cached rows\<close>

text \<open>
  \<^verbatim>\<open>cached_queries_new\<close>: the entry of a key, made when the cache has none; the keys are
  decimal numbers.
\<close>

definition cached_queries_new ::
    "bool \<Rightarrow> 'st db \<Rightarrow> frame \<Rightarrow> db_mem \<Rightarrow> string \<Rightarrow> resources \<Rightarrow> db_json option \<times> resources" where
  "cached_queries_new malloc_ok database fr mem k r =
     (if \<not> malloc_ok then (None, r)
      else (let r = r\<lparr>blocks := blocks r + 1\<rparr>
            in case db_prepare_stmt database cached_random_number_query r of
                 (None, r) \<Rightarrow> (None, r\<lparr>blocks := blocks r - 1\<rparr>)
               | (Some stmt, r) \<Rightarrow>
                   (case db_query_key (db_stmt_ops database) fr (atoi k) (stmt, mem) of
                      (None, stmt, mem) \<Rightarrow>
                        (None, db_stmt_finalize (db_stmt_ops database) stmt (r\<lparr>blocks := blocks r - 1\<rparr>))
                    | (Some item, stmt, mem) \<Rightarrow> (Some item, db_stmt_finalize (db_stmt_ops database) stmt r))))"

definition cached_queries_free :: "resources \<Rightarrow> resources" where
  "cached_queries_free r = r\<lparr>blocks := blocks r - 1\<rparr>"

text \<open>
  The cache of lwan: an entry with a reference to it, or an error that tells whether another
  request is about to make the entry (\<^verbatim>\<open>EWOULDBLOCK\<close>); what the other requests do while
  this one waits; and giving a reference back.
\<close>

datatype cache_answer = Entry db_json | Would_block | Cache_error

record 'c cache =
  cache_get :: "string \<Rightarrow> 'c \<Rightarrow> cache_answer \<times> 'c"
  cache_wait :: "'c \<Rightarrow> 'c"
  cache_unref :: "db_json \<Rightarrow> 'c \<Rightarrow> 'c"

datatype wait = Yield | Sleep nat

fun get_entry_loop :: "'c cache \<Rightarrow> string \<Rightarrow> nat \<Rightarrow> 'c \<times> wait list \<Rightarrow> db_json option \<times> 'c \<times> wait list" where
  "get_entry_loop lib k 0 s = (None, s)"
| "get_entry_loop lib k (Suc n) s =
     (case s of (c, ws) \<Rightarrow>
        (case cache_get lib k c of
           (Entry e, c) \<Rightarrow> (Some e, c, ws)
         | (Cache_error, c) \<Rightarrow> (None, c, ws)
         | (Would_block, c) \<Rightarrow>
             get_entry_loop lib k n
               (cache_wait lib c, ws @ Yield # (if Suc n > 16 then [Sleep (Suc n div 8)] else []))))"

definition my_cache_coro_get_and_ref_entry ::
    "'c cache \<Rightarrow> string \<Rightarrow> 'c \<times> wait list \<Rightarrow> db_json option \<times> 'c \<times> wait list" where
  "my_cache_coro_get_and_ref_entry lib k s = get_entry_loop lib k 64 s"

fun cached_loop ::
    "'b lwan_lib \<Rightarrow> 'c cache \<Rightarrow> (nat \<Rightarrow> nat) \<Rightarrow> nat \<Rightarrow> nat \<Rightarrow> 'c \<times> wait list \<Rightarrow> db_json list option \<times> 'c \<times> wait list" where
  "cached_loop lib cl rand i 0 s = (Some [], s)"
| "cached_loop lib cl rand i (Suc n) s =
     (case my_cache_coro_get_and_ref_entry cl (int_to_str lib (int (rand i mod 10000))) s of
        (None, s) \<Rightarrow> (None, s)
      | (Some e, c, ws) \<Rightarrow>
          (case cached_loop lib cl rand (i + 1) n (cache_unref cl e c, ws) of
             (items, s) \<Rightarrow> (map_option ((#) e) items, s)))"

definition cached_queries ::
    "'b lwan_lib \<Rightarrow> 'c cache \<Rightarrow> (nat \<Rightarrow> nat) \<Rightarrow> string option \<Rightarrow> 'b lwan_response \<times> 'c \<times> wait list \<Rightarrow>
     http_status \<times> 'b lwan_response \<times> 'c \<times> wait list" where
  "cached_queries lib cl rand queries_str s =
     (case s of (resp, s) \<Rightarrow>
        (let queries = nat (count_parameter lib queries_str)
         in case cached_loop lib cl rand 0 queries s of
              (None, s) \<Rightarrow> (HTTP_INTERNAL_ERROR, resp, s)
            | (Some items, s) \<Rightarrow>
                (let resp = resp\<lparr>response_buffer := sb_grow_to lib (response_buffer resp) (32 * queries)\<rparr>
                 in case json_response_arr lib (\<lambda>_. []) (queries_store items) queries_array_desc resp of
                      (ret, resp) \<Rightarrow> (ret, resp, s))))"

section \<open>Fortunes\<close>

type_synonym fortune_item = "int \<times> string"

definition fortune_compare :: "fortune_item \<Rightarrow> fortune_item \<Rightarrow> int" where
  "fortune_compare a b = strcmp (snd a) (snd b)"

text \<open>
  \<^verbatim>\<open>append_fortune\<close>: copying the message and growing the array may each fail; the
  parameter tells which calls succeed, by the length of the array.  The copy belongs to the
  coroutine from then on, also when the array cannot grow; an array with elements may own
  storage, and \<^verbatim>\<open>fortune_array_reset\<close> gives that back.
\<close>

definition append_fortune ::
    "(nat \<Rightarrow> bool \<times> bool) \<Rightarrow> fortune_item list \<Rightarrow> int \<Rightarrow> string \<Rightarrow> resources \<Rightarrow> bool \<times> fortune_item list \<times> resources" where
  "append_fortune alloc fortunes i message r =
     (case alloc (length fortunes) of
        (strdup_ok, append_ok) \<Rightarrow>
          if \<not> strdup_ok then (False, fortunes, r)
          else (let r = r\<lparr>deferred := deferred r + 1\<rparr>
                in if \<not> append_ok then (False, fortunes, r)
                   else (True, fortunes @ [(i, message)], if fortunes = [] then r\<lparr>arrays := arrays r + 1\<rparr> else r)))"

definition fortune_array_reset :: "fortune_item list \<Rightarrow> resources \<Rightarrow> resources" where
  "fortune_array_reset fortunes r = (if fortunes = [] then r else r\<lparr>arrays := arrays r - 1\<rparr>)"

text \<open>
  The loop over the rows, with fuel: the fortunes, a failed append with the fortunes before it, or
  a message that fills the buffer and has no terminating zero, which the copy reads past.
\<close>

datatype read_result = Fortunes "fortune_item list" | Append_failed "fortune_item list" | Unterminated

fun read_fortunes ::
    "'st db_stmt \<Rightarrow> (nat \<Rightarrow> bool \<times> bool) \<Rightarrow> nat \<Rightarrow> nat \<Rightarrow> nat \<Rightarrow> fortune_item list \<Rightarrow> resources \<times> 'st \<times> db_mem \<Rightarrow>
     (read_result \<times> resources \<times> 'st) option" where
  "read_fortunes ops alloc id_at buf_at 0 fortunes s = None"
| "read_fortunes ops alloc id_at buf_at (Suc fuel) fortunes s =
     (case s of (r, s) \<Rightarrow>
        (case db_stmt_step ops ''is'' [id_at, buf_at, 256] s of
           (False, st, mem) \<Rightarrow> Some (Fortunes fortunes, r, st)
         | (True, st, mem) \<Rightarrow>
             (case c_string (m_bufs mem buf_at) of
                None \<Rightarrow> Some (Unterminated, r, st)
              | Some message \<Rightarrow>
                  (case append_fortune alloc fortunes (to_int32 (m_ints mem id_at)) message r of
                     (False, fortunes, r) \<Rightarrow> Some (Append_failed fortunes, r, st)
                   | (True, fortunes, r) \<Rightarrow> read_fortunes ops alloc id_at buf_at fuel fortunes (r, st, mem)))))"

definition fortune_query :: string where "fortune_query = ''SELECT * FROM Fortune''"

text \<open>
  \<^verbatim>\<open>fortune_list_generator\<close>, a coroutine that the template engine runs to its end: the
  fortunes it yields, one at a time, and what is held at its end; or the read past the
  buffer, after which nothing is promised; or more rows than there is fuel.
  \<^verbatim>\<open>array_sort\<close> is the sort of the array of the library.
\<close>

datatype generated = Yields "fortune_item list" resources | Reads_past_buffer | More_rows

definition fortune_list_generator ::
    "((fortune_item \<Rightarrow> fortune_item \<Rightarrow> int) \<Rightarrow> fortune_item list \<Rightarrow> fortune_item list) \<Rightarrow>
     'st db \<Rightarrow> (nat \<Rightarrow> bool \<times> bool) \<Rightarrow> nat \<Rightarrow> nat \<Rightarrow> nat \<Rightarrow> db_mem \<Rightarrow> resources \<Rightarrow> generated" where
  "fortune_list_generator array_sort database alloc id_at buf_at fuel mem r =
     (case db_prepare_stmt database fortune_query r of
        (None, r) \<Rightarrow> Yields [] r
      | (Some stmt, r) \<Rightarrow>
          (let out = (\<lambda>ys fortunes r stmt.
                 Yields ys (db_stmt_finalize (db_stmt_ops database) stmt (fortune_array_reset fortunes r)))
           in case read_fortunes (db_stmt_ops database) alloc id_at buf_at fuel [] (r, stmt, mem) of
                None \<Rightarrow> More_rows
              | Some (res, r, stmt) \<Rightarrow>
                  (case res of
                     Unterminated \<Rightarrow> Reads_past_buffer
                   | Append_failed fortunes \<Rightarrow> out [] fortunes r stmt
                   | Fortunes fortunes \<Rightarrow>
                       (case append_fortune alloc fortunes 0 ''Additional fortune added at request time.'' r of
                          (False, fortunes, r) \<Rightarrow> out [] fortunes r stmt
                        | (True, fortunes, r) \<Rightarrow> out (array_sort fortune_compare fortunes) fortunes r stmt))))"

text \<open>\<^verbatim>\<open>fortunes\<close>: the template engine gets what the generator yields.\<close>

definition fortunes ::
    "'b lwan_lib \<Rightarrow> (fortune_item list \<Rightarrow> 'b \<Rightarrow> bool \<times> 'b) \<Rightarrow> fortune_item list \<Rightarrow> 'b lwan_response \<Rightarrow>
     http_status \<times> 'b lwan_response" where
  "fortunes lib apply_template items resp =
     (case apply_template items (sb_grow_to lib (response_buffer resp) 1500) of
        (ok, b) \<Rightarrow>
          if \<not> ok then (HTTP_INTERNAL_ERROR, resp\<lparr>response_buffer := b\<rparr>)
          else (HTTP_OK, resp\<lparr>response_buffer := b, mime_type := ''text/html; charset=UTF-8''\<rparr>))"

end
