(* ===== verification/Lwan_Main.thy ===== *)
theory Lwan_Main
  imports Joined_Threads Lwan_App
begin

text \<open>
  The start of the lwan application and the database connection of each of its threads
  (\<^verbatim>\<open>main\<close>, \<^verbatim>\<open>get_db\<close> and \<^verbatim>\<open>quit_lwan\<close> of \<^verbatim>\<open>techempower.c\<close>).  A call of
  \<^verbatim>\<open>lwan_status_critical\<close> ends the process with its message.
\<close>

section \<open>Connection parameters\<close>

datatype db_connection_params =
    DB_CONN_MYSQL (mysql_user: string) (mysql_password: string) (mysql_database: string) (mysql_hostname: string)
  | DB_CONN_SQLITE (sqlite_path: string) (sqlite_pragmas: "string list")

definition read_connection_params :: "(string \<Rightarrow> string option) \<Rightarrow> string + db_connection_params" where
  "read_connection_params getenv =
     (if getenv ''USE_MYSQL'' \<noteq> None
      then (case getenv ''MYSQL_USER'' of
              None \<Rightarrow> Inl ''No MySQL user provided''
            | Some user \<Rightarrow> (case getenv ''MYSQL_PASS'' of
                None \<Rightarrow> Inl ''No MySQL password provided''
              | Some password \<Rightarrow> (case getenv ''MYSQL_HOST'' of
                  None \<Rightarrow> Inl ''No MySQL hostname provided''
                | Some hostname \<Rightarrow> (case getenv ''MYSQL_DB'' of
                    None \<Rightarrow> Inl ''No MySQL database provided''
                  | Some database \<Rightarrow> Inr (DB_CONN_MYSQL user password database hostname)))))
      else Inr (DB_CONN_SQLITE ''techempower.db''
        [''PRAGMA mmap_size=44040192'', ''PRAGMA journal_mode=OFF'', ''PRAGMA locking_mode=EXCLUSIVE'']))"

text \<open>
  The program starts if and only if MySQL is not asked for or all four variables are set; an empty value
  counts as set.
\<close>

lemma params_read:
  "(\<exists>params. read_connection_params getenv = Inr params) \<longleftrightarrow>
     getenv ''USE_MYSQL'' = None \<or> (\<forall>v \<in> {''MYSQL_USER'', ''MYSQL_PASS'', ''MYSQL_HOST'', ''MYSQL_DB''}. getenv v \<noteq> None)"
  by (auto simp: read_connection_params_def split: option.splits)

section \<open>The connection of a thread\<close>

text \<open>
  What the drivers meet, and the connection functions of \<^verbatim>\<open>database.c\<close> on it.  The state
  is which threads have a connection, with the resources of the process.
\<close>

record connect_t =
  malloc_ok :: bool
  init_ok :: bool
  connect_ok :: bool
  charset_ok :: bool
  handle_ok :: bool
  open_ok :: bool

definition db_connect :: "db_connection_params \<Rightarrow> connect_t \<Rightarrow> resources \<Rightarrow> bool \<times> resources" where
  "db_connect params out r =
     (case params of
        DB_CONN_MYSQL user password database hostname \<Rightarrow> db_connect_mysql (malloc_ok out) (init_ok out) (connect_ok out) (charset_ok out) r
      | DB_CONN_SQLITE path pragmas \<Rightarrow> db_connect_sqlite (malloc_ok out) (handle_ok out) (open_ok out) r)"

definition get_db ::
    "db_connection_params \<Rightarrow> connect_t \<Rightarrow> nat \<Rightarrow> (nat \<Rightarrow> bool) \<times> resources \<Rightarrow> ((nat \<Rightarrow> bool) \<times> resources) option" where
  "get_db params out thread s =
     (case s of (connected, r) \<Rightarrow>
        if connected thread then Some (connected, r)
        else (case db_connect params out r of
                (False, r') \<Rightarrow> None
              | (True, r') \<Rightarrow> Some (connected(thread := True), r')))"

text \<open>Calls of \<^verbatim>\<open>get_db\<close>, each with its thread and what its driver would meet.\<close>

fun get_dbs :: "db_connection_params \<Rightarrow> (nat \<times> connect_t) list \<Rightarrow> (nat \<Rightarrow> bool) \<times> resources \<Rightarrow> ((nat \<Rightarrow> bool) \<times> resources) option" where
  "get_dbs params [] s = Some s"
| "get_dbs params ((thread, out) # calls) s = Option.bind (get_db params out thread s) (get_dbs params calls)"

lemma db_connect_one:
  assumes "db_connect params out r = (True, r')" "\<not> is_DB_CONN_MYSQL params \<Longrightarrow> open_ok out \<Longrightarrow> handle_ok out"
  shows "connections r' = connections r + 1"
  using assms by (cases params) (auto simp: db_connect_def db_connect_mysql_def db_connect_sqlite_def Let_def split: if_splits)

text \<open>
  However often the threads ask, each has one connection, for the whole of its life.  A database that
  was opened has a handle.
\<close>

lemma one_connection_per_thread:
  assumes "get_dbs params calls (connected, r) = Some (connected', r')" "finite {t. connected t}"
    "\<forall>(t, out) \<in> set calls. open_ok out \<longrightarrow> handle_ok out"
  shows "{t. connected' t} = {t. connected t} \<union> fst ` set calls \<and>
    connections r' = connections r + int (card (fst ` set calls - {t. connected t}))"
  using assms
proof (induction calls arbitrary: connected r)
  case (Cons call calls)
  obtain t c where call: "call = (t, c)" by force
  show ?case
  proof (cases "connected t")
    case True
    then have "get_dbs params calls (connected, r) = Some (connected', r')" using Cons.prems(1) by (simp add: call get_db_def)
    from Cons.IH [OF this] Cons.prems True call show ?thesis by (auto simp: insert_absorb insert_Diff_if)
  next
    case False
    then obtain r1 where c: "db_connect params c r = (True, r1)"
      and g: "get_dbs params calls (connected(t := True), r1) = Some (connected', r')"
      using Cons.prems(1) by (auto simp: call get_db_def bind_eq_Some_conv split: prod.splits bool.splits)
    have fin: "finite {x. (connected(t := True)) x}"
      using Cons.prems(2) by (rule rev_finite_subset [of "insert t _", OF finite.insertI]) auto
    have "connections r1 = connections r + 1" by (rule db_connect_one [OF c]) (use Cons.prems(3) call in auto)
    moreover have "insert t (fst ` set calls) - {x. connected x} = insert t (fst ` set calls - {x. (connected(t := True)) x})"
      using False by auto
    moreover have "t \<notin> fst ` set calls - {x. (connected(t := True)) x}" by simp
    ultimately show ?thesis using Cons.IH [OF g fin] Cons.prems(3) call by auto
  qed
qed simp

section \<open>The program\<close>

datatype lwan_resource = Lwan | Fortune_tpl | Cached_queries_cache

text \<open>
  What \<^verbatim>\<open>main\<close> does: the message it dies with, if any, and its resources; the main loop uses them.
  \<^verbatim>\<open>quit_lwan\<close> ends the process without giving anything back.
\<close>

definition lwan_main :: "(string \<Rightarrow> string option) \<Rightarrow> bool \<Rightarrow> bool \<Rightarrow> string option \<times> lwan_resource event list" where
  "lwan_main getenv tpl_ok cache_ok =
     (case read_connection_params getenv of
        Inl message \<Rightarrow> (Some message, [Acquire Lwan])
      | Inr params \<Rightarrow>
          if \<not> tpl_ok then (Some ''Could not compile fortune templates'', [Acquire Lwan])
          else if \<not> cache_ok then (Some ''Could not create cached queries cache'', [Acquire Lwan, Acquire Fortune_tpl])
          else (None, [Acquire Lwan, Acquire Fortune_tpl, Acquire Cached_queries_cache,
                       Use Lwan, Use Fortune_tpl, Use Cached_queries_cache,
                       Release Cached_queries_cache, Release Fortune_tpl, Release Lwan]))"

text \<open>A run that does not die gives everything back.\<close>

lemma lwan_main_ok: "fst (lwan_main getenv tpl_ok cache_ok) = None \<Longrightarrow> main_ok (\<lambda>_. None) {} {} {} {} (snd (lwan_main getenv tpl_ok cache_ok))"
  by (auto simp: lwan_main_def split: sum.splits if_splits)

end
