(* ===== verification/Lwan_Answers.thy ===== *)
theory Lwan_Answers
  imports Lwan_App
begin

text \<open>
  What the handlers of the lwan application answer and release: the rows and their text, the
  statements, the cache and the wait for it, the order of the fortunes.  Facts about rows are
  proved inside the contracts \<^verbatim>\<open>db_driver\<close> and \<^verbatim>\<open>db_scan\<close>, facts about what is
  given back inside \<^verbatim>\<open>db_ledger\<close>, so they hold with either driver.
\<close>

section \<open>What the handlers answer\<close>

text \<open>The text of a row: the first field of a descriptor comes last.\<close>

definition row_text :: "db_json \<Rightarrow> string" where
  "row_text item =
     (let q = [CHR 0x22]
      in ''{'' @ q @ ''randomNumber'' @ q @ '':'' @ dec_int (snd item) @ '','' @ q @ ''id'' @ q @ '':'' @ dec_int (fst item) @ ''}'')"

lemma desc_encodable: "type_encodable (Type_object db_json_desc)" "encodable queries_array_desc"
  by (simp_all add: db_json_desc_def queries_array_desc_def json_obj_descr_obj_array_def json_obj_descr_prim_def
      named_def json_field_name_def)

lemma round_up_4: "round_up 4 4 = 4"
  by (simp add: round_up_def)

lemma elem_size_db_json: "get_elem_size (Descr [] 8 0 4000 (Type_object db_json_desc)) = 8"
  by (simp add: db_json_desc_def json_obj_descr_prim_def round_up_4)

lemma db_json_text:
  assumes "cell_num (load st p) = fst item" "cell_num (load st (p + 4)) = snd item"
  shows "type_text strs plain_key st (Type_object db_json_desc) p v = row_text item"
  using assms by (simp add: db_json_desc_def json_obj_descr_prim_def json_field_name_def object_text_def plain_key_def
      quoted_def row_text_def Let_def)

lemma queries_cells:
  assumes "i < length items" "length items \<le> 500"
  shows "cell_num (load (queries_store items) (8 * int i)) = fst (items ! i)"
    "cell_num (load (queries_store items) (8 * int i + 4)) = snd (items ! i)"
proof -
  have "nat (8 * int i) = 8 * i" "nat (8 * int i + 4) = 8 * i + 4" "(8 * i + 4) div 8 = i" "(8 * i + 4) mod 8 = 4" by auto
  with assms show "cell_num (load (queries_store items) (8 * int i)) = fst (items ! i)"
    "cell_num (load (queries_store items) (8 * int i + 4)) = snd (items ! i)"
    by (auto simp: queries_store_def)
qed

lemma queries_text:
  assumes "length items \<le> 500"
  shows "value_text strs plain_key (queries_store items) queries_array_desc 0 = ''['' @ join (map row_text items) @ '']''"
proof -
  let ?e = "Descr [] 8 0 4000 (Type_object db_json_desc)"
  have "value_text strs plain_key (queries_store items) ?e (int i * 8 - 4000) = row_text (items ! i)"
    if "i < length items" for i
  proof -
    have "type_text strs plain_key (queries_store items) (Type_object db_json_desc) (8 * int i) (int i * 8 - 4000) =
        row_text (items ! i)"
      using db_json_text queries_cells [OF that assms] by blast
    then show ?thesis by (simp add: mult.commute)
  qed
  then have "map (\<lambda>i. value_text strs plain_key (queries_store items) ?e (int i * 8 - 4000)) [0..<length items] =
      map row_text items"
    by (intro nth_equalityI) simp_all
  moreover have "cell_count (load (queries_store items) 4000) = length items" by (simp add: queries_store_def)
  moreover have "value_text strs plain_key st queries_array_desc 0 =
      elements_text (value_text strs plain_key st ?e) ?e 0 (cell_count (load st 4000))" for st
    unfolding queries_array_desc_def json_obj_descr_obj_array_def by simp
  ultimately show ?thesis
    by (simp add: elements_text_def elem_size_db_json mult.commute del: value_text.simps get_elem_size.simps)
qed
text \<open>
  The row of a key, as the handlers take it from the result of the query, whose first column is
  the random number.
\<close>

definition world_row :: "query \<Rightarrow> int \<Rightarrow> db_json" where
  "world_row query k =
     (case query [DInt (k + 1)] of
        [x, y] # rest \<Rightarrow> (to_int32 (as_int y), to_int32 (as_int x))
      | _ \<Rightarrow> (0, 0))"

definition two_columns :: "query \<Rightarrow> bool" where
  "two_columns query \<longleftrightarrow> (\<forall>v. \<forall>row \<in> set (query v). length row = 2)"

definition frame_ok :: "frame \<Rightarrow> bool" where
  "frame_ok fr \<longleftrightarrow> at_number fr \<noteq> at_id fr"

lemma to_int32_int32: "int32 (to_int32 i)"
  using to_int32_range [of i] by (simp add: int32_def)

lemma world_row_int32: "int32 (fst (world_row query k))" "int32 (snd (world_row query k))"
  using to_int32_int32 by (auto simp: world_row_def split: list.splits) (simp_all add: int32_def)

context db_driver
begin

lemma db_query_key_row:
  assumes "usable query (at_number fr) (at_id fr) st" "frame_ok fr" "two_columns query"
    "db_query_key ops fr k (st, mem) = (Some item, st', mem')"
  shows "usable query (at_number fr) (at_id fr) st' \<and> item = world_row query k"
proof -
  let ?mem = "mem\<lparr>m_rows := (m_rows mem)(at_row fr := \<lparr>kind = CHR ''i'', u = DInt (k + 1)\<rparr>)\<rparr>"
  obtain st1 where b: "db_stmt_bind ops (at_row fr) 1 ?mem st = (True, st1)"
    using assms(4) by (auto simp: db_query_key_def Let_def split: prod.splits bool.splits)
  obtain st2 mem2 where s: "db_stmt_step ops ''ii'' [at_number fr, at_id fr] (st1, ?mem) = (True, st2, mem2)"
    using assms(4) b by (auto simp: db_query_key_def Let_def split: prod.splits bool.splits)
  have r: "item = (to_int32 (m_ints mem2 (at_id fr)), to_int32 (m_ints mem2 (at_number fr)))" "st' = st2"
    using assms(4) b s by (auto simp: db_query_key_def Let_def)
  have k: "kind (m_rows ?mem (at_row fr)) = CHR ''i''" by simp
  from row_of_key [OF assms(1) _ _ k b s] assms(2,3) r show ?thesis
    by (auto simp: frame_ok_def two_columns_def world_row_def)
qed

lemma query_loop_rows:
  assumes "usable query (at_number fr) (at_id fr) st" "frame_ok fr" "two_columns query"
    "query_loop ops fr rand i n (st, mem) = (Some items, st', mem')"
  shows "items = map (\<lambda>j. world_row query (int (rand j mod 10000))) [i..<i + n]"
  using assms(1,4)
proof (induction n arbitrary: i st mem items)
  case (Suc n)
  obtain item st1 mem1 where q: "db_query ops fr (rand i) (st, mem) = (Some item, st1, mem1)"
    using Suc.prems(2) by (auto split: prod.splits option.splits)
  obtain its where l: "query_loop ops fr rand (i + 1) n (st1, mem1) = (Some its, st', mem')" "items = item # its"
    using Suc.prems(2) q by (auto split: prod.splits)
  from db_query_key_row [OF Suc.prems(1) assms(2,3)] q
  have i: "usable query (at_number fr) (at_id fr) st1" "item = world_row query (int (rand i mod 10000))"
    by (simp_all add: db_query_def)
  from Suc.IH [OF i(1) l(1)] i(2) l(2) show ?case by (simp add: upt_conv_Cons del: upt_Suc)
qed simp

end

text \<open>The rows that a statement delivers, when every append succeeds and the messages are short.\<close>

context db_scan
begin

lemma read_fortunes_rows:
  assumes "scan a b (map (\<lambda>f. [DInt (fst f), DStr (snd f)]) fs) st" "\<forall>f \<in> set fs. int32 (fst f) \<and> length (snd f) < 256 \<and> NUL \<notin> set (snd f)"
    "alloc = (\<lambda>_. (True, True))" "length fs < fuel"
  shows "\<exists>s. read_fortunes ops alloc a b fuel acc (r, st, mem) = Some (Fortunes (acc @ fs), s)"
  using assms(1,2,4)
proof (induction fs arbitrary: fuel acc r st mem)
  case Nil
  then obtain n where n: "fuel = Suc n" by (cases fuel) auto
  obtain st' mem' where "db_stmt_step ops ''is'' [a, b, 256] (st, mem) = (False, st', mem')"
    using scan_end [of a b st mem] Nil.prems(1) by (cases "db_stmt_step ops ''is'' [a, b, 256] (st, mem)") auto
  with n show ?case by simp
next
  case (Cons f fs)
  then obtain n where n: "fuel = Suc n" "length fs < n" by (cases fuel) auto
  have short: "short_row [DInt (fst f), DStr (snd f)]" and i: "to_int32 (fst f) = fst f"
    using Cons.prems(2) by (simp_all add: to_int32_id int32_def)
  from scan_row [of a b "fst f" "snd f" "map (\<lambda>f. [DInt (fst f), DStr (snd f)]) fs" st, OF _ short, of mem] Cons.prems(1)
  obtain st' mem' where
    s: "db_stmt_step ops ''is'' [a, b, 256] (st, mem) = (True, st', mem')"
      "scan a b (map (\<lambda>f. [DInt (fst f), DStr (snd f)]) fs) st'" "m_ints mem' a = fst f" "c_string (m_bufs mem' b) = Some (snd f)"
    by auto
  obtain r' where ap: "append_fortune alloc acc (fst f) (snd f) r = (True, acc @ [f], r')"
    using assms(3) by (simp add: append_fortune_def Let_def)
  from Cons.IH [OF s(2) _ n(2), of "acc @ [f]" r' mem'] Cons.prems(2) obtain s'' where
    "read_fortunes ops alloc a b n (acc @ [f]) (r', st', mem') = Some (Fortunes ((acc @ [f]) @ fs), s'')" by auto
  with ap show ?case using n(1) s i by simp
qed

end
section \<open>Helper facts for the answers\<close>

definition keeps_contents :: "'b lwan_lib \<Rightarrow> ('b \<Rightarrow> string) \<Rightarrow> bool" where
  "keeps_contents lib contents \<longleftrightarrow> strbuf_appends (sb_append lib) contents \<and>
     (\<forall>b n. contents (sb_grow_to lib b n) = contents b) \<and> prints_int32 (int_to_str lib)"

lemma json_arr_text:
  assumes "keeps_contents lib contents" "length items \<le> 500" "\<forall>x \<in> set items. int32 (fst x) \<and> int32 (snd x)"
    "json_response_arr lib strs (queries_store items) queries_array_desc resp = (HTTP_OK, resp')"
  shows "contents (response_buffer resp') = contents (response_buffer resp) @ ''['' @ join (map row_text items) @ '']'' \<and>
    mime_type resp' = ''application/json''"
proof -
  have lib: "strbuf_appends (sb_append lib) contents" "prints_int32 (int_to_str lib)" using assms(1) by (simp_all add: keeps_contents_def)
  note ap = strbuf_appender [OF lib(1)]
  have nums: "nums_int32 (queries_store items)"
    using assms(3) by (auto simp: nums_int32_def queries_store_def) (auto simp: int32_def)
  have ty: "descr_type queries_array_desc = Type_array (Descr [] 8 0 4000 (Type_object db_json_desc)) 500"
    by (simp add: queries_array_desc_def json_obj_descr_obj_array_def)
  obtain b where e: "json_arr_encode_full (append_to_strbuf (sb_append lib)) (int_to_str lib) strs False (queries_store items)
      queries_array_desc 0 (response_buffer resp) = (0, b)" "response_buffer resp' = b" "mime_type resp' = ''application/json''"
    using assms(4) by (auto simp: json_response_arr_def split: prod.splits if_splits)
  let ?t = "''['' @ join (map row_text items) @ '']''"
  have "appender.writes contents (@) (\<lambda>_. True) (\<lambda>_ _. \<forall>sb s. fst (sb_append lib sb s)) {0, 1} ?t
      (json_arr_encode_full (append_to_strbuf (sb_append lib)) (int_to_str lib) strs False (queries_store items) queries_array_desc 0)"
    using appender.json_arr_encode_full_writes [OF ap lib(2) nums desc_encodable(2) ty, of strs False 0] queries_text [OF assms(2)] by simp
  then have "appender.wrote contents (@) (\<lambda>_. True) (\<lambda>_ _. \<forall>sb s. fst (sb_append lib sb s)) {0, 1} ?t
      (0, response_buffer resp) (0, b)"
    unfolding appender.writes_def [OF ap] using e(1) by (auto dest: spec [of _ "response_buffer resp"])
  from appender.wrote_start(3) [OF ap this] e show ?thesis by simp
qed

lemma json_obj_row_text:
  assumes "keeps_contents lib contents" "int32 (fst item)" "int32 (snd item)"
    "json_response_obj lib (\<lambda>_. []) (db_json_store item) db_json_desc resp = (HTTP_OK, resp')"
  shows "contents (response_buffer resp') = contents (response_buffer resp) @ row_text item \<and>
    mime_type resp' = ''application/json''"
proof -
  have lib: "strbuf_appends (sb_append lib) contents" "prints_int32 (int_to_str lib)" using assms(1) by (simp_all add: keeps_contents_def)
  note ap = strbuf_appender [OF lib(1)]
  have nums: "nums_int32 (db_json_store item)" using assms(2,3) by (auto simp: nums_int32_def db_json_store_def)
  obtain b where e: "json_obj_encode_full (append_to_strbuf (sb_append lib)) (int_to_str lib) (\<lambda>_. []) False (db_json_store item)
      db_json_desc 0 (response_buffer resp) = (0, b)" "response_buffer resp' = b" "mime_type resp' = ''application/json''"
    using assms(4) by (auto simp: json_response_obj_def split: prod.splits if_splits)
  have t: "type_text strs plain_key (db_json_store item) (Type_object db_json_desc) 0 0 = row_text item" for strs
    by (rule db_json_text) (simp_all add: db_json_store_def)
  from appender.json_obj_encode_full_writes [OF ap lib(2) nums desc_encodable(1), of "\<lambda>_. []" False 0 0]
  have "appender.wrote contents (@) (\<lambda>_. True) (\<lambda>_ _. \<forall>sb s. fst (sb_append lib sb s)) {0, 1} (row_text item)
      (0, response_buffer resp) (0, b)"
    unfolding appender.writes_def [OF ap] using e(1) t by (auto dest: spec [of _ "response_buffer resp"])
  from appender.wrote_start(3) [OF ap this] e show ?thesis by simp
qed

lemma count_parameter_range: "1 \<le> nat (count_parameter lib q) \<and> nat (count_parameter lib q) \<le> 500"
  by (auto simp: count_parameter_def split: option.split)

text \<open>What preparing promises for a query.\<close>

definition prepares :: "'st db \<Rightarrow> string \<Rightarrow> ('st \<Rightarrow> bool) \<Rightarrow> bool" where
  "prepares database sql good \<longleftrightarrow> (\<forall>r st r'. db_prepare_stmt database sql r = (Some st, r') \<longrightarrow> good st)"

section \<open>What the handlers release\<close>

text \<open>
  Whether the first rows of the statement of the fortunes are there, and whether one of them leaves the
  buffer without a zero.
\<close>

fun more_rows :: "'st db_stmt \<Rightarrow> nat \<Rightarrow> nat \<Rightarrow> nat \<Rightarrow> 'st \<times> db_mem \<Rightarrow> bool" where
  "more_rows ops a b 0 s = True"
| "more_rows ops a b (Suc n) s = (case db_stmt_step ops ''is'' [a, b, 256] s of (row, s) \<Rightarrow> row \<and> more_rows ops a b n s)"

fun fills_buffer :: "'st db_stmt \<Rightarrow> nat \<Rightarrow> nat \<Rightarrow> nat \<Rightarrow> 'st \<times> db_mem \<Rightarrow> bool" where
  "fills_buffer ops a b 0 s = False"
| "fills_buffer ops a b (Suc n) s =
     (case db_stmt_step ops ''is'' [a, b, 256] s of
        (row, st, mem) \<Rightarrow> row \<and> (c_string (m_bufs mem b) = None \<or> fills_buffer ops a b n (st, mem)))"

lemma read_fortunes_no_fuel:
  "read_fortunes ops alloc a b n fs (r, s) = None \<Longrightarrow> more_rows ops a b n s"
  by (induction n arbitrary: fs r s) (auto split: prod.splits bool.splits option.splits)

lemma read_fortunes_unterminated:
  "read_fortunes ops alloc a b n fs (r, s) = Some (Unterminated, r', st') \<Longrightarrow> fills_buffer ops a b n s"
  by (induction n arbitrary: fs r s) (auto split: prod.splits bool.splits option.splits)

text \<open>
  The resources while the fortunes are read: those from the start, the copies that are
  deferred, and the array once it has an element.
\<close>

definition reading :: "resources \<Rightarrow> fortune_item list \<Rightarrow> resources \<Rightarrow> bool" where
  "reading r0 gs r \<longleftrightarrow> deferred r0 + int (length gs) \<le> deferred r \<and>
     r = r0\<lparr>arrays := arrays r0 + of_bool (gs \<noteq> []), deferred := deferred r\<rparr>"

lemma append_fortune_reading:
  "reading r0 gs r \<Longrightarrow> append_fortune alloc gs i message r = (appended, gs', r') \<Longrightarrow> reading r0 gs' r'"
  by (cases r0; cases r) (auto simp: reading_def append_fortune_def Let_def split: prod.splits if_splits)

lemma reading_reset:
  "reading r0 gs r \<Longrightarrow>
    fortune_array_reset gs r = r0\<lparr>deferred := deferred r\<rparr> \<and> deferred r0 + int (length gs) \<le> deferred r"
  by (cases r0; cases r) (auto simp: reading_def fortune_array_reset_def)

definition fortunes_of :: "read_result \<Rightarrow> fortune_item list" where
  "fortunes_of res = (case res of Fortunes fs \<Rightarrow> fs | Append_failed fs \<Rightarrow> fs | Unterminated \<Rightarrow> [])"

context db_ledger
begin

lemma db_query_key_ok:
  "ok st \<Longrightarrow> db_query_key (db_stmt_ops database) fr k (st, mem) = (item, st', mem') \<Longrightarrow> ok st'"
  by (auto simp: db_query_key_def Let_def split: prod.splits bool.splits dest: bind_keeps step_keeps)

lemma query_loop_ok:
  "ok st \<Longrightarrow> query_loop (db_stmt_ops database) fr rand i n (st, mem) = (items, st', mem') \<Longrightarrow> ok st'"
  by (induction n arbitrary: i st mem items)
    (auto simp: db_query_def split: prod.splits option.splits dest: db_query_key_ok)

lemma db_released: "snd (snd (db lib database fr rand mem (resp, r))) = r"
proof (cases "db_prepare_stmt database random_number_query r")
  case (Pair s r1)
  show ?thesis
  proof (cases s)
    case None
    then show ?thesis using Pair prepare_fails [of random_number_query r r1] by (simp add: db_def)
  next
    case (Some st)
    obtain item st1 m1 where q: "db_query (db_stmt_ops database) fr (rand 0) (st, mem) = (item, st1, m1)" by (cases "db_query (db_stmt_ops database) fr (rand 0) (st, mem)")
    note t = prepare_takes [OF Pair [unfolded Some]]
    have "ok st1" using db_query_key_ok q t by (auto simp: db_query_def)
    from finalize_gives [OF this, of r1] t show ?thesis
      using Pair Some q by (cases item) (auto simp: db_def Let_def split: prod.splits)
  qed
qed

lemma queries_released: "snd (snd (queries lib database fr rand mem q (resp, r))) = r"
proof (cases "db_prepare_stmt database random_number_query r")
  case (Pair s r1)
  show ?thesis
  proof (cases s)
    case None
    then show ?thesis using Pair prepare_fails [of random_number_query r r1] by (simp add: queries_def)
  next
    case (Some st)
    let ?loop = "query_loop (db_stmt_ops database) fr rand 0 (nat (count_parameter lib q)) (st, mem)"
    obtain items st1 m1 where l: "?loop = (items, st1, m1)" by (cases ?loop)
    note t = prepare_takes [OF Pair [unfolded Some]]
    have "ok st1" using query_loop_ok l t by blast
    from finalize_gives [OF this, of r1] t show ?thesis
      using Pair Some l by (cases items) (auto simp: queries_def Let_def split: prod.splits)
  qed
qed

lemma cached_queries_new_released:
  "case cached_queries_new malloc_ok database fr mem k r of (None, r') \<Rightarrow> r' = r | (Some e, r') \<Rightarrow> cached_queries_free r' = r"
proof (cases malloc_ok)
  case True
  let ?r = "r\<lparr>blocks := blocks r + 1\<rparr>"
  obtain s r1 where p: "db_prepare_stmt database cached_random_number_query ?r = (s, r1)"
    by (cases "db_prepare_stmt database cached_random_number_query ?r")
  show ?thesis
  proof (cases s)
    case None
    then show ?thesis using True p prepare_fails [of cached_random_number_query ?r r1] by (simp add: cached_queries_new_def)
  next
    case (Some st)
    obtain item st1 m1 where l: "db_query_key (db_stmt_ops database) fr (atoi k) (st, mem) = (item, st1, m1)"
      by (cases "db_query_key (db_stmt_ops database) fr (atoi k) (st, mem)")
    note t = prepare_takes [OF p [unfolded Some]]
    have "ok st1" using db_query_key_ok l t by blast
    note f = finalize_gives [OF this]
    show ?thesis using True p Some l f t
      by (cases item) (simp_all add: cached_queries_new_def cached_queries_free_def)
  qed
qed (simp add: cached_queries_new_def)

lemma read_fortunes_ok:
  "ok st \<Longrightarrow> reading r0 fs r \<Longrightarrow> read_fortunes (db_stmt_ops database) alloc a b n fs (r, st, mem) = Some (res, r', st') \<Longrightarrow>
    ok st' \<and> (res \<noteq> Unterminated \<longrightarrow> reading r0 (fortunes_of res) r')"
proof (induction n arbitrary: fs r st mem)
  case (Suc n)
  obtain row st1 m1 where s: "db_stmt_step (db_stmt_ops database) ''is'' [a, b, 256] (st, mem) = (row, st1, m1)"
    by (cases "db_stmt_step (db_stmt_ops database) ''is'' [a, b, 256] (st, mem)")
  have st1: "ok st1" by (rule step_keeps [OF Suc.prems(1) s])
  show ?case
  proof (cases "row \<and> c_string (m_bufs m1 b) \<noteq> None")
    case False
    then show ?thesis using Suc.prems s st1 by (auto simp: fortunes_of_def split: bool.splits)
  next
    case True
    then obtain message where m: "row" "c_string (m_bufs m1 b) = Some message" by auto
    obtain appended fs1 r1 where ap: "append_fortune alloc fs (to_int32 (m_ints m1 a)) message r = (appended, fs1, r1)"
      by (cases "append_fortune alloc fs (to_int32 (m_ints m1 a)) message r")
    note rd = append_fortune_reading [OF Suc.prems(2) ap]
    show ?thesis
      using Suc.prems(3) s m ap rd st1 Suc.IH [OF st1 rd, of m1]
      by (cases appended) (auto simp: fortunes_of_def)
  qed
qed simp

lemma fortunes_released:
  "case fortune_list_generator array_sort database alloc a b n mem r of
     Yields ys r' \<Rightarrow> r' = r\<lparr>deferred := deferred r'\<rparr> \<and> deferred r \<le> deferred r'
   | Reads_past_buffer \<Rightarrow> \<exists>st r1. db_prepare_stmt database fortune_query r = (Some st, r1) \<and> fills_buffer (db_stmt_ops database) a b n (st, mem)
   | More_rows \<Rightarrow> \<exists>st r1. db_prepare_stmt database fortune_query r = (Some st, r1) \<and> more_rows (db_stmt_ops database) a b n (st, mem)"
proof (cases "db_prepare_stmt database fortune_query r")
  case (Pair s r1)
  show ?thesis
  proof (cases s)
    case None
    then show ?thesis using Pair prepare_fails [of fortune_query r r1] by (simp add: fortune_list_generator_def)
  next
    case (Some st)
    note t = prepare_takes [OF Pair [unfolded Some]]
    have fin: "case Yields ys (db_stmt_finalize (db_stmt_ops database) st1 (fortune_array_reset fs r2)) of
        Yields ys r' \<Rightarrow> r' = r\<lparr>deferred := deferred r'\<rparr> \<and> deferred r \<le> deferred r' | _ \<Rightarrow> False"
      if "ok st1" "reading r1 fs r2" for ys st1 fs r2
      using finalize_gives [OF that(1)] reading_reset [OF that(2)] t by simp
    have rd: "reading r1 [] r1" by (simp add: reading_def)
    show ?thesis
    proof (cases "read_fortunes (db_stmt_ops database) alloc a b n [] (r1, st, mem)")
      case None
      then show ?thesis using Pair Some read_fortunes_no_fuel [OF None] by (simp add: fortune_list_generator_def)
    next
      case (Some x)
      then obtain res r2 st1 where x: "read_fortunes (db_stmt_ops database) alloc a b n [] (r1, st, mem) = Some (res, r2, st1)" by (cases x) auto
      note o = read_fortunes_ok [OF conjunct1 [OF t] rd x]
      show ?thesis
      proof (cases res)
        case (Fortunes fs)
        obtain appended fs1 r3 where ap: "append_fortune alloc fs 0 ''Additional fortune added at request time.'' r2 = (appended, fs1, r3)"
          by (cases "append_fortune alloc fs 0 ''Additional fortune added at request time.'' r2")
        have "reading r1 fs1 r3" using append_fortune_reading [OF _ ap] o Fortunes by (simp add: fortunes_of_def)
        with fin [of st1 fs1 r3] o show ?thesis
          using Pair \<open>s = Some st\<close> x Fortunes ap by (cases appended) (simp_all add: fortune_list_generator_def Let_def)
      next
        case (Append_failed fs)
        with fin [of st1 fs r2 "[]"] o show ?thesis
          using Pair \<open>s = Some st\<close> x by (simp add: fortune_list_generator_def Let_def fortunes_of_def)
      next
        case Unterminated
        then show ?thesis using Pair \<open>s = Some st\<close> x read_fortunes_unterminated by (fastforce simp: fortune_list_generator_def Let_def)
      qed
    qed
  qed
qed

end

section \<open>Waiting for the cache\<close>

text \<open>The time a request sleeps, in milliseconds.\<close>

fun slept :: "wait list \<Rightarrow> nat" where
  "slept [] = 0"
| "slept (Yield # ws) = slept ws"
| "slept (Sleep n # ws) = n + slept ws"

lemma slept_append [simp]: "slept (ws @ ws') = slept ws + slept ws'"
  by (induction ws rule: slept.induct) auto

fun wait_bound :: "nat \<Rightarrow> nat" where
  "wait_bound 0 = 0"
| "wait_bound (Suc n) = (if Suc n > 16 then Suc n div 8 else 0) + wait_bound n"

text \<open>The cache after \<^verbatim>\<open>n\<close> rounds of trying and waiting.\<close>

fun blocked_rounds :: "'c cache \<Rightarrow> string \<Rightarrow> nat \<Rightarrow> 'c \<Rightarrow> 'c option" where
  "blocked_rounds cl k 0 c = Some c"
| "blocked_rounds cl k (Suc n) c =
     (case cache_get cl k c of (Would_block, c') \<Rightarrow> blocked_rounds cl k n (cache_wait cl c') | _ \<Rightarrow> None)"

text \<open>
  What a request does in its first \<^verbatim>\<open>m\<close> rounds, when it may try \<^verbatim>\<open>n\<close> times:
  it yields in each, and sleeps in those before the last sixteen.
\<close>

fun wait_rounds :: "nat \<Rightarrow> nat \<Rightarrow> wait list" where
  "wait_rounds (Suc n) (Suc m) = Yield # (if Suc n > 16 then [Sleep (Suc n div 8)] else []) @ wait_rounds n m"
| "wait_rounds n m = []"

definition yields :: "wait list \<Rightarrow> nat" where
  "yields ws = length (filter (\<lambda>w. w = Yield) ws)"

lemma wait_rounds_yields: "m \<le> n \<Longrightarrow> yields (wait_rounds n m) = m"
  by (induction n m rule: wait_rounds.induct) (auto simp: yields_def)

lemma wait_rounds_slept: "m \<le> n \<Longrightarrow> slept (wait_rounds n m) \<le> wait_bound n"
  by (induction n m rule: wait_rounds.induct) auto

lemma wait_rounds_slept_all: "slept (wait_rounds n n) = wait_bound n"
  by (induction n) auto

lemma get_entry_loop_rounds:
  "get_entry_loop cl k n (c, ws) = (e, c', ws') \<Longrightarrow>
    \<exists>m c1. blocked_rounds cl k m c = Some c1 \<and> ws' = ws @ wait_rounds n m \<and>
      (m = n \<and> e = None \<and> c' = c1 \<or>
       m < n \<and> ((\<exists>x. cache_get cl k c1 = (Entry x, c') \<and> e = Some x) \<or> cache_get cl k c1 = (Cache_error, c') \<and> e = None))"
proof (induction n arbitrary: c ws)
  case 0
  then show ?case by (intro exI [of _ 0] exI [of _ c]) simp
next
  case (Suc n)
  obtain a c2 where g: "cache_get cl k c = (a, c2)" by (cases "cache_get cl k c")
  show ?case
  proof (cases "a = Would_block")
    case True
    let ?w = "Yield # (if Suc n > 16 then [Sleep (Suc n div 8)] else [])"
    from Suc.prems g True have "get_entry_loop cl k n (cache_wait cl c2, ws @ ?w) = (e, c', ws')" by simp
    from Suc.IH [OF this] obtain m c1 where
      m: "blocked_rounds cl k m (cache_wait cl c2) = Some c1" "ws' = (ws @ ?w) @ wait_rounds n m"
        "m = n \<and> e = None \<and> c' = c1 \<or>
         m < n \<and> ((\<exists>x. cache_get cl k c1 = (Entry x, c') \<and> e = Some x) \<or> cache_get cl k c1 = (Cache_error, c') \<and> e = None)"
      by blast
    then show ?thesis using g True by (intro exI [of _ "Suc m"] exI [of _ c1]) auto
  next
    case False
    then show ?thesis using Suc.prems g by (intro exI [of _ 0] exI [of _ c]) (cases a; auto)
  qed
qed

text \<open>What the cache promises: an entry for its key, and exact references.\<close>

definition cache_contract :: "'c cache \<Rightarrow> ('c \<Rightarrow> int) \<Rightarrow> (string \<Rightarrow> db_json) \<Rightarrow> bool" where
  "cache_contract cl refs row \<longleftrightarrow>
     (\<forall>k c. case cache_get cl k c of (Entry e, c') \<Rightarrow> refs c' = refs c + 1 \<and> e = row k | (_, c') \<Rightarrow> refs c' = refs c) \<and>
     (\<forall>c. refs (cache_wait cl c) = refs c) \<and> (\<forall>e c. refs (cache_unref cl e c) = refs c - 1)"

lemma cache_contract_get:
  assumes "cache_contract cl refs row" "cache_get cl k c = (a, c')"
  shows "case a of Entry e \<Rightarrow> refs c' = refs c + 1 \<and> e = row k | _ \<Rightarrow> refs c' = refs c"
proof -
  have "\<forall>k c. case cache_get cl k c of (Entry e, c') \<Rightarrow> refs c' = refs c + 1 \<and> e = row k | (_, c') \<Rightarrow> refs c' = refs c"
    using assms(1) by (simp add: cache_contract_def)
  from this [THEN spec [where x = k], THEN spec [where x = c]] assms(2) show ?thesis by (cases a) simp_all
qed

lemma get_entry_loop_refs:
  "cache_contract cl refs row \<Longrightarrow> get_entry_loop cl k n (c, ws) = (e, c', ws') \<Longrightarrow>
    refs c' = refs c + of_bool (e \<noteq> None) \<and> (case e of None \<Rightarrow> True | Some x \<Rightarrow> x = row k)"
proof (induction n arbitrary: c ws)
  case (Suc n)
  obtain a c1 where g: "cache_get cl k c = (a, c1)" by (cases "cache_get cl k c")
  note r = cache_contract_get [OF Suc.prems(1) g]
  show ?case
  proof (cases a)
    case Would_block
    with Suc.prems g have "get_entry_loop cl k n (cache_wait cl c1, ws @ Yield # (if Suc n > 16 then [Sleep (Suc n div 8)] else [])) = (e, c', ws')"
      by simp
    from Suc.IH [OF Suc.prems(1) this] r Would_block Suc.prems(1) show ?thesis by (simp add: cache_contract_def)
  qed (use Suc.prems g r in auto)
qed auto

lemma cached_loop_rows:
  "cache_contract cl refs row \<Longrightarrow> cached_loop lib cl rand i n (c, ws) = (items, c', ws') \<Longrightarrow>
    refs c' = refs c \<and>
    (case items of None \<Rightarrow> True | Some xs \<Rightarrow> xs = map (\<lambda>j. row (int_to_str lib (int (rand j mod 10000)))) [i..<i + n])"
proof (induction n arbitrary: i c ws items c' ws')
  case (Suc n)
  obtain e c1 ws1 where g: "my_cache_coro_get_and_ref_entry cl (int_to_str lib (int (rand i mod 10000))) (c, ws) = (e, c1, ws1)"
    by (cases "my_cache_coro_get_and_ref_entry cl (int_to_str lib (int (rand i mod 10000))) (c, ws)")
  from get_entry_loop_refs [OF Suc.prems(1) g [unfolded my_cache_coro_get_and_ref_entry_def]]
  have r: "refs c1 = refs c + of_bool (e \<noteq> None)" "case e of None \<Rightarrow> True | Some x \<Rightarrow> x = row (int_to_str lib (int (rand i mod 10000)))"
    by auto
  show ?case
  proof (cases e)
    case None
    then show ?thesis using Suc.prems(2) g r by auto
  next
    case (Some x)
    obtain its c2 ws2 where l: "cached_loop lib cl rand (i + 1) n (cache_unref cl x c1, ws1) = (its, c2, ws2)"
      by (cases "cached_loop lib cl rand (i + 1) n (cache_unref cl x c1, ws1)")
    have u: "refs (cache_unref cl x c1) = refs c1 - 1" using Suc.prems(1) by (cases x) (simp add: cache_contract_def)
    from Suc.IH [OF Suc.prems(1) l] Suc.prems(2) g Some r l u show ?thesis
      by (cases its) (auto simp: upt_conv_Cons simp del: upt_Suc)
  qed
qed auto
text \<open>The comparison of the fortunes is a total preorder, as their sort asks for.\<close>

interpretation fortune_items: comparator fortune_compare
proof
  show "fortune_compare x y \<le> 0 \<or> fortune_compare y x \<le> 0" for x y
    unfolding fortune_compare_def strcmp_le by (rule bytes_le_total)
  show "fortune_compare x y \<le> 0 \<Longrightarrow> fortune_compare y z \<le> 0 \<Longrightarrow> fortune_compare x z \<le> 0" for x y z
    unfolding fortune_compare_def strcmp_le by (rule bytes_le_trans)
qed

section \<open>Sample libraries\<close>

text \<open>A statement of SQLite for the witnesses: parameters, rows that are left, and the current row.\<close>

type_synonym sample_stmt = "db_value list \<times> db_value list list option \<times> db_value list"

definition sample_sqlite :: "query \<Rightarrow> sample_stmt sqlite_lib" where
  "sample_sqlite query =
     \<lparr>sq_reset = (\<lambda>(p, r, c). (p, None, c)), sq_clear = (\<lambda>(p, r, c). ([], r, c)),
      sq_bind_text = (\<lambda>i v (p, r, c). (True, p @ [DStr v], r, c)),
      sq_bind_int = (\<lambda>i v (p, r, c). (True, p @ [DInt v], r, c)),
      sq_step = (\<lambda>(p, r, c). case (case r of None \<Rightarrow> query p | Some rs \<Rightarrow> rs) of
         [] \<Rightarrow> (False, p, Some [], c) | row # rest \<Rightarrow> (True, p, Some rest, row)),
      sq_column_int = (\<lambda>(p, r, c) i. as_int (c ! i)), sq_column_text = (\<lambda>(p, r, c) i. as_str (c ! i))\<rparr>"

lemma sample_sqlite_contract: "sqlite_contract (sample_sqlite query) query fst (\<lambda>s. fst (snd s)) (\<lambda>s. snd (snd s))"
  by (auto simp: sqlite_contract_def sample_sqlite_def split: list.splits option.splits)

text \<open>The table of the witnesses: the random number of an id is twice the id.\<close>

fun sample_world :: query where
  "sample_world [DInt k] = [[DInt (2 * k), DInt k]]"
| "sample_world v = []"

definition sample_database :: "query \<Rightarrow> sample_stmt db" where
  "sample_database query =
     \<lparr>db_prepare = (\<lambda>sql r. db_prepare_sqlite True (True, [], None, []) r), db_stmt_ops = sqlite_ops (sample_sqlite query)\<rparr>"

definition sample_lib :: "string lwan_lib" where
  "sample_lib = \<lparr>sb_append = (\<lambda>b s. (True, b @ s)), sb_grow_to = (\<lambda>b n. b), sb_set_static = (\<lambda>b s. s),
     int_to_str = dec_int, parse_long = (\<lambda>s d. fst (strtol10 s))\<rparr>"

definition sample_mem :: db_mem where
  "sample_mem = \<lparr>m_rows = (\<lambda>_. \<lparr>kind = NUL, u = DInt 0\<rparr>), m_ints = (\<lambda>_. 0), m_bufs = (\<lambda>_. [])\<rparr>"

definition sample_frame :: frame where "sample_frame = \<lparr>at_row = 0, at_number = 0, at_id = 1\<rparr>"

definition no_resources :: resources where "no_resources = \<lparr>blocks = 0, statements = 0, connections = 0, arrays = 0, deferred = 0\<rparr>"

definition empty_response :: "string lwan_response" where "empty_response = \<lparr>response_buffer = [], mime_type = []\<rparr>"

lemma sample_facts:
  "keeps_contents sample_lib (\<lambda>b. b)" "frame_ok sample_frame" "two_columns sample_world"
  "prepares (sample_database query) sql (sqlite_usable (sample_sqlite query) fst (\<lambda>s. fst (snd s)) (\<lambda>s. snd (snd s)) query a b)"
  "prepares (sample_database query) sql (sqlite_scan (sample_sqlite query) query fst (\<lambda>s. fst (snd s)) (\<lambda>s. snd (snd s)) a b (query []))"
proof -
  show "keeps_contents sample_lib (\<lambda>b. b)"
    by (simp add: keeps_contents_def sample_lib_def strbuf_appends_def prints_int32_def)
  show "frame_ok sample_frame" by (simp add: frame_ok_def sample_frame_def)
  have "length row = 2" if "row \<in> set (sample_world v)" for v row using that by (cases v rule: sample_world.cases) auto
  then show "two_columns sample_world" by (simp add: two_columns_def)
  show "prepares (sample_database query) sql (sqlite_usable (sample_sqlite query) fst (\<lambda>s. fst (snd s)) (\<lambda>s. snd (snd s)) query a b)"
    by (simp add: prepares_def sqlite_usable_def sample_sqlite_contract)
  have "fst (sq_step (sample_sqlite query) s)" if "(case fst (snd s) of None \<Rightarrow> query (fst s) | Some rs \<Rightarrow> rs) \<noteq> []" for s
    using that by (auto simp: sample_sqlite_def split: prod.splits list.splits option.splits)
  then show "prepares (sample_database query) sql (sqlite_scan (sample_sqlite query) query fst (\<lambda>s. fst (snd s)) (\<lambda>s. snd (snd s)) a b (query []))"
    by (auto simp: prepares_def sqlite_scan_def sample_sqlite_contract sample_database_def db_prepare_stmt_def db_prepare_sqlite_def Let_def)
qed

lemma sample_driver:
  "db_driver (db_stmt_ops (sample_database query)) (sqlite_usable (sample_sqlite query) fst (\<lambda>s. fst (snd s)) (\<lambda>s. snd (snd s)))"
  "db_scan (db_stmt_ops (sample_database query)) (sqlite_scan (sample_sqlite query) query fst (\<lambda>s. fst (snd s)) (\<lambda>s. snd (snd s)))"
  by (simp_all add: sample_database_def sqlite.db_driver_axioms sqlite_rows.db_scan_axioms)

lemma fortune_list_sorted:
  assumes "db_scan (db_stmt_ops database) scan"
    "db_prepare_stmt database fortune_query r = (Some st, r1)" "scan a b (map (\<lambda>f. [DInt (fst f), DStr (snd f)]) fs) st"
    "\<forall>f \<in> set fs. int32 (fst f) \<and> length (snd f) < 256 \<and> NUL \<notin> set (snd f)" "alloc = (\<lambda>_. (True, True))"
    "\<And>cmp xs. mset (array_sort cmp xs) = mset xs" "\<And>xs. sorted_wrt (\<lambda>x y. fortune_compare x y \<le> 0) (array_sort fortune_compare xs)"
    "length fs < fuel"
  shows "\<exists>ys r'. fortune_list_generator array_sort database alloc a b fuel mem r = Yields ys r' \<and>
    sorted_wrt (\<lambda>x y. strcmp (snd x) (snd y) \<le> 0) ys \<and>
    mset ys = add_mset (0, ''Additional fortune added at request time.'') (mset fs)"
proof -
  from db_scan.read_fortunes_rows [OF assms(1,3,4,5,8), where acc = "[]" and mem = mem and r = r1] obtain r2 st' where
    r: "read_fortunes (db_stmt_ops database) alloc a b fuel [] (r1, st, mem) = Some (Fortunes fs, r2, st')" by auto
  let ?fs = "fs @ [(0, ''Additional fortune added at request time.'')]"
  obtain r3 where "fortune_list_generator array_sort database alloc a b fuel mem r = Yields (array_sort fortune_compare ?fs) r3"
    using assms(2) r assms(5) by (simp add: fortune_list_generator_def append_fortune_def Let_def)
  with assms(6) [of fortune_compare ?fs] assms(7) [of ?fs] show ?thesis by (simp add: fortune_compare_def)
qed

text \<open>
  What it means that the handlers over a database release what they took: no change of what is
  held, apart from the copies that a coroutine frees.
\<close>

definition releases :: "'st db \<Rightarrow> 'b lwan_lib \<Rightarrow> bool" where
  "releases database lib \<longleftrightarrow>
     (\<forall>fr rand mem resp r. snd (snd (db lib database fr rand mem (resp, r))) = r) \<and>
     (\<forall>fr rand mem q resp r. snd (snd (queries lib database fr rand mem q (resp, r))) = r) \<and>
     (\<forall>malloc_ok fr mem k r. case cached_queries_new malloc_ok database fr mem k r of
        (None, r') \<Rightarrow> r' = r | (Some e, r') \<Rightarrow> cached_queries_free r' = r) \<and>
     (\<forall>array_sort alloc a b n mem r. case fortune_list_generator array_sort database alloc a b n mem r of
        Yields ys r' \<Rightarrow> r' = r\<lparr>deferred := deferred r'\<rparr> \<and> deferred r \<le> deferred r'
      | Reads_past_buffer \<Rightarrow> \<exists>st r1. db_prepare_stmt database fortune_query r = (Some st, r1) \<and>
          fills_buffer (db_stmt_ops database) a b n (st, mem)
      | More_rows \<Rightarrow> \<exists>st r1. db_prepare_stmt database fortune_query r = (Some st, r1) \<and>
          more_rows (db_stmt_ops database) a b n (st, mem))"

section \<open>Properties\<close>

text \<open>C10. The queries handler: an answer with status 200 is the JSON array of the rows of the database for
  the numbers drawn, in the order they were drawn, as many as the request asks for, at least one
  and at most 500; with either driver, for every frame of the locals that does not move.\<close>

theorem lwan_queries_body:
  assumes "db_driver (db_stmt_ops database) usable"
    "prepares database random_number_query (usable query (at_number fr) (at_id fr))" "frame_ok fr" "two_columns query"
    "keeps_contents lib contents" "queries lib database fr rand mem q (resp, r) = (HTTP_OK, resp', r')"
  shows "contents (response_buffer resp') = contents (response_buffer resp) @
      ''['' @ join (map (\<lambda>j. row_text (world_row query (int (rand j mod 10000)))) [0..<nat (count_parameter lib q)]) @ '']'' \<and>
    mime_type resp' = ''application/json'' \<and>
    1 \<le> nat (count_parameter lib q) \<and> nat (count_parameter lib q) \<le> 500"
proof -
  obtain stmt r1 where p0: "db_prepare_stmt database random_number_query r = (stmt, r1)"
    by (cases "db_prepare_stmt database random_number_query r")
  with assms(6) obtain st where p: "db_prepare_stmt database random_number_query r = (Some st, r1)"
    by (cases stmt) (simp_all add: queries_def)
  obtain its st1 m1 where l0: "query_loop (db_stmt_ops database) fr rand 0 (nat (count_parameter lib q)) (st, mem) = (its, st1, m1)"
    by (cases "query_loop (db_stmt_ops database) fr rand 0 (nat (count_parameter lib q)) (st, mem)")
  with assms(6) p obtain items where
    l: "query_loop (db_stmt_ops database) fr rand 0 (nat (count_parameter lib q)) (st, mem) = (Some items, st1, m1)"
    by (cases its) (simp_all add: queries_def)
  have "usable query (at_number fr) (at_id fr) st" using assms(2) p unfolding prepares_def by blast
  from db_driver.query_loop_rows [OF assms(1) this assms(3,4) l]
  have items: "items = map (\<lambda>j. world_row query (int (rand j mod 10000))) [0..<nat (count_parameter lib q)]" by simp
  let ?resp = "resp\<lparr>response_buffer := sb_grow_to lib (response_buffer resp) (32 * nat (count_parameter lib q))\<rparr>"
  have "json_response_arr lib (\<lambda>_. []) (queries_store items) queries_array_desc ?resp = (HTTP_OK, resp')"
    using assms(6) p l by (auto simp: queries_def Let_def split: prod.splits)
  from json_arr_text [OF assms(5) _ _ this] items count_parameter_range [of lib q] world_row_int32 [of query] assms(5)
  show ?thesis by (simp add: keeps_contents_def comp_def)
qed

theorem lwan_queries_body_witness:
  "response_buffer (fst (snd (queries sample_lib (sample_database sample_world) sample_frame (\<lambda>j. j) sample_mem (Some ''2'')
     (empty_response, no_resources)))) = ''['' @ row_text (1, 2) @ '','' @ row_text (2, 4) @ '']''"
proof -
  let ?q = "queries sample_lib (sample_database sample_world) sample_frame (\<lambda>j. j) sample_mem (Some ''2'') (empty_response, no_resources)"
  obtain status resp r where q: "?q = (status, resp, r)" by (cases ?q)
  have n: "nat (count_parameter sample_lib (Some ''2'')) = 2" by code_simp
  have "fst ?q = HTTP_OK" by code_simp
  with q have "?q = (HTTP_OK, resp, r)" by simp
  from lwan_queries_body [OF sample_driver(1) sample_facts(4) sample_facts(2,3,1) this] q n show ?thesis
    by (simp add: empty_response_def world_row_def to_int32_id upt_rec)
qed

text \<open>C16. With either driver, whatever the libraries answer and whichever allocations fail, the handlers for
  one row and for several rows hold afterwards what they held before: the statement, its block and the
  arrays that binding and stepping allocated are given back.  The entry of the cache is
  given back as well when it is not made, and by its free function when it is.  The generator of the
  fortunes, run to its end, also gives back its array; the copies of the messages
  are left to the coroutine, which frees them when it ends.  The two cases in which it does not end like that are
  named: more rows than the fuel, and a message that fills its buffer without a zero, which the
  code reads past.\<close>

theorem lwan_statements_released:
  "releases (mysql_db my_malloc init prepare my_lib) lib \<and> releases (sqlite_db sq_malloc sq_prepare sq_lib) lib"
  by (simp add: releases_def mysql_ledger.db_released mysql_ledger.queries_released mysql_ledger.cached_queries_new_released
      mysql_ledger.fortunes_released sqlite_ledger.db_released sqlite_ledger.queries_released
      sqlite_ledger.cached_queries_new_released sqlite_ledger.fortunes_released)

text \<open>C22. The cached queries handler gives back every reference to an entry that it took, also when an entry
  cannot be had; an answer with status 200 is the JSON array of the cached rows of the keys drawn.\<close>

theorem lwan_cached_queries_body:
  assumes "cache_contract cl refs row" "keeps_contents lib contents" "\<And>k. int32 (fst (row k)) \<and> int32 (snd (row k))"
    "cached_queries lib cl rand q (resp, c, ws) = (status, resp', c', ws')"
  shows "refs c' = refs c \<and>
    (status \<noteq> HTTP_OK \<or> contents (response_buffer resp') = contents (response_buffer resp) @
      ''['' @ join (map (\<lambda>j. row_text (row (int_to_str lib (int (rand j mod 10000))))) [0..<nat (count_parameter lib q)]) @ '']'')"
proof -
  let ?n = "nat (count_parameter lib q)"
  obtain items c1 ws1 where l: "cached_loop lib cl rand 0 ?n (c, ws) = (items, c1, ws1)"
    by (cases "cached_loop lib cl rand 0 ?n (c, ws)")
  note rows = cached_loop_rows [OF assms(1) l]
  show ?thesis
  proof (cases items)
    case None
    then show ?thesis using assms(4) l rows by (auto simp: cached_queries_def Let_def)
  next
    case (Some xs)
    let ?resp = "resp\<lparr>response_buffer := sb_grow_to lib (response_buffer resp) (32 * ?n)\<rparr>"
    have xs: "xs = map (\<lambda>j. row (int_to_str lib (int (rand j mod 10000)))) [0..<?n]" using rows Some by simp
    have r: "json_response_arr lib (\<lambda>_. []) (queries_store xs) queries_array_desc ?resp = (status, resp')" "c' = c1"
      using assms(4) l Some by (auto simp: cached_queries_def Let_def split: prod.splits)
    have "length xs \<le> 500" "\<forall>x \<in> set xs. int32 (fst x) \<and> int32 (snd x)"
      using xs count_parameter_range [of lib q] assms(3) by auto
    from json_arr_text [OF assms(2) this, of "\<lambda>_. []" ?resp resp'] r rows xs assms(2) show ?thesis
      by (auto simp: keeps_contents_def comp_def)
  qed
qed

theorem lwan_cached_queries_body_witness:
  "\<exists>resp ws. cached_queries sample_lib \<lparr>cache_get = (\<lambda>k c. (Entry (1, 2), c + 1)), cache_wait = (\<lambda>c. c), cache_unref = (\<lambda>e c. c - 1)\<rparr>
    (\<lambda>j. j) None (empty_response, 0 :: int, []) = (HTTP_OK, resp, 0, ws) \<and> response_buffer resp = ''['' @ row_text (1, 2) @ '']''"
proof -
  let ?cl = "\<lparr>cache_get = (\<lambda>k c. (Entry (1, 2), c + 1)), cache_wait = (\<lambda>c. c), cache_unref = (\<lambda>e c. c - 1)\<rparr> :: int cache"
  let ?q = "cached_queries sample_lib ?cl (\<lambda>j. j) None (empty_response, 0, [])"
  obtain status resp c ws where q: "?q = (status, resp, c, ws)" by (cases ?q)
  have ok: "fst ?q = HTTP_OK" and n: "nat (count_parameter sample_lib None) = 1" by code_simp+
  have "cache_contract ?cl (\<lambda>c. c) (\<lambda>k. (1, 2))" by (simp add: cache_contract_def)
  from lwan_cached_queries_body [OF this sample_facts(1) _ q ] ok q n show ?thesis
    by (simp add: int32_def empty_response_def)
qed

text \<open>C37. Whatever the cache answers and whatever the other requests do meanwhile, a request for an entry ends: it finds
  the cache busy in at most 64 rounds, yields once in each and sleeps at most 222 milliseconds.  If
  the cache is not busy after fewer than 64 rounds, the request gets the entry, or nothing
  when the cache reports another error; if it stays busy for all 64, the request gives up
  after exactly 222 milliseconds of sleep, without another try.\<close>

theorem lwan_cache_wait_bounded:
  "case my_cache_coro_get_and_ref_entry cl k (c, ws) of (e, c', ws') \<Rightarrow>
     \<exists>m c1. blocked_rounds cl k m c = Some c1 \<and> yields ws' = yields ws + m \<and>
       (m = 64 \<and> e = None \<and> c' = c1 \<and> slept ws' = slept ws + 222 \<or>
        m < 64 \<and> slept ws' \<le> slept ws + 222 \<and>
          ((\<exists>x. cache_get cl k c1 = (Entry x, c') \<and> e = Some x) \<or> cache_get cl k c1 = (Cache_error, c') \<and> e = None))"
proof -
  obtain e c' ws' where g: "get_entry_loop cl k 64 (c, ws) = (e, c', ws')" by (cases "get_entry_loop cl k 64 (c, ws)")
  from get_entry_loop_rounds [OF g] obtain m c1 where
    m: "blocked_rounds cl k m c = Some c1" "ws' = ws @ wait_rounds 64 m"
      "m = 64 \<and> e = None \<and> c' = c1 \<or>
       m < 64 \<and> ((\<exists>x. cache_get cl k c1 = (Entry x, c') \<and> e = Some x) \<or> cache_get cl k c1 = (Cache_error, c') \<and> e = None)"
    by blast
  have b: "wait_bound 64 = 222" by code_simp
  have "m \<le> 64" using m(3) by linarith
  then have y: "yields ws' = yields ws + m" and s: "slept ws' \<le> slept ws + 222"
    using wait_rounds_yields [of m 64] wait_rounds_slept [of m 64] by (simp_all add: m(2) b yields_def)
  have "m = 64 \<Longrightarrow> slept ws' = slept ws + 222" by (simp add: m(2) wait_rounds_slept_all b)
  with m(1,3) y s g show ?thesis by (auto simp: my_cache_coro_get_and_ref_entry_def)
qed

theorem lwan_cache_wait_bounded_witness:
  "\<exists>ws'. my_cache_coro_get_and_ref_entry
      \<lparr>cache_get = (\<lambda>k c. (Would_block, c + 1)), cache_wait = (\<lambda>c. c), cache_unref = (\<lambda>e c. c)\<rparr> ''7'' (0 :: nat, []) = (None, 64, ws') \<and>
    yields ws' = 64 \<and> slept ws' = 222"
proof -
  let ?cl = "\<lparr>cache_get = (\<lambda>k c. (Would_block, c + 1)), cache_wait = (\<lambda>c. c), cache_unref = (\<lambda>e c. c)\<rparr> :: nat cache"
  have "blocked_rounds ?cl ''7'' 64 0 = Some 64" by code_simp
  with lwan_cache_wait_bounded [of ?cl "''7''" 0 "[]"] show ?thesis by (auto simp: yields_def split: prod.splits)
qed

text \<open>The fortunes handed to the template are the rows of the table and the additional one, each once,
  ordered by their messages, whichever driver reads them, when no call fails and every message
  fits into the buffer of 256 bytes; enough fuel is one more than there are rows.\<close>

theorem lwan_fortunes_sorted:
  assumes "db_scan (db_stmt_ops database) scan"
    "db_prepare_stmt database fortune_query r = (Some st, r1)" "scan a b (map (\<lambda>f. [DInt (fst f), DStr (snd f)]) fs) st"
    "\<forall>f \<in> set fs. int32 (fst f) \<and> length (snd f) < 256 \<and> NUL \<notin> set (snd f)" "alloc = (\<lambda>_. (True, True))"
    "\<And>cmp xs. mset (array_sort cmp xs) = mset xs" "\<And>xs. sorted_wrt (\<lambda>x y. fortune_compare x y \<le> 0) (array_sort fortune_compare xs)"
    "length fs < fuel"
  shows "\<exists>ys r'. fortune_list_generator array_sort database alloc a b fuel mem r = Yields ys r' \<and>
    sorted_wrt (\<lambda>x y. strcmp (snd x) (snd y) \<le> 0) ys \<and>
    mset ys = add_mset (0, ''Additional fortune added at request time.'') (mset fs)"
  by (rule fortune_list_sorted) (fact assms)+

theorem lwan_fortunes_sorted_witness:
  "\<exists>ys r'. fortune_list_generator qsort (sample_database (\<lambda>_. [[DInt 1, DStr ''b''], [DInt 2, DStr ''a'']]))
      (\<lambda>_. (True, True)) 0 0 3 sample_mem no_resources = Yields ys r' \<and>
    sorted_wrt (\<lambda>x y. strcmp (snd x) (snd y) \<le> 0) ys \<and>
    mset ys = {#(0, ''Additional fortune added at request time.''), (1, ''b''), (2, ''a'')#}"
proof -
  let ?q = "\<lambda>_ :: db_value list. [[DInt 1, DStr ''b''], [DInt 2, DStr ''a'']]"
  let ?fs = "[(1, ''b''), (2, ''a'')] :: fortune_item list"
  obtain st r1 where p: "db_prepare_stmt (sample_database ?q) fortune_query no_resources = (Some st, r1)"
    by (simp add: sample_database_def db_prepare_stmt_def db_prepare_sqlite_def Let_def)
  have "sqlite_scan (sample_sqlite ?q) ?q fst (\<lambda>s. fst (snd s)) (\<lambda>s. snd (snd s)) 0 0 (map (\<lambda>f. [DInt (fst f), DStr (snd f)]) ?fs) st"
    using sample_facts(5) [of ?q fortune_query 0 0, unfolded prepares_def, rule_format, OF p] by simp
  moreover note lwan_fortunes_sorted [where database = "sample_database ?q" and fs = ?fs and st = st and ?r1.0 = r1 and
      r = no_resources and a = 0 and b = 0 and array_sort = qsort and alloc = "\<lambda>_. (True, True)" and fuel = 3 and mem = sample_mem and
      scan = "sqlite_scan (sample_sqlite ?q) ?q fst (\<lambda>s. fst (snd s)) (\<lambda>s. snd (snd s))"]
  ultimately show ?thesis using sample_driver(2) [of ?q] p by (simp add: int32_def fortune_items.qsort_sorted)
qed

end
