(* ===== verification/Libreactor.thy ===== *)
theory Libreactor
  imports Prelude
begin

text \<open>
  The libreactor application (\<^verbatim>\<open>helpers.c\<close>, \<^verbatim>\<open>libreactor.c\<close>): the two responses, whose
  headers are written into buffers of the thread that every response reuses, the routing, and the
  placement of the workers on the processors.  What libreactor prints a number or a date with, and
  the encoder of the JSON object, are parameters.
\<close>

section \<open>Responses\<close>

text \<open>\<^verbatim>\<open>memcpy\<close> to an offset of a buffer.\<close>

definition write_at :: "string \<Rightarrow> nat \<Rightarrow> string \<Rightarrow> string" where
  "write_at buf p s = take p buf @ s @ drop (p + length s) buf"

definition CRLF :: string where "CRLF = [CHR 0x0D, CHR 0x0A]"

definition JSON_PREAMBLE :: string where
  "JSON_PREAMBLE = ''HTTP/1.1 200 OK'' @ CRLF @ ''Server: L'' @ CRLF @ ''Content-Type: application/json'' @ CRLF"

definition TEXT_PREAMBLE :: string where
  "TEXT_PREAMBLE = ''HTTP/1.1 200 OK'' @ CRLF @ ''Server: L'' @ CRLF @ ''Content-Type: text/plain'' @ CRLF"

text \<open>
  \<^verbatim>\<open>utility_u32_len\<close>, \<^verbatim>\<open>utility_u32_sprint\<close> (which writes the digits that end before an
  offset) and \<^verbatim>\<open>clo_encode\<close> of the JSON object of the application.
\<close>

record reactor_lib =
  u32_len :: "nat \<Rightarrow> nat"
  u32_sprint :: "nat \<Rightarrow> nat \<Rightarrow> string \<Rightarrow> string"
  clo_encode :: "(string \<times> string) list \<Rightarrow> string"

text \<open>The two static buffers of a thread.\<close>

record statics =
  date_header :: string
  length_header :: string

definition initial_statics :: statics where
  "initial_statics =
     \<lparr>date_header = ''Date: Thu, 01 Jan 1970 00:00:00 GMT'' @ CRLF @ [NUL],
      length_header = ''Content-Length: '' @ replicate 16 NUL\<rparr>"

definition http_date_header :: "string \<Rightarrow> statics \<Rightarrow> string \<times> statics" where
  "http_date_header date st =
     (let buf = write_at (date_header st) 6 date in (take 37 buf, st\<lparr>date_header := buf\<rparr>))"

definition http_content_length_header :: "reactor_lib \<Rightarrow> nat \<Rightarrow> statics \<Rightarrow> string \<times> statics" where
  "http_content_length_header lib n st =
     (let len = u32_len lib n;
          buf = u32_sprint lib n (len + 16) (length_header st);
          buf = write_at buf (len + 16) (CRLF @ CRLF)
      in (take (len + 16 + 4) buf, st\<lparr>length_header := buf\<rparr>))"

text \<open>
  \<^verbatim>\<open>write_response\<close>: \<^verbatim>\<open>stream_allocate\<close> makes room in the output, whose bytes are not
  defined (\<^verbatim>\<open>junk\<close>) until the four copies.
\<close>

definition write_response ::
    "reactor_lib \<Rightarrow> string \<Rightarrow> (nat \<Rightarrow> string) \<Rightarrow> string \<Rightarrow> string \<Rightarrow> string \<times> statics \<Rightarrow> string \<times> statics" where
  "write_response lib date junk preamble body s =
     (case s of (out, st) \<Rightarrow>
        (case http_date_header date st of (date_hdr, st) \<Rightarrow>
           (case http_content_length_header lib (length body) st of (length_hdr, st) \<Rightarrow>
              (let size = length preamble + length date_hdr + length length_hdr + length body;
                   p = length out;
                   out = out @ junk size;
                   out = write_at out p preamble;
                   out = write_at out (p + length preamble) date_hdr;
                   out = write_at out (p + length preamble + length date_hdr) length_hdr;
                   out = write_at out (p + length preamble + length date_hdr + length length_hdr) body
               in (out, st)))))"

definition plaintext ::
    "reactor_lib \<Rightarrow> string \<Rightarrow> (nat \<Rightarrow> string) \<Rightarrow> string \<Rightarrow> string \<times> statics \<Rightarrow> string \<times> statics" where
  "plaintext lib date junk response s = write_response lib date junk TEXT_PREAMBLE response s"

definition json ::
    "reactor_lib \<Rightarrow> string \<Rightarrow> (nat \<Rightarrow> string) \<Rightarrow> (string \<times> string) list \<Rightarrow> string \<times> statics \<Rightarrow> string \<times> statics" where
  "json lib date junk json_object s = write_response lib date junk JSON_PREAMBLE (clo_encode lib json_object) s"

section \<open>Routing\<close>

datatype server_event = SERVER_REQUEST string | SERVER_ERROR
datatype core_status = CORE_OK | CORE_ABORT

definition server_handler ::
    "reactor_lib \<Rightarrow> string \<Rightarrow> (nat \<Rightarrow> string) \<Rightarrow> server_event \<Rightarrow> string \<times> statics \<Rightarrow> core_status \<times> string \<times> statics" where
  "server_handler lib date junk event s =
     (case event of
        SERVER_REQUEST target \<Rightarrow>
          (CORE_OK,
           if target = ''/json'' then json lib date junk [(''message'', ''Hello, World!'')] s
           else if target = ''/plaintext'' then plaintext lib date junk ''Hello, World!'' s
           else plaintext lib date junk (''Hello from libreactor!'' @ [CHR 0x0A]) s)
      | SERVER_ERROR \<Rightarrow> (CORE_ABORT, s))"

text \<open>
  The handler of the other program, \<^verbatim>\<open>libreactor-server.c\<close>: it leaves the headers to
  \<^verbatim>\<open>server_ok\<close> of the library, and destroys the server after an error.
\<close>

definition libreactor_server_handler ::
    "reactor_lib \<Rightarrow> (string \<Rightarrow> string \<Rightarrow> 'c \<Rightarrow> 'c) \<Rightarrow> server_event \<Rightarrow> 'c \<Rightarrow> core_status \<times> 'c option" where
  "libreactor_server_handler lib server_ok event context =
     (case event of
        SERVER_REQUEST target \<Rightarrow>
          (CORE_OK, Some
             (if target = ''/json'' then server_ok ''application/json'' (clo_encode lib [(''message'', ''Hello, World!'')]) context
              else if target = ''/plaintext'' then server_ok ''text/plain'' ''Hello, World!'' context
              else server_ok ''text/plain'' (''Hello from libreactor!'' @ [CHR 0x0A]) context))
      | SERVER_ERROR \<Rightarrow> (CORE_ABORT, None))"

section \<open>Workers\<close>

text \<open>
  The loop that numbers the processors that are online: \<^verbatim>\<open>found\<close> holds
  \<^verbatim>\<open>rel_to_abs_cpu\<close> so far.
\<close>

definition CPU_SETSIZE :: nat where "CPU_SETSIZE = 1024"

fun cpu_loop :: "(nat \<Rightarrow> bool) \<Rightarrow> nat \<Rightarrow> nat \<Rightarrow> nat \<Rightarrow> nat list \<Rightarrow> nat list" where
  "cpu_loop online num i 0 found = found"
| "cpu_loop online num i (Suc left) found =
     (if online i
      then (let found = found @ [i] in if length found = num then found else cpu_loop online num (i + 1) left found)
      else cpu_loop online num (i + 1) left found)"

definition rel_to_abs_cpu :: "(nat \<Rightarrow> bool) \<Rightarrow> nat list" where
  "rel_to_abs_cpu online = cpu_loop online (length (filter online [0..<CPU_SETSIZE])) 0 CPU_SETSIZE []"

text \<open>
  The loop that forks: what \<^verbatim>\<open>eventfd\<close> and \<^verbatim>\<open>fork\<close> give in each round is a parameter.
  A child returns with its processor; the parent goes on when the child has told it to.
\<close>

datatype fork_result = No_eventfd | No_fork | Parent | Child
datatype worker_result = Exits | Worker nat nat | All_started nat

fun fork_loop :: "(nat \<Rightarrow> bool) \<Rightarrow> (nat \<Rightarrow> fork_result) \<Rightarrow> (nat \<Rightarrow> bool) \<Rightarrow> nat \<Rightarrow> nat \<Rightarrow> nat \<Rightarrow> worker_result" where
  "fork_loop online forks pinned i 0 worker_count = All_started worker_count"
| "fork_loop online forks pinned i (Suc left) worker_count =
     (case forks i of
        No_eventfd \<Rightarrow> Exits
      | No_fork \<Rightarrow> Exits
      | Parent \<Rightarrow> fork_loop online forks pinned (i + 1) left (worker_count + 1)
      | Child \<Rightarrow> if pinned (rel_to_abs_cpu online ! i) then Worker i (rel_to_abs_cpu online ! i) else Exits)"

definition fork_workers :: "(nat \<Rightarrow> bool) \<Rightarrow> (nat \<Rightarrow> fork_result) \<Rightarrow> (nat \<Rightarrow> bool) \<Rightarrow> worker_result" where
  "fork_workers online forks pinned =
     fork_loop online forks pinned 0 (length (filter online [0..<CPU_SETSIZE])) 0"

section \<open>What is written\<close>

lemma write_at_write_at: "write_at (a @ b) (length a + p) s = a @ write_at b p s"
  by (simp add: write_at_def)

lemma write_at_0: "length b = length s + n \<Longrightarrow> write_at b 0 s = s @ drop (length s) b"
  by (simp add: write_at_def)

text \<open>Four pieces that fill the room for them.\<close>

lemma four_writes:
  assumes "length room = length a + length b + length c + length d"
  shows "write_at (write_at (write_at (write_at (out @ room) (length out) a) (length out + length a) b)
      (length out + length a + length b) c) (length out + length a + length b + length c) d = out @ a @ b @ c @ d"
proof -
  have 1: "write_at (out @ room) (length out) a = (out @ a) @ drop (length a) room"
    using write_at_write_at [of out room 0 a] by (simp add: write_at_def)
  have 2: "write_at ((out @ a) @ drop (length a) room) (length out + length a) b = (out @ a @ b) @ drop (length a + length b) room"
    using write_at_write_at [of "out @ a" "drop (length a) room" 0 b] by (simp add: write_at_def add.commute)
  have 3: "write_at ((out @ a @ b) @ drop (length a + length b) room) (length out + length a + length b) c =
      (out @ a @ b @ c) @ drop (length a + length b + length c) room"
    using write_at_write_at [of "out @ a @ b" "drop (length a + length b) room" 0 c] by (simp add: write_at_def ac_simps)
  have 4: "write_at ((out @ a @ b @ c) @ drop (length a + length b + length c) room) (length out + length a + length b + length c) d =
      out @ a @ b @ c @ d"
    using write_at_write_at [of "out @ a @ b @ c" "drop (length a + length b + length c) room" 0 d] assms
    by (simp add: write_at_def ac_simps)
  show ?thesis unfolding 1 2 3 4 ..
qed

text \<open>What the library promises of numbers below \<^verbatim>\<open>2 ^ 32\<close>.\<close>

definition prints_u32 :: "reactor_lib \<Rightarrow> bool" where
  "prints_u32 lib \<longleftrightarrow> (\<forall>n < 2 ^ 32. u32_len lib n = length (dec n) \<and>
     (\<forall>p buf. length (dec n) \<le> p \<longrightarrow> p \<le> length buf \<longrightarrow>
        u32_sprint lib n p buf = write_at buf (p - length (dec n)) (dec n)))"

definition statics_ok :: "statics \<Rightarrow> bool" where
  "statics_ok st \<longleftrightarrow> length (date_header st) = 38 \<and> take 6 (date_header st) = ''Date: '' \<and>
     take 2 (drop 35 (date_header st)) = CRLF \<and>
     length (length_header st) = 32 \<and> take 16 (length_header st) = ''Content-Length: ''"

lemma initial_statics_ok: "statics_ok initial_statics"
  by (simp add: statics_ok_def initial_statics_def CRLF_def)

lemma http_date_header_ok:
  assumes "statics_ok st" "length date = 29"
  shows "\<exists>st'. http_date_header date st = (''Date: '' @ date @ CRLF, st') \<and> statics_ok st'"
proof -
  let ?b = "date_header st"
  have "drop 35 ?b = take 2 (drop 35 ?b) @ drop 2 (drop 35 ?b)" by (simp only: append_take_drop_id)
  then have "write_at ?b 6 date = ''Date: '' @ date @ CRLF @ drop 37 ?b" "length (drop 37 ?b) = 1"
    using assms by (simp_all add: write_at_def statics_ok_def)
  then show ?thesis using assms by (simp add: http_date_header_def statics_ok_def CRLF_def Let_def)
qed

lemma http_content_length_header_ok:
  assumes "statics_ok st" "prints_u32 lib" "n < 2 ^ 32"
  shows "\<exists>st'. http_content_length_header lib n st = (''Content-Length: '' @ dec n @ CRLF @ CRLF, st') \<and> statics_ok st' \<and>
    date_header st' = date_header st"
proof -
  let ?b = "length_header st"
  have d: "length (dec n) \<le> 10" using length_dec_le [of n 10] assms(3) by simp
  have b: "length ?b = 32" "take 16 ?b = ''Content-Length: ''" using assms(1) by (simp_all add: statics_ok_def)
  have p: "u32_len lib n = length (dec n)" "u32_sprint lib n (length (dec n) + 16) ?b = write_at ?b 16 (dec n)"
    using assms(2,3) d b unfolding prints_u32_def by auto
  have two: "write_at (write_at (h @ r) (length h) x) (length x + length h) y = h @ x @ y @ drop (length x + length y) r"
    if "length x + length y \<le> length r" for h r x y :: string
    using that by (simp add: write_at_def add.commute)
  define h where "h = take 16 ?b"
  have h: "h @ drop 16 ?b = ?b" unfolding h_def by (rule append_take_drop_id)
  have h16: "length h = 16" "h = ''Content-Length: ''" using b by (simp_all add: h_def)
  have "write_at (write_at ?b 16 (dec n)) (length (dec n) + 16) (CRLF @ CRLF) =
      h @ dec n @ CRLF @ CRLF @ drop (20 + length (dec n)) ?b"
    using two [of "dec n" "CRLF @ CRLF" "drop 16 ?b" h] b(1) d unfolding h h16(1) by (simp add: CRLF_def add.commute)
  moreover define r where "r = h @ dec n @ CRLF @ CRLF @ drop (20 + length (dec n)) ?b"
  ultimately have "http_content_length_header lib n st = (take (length (dec n) + 16 + 4) r, st\<lparr>length_header := r\<rparr>)"
    by (simp add: http_content_length_header_def p Let_def)
  moreover have "take (length (dec n) + 16 + 4) r = h @ dec n @ CRLF @ CRLF" "take 16 r = h" "length r = 32"
    using h16(1) b(1) d by (simp_all add: r_def CRLF_def)
  ultimately show ?thesis using h16(2) assms(1) by (simp add: statics_ok_def)
qed

text \<open>A response as it should be, and the body that goes with a target.\<close>

definition response_text :: "string \<Rightarrow> string \<Rightarrow> string \<Rightarrow> string" where
  "response_text preamble date body =
     preamble @ ''Date: '' @ date @ CRLF @ ''Content-Length: '' @ dec (length body) @ CRLF @ CRLF @ body"

lemma write_response_ok:
  assumes "statics_ok st" "prints_u32 lib" "length date = 29" "length body < 2 ^ 32" "\<And>n. length (junk n) = n"
  shows "\<exists>st'. write_response lib date junk preamble body (out, st) = (out @ response_text preamble date body, st') \<and> statics_ok st'"
proof -
  from http_date_header_ok [OF assms(1,3)] obtain st1 where
    d: "http_date_header date st = (''Date: '' @ date @ CRLF, st1)" "statics_ok st1" by blast
  from http_content_length_header_ok [OF d(2) assms(2,4)] obtain st2 where
    c: "http_content_length_header lib (length body) st1 = (''Content-Length: '' @ dec (length body) @ CRLF @ CRLF, st2)" "statics_ok st2"
    by blast
  let ?d = "''Date: '' @ date @ CRLF" and ?c = "''Content-Length: '' @ dec (length body) @ CRLF @ CRLF"
  have "length (junk (length preamble + length ?d + length ?c + length body)) = length preamble + length ?d + length ?c + length body"
    by (rule assms(5))
  from four_writes [OF this, of out] show ?thesis
    unfolding write_response_def prod.case d(1) c(1) Let_def using c(2) by (simp only: response_text_def append_assoc) blast
qed

fun request_response :: "reactor_lib \<Rightarrow> string \<times> string \<Rightarrow> string" where
  "request_response lib (target, date) =
     (if target = ''/json'' then response_text JSON_PREAMBLE date (clo_encode lib [(''message'', ''Hello, World!'')])
      else if target = ''/plaintext'' then response_text TEXT_PREAMBLE date ''Hello, World!''
      else response_text TEXT_PREAMBLE date (''Hello from libreactor!'' @ [CHR 0x0A]))"

text \<open>Both programs answer with the same type of content and the same body.\<close>

lemma servers_agree:
  "\<exists>content_type body. libreactor_server_handler lib (\<lambda>ct b c. c @ [(ct, b)]) (SERVER_REQUEST target) c =
      (CORE_OK, Some (c @ [(content_type, body)])) \<and>
    request_response lib (target, date) =
      response_text (''HTTP/1.1 200 OK'' @ CRLF @ ''Server: L'' @ CRLF @ ''Content-Type: '' @ content_type @ CRLF) date body"
  by (auto simp: libreactor_server_handler_def JSON_PREAMBLE_def TEXT_PREAMBLE_def)

text \<open>The requests of a connection, each with the date of its answer.\<close>

definition serve :: "reactor_lib \<Rightarrow> (nat \<Rightarrow> string) \<Rightarrow> (string \<times> string) list \<Rightarrow> string \<times> statics \<Rightarrow> string \<times> statics" where
  "serve lib junk requests s = fold (\<lambda>(target, date) s. snd (server_handler lib date junk (SERVER_REQUEST target) s)) requests s"

lemma serve_ok:
  assumes "prints_u32 lib" "length (clo_encode lib [(''message'', ''Hello, World!'')]) < 4096" "\<And>n. length (junk n) = n"
  shows "statics_ok st \<Longrightarrow> list_all (\<lambda>r. length (snd r) = 29) requests \<Longrightarrow>
    \<exists>st'. serve lib junk requests (out, st) = (out @ concat (map (request_response lib) requests), st') \<and> statics_ok st'"
proof (induction requests arbitrary: out st)
  case Nil
  then show ?case by (simp add: serve_def)
next
  case (Cons r rs)
  obtain target date where r: "r = (target, date)" by (cases r)
  have date: "length date = 29" using Cons.prems(2) r by simp
  have "\<exists>st'. snd (server_handler lib date junk (SERVER_REQUEST target) (out, st)) = (out @ request_response lib r, st') \<and> statics_ok st'"
    using write_response_ok [OF Cons.prems(1) assms(1) date _ assms(3), of _ _ out] assms(2) r
    by (simp add: server_handler_def json_def plaintext_def)
  then obtain st' where "snd (server_handler lib date junk (SERVER_REQUEST target) (out, st)) = (out @ request_response lib r, st')"
    "statics_ok st'" by blast
  with Cons.IH [of st' "out @ request_response lib r"] Cons.prems(2) r show ?case by (simp add: serve_def)
qed

lemma cpu_loop_filter:
  assumes "length (filter online [0..<i + left]) = num" "found = filter online [0..<i]" "length found < num \<or> num = 0"
  shows "cpu_loop online num i left found = filter online [0..<i + left]"
  using assms
proof (induction left arbitrary: i found)
  case (Suc left)
  have split: "filter online [0..<Suc i] = (if online i then found @ [i] else found)" using Suc.prems(2) by simp
  have len: "length (filter online [0..<Suc i + left]) = num" using Suc.prems(1) by simp
  show ?case
  proof (cases "online i \<and> length (found @ [i]) = num")
    case True
    have "[0..<i + Suc left] = [0..<Suc i] @ [Suc i..<i + Suc left]" using upt_add_eq_append [of 0 "Suc i" left] by simp
    with Suc.prems(1) True split have "length (filter online [Suc i..<i + Suc left]) = 0" by (auto simp del: upt_Suc)
    then have "filter online [Suc i..<i + Suc left] = []" by (simp only: length_0_conv)
    with True split \<open>[0..<i + Suc left] = _\<close> show ?thesis by (simp del: upt_Suc)
  next
    case False
    have le: "length (filter online [0..<Suc i]) \<le> num"
      using len upt_add_eq_append [of 0 "Suc i" left] by (simp del: upt_Suc)
    have "length (filter online [0..<Suc i]) < num \<or> num = 0"
      using False Suc.prems(3) le split by (auto split: if_splits)
    from Suc.IH [OF len refl this] False split show ?thesis by (auto simp del: upt_Suc)
  qed
qed simp

lemma fork_loop_worker:
  "fork_loop online forks pinned i left n = Worker j c \<Longrightarrow> i \<le> j \<and> j < i + left \<and> c = rel_to_abs_cpu online ! j \<and> pinned c"
proof (induction left arbitrary: i n)
  case (Suc left)
  show ?case
  proof (cases "forks i")
    case Parent
    with Suc.prems Suc.IH [of "i + 1" "n + 1"] show ?thesis by auto
  qed (use Suc.prems in \<open>auto split: if_splits\<close>)
qed simp

section \<open>Properties\<close>

text \<open>C24. Whatever requests a connection sends, the output is the sequence of their responses, each with its
  status line, date, body, and the length of its body, although all responses share the buffers of
  their headers.\<close>

theorem reactor_responses:
  assumes "prints_u32 lib" "length (clo_encode lib [(''message'', ''Hello, World!'')]) < 4096" "\<And>n. length (junk n) = n"
    "list_all (\<lambda>r. length (snd r) = 29) requests"
  shows "fst (serve lib junk requests (out, initial_statics)) = out @ concat (map (request_response lib) requests)"
  using serve_ok [OF assms(1-3) initial_statics_ok assms(4), of out] by auto

definition sample_reactor :: reactor_lib where
  "sample_reactor = \<lparr>u32_len = (\<lambda>n. length (dec n)), u32_sprint = (\<lambda>n p buf. write_at buf (p - length (dec n)) (dec n)),
     clo_encode = (\<lambda>kvs. ''{}'')\<rparr>"

theorem reactor_responses_witness:
  "fst (serve sample_reactor (\<lambda>n. replicate n NUL)
      [(''/plaintext'', ''Thu, 01 Jan 1970 00:00:01 GMT''), (''/json'', ''Thu, 01 Jan 1970 00:00:02 GMT'')] ([], initial_statics)) =
    response_text TEXT_PREAMBLE ''Thu, 01 Jan 1970 00:00:01 GMT'' ''Hello, World!'' @
    response_text JSON_PREAMBLE ''Thu, 01 Jan 1970 00:00:02 GMT'' ''{}''"
proof -
  have "prints_u32 sample_reactor" by (simp add: prints_u32_def sample_reactor_def)
  from reactor_responses [OF this, of "\<lambda>n. replicate n NUL"
      "[(''/plaintext'', ''Thu, 01 Jan 1970 00:00:01 GMT''), (''/json'', ''Thu, 01 Jan 1970 00:00:02 GMT'')]" "[]"]
  show ?thesis by (simp add: sample_reactor_def)
qed

text \<open>The processors the workers are numbered by are exactly those that are online, in order; a child that
  returns as worker \<^verbatim>\<open>j\<close> runs on the \<^verbatim>\<open>j\<close>-th of them, and no two workers share one.\<close>

theorem workers_on_online_cpus:
  "rel_to_abs_cpu online = filter online [0..<CPU_SETSIZE] \<and> distinct (rel_to_abs_cpu online) \<and>
   (case fork_workers online forks pinned of
      Worker j c \<Rightarrow> j < length (rel_to_abs_cpu online) \<and> c = rel_to_abs_cpu online ! j \<and> online c \<and> pinned c
    | _ \<Rightarrow> True)"
proof -
  have r: "rel_to_abs_cpu online = filter online [0..<CPU_SETSIZE]"
    using cpu_loop_filter [of online 0 CPU_SETSIZE "length (filter online [0..<CPU_SETSIZE])" "[]"]
    by (simp add: rel_to_abs_cpu_def del: length_filter_conv_card)
  have "j < length (rel_to_abs_cpu online) \<and> c = rel_to_abs_cpu online ! j \<and> online c \<and> pinned c"
    if "fork_workers online forks pinned = Worker j c" for j c
  proof -
    from fork_loop_worker [OF that [unfolded fork_workers_def]] have w: "j < length (rel_to_abs_cpu online)"
      "c = rel_to_abs_cpu online ! j" "pinned c" unfolding r by auto
    then have "c \<in> set (rel_to_abs_cpu online)" by simp
    with w show ?thesis by (simp add: r)
  qed
  with r show ?thesis by (auto split: worker_result.split)
qed

end
