(* ===== verification/Config.thy ===== *)
theory Config
  imports Prelude
begin

text \<open>
  The command line of the h2o application (\<^verbatim>\<open>main.c\<close>): the options \<^verbatim>\<open>getopt\<close> finds,
  one after the other, the numbers as \<^verbatim>\<open>strtol\<close> reads them and the fields of the
  configuration keep them, and the default values.  \<^verbatim>\<open>h2o_numproc\<close> is a parameter.
\<close>

unbundle bit_operations_syntax

section \<open>Configuration\<close>

record config_t =
  bind_address :: "string option"
  cert :: "string option"
  db_host :: "string option"
  tls_key :: "string option"
  log_path :: "string option"
  root :: "string option"
  template_path :: "string option"
  db_timeout :: "64 word"
  max_accept :: "64 word"
  max_db_conn_num :: "64 word"
  max_json_generators :: "64 word"
  max_pipeline_query_num :: "64 word"
  max_query_num :: "64 word"
  thread_num :: "64 word"
  https_port :: "16 word"
  port :: "16 word"

definition zero_config :: config_t where
  "zero_config =
     \<lparr>bind_address = None, cert = None, db_host = None, tls_key = None, log_path = None, root = None, template_path = None,
      db_timeout = 0, max_accept = 0, max_db_conn_num = 0, max_json_generators = 0, max_pipeline_query_num = 0,
      max_query_num = 0, thread_num = 0, https_port = 0, port = 0\<rparr>"

text \<open>
  \<^verbatim>\<open>PARSE_NUMBER\<close>: \<^verbatim>\<open>strtol\<close> on a 64-bit \<^verbatim>\<open>long\<close>; \<^verbatim>\<open>None\<close> when it reports
  that the number is out of range.  The field keeps the number modulo its width.
\<close>

definition parse_number :: "string \<Rightarrow> int option" where
  "parse_number optarg = (case strtol10 optarg of (n, rest, range_error) \<Rightarrow> if range_error then None else Some n)"

definition parse_size :: "((64 word \<Rightarrow> 64 word) \<Rightarrow> config_t \<Rightarrow> config_t) \<Rightarrow> string \<Rightarrow> config_t \<Rightarrow> config_t option" where
  "parse_size upd optarg c = map_option (\<lambda>n. upd (\<lambda>_. word_of_int n) c) (parse_number optarg)"

definition parse_port :: "((16 word \<Rightarrow> 16 word) \<Rightarrow> config_t \<Rightarrow> config_t) \<Rightarrow> string \<Rightarrow> config_t \<Rightarrow> config_t option" where
  "parse_port upd optarg c = map_option (\<lambda>n. upd (\<lambda>_. word_of_int n) c) (parse_number optarg)"

text \<open>
  One option with its argument.  \<^verbatim>\<open>getopt\<close> gives a question mark for one it does not know or
  whose argument is missing.
\<close>

definition parse_option :: "char \<times> string \<Rightarrow> config_t \<Rightarrow> config_t option" where
  "parse_option o_arg c =
     (case o_arg of (opt, optarg) \<Rightarrow>
     if opt = CHR ''a'' then parse_size max_accept_update optarg c
     else if opt = CHR ''b'' then Some (c\<lparr>bind_address := Some optarg\<rparr>)
     else if opt = CHR ''c'' then Some (c\<lparr>cert := Some optarg\<rparr>)
     else if opt = CHR ''d'' then Some (c\<lparr>db_host := Some optarg\<rparr>)
     else if opt = CHR ''e'' then parse_size max_pipeline_query_num_update optarg c
     else if opt = CHR ''f'' then Some (c\<lparr>template_path := Some optarg\<rparr>)
     else if opt = CHR ''j'' then parse_size max_json_generators_update optarg c
     else if opt = CHR ''k'' then Some (c\<lparr>tls_key := Some optarg\<rparr>)
     else if opt = CHR ''l'' then Some (c\<lparr>log_path := Some optarg\<rparr>)
     else if opt = CHR ''m'' then parse_size max_db_conn_num_update optarg c
     else if opt = CHR ''o'' then parse_size db_timeout_update optarg c
     else if opt = CHR ''p'' then parse_port port_update optarg c
     else if opt = CHR ''q'' then parse_size max_query_num_update optarg c
     else if opt = CHR ''r'' then Some (c\<lparr>root := Some optarg\<rparr>)
     else if opt = CHR ''s'' then parse_port https_port_update optarg c
     else if opt = CHR ''t'' then parse_size thread_num_update optarg c
     else None)"

fun parse_loop :: "(char \<times> string) list \<Rightarrow> config_t \<Rightarrow> config_t option" where
  "parse_loop [] c = Some c"
| "parse_loop (o_arg # rest) c = (case parse_option o_arg c of None \<Rightarrow> None | Some c' \<Rightarrow> parse_loop rest c')"

definition set_default_options :: "nat \<Rightarrow> config_t \<Rightarrow> config_t" where
  "set_default_options numproc c =
     (let c = (if db_timeout c = 0 then c\<lparr>db_timeout := 10\<rparr> else c);
          c = (if https_port c = 0 then c\<lparr>https_port := 4443\<rparr> else c);
          c = (if max_accept c = 0 then c\<lparr>max_accept := 10\<rparr> else c);
          c = (if max_db_conn_num c = 0 then c\<lparr>max_db_conn_num := 1\<rparr> else c);
          c = (if max_pipeline_query_num c = 0 then c\<lparr>max_pipeline_query_num := - 1\<rparr> else c);
          c = (if max_query_num c = 0 then c\<lparr>max_query_num := 10000\<rparr> else c);
          c = (if port c = 0 then c\<lparr>port := 8080\<rparr> else c)
      in if thread_num c = 0 then c\<lparr>thread_num := word_of_nat numproc\<rparr> else c)"

definition parse_options :: "nat \<Rightarrow> (char \<times> string) list \<Rightarrow> config_t option" where
  "parse_options numproc opts =
     map_option (set_default_options numproc) (parse_loop opts (zero_config\<lparr>max_json_generators := 32\<rparr>))"

text \<open>
  \<^verbatim>\<open>get_maximum_cache_line_size\<close> of \<^verbatim>\<open>utility.c\<close>, the alignment of the data of the
  threads: the largest of the four answers of \<^verbatim>\<open>sysconf\<close>, which are negative when there is none.
\<close>

definition DEFAULT_CACHE_LINE_SIZE :: nat where "DEFAULT_CACHE_LINE_SIZE = 256"

fun cache_line_loop :: "int list \<Rightarrow> nat \<Rightarrow> nat" where
  "cache_line_loop [] ret = ret"
| "cache_line_loop (rc # rcs) ret =
     cache_line_loop rcs (if rc < 0 then ret else if ret < nat rc then nat rc else ret)"

definition get_maximum_cache_line_size :: "int list \<Rightarrow> nat" where
  "get_maximum_cache_line_size sysconf =
     (let ret = cache_line_loop sysconf 0 in if ret = 0 then DEFAULT_CACHE_LINE_SIZE else ret)"

lemma cache_line_loop_Max: "int (cache_line_loop rcs ret) = Max (insert (int ret) (set rcs))"
proof (induction rcs arbitrary: ret)
  case (Cons rc rcs)
  have "Max (insert (int ret) (set (rc # rcs))) = max (max (int ret) rc) (Max (insert (int ret) (set rcs)))"
    by (cases "rcs = []") (simp_all add: max.left_commute max.commute max.assoc)
  moreover have "Max (insert (int (if rc < 0 then ret else if ret < nat rc then nat rc else ret)) (set rcs)) =
      max (max (int ret) rc) (Max (insert (int ret) (set rcs)))"
    by (cases "rcs = []") (auto simp: max_def not_less)
  ultimately show ?case using Cons.IH by simp
qed simp

lemma get_maximum_cache_line_size_largest:
  "0 < get_maximum_cache_line_size rcs" "rc \<in> set rcs \<Longrightarrow> rc \<le> int (get_maximum_cache_line_size rcs)"
proof -
  show "0 < get_maximum_cache_line_size rcs" by (simp add: get_maximum_cache_line_size_def DEFAULT_CACHE_LINE_SIZE_def Let_def)
  assume "rc \<in> set rcs"
  then have "rc \<le> int (cache_line_loop rcs 0)" unfolding cache_line_loop_Max by (intro Max_ge) auto
  then show "rc \<le> int (get_maximum_cache_line_size rcs)" by (auto simp: get_maximum_cache_line_size_def Let_def)
qed

section \<open>What an option list means\<close>

text \<open>The argument of the last of the options with this letter; and a number of it, or a default.\<close>

fun last_arg :: "char \<Rightarrow> (char \<times> string) list \<Rightarrow> string option" where
  "last_arg c [] = None"
| "last_arg c ((opt, optarg) # rest) =
     (case last_arg c rest of Some v \<Rightarrow> Some v | None \<Rightarrow> if opt = c then Some optarg else None)"

definition number_of :: "char \<Rightarrow> (char \<times> string) list \<Rightarrow> 'a :: len word \<Rightarrow> 'a word" where
  "number_of c opts absent = (case last_arg c opts of None \<Rightarrow> absent | Some s \<Rightarrow> word_of_int (fst (strtol10 s)))"

definition string_of :: "char \<Rightarrow> (char \<times> string) list \<Rightarrow> string option \<Rightarrow> string option" where
  "string_of c opts absent = (case last_arg c opts of None \<Rightarrow> absent | Some s \<Rightarrow> Some s)"

definition or_default :: "'a :: len word \<Rightarrow> 'a word \<Rightarrow> 'a word" where
  "or_default n d = (if n = 0 then d else n)"

text \<open>An option that is accepted: a letter of the seven strings, or of the nine numbers with one in range.\<close>

definition option_ok :: "char \<times> string \<Rightarrow> bool" where
  "option_ok o_arg \<longleftrightarrow> fst o_arg \<in> set ''bcdfklr'' \<or>
     fst o_arg \<in> set ''aejmopqst'' \<and> \<not> snd (snd (strtol10 (snd o_arg)))"

definition meant_config :: "config_t \<Rightarrow> (char \<times> string) list \<Rightarrow> config_t" where
  "meant_config c opts =
     \<lparr>bind_address = string_of CHR ''b'' opts (bind_address c),
      cert = string_of CHR ''c'' opts (cert c),
      db_host = string_of CHR ''d'' opts (db_host c),
      tls_key = string_of CHR ''k'' opts (tls_key c),
      log_path = string_of CHR ''l'' opts (log_path c),
      root = string_of CHR ''r'' opts (root c),
      template_path = string_of CHR ''f'' opts (template_path c),
      db_timeout = number_of CHR ''o'' opts (db_timeout c), max_accept = number_of CHR ''a'' opts (max_accept c),
      max_db_conn_num = number_of CHR ''m'' opts (max_db_conn_num c),
      max_json_generators = number_of CHR ''j'' opts (max_json_generators c),
      max_pipeline_query_num = number_of CHR ''e'' opts (max_pipeline_query_num c),
      max_query_num = number_of CHR ''q'' opts (max_query_num c), thread_num = number_of CHR ''t'' opts (thread_num c),
      https_port = number_of CHR ''s'' opts (https_port c), port = number_of CHR ''p'' opts (port c)\<rparr>"

lemma meant_config_Nil: "meant_config c [] = c"
  by (simp add: meant_config_def number_of_def string_of_def)

lemma number_of_Cons:
  "number_of k ((opt, v) # rest) absent = number_of k rest (if opt = k then word_of_int (fst (strtol10 v)) else absent)"
  by (simp add: number_of_def split: option.split)

lemma string_of_Cons:
  "string_of k ((opt, v) # rest) absent = string_of k rest (if opt = k then Some v else absent)"
  by (simp add: string_of_def split: option.split)

text \<open>The sixteen letters, one at a time.\<close>

lemma option_letter:
  "opt \<in> set ''abcdefjklmopqrst'' \<Longrightarrow>
    opt = CHR ''a'' \<or> opt = CHR ''b'' \<or> opt = CHR ''c'' \<or> opt = CHR ''d'' \<or> opt = CHR ''e'' \<or> opt = CHR ''f'' \<or>
    opt = CHR ''j'' \<or> opt = CHR ''k'' \<or> opt = CHR ''l'' \<or> opt = CHR ''m'' \<or> opt = CHR ''o'' \<or>
    opt = CHR ''p'' \<or> opt = CHR ''q'' \<or> opt = CHR ''r'' \<or> opt = CHR ''s'' \<or> opt = CHR ''t''"
  by simp

lemma other_letter: "opt \<notin> set ''abcdefjklmopqrst'' \<Longrightarrow> parse_option (opt, v) c = None \<and> \<not> option_ok (opt, v)"
  by (simp add: parse_option_def option_ok_def)

lemmas parse_option_defs = parse_option_def parse_size_def parse_port_def parse_number_def option_ok_def

lemma parse_option_ok: "parse_option (opt, v) c = None \<longleftrightarrow> \<not> option_ok (opt, v)"
proof (cases "opt \<in> set ''abcdefjklmopqrst''")
  case True
  obtain n rest e where "strtol10 v = (n, rest, e)" by (cases "strtol10 v")
  with option_letter [OF True] show ?thesis by (elim disjE) (simp_all add: parse_option_defs)
qed (simp add: other_letter)

lemma parse_option_meant:
  assumes "parse_option (opt, v) c = Some c'"
  shows "meant_config c' rest = meant_config c ((opt, v) # rest)"
proof (cases "opt \<in> set ''abcdefjklmopqrst''")
  case True
  obtain n rs e where "strtol10 v = (n, rs, e)" by (cases "strtol10 v")
  with option_letter [OF True] assms show ?thesis
    by (elim disjE)
      (auto simp: parse_option_defs meant_config_def number_of_Cons string_of_Cons split: if_splits)
qed (use assms in \<open>simp add: other_letter\<close>)

lemma parse_loop_meant:
  "parse_loop opts c = (if list_all option_ok opts then Some (meant_config c opts) else None)"
proof (induction opts arbitrary: c)
  case (Cons o_arg rest)
  show ?case
  proof (cases "parse_option o_arg c")
    case None
    then show ?thesis using parse_option_ok [of "fst o_arg" "snd o_arg" c] by simp
  next
    case (Some c')
    then have "option_ok o_arg" "meant_config c' rest = meant_config c (o_arg # rest)"
      using parse_option_ok [of "fst o_arg" "snd o_arg" c] parse_option_meant [of "fst o_arg" "snd o_arg" c c' rest] by simp_all
    then show ?thesis using Cons.IH [of c'] Some by simp
  qed
qed (simp add: meant_config_Nil)

lemma default_fields:
  "(if db_timeout c = 0 then c\<lparr>db_timeout := d0\<rparr> else c) = c\<lparr>db_timeout := or_default (db_timeout c) d0\<rparr>"
  "(if https_port c = 0 then c\<lparr>https_port := d1\<rparr> else c) = c\<lparr>https_port := or_default (https_port c) d1\<rparr>"
  "(if max_accept c = 0 then c\<lparr>max_accept := d2\<rparr> else c) = c\<lparr>max_accept := or_default (max_accept c) d2\<rparr>"
  "(if max_db_conn_num c = 0 then c\<lparr>max_db_conn_num := d3\<rparr> else c) = c\<lparr>max_db_conn_num := or_default (max_db_conn_num c) d3\<rparr>"
  "(if max_pipeline_query_num c = 0 then c\<lparr>max_pipeline_query_num := d4\<rparr> else c) = c\<lparr>max_pipeline_query_num := or_default (max_pipeline_query_num c) d4\<rparr>"
  "(if max_query_num c = 0 then c\<lparr>max_query_num := d5\<rparr> else c) = c\<lparr>max_query_num := or_default (max_query_num c) d5\<rparr>"
  "(if port c = 0 then c\<lparr>port := d6\<rparr> else c) = c\<lparr>port := or_default (port c) d6\<rparr>"
  "(if thread_num c = 0 then c\<lparr>thread_num := d7\<rparr> else c) = c\<lparr>thread_num := or_default (thread_num c) d7\<rparr>"
  by (simp_all add: or_default_def)

lemma set_default_options_eq:
  "set_default_options numproc c = c
     \<lparr>db_timeout := or_default (db_timeout c) 10,
      https_port := or_default (https_port c) 4443,
      max_accept := or_default (max_accept c) 10,
      max_db_conn_num := or_default (max_db_conn_num c) 1,
      max_pipeline_query_num := or_default (max_pipeline_query_num c) (- 1),
      max_query_num := or_default (max_query_num c) 10000,
      port := or_default (port c) 8080,
      thread_num := or_default (thread_num c) (word_of_nat numproc)\<rparr>"
  unfolding set_default_options_def Let_def default_fields by simp

lemma or_default_nonzero: "d \<noteq> 0 \<Longrightarrow> or_default n d \<noteq> 0"
  by (simp add: or_default_def)

section \<open>Properties\<close>

text \<open>C23. Parsing the command line accepts exactly the lists of known options whose numbers are in the range of
  a \<^verbatim>\<open>long\<close>; of several options with one letter the last counts, numbers are cut to the width
  of their field, so that port 65536 is the default port, and only zero stands for a default.\<close>

theorem parse_options_meaning:
  "parse_options numproc opts =
     (if list_all option_ok opts
      then Some ((meant_config (zero_config\<lparr>max_json_generators := 32\<rparr>) opts)
        \<lparr>db_timeout := or_default (number_of CHR ''o'' opts 0) 10, https_port := or_default (number_of CHR ''s'' opts 0) 4443,
         max_accept := or_default (number_of CHR ''a'' opts 0) 10, max_db_conn_num := or_default (number_of CHR ''m'' opts 0) 1,
         max_pipeline_query_num := or_default (number_of CHR ''e'' opts 0) (- 1),
         max_query_num := or_default (number_of CHR ''q'' opts 0) 10000, port := or_default (number_of CHR ''p'' opts 0) 8080,
         thread_num := or_default (number_of CHR ''t'' opts 0) (word_of_nat numproc)\<rparr>)
      else None)"
  by (simp add: parse_options_def parse_loop_meant set_default_options_eq meant_config_def zero_config_def)

text \<open>What the rest of the application asserts of the configuration.\<close>

lemma parse_options_positive:
  assumes "parse_options numproc opts = Some c"
  shows "max_accept c \<noteq> 0" "max_db_conn_num c \<noteq> 0" "max_pipeline_query_num c \<noteq> 0" "max_query_num c \<noteq> 0"
    "db_timeout c \<noteq> 0" "port c \<noteq> 0" "https_port c \<noteq> 0" "(word_of_nat numproc :: 64 word) \<noteq> 0 \<Longrightarrow> thread_num c \<noteq> 0"
  using assms by (auto simp: parse_options_def set_default_options_eq or_default_nonzero)

end
