(* ===== verification/Event_Loop.thy ===== *)
theory Event_Loop
  imports Config
begin

text \<open>
  The event loop of a thread of the h2o application (\<^verbatim>\<open>event_loop.c\<close>) and the threads that
  run one each (\<^verbatim>\<open>thread.c\<close>): listening sockets, accepting and closing connections,
  messages between threads, and the shutdown.  The loop of h2o calls the callbacks in any order
  it likes; sockets are numbers.
\<close>

section \<open>State\<close>

datatype message_t = SHUTDOWN | TASK nat

text \<open>
  \<^verbatim>\<open>event_loop_t\<close> with the flag of the thread.  The record also holds what the callbacks do
  to the outside: the sockets they closed, the connections they handed to h2o, each with the TLS
  context it was accepted with, and the tasks they ran.
\<close>

record loop_t =
  h2o_https_socket :: "nat option"
  h2o_socket :: "nat option"
  conn_num :: "64 word"
  ssl_ctx :: "nat option"
  shutdown :: bool
  closed_sockets :: "nat list"
  h2o_accepts :: "(nat \<times> nat option) list"
  tasks_run :: "nat list"

section \<open>Accepting\<close>

text \<open>
  The loop of \<^verbatim>\<open>accept_connection\<close> over the sockets that wait; it leaves the rest to the next call.
  The code asserts that the number it may accept is not zero; \<^verbatim>\<open>configuration_suits\<close> has
  that for every configuration the program runs with.
\<close>

fun accept_loop :: "nat \<Rightarrow> nat list \<Rightarrow> loop_t \<Rightarrow> nat list \<times> loop_t" where
  "accept_loop 0 waiting l = (waiting, l)"
| "accept_loop (Suc n) [] l = ([], l)"
| "accept_loop (Suc n) (sock # waiting) l =
     accept_loop n waiting (l\<lparr>conn_num := conn_num l + 1, h2o_accepts := h2o_accepts l @ [(sock, ssl_ctx l)]\<rparr>)"

definition accept_connection :: "config_t \<Rightarrow> bool \<Rightarrow> nat list \<Rightarrow> loop_t \<Rightarrow> nat list \<times> loop_t" where
  "accept_connection config err waiting l =
     (if err then (waiting, l)
      else if \<not> shutdown l then accept_loop (unat (max_accept config)) waiting l
      else (waiting, l))"

definition accept_http_connection :: "config_t \<Rightarrow> bool \<Rightarrow> nat list \<Rightarrow> loop_t \<Rightarrow> nat list \<times> loop_t" where
  "accept_http_connection config err waiting l =
     (let ctx = ssl_ctx l
      in case accept_connection config err waiting (l\<lparr>ssl_ctx := None\<rparr>) of
           (waiting', l') \<Rightarrow> (waiting', l'\<lparr>ssl_ctx := ctx\<rparr>))"

definition on_close_connection :: "loop_t \<Rightarrow> loop_t" where
  "on_close_connection l = l\<lparr>conn_num := conn_num l - 1\<rparr>"

section \<open>Shutdown and messages\<close>

text \<open>Closing the listening sockets, as two callbacks and the end of the loop do.\<close>

definition close_https :: "loop_t \<Rightarrow> loop_t" where
  "close_https l = (case h2o_https_socket l of
     None \<Rightarrow> l | Some s \<Rightarrow> l\<lparr>closed_sockets := closed_sockets l @ [s], h2o_https_socket := None\<rparr>)"

definition close_http :: "loop_t \<Rightarrow> loop_t" where
  "close_http l = (case h2o_socket l of
     None \<Rightarrow> l | Some s \<Rightarrow> l\<lparr>closed_sockets := closed_sockets l @ [s], h2o_socket := None\<rparr>)"

definition process_message :: "message_t \<Rightarrow> loop_t \<Rightarrow> loop_t" where
  "process_message msg l =
     (case msg of
        SHUTDOWN \<Rightarrow> (close_http (close_https l))\<lparr>shutdown := True\<rparr>
      | TASK n \<Rightarrow> l\<lparr>tasks_run := tasks_run l @ [n]\<rparr>)"

text \<open>
  \<^verbatim>\<open>process_messages\<close>, with fuel: running a task may send messages to its own thread
  (\<^verbatim>\<open>post\<close>), which the loop meets as well.
\<close>

fun process_messages :: "nat \<Rightarrow> (nat \<Rightarrow> message_t list) \<Rightarrow> message_t list \<Rightarrow> loop_t \<Rightarrow> loop_t option" where
  "process_messages fuel post [] l = Some l"
| "process_messages 0 post (msg # msgs) l = None"
| "process_messages (Suc fuel) post (msg # msgs) l =
     process_messages fuel post (msgs @ (case msg of TASK n \<Rightarrow> post n | SHUTDOWN \<Rightarrow> [])) (process_message msg l)"

text \<open>\<^verbatim>\<open>shutdown_server\<close>, with the messages it sends, each with the number of its thread.\<close>

definition shutdown_server :: "config_t \<Rightarrow> bool \<Rightarrow> loop_t \<Rightarrow> (nat \<times> message_t) list \<times> loop_t" where
  "shutdown_server config err l =
     (if err then ([], l)
      else (let l = close_http (close_https (l\<lparr>shutdown := True\<rparr>))
            in (map (\<lambda>i. (i, SHUTDOWN)) (rev [1..<Suc (unat (thread_num config - 1))]), l)))"

section \<open>Listening\<close>

text \<open>
  The loop of \<^verbatim>\<open>get_listener_socket\<close>: for each address the socket, if there is one, and
  the outcomes of the calls that set it up, in their order; the result is the listening socket, if
  any, and the sockets that were closed again.
\<close>

fun listener_loop :: "(nat option \<times> bool list) list \<Rightarrow> nat option \<times> nat list" where
  "listener_loop [] = (None, [])"
| "listener_loop ((None, calls) # rest) = listener_loop rest"
| "listener_loop ((Some s, calls) # rest) =
     (if list_all id calls then (Some s, [])
      else (case listener_loop rest of (res, closed) \<Rightarrow> (res, s # closed)))"

text \<open>
  \<^verbatim>\<open>get_listener_socket\<close>: when the addresses cannot be found (\<^verbatim>\<open>None\<close>) it returns
  \<^verbatim>\<open>-1\<close> at once; when no address can be used the process is aborted, which is
  \<^verbatim>\<open>None\<close> in the result.
\<close>

definition get_listener_socket :: "(nat option \<times> bool list) list option \<Rightarrow> int option \<times> nat list" where
  "get_listener_socket addresses =
     (case addresses of
        None \<Rightarrow> (Some (-1), [])
      | Some as \<Rightarrow> (case listener_loop as of (res, closed) \<Rightarrow> (map_option int res, closed)))"

text \<open>\<^verbatim>\<open>start_accept_polling\<close> with the socket object of the listening socket.\<close>

definition start_accept_polling :: "bool \<Rightarrow> nat \<Rightarrow> loop_t \<Rightarrow> loop_t" where
  [simp]: "start_accept_polling is_https listener l =
     (if is_https then l\<lparr>h2o_https_socket := Some listener\<rparr> else l\<lparr>h2o_socket := Some listener\<rparr>)"

text \<open>The first address that can be used is listened to, the sockets tried before it are closed.\<close>

lemma listener_loop_first:
  "\<forall>a \<in> set before. fst a = None \<or> \<not> list_all id (snd a) \<Longrightarrow> list_all id calls \<Longrightarrow>
    listener_loop (before @ (Some s, calls) # rest) = (Some s, List.map_filter fst before)"
  by (induction before rule: listener_loop.induct) (auto simp: List.map_filter_simps)

lemma listener_loop_none:
  "\<forall>a \<in> set as. fst a = None \<or> \<not> list_all id (snd a) \<Longrightarrow> listener_loop as = (None, List.map_filter fst as)"
  by (induction as rule: listener_loop.induct) (auto simp: List.map_filter_simps)

text \<open>\<^verbatim>\<open>initialize_event_loop\<close>: the callback of each listening socket depends on TLS.\<close>

datatype accept_cb = Accept_connection | Accept_http_connection

definition initialize_event_loop :: "nat option \<Rightarrow> nat \<Rightarrow> nat \<Rightarrow> loop_t \<times> accept_cb" where
  "initialize_event_loop ssl https_listener http_listener =
     (let l = \<lparr>h2o_https_socket = None, h2o_socket = None, conn_num = 0, ssl_ctx = None, shutdown = False,
               closed_sockets = [], h2o_accepts = [], tasks_run = []\<rparr>
      in if ssl \<noteq> None
         then (start_accept_polling False http_listener (start_accept_polling True https_listener (l\<lparr>ssl_ctx := ssl\<rparr>)),
               Accept_http_connection)
         else (start_accept_polling False http_listener l, Accept_connection))"

definition free_event_loop :: "loop_t \<Rightarrow> loop_t" where
  "free_event_loop l = l\<lparr>closed_sockets := closed_sockets l @
     (case h2o_https_socket l of None \<Rightarrow> [] | Some s \<Rightarrow> [s]) @ (case h2o_socket l of None \<Rightarrow> [] | Some s \<Rightarrow> [s])\<rparr>"

text \<open>The condition of the loop.\<close>

definition event_loop_runs :: "loop_t \<Rightarrow> bool" where
  "event_loop_runs l \<longleftrightarrow> \<not> shutdown l \<or> conn_num l \<noteq> 0"

section \<open>Threads\<close>

text \<open>
  \<^verbatim>\<open>start_threads\<close>: the threads in the order they are started, each with the processor it is
  bound to, unless the scheduler is left to decide.
\<close>

definition start_threads :: "nat \<Rightarrow> config_t \<Rightarrow> (nat \<times> nat option) list" where
  "start_threads num_cpus config =
     (let n = unat (thread_num config);
          cpu = (\<lambda>i. if n mod num_cpus = 0 then Some (i mod num_cpus) else None)
      in (0, if n mod num_cpus = 0 then Some 0 else None) # map (\<lambda>i. (i, cpu i)) (rev [1..<Suc (unat (thread_num config - 1))]))"

section \<open>A thread at work\<close>

text \<open>
  What the thread sees: its state, the connections that are open, the messages it has sent.  The
  loop runs a callback only while its condition holds, an accept callback only while its
  listening socket is open.
\<close>

record world_t =
  lp :: loop_t
  open_conns :: "nat list"
  sent :: "(nat \<times> message_t) list"

definition new_conns :: "loop_t \<Rightarrow> loop_t \<Rightarrow> nat list" where
  "new_conns l l' = map fst (drop (length (h2o_accepts l)) (h2o_accepts l'))"

inductive loop_step :: "config_t \<Rightarrow> accept_cb \<Rightarrow> world_t \<Rightarrow> world_t \<Rightarrow> bool" for config http_cb where
  https: "event_loop_runs (lp w) \<Longrightarrow> h2o_https_socket (lp w) \<noteq> None \<Longrightarrow>
    accept_connection config err waiting (lp w) = (rest, l) \<Longrightarrow>
    loop_step config http_cb w (w\<lparr>lp := l, open_conns := open_conns w @ new_conns (lp w) l\<rparr>)"
| http: "event_loop_runs (lp w) \<Longrightarrow> h2o_socket (lp w) \<noteq> None \<Longrightarrow>
    (case http_cb of Accept_connection \<Rightarrow> accept_connection config err waiting (lp w)
     | Accept_http_connection \<Rightarrow> accept_http_connection config err waiting (lp w)) = (rest, l) \<Longrightarrow>
    loop_step config http_cb w (w\<lparr>lp := l, open_conns := open_conns w @ new_conns (lp w) l\<rparr>)"
| close: "event_loop_runs (lp w) \<Longrightarrow> open_conns w = xs @ c # ys \<Longrightarrow>
    loop_step config http_cb w (w\<lparr>lp := on_close_connection (lp w), open_conns := xs @ ys\<rparr>)"
| messages: "event_loop_runs (lp w) \<Longrightarrow> process_messages fuel post msgs (lp w) = Some l \<Longrightarrow>
    loop_step config http_cb w (w\<lparr>lp := l\<rparr>)"
| signal: "event_loop_runs (lp w) \<Longrightarrow> shutdown_server config err (lp w) = (msgs, l) \<Longrightarrow>
    loop_step config http_cb w (w\<lparr>lp := l, sent := sent w @ msgs\<rparr>)"

inductive_cases loop_stepE: "loop_step config http_cb w w'"

definition initial_world :: "nat option \<Rightarrow> nat \<Rightarrow> nat \<Rightarrow> world_t" where
  "initial_world ssl s1 s2 = \<lparr>lp = fst (initialize_event_loop ssl s1 s2), open_conns = [], sent = []\<rparr>"

section \<open>The invariant\<close>

text \<open>The listening sockets that were made: each is open or was closed once.\<close>

definition listeners :: "nat option \<Rightarrow> nat \<Rightarrow> nat \<Rightarrow> nat list" where
  "listeners ssl s1 s2 = (if ssl \<noteq> None then [s1, s2] else [s2])"

definition open_listeners :: "loop_t \<Rightarrow> nat list" where
  "open_listeners l = (case h2o_https_socket l of None \<Rightarrow> [] | Some s \<Rightarrow> [s]) @ (case h2o_socket l of None \<Rightarrow> [] | Some s \<Rightarrow> [s])"

definition loop_inv :: "nat option \<Rightarrow> nat \<Rightarrow> nat \<Rightarrow> world_t \<Rightarrow> bool" where
  "loop_inv ssl s1 s2 w \<longleftrightarrow> conn_num (lp w) = word_of_nat (length (open_conns w)) \<and>
     mset (closed_sockets (lp w)) + mset (open_listeners (lp w)) = mset (listeners ssl s1 s2) \<and>
     (shutdown (lp w) \<longleftrightarrow> open_listeners (lp w) = []) \<and> ssl_ctx (lp w) = ssl"

text \<open>What a callback keeps: the listening sockets, or it shuts down; \<^verbatim>\<open>k\<close> connections are new.\<close>

lemma accept_loop_keeps:
  "accept_loop n waiting l = (rest, l') \<Longrightarrow>
    \<exists>xs. l' = l\<lparr>conn_num := conn_num l + word_of_nat (length xs), h2o_accepts := h2o_accepts l @ map (\<lambda>s. (s, ssl_ctx l)) xs\<rparr> \<and>
      waiting = xs @ rest \<and> length xs \<le> n \<and> (length xs = n \<or> rest = [])"
proof (induction n waiting l arbitrary: rest l' rule: accept_loop.induct)
  case (3 n sock waiting l)
  from 3 obtain xs where
    "l' = l\<lparr>conn_num := conn_num l + 1 + word_of_nat (length xs), h2o_accepts := h2o_accepts l @ (sock, ssl_ctx l) # map (\<lambda>s. (s, ssl_ctx l)) xs\<rparr>"
    "waiting = xs @ rest" "length xs \<le> n" "length xs = n \<or> rest = []"
    by fastforce
  then show ?case by (intro exI [of _ "sock # xs"]) (auto simp: algebra_simps)
qed auto

lemma accept_connection_keeps:
  assumes "accept_connection config err waiting l = (rest, l')"
  shows "\<exists>xs. l' = l\<lparr>conn_num := conn_num l + word_of_nat (length xs), h2o_accepts := h2o_accepts l @ map (\<lambda>s. (s, ssl_ctx l)) xs\<rparr> \<and>
    waiting = xs @ rest \<and> length xs \<le> unat (max_accept config) \<and> (shutdown l \<longrightarrow> xs = [])"
proof (cases "err \<or> shutdown l")
  case True
  then show ?thesis using assms by (intro exI [of _ "[]"]) (auto simp: accept_connection_def split: if_splits)
next
  case False
  then have "accept_loop (unat (max_accept config)) waiting l = (rest, l')" using assms by (simp add: accept_connection_def)
  from accept_loop_keeps [OF this] False show ?thesis by blast
qed

lemma accept_http_connection_keeps:
  assumes "accept_http_connection config err waiting l = (rest, l')"
  shows "\<exists>xs. l' = l\<lparr>conn_num := conn_num l + word_of_nat (length xs), h2o_accepts := h2o_accepts l @ map (\<lambda>s. (s, None)) xs\<rparr> \<and>
    waiting = xs @ rest \<and> length xs \<le> unat (max_accept config) \<and> (shutdown l \<longrightarrow> xs = [])"
proof -
  obtain rest1 l1 where a: "accept_connection config err waiting (l\<lparr>ssl_ctx := None\<rparr>) = (rest1, l1)"
    by (cases "accept_connection config err waiting (l\<lparr>ssl_ctx := None\<rparr>)")
  from accept_connection_keeps [OF this] a assms show ?thesis
    by (cases l) (auto simp: accept_http_connection_def Let_def)
qed


lemma new_conns_eq: "h2o_accepts l' = h2o_accepts l @ map (\<lambda>s. (s, x)) xs \<Longrightarrow> new_conns l l' = xs"
  by (simp add: new_conns_def comp_def)

text \<open>Closing the listening sockets, and with them every message and the signal.\<close>

lemma close_both:
  "close_http (close_https l) =
     l\<lparr>closed_sockets := closed_sockets l @ open_listeners l, h2o_https_socket := None, h2o_socket := None\<rparr>"
  by (cases l) (auto simp: close_http_def close_https_def open_listeners_def split: option.splits)

definition listening_ok :: "nat option \<Rightarrow> nat \<Rightarrow> nat \<Rightarrow> loop_t \<Rightarrow> bool" where
  "listening_ok ssl s1 s2 l \<longleftrightarrow> mset (closed_sockets l) + mset (open_listeners l) = mset (listeners ssl s1 s2) \<and>
     (shutdown l \<longleftrightarrow> open_listeners l = []) \<and> ssl_ctx l = ssl"

lemma loop_inv_alt:
  "loop_inv ssl s1 s2 w \<longleftrightarrow> conn_num (lp w) = word_of_nat (length (open_conns w)) \<and> listening_ok ssl s1 s2 (lp w)"
  by (auto simp: loop_inv_def listening_ok_def)

lemma listening_ok_accept [simp]:
  "listening_ok ssl s1 s2 (l\<lparr>conn_num := n, h2o_accepts := xs\<rparr>) = listening_ok ssl s1 s2 l"
  "listening_ok ssl s1 s2 (l\<lparr>conn_num := n\<rparr>) = listening_ok ssl s1 s2 l"
  by (simp_all add: listening_ok_def open_listeners_def)

lemma listening_ok_shutdown:
  "listening_ok ssl s1 s2 l \<Longrightarrow> listening_ok ssl s1 s2 ((close_http (close_https l))\<lparr>shutdown := True\<rparr>)"
  by (simp add: close_both) (simp add: listening_ok_def open_listeners_def ac_simps)

lemma process_message_keeps:
  "conn_num (process_message msg l) = conn_num l" "h2o_accepts (process_message msg l) = h2o_accepts l"
  "listening_ok ssl s1 s2 l \<Longrightarrow> listening_ok ssl s1 s2 (process_message msg l)"
  "shutdown (process_message msg l) \<longleftrightarrow> shutdown l \<or> msg = SHUTDOWN"
  by (simp_all add: process_message_def close_both listening_ok_def open_listeners_def ac_simps split: message_t.split)

lemma process_messages_keeps:
  "process_messages fuel post msgs l = Some l' \<Longrightarrow>
     conn_num l' = conn_num l \<and> h2o_accepts l' = h2o_accepts l \<and> (listening_ok ssl s1 s2 l \<longrightarrow> listening_ok ssl s1 s2 l') \<and>
     (shutdown l \<or> SHUTDOWN \<in> set msgs \<longrightarrow> shutdown l')"
proof (induction fuel post msgs l rule: process_messages.induct)
  case (3 fuel post msg msgs l)
  from 3 show ?case by (auto simp: process_message_keeps)
qed auto

lemma shutdown_server_keeps:
  assumes "shutdown_server config err l = (msgs, l')"
  shows "conn_num l' = conn_num l" "h2o_accepts l' = h2o_accepts l" "listening_ok ssl s1 s2 l \<Longrightarrow> listening_ok ssl s1 s2 l'"
    "\<not> err \<Longrightarrow> shutdown l'"
  using assms by (auto simp: shutdown_server_def Let_def close_both listening_ok_def open_listeners_def ac_simps split: if_splits)

lemma loop_inv_accept:
  assumes "loop_inv ssl s1 s2 w"
    and "l = (lp w)\<lparr>conn_num := conn_num (lp w) + word_of_nat (length xs), h2o_accepts := h2o_accepts (lp w) @ map (\<lambda>s. (s, x)) xs\<rparr>"
  shows "loop_inv ssl s1 s2 (w\<lparr>lp := l, open_conns := open_conns w @ new_conns (lp w) l\<rparr>)"
proof -
  have "new_conns (lp w) l = xs" using assms(2) by (intro new_conns_eq [where x = x]) simp
  then show ?thesis using assms by (simp add: loop_inv_alt)
qed

lemma loop_inv_step:
  assumes "loop_step config http_cb w w'" "loop_inv ssl s1 s2 w"
  shows "loop_inv ssl s1 s2 w'"
  using assms
proof (induction rule: loop_step.induct)
  case (https w err waiting rest l)
  from accept_connection_keeps [OF https(3)] loop_inv_accept [OF https(4)] show ?case by blast
next
  case (http w err waiting rest l)
  then have "(\<exists>xs x. l = (lp w)\<lparr>conn_num := conn_num (lp w) + word_of_nat (length xs),
      h2o_accepts := h2o_accepts (lp w) @ map (\<lambda>s. (s, x)) xs\<rparr>)"
    using accept_connection_keeps [of config err waiting "lp w" rest l] accept_http_connection_keeps [of config err waiting "lp w" rest l]
    by (cases http_cb) (simp_all, blast+)
  with loop_inv_accept [OF http(4)] show ?case by blast
next
  case (close w xs c ys)
  then show ?case by (simp add: loop_inv_alt on_close_connection_def)
next
  case (messages w fuel post msgs l)
  then show ?case using process_messages_keeps [OF messages(2)] by (simp add: loop_inv_alt)
next
  case (signal w err msgs l)
  then show ?case using shutdown_server_keeps [OF signal(2)] by (simp add: loop_inv_alt)
qed

lemma loop_inv_initial: "loop_inv ssl s1 s2 (initial_world ssl s1 s2)"
  by (simp add: loop_inv_def initial_world_def initialize_event_loop_def listeners_def open_listeners_def Let_def)

lemma loop_inv_reachable:
  "(loop_step config http_cb)\<^sup>*\<^sup>* (initial_world ssl s1 s2) w \<Longrightarrow> loop_inv ssl s1 s2 w"
  by (induction rule: rtranclp_induct) (auto intro: loop_inv_initial loop_inv_step)

text \<open>After the shutdown no connection is accepted: the connections only become fewer.\<close>

lemma shutdown_step:
  assumes "loop_step config http_cb w w'" "shutdown (lp w)" "loop_inv ssl s1 s2 w"
  shows "shutdown (lp w') \<and> mset (open_conns w') \<subseteq># mset (open_conns w)"
  using assms
proof (induction rule: loop_step.induct)
  case (https w err waiting rest l)
  then show ?case by (auto simp: loop_inv_def open_listeners_def split: option.splits)
next
  case (http w err waiting rest l)
  then show ?case by (auto simp: loop_inv_def open_listeners_def split: option.splits)
next
  case (messages w fuel post msgs l)
  then show ?case using process_messages_keeps [OF messages(2)] by auto
next
  case (signal w err msgs l)
  then show ?case by (auto simp: shutdown_server_def close_both Let_def split: if_splits)
qed (auto simp: on_close_connection_def)

lemma shutdown_steps:
  assumes "(loop_step config http_cb)\<^sup>*\<^sup>* w w'" "shutdown (lp w)" "loop_inv ssl s1 s2 w"
  shows "shutdown (lp w') \<and> mset (open_conns w') \<subseteq># mset (open_conns w) \<and> loop_inv ssl s1 s2 w'"
  using assms
proof (induction rule: rtranclp_induct)
  case (step w1 w2)
  then show ?case using shutdown_step [OF step(2)] loop_inv_step [OF step(2)] subset_mset.order_trans by blast
qed simp

section \<open>Messages and the end of the loop\<close>

text \<open>
  Tasks may send further messages to their own thread, but not without end: a task weighs more
  than what it sends.  Then a fuel of the weight of the messages is enough.
\<close>

definition message_weight :: "(nat \<Rightarrow> nat) \<Rightarrow> message_t \<Rightarrow> nat" where
  "message_weight weight msg = (case msg of SHUTDOWN \<Rightarrow> 1 | TASK n \<Rightarrow> weight n)"

definition messages_weight :: "(nat \<Rightarrow> nat) \<Rightarrow> message_t list \<Rightarrow> nat" where
  "messages_weight weight msgs = (\<Sum>msg\<leftarrow>msgs. message_weight weight msg)"

lemma messages_weight_simps [simp]:
  "messages_weight weight [] = 0"
  "messages_weight weight (msg # msgs) = message_weight weight msg + messages_weight weight msgs"
  "messages_weight weight (msgs @ msgs') = messages_weight weight msgs + messages_weight weight msgs'"
  by (simp_all add: messages_weight_def)

definition posts_less :: "(nat \<Rightarrow> nat) \<Rightarrow> (nat \<Rightarrow> message_t list) \<Rightarrow> bool" where
  "posts_less weight post \<longleftrightarrow> (\<forall>n. messages_weight weight (post n) < weight n)"

lemma process_messages_enough:
  "posts_less weight post \<Longrightarrow> messages_weight weight msgs \<le> fuel \<Longrightarrow> process_messages fuel post msgs l \<noteq> None"
proof (induction fuel post msgs l rule: process_messages.induct)
  case (2 post msg msgs l)
  have "0 < message_weight weight msg"
    using 2(1) unfolding posts_less_def message_weight_def by (cases msg) (auto intro: le_less_trans [OF le0])
  with 2 show ?case by simp
next
  case (3 fuel post msg msgs l)
  have "messages_weight weight (case msg of TASK n \<Rightarrow> post n | SHUTDOWN \<Rightarrow> []) < message_weight weight msg"
    using 3(2) by (cases msg) (auto simp: message_weight_def posts_less_def)
  with 3 show ?case by simp
qed simp

lemma close_all:
  assumes "shutdown (lp w)" "conn_num (lp w) = word_of_nat (length (open_conns w))"
  shows "\<exists>w'. (loop_step config http_cb)\<^sup>*\<^sup>* w w' \<and> \<not> event_loop_runs (lp w')"
  using assms
proof (induction "open_conns w" arbitrary: w)
  case Nil
  then show ?case by (intro exI [of _ w]) (simp add: event_loop_runs_def)
next
  case (Cons c cs)
  let ?w = "w\<lparr>lp := on_close_connection (lp w), open_conns := cs\<rparr>"
  show ?case
  proof (cases "event_loop_runs (lp w)")
    case True
    then have "loop_step config http_cb w ?w" using loop_step.close [of w "[]" c cs] Cons(2) by simp
    moreover have "shutdown (lp ?w)" "conn_num (lp ?w) = word_of_nat (length (open_conns ?w))"
      using Cons by (simp_all add: on_close_connection_def flip: Cons(2))
    moreover have "cs = open_conns ?w" by simp
    ultimately show ?thesis using Cons(1) by (meson converse_rtranclp_into_rtranclp)
  qed blast
qed

lemma shutdown_messages:
  assumes "0 < thread_num config"
  shows "fst (shutdown_server config False l) = map (\<lambda>i. (i, SHUTDOWN)) (rev [1..<unat (thread_num config)])"
    "snd (shutdown_server config False l) = close_http (close_https (l\<lparr>shutdown := True\<rparr>))"
proof -
  have "Suc (unat (thread_num config - 1)) = unat (thread_num config)"
    using assms by (simp add: unat_minus_one word_greater_zero_iff flip: word_neq_0_conv)
      (metis One_nat_def Suc_pred unat_gt_0)
  then show "fst (shutdown_server config False l) = map (\<lambda>i. (i, SHUTDOWN)) (rev [1..<unat (thread_num config)])"
    "snd (shutdown_server config False l) = close_http (close_https (l\<lparr>shutdown := True\<rparr>))"
    unfolding shutdown_server_def by (simp_all add: Let_def)
qed

lemma accept_connection_progress:
  assumes "accept_connection config False (sock # waiting) l = (rest, l')" "\<not> shutdown l" "max_accept config \<noteq> 0"
  shows "h2o_accepts l' \<noteq> h2o_accepts l \<and> length rest \<le> length waiting"
proof -
  obtain m where m: "unat (max_accept config) = Suc m" using assms(3) by (cases "unat (max_accept config)") (auto simp: unat_eq_zero)
  from assms(1,2) have a: "accept_loop (unat (max_accept config)) (sock # waiting) l = (rest, l')" by (simp add: accept_connection_def)
  from accept_loop_keeps [OF a] obtain xs where
    xs: "h2o_accepts l' = h2o_accepts l @ map (\<lambda>s. (s, ssl_ctx l)) xs" "sock # waiting = xs @ rest" "length xs = Suc m \<or> rest = []"
    unfolding m by auto
  then have "xs \<noteq> []" by auto
  with xs(1,2) show ?thesis by (cases xs) auto
qed

section \<open>Properties\<close>

text \<open>C9. Whatever the callbacks of a thread of the h2o application do in whatever order, the counter of the
  connections is their number, every listening socket is open or was closed once, the TLS context
  of the thread is the configured one between callbacks, and it is shutting down exactly when no
  socket is listening.  When its loop ends it has no connection left, and each listening socket
  has been closed exactly once, also after the loop is freed.\<close>

theorem event_loop_safe:
  assumes "(loop_step config http_cb)\<^sup>*\<^sup>* (initial_world ssl s1 s2) w"
  shows "conn_num (lp w) = word_of_nat (length (open_conns w)) \<and> ssl_ctx (lp w) = ssl \<and>
    (shutdown (lp w) \<longleftrightarrow> h2o_https_socket (lp w) = None \<and> h2o_socket (lp w) = None) \<and>
    mset (closed_sockets (free_event_loop (lp w))) = mset (if ssl \<noteq> None then [s1, s2] else [s2]) \<and>
    (\<not> event_loop_runs (lp w) \<and> length (open_conns w) < 2 ^ 64 \<longrightarrow>
      open_conns w = [] \<and> mset (closed_sockets (lp w)) = mset (if ssl \<noteq> None then [s1, s2] else [s2]))"
proof -
  note i = loop_inv_reachable [OF assms, unfolded loop_inv_def]
  from i have sockets: "shutdown (lp w) \<longleftrightarrow> h2o_https_socket (lp w) = None \<and> h2o_socket (lp w) = None"
    by (auto simp: open_listeners_def split: option.splits)
  from i have freed: "mset (closed_sockets (free_event_loop (lp w))) = mset (if ssl \<noteq> None then [s1, s2] else [s2])"
    by (simp add: free_event_loop_def open_listeners_def listeners_def)
  { assume ends: "\<not> event_loop_runs (lp w) \<and> length (open_conns w) < 2 ^ 64"
    then have "shutdown (lp w)" "word_of_nat (length (open_conns w)) = (0 :: 64 word)"
      using i by (auto simp: event_loop_runs_def)
    moreover have "unat (word_of_nat (length (open_conns w)) :: 64 word) = length (open_conns w)"
      using ends by (simp add: unsigned_of_nat take_bit_eq_mod)
    ultimately have "open_conns w = []" "shutdown (lp w)" by auto
    with i have "open_conns w = [] \<and> mset (closed_sockets (lp w)) = mset (if ssl \<noteq> None then [s1, s2] else [s2])"
      by (auto simp: listeners_def) }
  with i sockets freed show ?thesis by blast
qed

text \<open>The property at work: two listening sockets, one connection over HTTPS, the signal, the end.\<close>

definition sample_loop_config :: config_t where
  "sample_loop_config = zero_config\<lparr>max_accept := 2, thread_num := 2\<rparr>"

definition sample_worlds :: "world_t list" where
  "sample_worlds =
     (let w0 = initial_world (Some 7) 1 2;
          w1 = w0\<lparr>lp := snd (accept_connection sample_loop_config False [5] (lp w0)), open_conns := [5]\<rparr>;
          w2 = w1\<lparr>lp := snd (shutdown_server sample_loop_config False (lp w1)), sent := [(1, SHUTDOWN)]\<rparr>;
          w3 = w2\<lparr>lp := on_close_connection (lp w2), open_conns := []\<rparr>
      in [w0, w1, w2, w3])"

lemmas sample_defs = sample_loop_config_def sample_worlds_def initial_world_def initialize_event_loop_def zero_config_def
  accept_connection_def shutdown_server_def on_close_connection_def close_http_def close_https_def event_loop_runs_def

lemma sample_accept:
  "accept_loop 2 [5] l = ([], l\<lparr>conn_num := conn_num l + 1, h2o_accepts := h2o_accepts l @ [(5, ssl_ctx l)]\<rparr>)"
  by (simp add: numeral_2_eq_2)

lemma sample_loop_reachable:
  "(loop_step sample_loop_config Accept_http_connection)\<^sup>*\<^sup>* (initial_world (Some 7) 1 2) (sample_worlds ! 3)"
proof -
  let ?s = "loop_step sample_loop_config Accept_http_connection"
  have "?s (initial_world (Some 7) 1 2) (sample_worlds ! 1)"
    by (rule loop_step.https [where err = False and waiting = "[5]" and rest = "[]"
          and l = "snd (accept_connection sample_loop_config False [5] (lp (initial_world (Some 7) 1 2)))", THEN back_subst [where P = "?s _"]])
      (simp_all add: sample_defs sample_accept new_conns_def)
  moreover have "?s (sample_worlds ! 1) (sample_worlds ! 2)"
    by (rule loop_step.signal [where err = False, THEN back_subst [where P = "?s _"]]) (simp_all add: sample_defs sample_accept)
  moreover have "?s (sample_worlds ! 2) (sample_worlds ! 3)"
    by (rule loop_step.close [where xs = "[]" and ys = "[]" and c = 5, THEN back_subst [where P = "?s _"]]) (simp_all add: sample_defs sample_accept)
  ultimately show ?thesis by (metis converse_rtranclp_into_rtranclp rtranclp.rtrancl_refl)
qed

theorem event_loop_safe_witness:
  "open_conns (sample_worlds ! 3) = [] \<and> mset (closed_sockets (lp (sample_worlds ! 3))) = {#1, 2#} \<and>
   mset (closed_sockets (free_event_loop (lp (sample_worlds ! 3)))) = {#1, 2#} \<and>
   ssl_ctx (lp (sample_worlds ! 3)) = Some 7"
proof -
  note safe = event_loop_safe [OF sample_loop_reachable]
  have "\<not> event_loop_runs (lp (sample_worlds ! 3))" "length (open_conns (sample_worlds ! 3)) < 2 ^ 64"
    by (simp_all add: sample_defs sample_accept)
  with safe show ?thesis by simp
qed

text \<open>C30. The signal reaches every thread: the main thread closes its listening sockets and sends one message to
  each other thread, such a thread does the same when it meets the message, whatever else is
  queued, and a thread that is shutting down accepts nothing any more, so that its loop can end
  by closing the connections that are left.\<close>

theorem shutdown_stops_all:
  assumes "0 < thread_num config" "shutdown_server config False l = (sent_msgs, l0)"
    "(loop_step config http_cb)\<^sup>*\<^sup>* (initial_world ssl s1 s2) w"
  shows "mset sent_msgs = image_mset (\<lambda>i. (i, SHUTDOWN)) (mset_set {1..<unat (thread_num config)}) \<and>
    shutdown l0 \<and> h2o_https_socket l0 = None \<and> h2o_socket l0 = None \<and>
    (SHUTDOWN \<in> set msgs \<and> posts_less weight post \<and> messages_weight weight msgs \<le> fuel \<longrightarrow>
      (\<exists>l'. process_messages fuel post msgs (lp w) = Some l' \<and> shutdown l' \<and> h2o_https_socket l' = None \<and> h2o_socket l' = None)) \<and>
    (shutdown (lp w) \<and> (loop_step config http_cb)\<^sup>*\<^sup>* w w' \<longrightarrow>
      mset (open_conns w') \<subseteq># mset (open_conns w) \<and> (\<exists>w''. (loop_step config http_cb)\<^sup>*\<^sup>* w' w'' \<and> \<not> event_loop_runs (lp w'')))"
proof -
  have msgs: "sent_msgs = map (\<lambda>i. (i, SHUTDOWN)) (rev [1..<unat (thread_num config)])"
    and l0: "l0 = close_http (close_https (l\<lparr>shutdown := True\<rparr>))"
    using shutdown_messages [OF assms(1), of l] assms(2) by simp_all
  note inv = loop_inv_reachable [OF assms(3)]
  have "\<exists>l'. process_messages fuel post msgs (lp w) = Some l' \<and> shutdown l' \<and> h2o_https_socket l' = None \<and> h2o_socket l' = None"
    if m: "SHUTDOWN \<in> set msgs" "posts_less weight post" "messages_weight weight msgs \<le> fuel"
  proof -
    from process_messages_enough [OF m(2,3)] obtain l' where l': "process_messages fuel post msgs (lp w) = Some l'" by fast
    from process_messages_keeps [OF this, of ssl s1 s2] inv m(1)
    have "shutdown l'" "open_listeners l' = []" by (auto simp: loop_inv_alt listening_ok_def)
    with l' show ?thesis by (auto simp: open_listeners_def split: option.splits)
  qed
  moreover have "mset (open_conns w') \<subseteq># mset (open_conns w) \<and> (\<exists>w''. (loop_step config http_cb)\<^sup>*\<^sup>* w' w'' \<and> \<not> event_loop_runs (lp w''))"
    if "shutdown (lp w)" "(loop_step config http_cb)\<^sup>*\<^sup>* w w'"
    using shutdown_steps [OF that(2,1) inv] close_all [of w' config http_cb] by (auto simp: loop_inv_def)
  ultimately show ?thesis by (simp add: msgs l0 close_both)
qed

theorem shutdown_stops_all_witness:
  "fst (shutdown_server sample_loop_config False (lp (initial_world None 1 2))) = [(1, SHUTDOWN)] \<and>
   (\<exists>l'. process_messages 3 (\<lambda>n. if n = 0 then [TASK 1] else []) [TASK 0, SHUTDOWN] (lp (initial_world None 1 2)) = Some l' \<and> shutdown l') \<and>
   (\<exists>w. (loop_step sample_loop_config Accept_http_connection)\<^sup>*\<^sup>* (sample_worlds ! 3) w \<and> \<not> event_loop_runs (lp w))"
proof -
  let ?post = "\<lambda>n :: nat. if n = 0 then [TASK 1] else []"
  let ?weight = "\<lambda>n :: nat. if n = 0 then 2 else (1 :: nat)"
  have n: "0 < thread_num sample_loop_config" by (simp add: sample_loop_config_def)
  note stops = shutdown_stops_all [OF n, of "lp (initial_world None 1 2)", OF prod.collapse [symmetric]]
  have "{1..<2} = {1 :: nat}" by auto
  have less: "posts_less ?weight ?post" by (simp add: posts_less_def message_weight_def)
  have start: "(loop_step sample_loop_config Accept_connection)\<^sup>*\<^sup>* (initial_world None 1 2) (initial_world None 1 2)" by simp
  have "mset (fst (shutdown_server sample_loop_config False (lp (initial_world None 1 2)))) = {#(1, SHUTDOWN)#}"
    using stops [OF start] \<open>{1..<2} = {1}\<close> by (simp add: sample_loop_config_def)
  moreover have "\<exists>l'. process_messages 3 ?post [TASK 0, SHUTDOWN] (lp (initial_world None 1 2)) = Some l' \<and> shutdown l'"
    using stops [OF start, of "[TASK 0, SHUTDOWN]" ?weight ?post 3] less by (auto simp: message_weight_def)
  moreover have "\<exists>w. (loop_step sample_loop_config Accept_http_connection)\<^sup>*\<^sup>* (sample_worlds ! 3) w \<and> \<not> event_loop_runs (lp w)"
    using stops [OF sample_loop_reachable, of "[]" "\<lambda>_. 0" "\<lambda>_. []" 0 "sample_worlds ! 3"] by (auto simp: sample_defs sample_accept)
  ultimately show ?thesis by auto
qed

end
