(* ===== verification/Program.thy ===== *)
theory Program
  imports Joined_Threads Event_Loop World_More
begin

text \<open>
  The life of the h2o application (\<^verbatim>\<open>main.c\<close>, \<^verbatim>\<open>thread.c\<close>, the set-up
  functions of \<^verbatim>\<open>request_handler.c\<close>, \<^verbatim>\<open>fortune.c\<close>, \<^verbatim>\<open>world.c\<close>
  and \<^verbatim>\<open>tls.c\<close>): what it acquires when it starts, which threads it starts, and how it
  gives back everything but the handle of the log.  Each function is the list of what it does; calls that end the process
  when they fail are not in it.
\<close>

section \<open>Resources\<close>

text \<open>
  The event loop, the pool of database connections, the cache of rows and the JSON generators
  belong to a thread; thread 0 is the main program.
\<close>

datatype resource =
    Signal_fd | H2o_config | Ssl_ctx | Log_handle | File_logger | Balancer | Thread_data
  | Template_file | Template | Statements
  | Loop nat | Pool nat | World_cache nat | Generator nat nat


datatype handler_t = Handle_fortunes | Handle_json | Handle_plaintext | Handle_cached | Handle_db | Handle_queries
  | Handle_updates | Handle_files

text \<open>
  \<^verbatim>\<open>global_data_t\<close>: which of its pointers are set, with the prepared statements and the
  paths that were registered.
\<close>

record global_data_t =
  file_logger :: bool
  global_thread_data :: bool
  socket_load_balancer :: bool
  global_ssl_ctx :: bool
  bpf_fd :: int
  fortunes_template :: bool
  prepared_statements :: "(string \<times> string) list"
  routes :: "(string \<times> handler_t) list"

definition do_if :: "bool \<Rightarrow> 'a \<Rightarrow> 'a list" where
  "do_if b e = (if b then [e] else [])"

section \<open>Handlers\<close>


definition template_file_name :: "config_t \<Rightarrow> string" where
  "template_file_name config = (case template_path config of None \<Rightarrow> [] | Some p \<Rightarrow> p) @ ''/fortunes.mustache''"







section \<open>The data of the program\<close>










section \<open>Threads\<close>


definition uses :: "global_data_t \<Rightarrow> resource event list" where
  "uses gd = [Use Thread_data, Use H2o_config, Use Statements] @ do_if (fortunes_template gd) (Use Template) @
     do_if (global_ssl_ctx gd) (Use Ssl_ctx) @ do_if (file_logger gd) (Use File_logger)"


definition make_generators :: "nat \<Rightarrow> nat \<Rightarrow> resource event list" where
  "make_generators n i = map Acquire (map (Generator i) [0..<n])"

text \<open>The generators are in a list that grew at its front.\<close>

definition free_generators :: "nat \<Rightarrow> nat \<Rightarrow> resource event list" where
  "free_generators n i = map Release (map (Generator i) (rev [0..<n]))"





text \<open>
  \<^verbatim>\<open>set_thread_memory_allocation_policy\<close>: the mask of memory nodes, in words of 64 bits.
\<close>

definition node_mask :: "nat \<Rightarrow> 64 word list" where
  "node_mask memory_node =
     (replicate ((memory_node + 64) div 64) 0)[memory_node div 64 := push_bit (memory_node mod 64) 1]"

section \<open>The main program\<close>



text \<open>
  \<^verbatim>\<open>setup_process\<close> blocks signals, the descriptor of \<^verbatim>\<open>initialize_global_data\<close>
  reports some; \<^verbatim>\<open>NDEBUG\<close> is a parameter.
\<close>

datatype signal = SIGBUS | SIGFPE | SIGILL | SIGINT | SIGSEGV | SIGTERM | Other_signal nat

definition blocked_signal :: "bool \<Rightarrow> signal \<Rightarrow> bool" where
  "blocked_signal ndebug s \<longleftrightarrow> s \<notin> {SIGBUS, SIGFPE, SIGILL, SIGSEGV} \<and> (ndebug \<or> s \<noteq> SIGINT)"

definition reported_signal :: "bool \<Rightarrow> signal \<Rightarrow> bool" where
  "reported_signal ndebug s \<longleftrightarrow> s = SIGTERM \<or> ndebug \<and> s = SIGINT"

section \<open>Checking the program\<close>

definition owner :: "resource \<Rightarrow> nat option" where
  "owner r = (case r of
     Loop i \<Rightarrow> if i = 0 then None else Some i
   | Pool i \<Rightarrow> if i = 0 then None else Some i
   | World_cache i \<Rightarrow> if i = 0 then None else Some i
   | Generator i j \<Rightarrow> if i = 0 then None else Some i
   | _ \<Rightarrow> None)"

definition opt_set :: "bool \<Rightarrow> 'a \<Rightarrow> 'a set" where
  "opt_set b r = (if b then {r} else {})"

lemma in_opt_set [simp]: "x \<in> opt_set b r \<longleftrightarrow> b \<and> x = r"
  by (simp add: opt_set_def)

definition shared_resources :: "global_data_t \<Rightarrow> resource set" where
  "shared_resources gd = {Thread_data, H2o_config, Statements} \<union> opt_set (fortunes_template gd) Template \<union>
     opt_set (global_ssl_ctx gd) Ssl_ctx \<union> opt_set (file_logger gd) File_logger"


lemma main_ok_do_if [simp]:
  "main_ok ow sh k H W (do_if b (Acquire r) @ es) \<longleftrightarrow> (b \<longrightarrow> ow r = None \<and> r \<notin> H) \<and> main_ok ow sh k (H \<union> opt_set b r) W es"
  "main_ok ow sh k H W (do_if b (Release r) @ es) \<longleftrightarrow>
     (b \<longrightarrow> r \<in> H \<and> (W = {} \<or> r \<notin> sh)) \<and> main_ok ow sh k (H - opt_set b r) W es"
  "main_ok ow sh k H W (do_if b (Use r) @ es) \<longleftrightarrow> (b \<longrightarrow> r \<in> H) \<and> main_ok ow sh k H W es"
  by (auto simp: do_if_def opt_set_def)

lemma thread_ok_do_if [simp]:
  "thread_ok ow sh i H (do_if b (Acquire r) @ es) \<longleftrightarrow> (b \<longrightarrow> ow r = Some i \<and> r \<notin> H) \<and> thread_ok ow sh i (H \<union> opt_set b r) es"
  "thread_ok ow sh i H (do_if b (Release r) @ es) \<longleftrightarrow> (b \<longrightarrow> r \<in> H) \<and> thread_ok ow sh i (H - opt_set b r) es"
  "thread_ok ow sh i H (do_if b (Use r) @ es) \<longleftrightarrow> (b \<longrightarrow> r \<in> H \<union> sh) \<and> thread_ok ow sh i H es"
  by (auto simp: do_if_def opt_set_def)

lemma main_ok_uses [simp]:
  "main_ok ow sh k H W (uses gd @ es) \<longleftrightarrow> shared_resources gd \<subseteq> H \<and> main_ok ow sh k H W es"
  by (auto simp: uses_def shared_resources_def)

lemma thread_ok_uses [simp]:
  "shared_resources gd \<subseteq> sh \<Longrightarrow> thread_ok ow sh i H (uses gd @ es) \<longleftrightarrow> thread_ok ow sh i H es"
  by (auto simp: uses_def shared_resources_def)

lemma thread_ok_generators [simp]:
  "\<forall>r \<in> Generator i ` {0..<n}. ow r = Some i \<and> r \<notin> H \<Longrightarrow>
    thread_ok ow sh i H (make_generators n i @ es) \<longleftrightarrow> thread_ok ow sh i (H \<union> Generator i ` {0..<n}) es"
  "Generator i ` {0..<n} \<subseteq> H \<Longrightarrow>
    thread_ok ow sh i H (free_generators n i @ es) \<longleftrightarrow> thread_ok ow sh i (H - Generator i ` {0..<n}) es"
  unfolding make_generators_def free_generators_def
  by (subst thread_ok_acquire thread_ok_release; auto simp: distinct_map inj_on_def)+

lemma main_ok_generators [simp]:
  "\<forall>r \<in> Generator i ` {0..<n}. ow r = None \<and> r \<notin> H \<Longrightarrow>
    main_ok ow sh k H W (make_generators n i @ es) \<longleftrightarrow> main_ok ow sh k (H \<union> Generator i ` {0..<n}) W es"
  "Generator i ` {0..<n} \<subseteq> H \<Longrightarrow> Generator i ` {0..<n} \<inter> sh = {} \<Longrightarrow>
    main_ok ow sh k H W (free_generators n i @ es) \<longleftrightarrow> main_ok ow sh k (H - Generator i ` {0..<n}) W es"
  unfolding make_generators_def free_generators_def
  by (subst main_ok_acquire main_ok_release; auto simp: distinct_map inj_on_def)+








lemma owner_simps [simp]:
  "owner Signal_fd = None" "owner H2o_config = None" "owner Ssl_ctx = None" "owner Log_handle = None" "owner File_logger = None"
  "owner Balancer = None" "owner Thread_data = None" "owner Template_file = None" "owner Template = None" "owner Statements = None"
  "owner (Loop 0) = None" "owner (Pool 0) = None" "owner (World_cache 0) = None" "owner (Generator 0 j) = None"
  by (simp_all add: owner_def)











section \<open>The whole program\<close>









section \<open>Properties\<close>








lemma residues: "p < c \<Longrightarrow> length (filter (\<lambda>i. i mod c = p) [0..<c * k]) = k" for c :: nat
proof (induction k)
  case (Suc k)
  have "[0..<c * Suc k] = [0..<c * k] @ [c * k..<c * k + c]"
    using upt_add_eq_append [of 0 "c * k" c] by (simp add: add.commute [of c])
  also have "[c * k..<c * k + c] = map (\<lambda>i. i + c * k) [0..<c]" by (simp add: map_add_upt add.commute)
  finally have split: "[0..<c * Suc k] = [0..<c * k] @ map (\<lambda>i. i + c * k) [0..<c]" .
  have "filter (\<lambda>i. i mod c = p) (map (\<lambda>i. i + c * k) [0..<c]) = map (\<lambda>i. i + c * k) (filter (\<lambda>i. i = p) [0..<c])"
    by (simp add: filter_map comp_def) (rule filter_cong, auto)
  moreover have "length (filter (\<lambda>i. i = p) [0..<c]) = 1"
    using Suc.prems by (simp add: distinct_length_filter Collect_conv_if Int_def)
  ultimately show ?case unfolding split using Suc by simp
qed simp

lemma residues_rev: "0 < n \<Longrightarrow> mset (0 # rev [1..<n]) = mset [0..<n]" for n :: nat
  by (simp add: upt_conv_Cons)

text \<open>When the number of threads is a multiple of the number of processors, each processor runs the same number
  of threads; otherwise no thread is bound to a processor.  The threads are numbered from zero.\<close>

theorem threads_balanced:
  assumes "0 < numproc" "0 < thread_num config"
  shows "mset (map fst (start_threads numproc config)) = mset [0..<unat (thread_num config)] \<and>
    (if unat (thread_num config) mod numproc = 0
     then \<forall>p < numproc. length (filter (\<lambda>t. snd t = Some p) (start_threads numproc config)) = unat (thread_num config) div numproc
     else \<forall>t \<in> set (start_threads numproc config). snd t = None)"
proof -
  let ?n = "unat (thread_num config)"
  have n: "Suc (unat (thread_num config - 1)) = ?n" "0 < ?n"
    using assms(2) by (simp_all add: unat_minus_one word_gt_0 unat_gt_0)
  let ?cpu = "\<lambda>i. if ?n mod numproc = 0 then Some (i mod numproc) else None"
  have s: "start_threads numproc config = map (\<lambda>i. (i, ?cpu i)) (0 # rev [1..<?n])"
    by (simp add: start_threads_def n(1) Let_def)
  have "length (filter (\<lambda>t. snd t = Some p) (start_threads numproc config)) = ?n div numproc"
    if "?n mod numproc = 0" "p < numproc" for p
  proof -
    have "mset (filter (\<lambda>i. i mod numproc = p) (0 # rev [1..<?n])) = mset (filter (\<lambda>i. i mod numproc = p) [0..<?n])"
      using residues_rev [OF n(2)] by (simp only: mset_filter)
    then have "length (filter (\<lambda>i. i mod numproc = p) (0 # rev [1..<?n])) = length (filter (\<lambda>i. i mod numproc = p) [0..<?n])"
      by (rule mset_eq_length)
    also have "[0..<?n] = [0..<numproc * (?n div numproc)]" using that(1) by auto
    also have "length (filter (\<lambda>i. i mod numproc = p) \<dots>) = ?n div numproc" by (rule residues [OF that(2)])
    finally show ?thesis using that(1) unfolding s by (simp only: filter_map length_map comp_def snd_conv if_True option.inject simp_thms)
  qed
  moreover have "mset (map fst (start_threads numproc config)) = mset [0..<?n]"
    using residues_rev [OF n(2)] unfolding s by (simp only: map_map comp_def fst_conv map_ident)
  ultimately show ?thesis unfolding s by auto
qed

theorem threads_balanced_witness:
  "length (filter (\<lambda>t. snd t = Some 1) (start_threads 2 (zero_config\<lparr>thread_num := 6\<rparr>))) = 3"
  using threads_balanced [of 2 "zero_config\<lparr>thread_num := 6\<rparr>"] by (simp add: zero_config_def)

text \<open>The mask of memory nodes has exactly the bit of the node, inside the array.\<close>

lemma node_mask_bit:
  "memory_node div 64 < length (node_mask memory_node)"
  "i < length (node_mask memory_node) \<Longrightarrow> j < 64 \<Longrightarrow> bit (node_mask memory_node ! i) j \<longleftrightarrow> 64 * i + j = memory_node"
proof -
  show "memory_node div 64 < length (node_mask memory_node)" by (simp add: node_mask_def)
  assume "i < length (node_mask memory_node)" "j < 64"
  moreover have "64 * i + j = memory_node \<longleftrightarrow> i = memory_node div 64 \<and> j = memory_node mod 64" using \<open>j < 64\<close> by auto
  ultimately show "bit (node_mask memory_node ! i) j \<longleftrightarrow> 64 * i + j = memory_node"
    by (auto simp: node_mask_def nth_list_update bit_simps)
qed

text \<open>A signal that is reported through the descriptor is blocked, so it does not end the process.\<close>

lemma reported_blocked: "reported_signal ndebug s \<Longrightarrow> blocked_signal ndebug s"
  by (auto simp: reported_signal_def blocked_signal_def)

end
