(* ===== verification/Facil.thy ===== *)
theory Facil
  imports Prelude "HOL-Library.Multiset"
begin

text \<open>
  The application for facil.io (\<^verbatim>\<open>facil.io/bench_app.c\<close>): it answers the plain
  text and the JSON test.  The objects of the library count references; what the application has
  to get right is who owns which.  The library is the record \<^verbatim>\<open>fio_lib\<close> with a
  state of its own; \<^verbatim>\<open>fio_contract\<close> is what its documentation says of it.
\<close>

section \<open>The library\<close>

type_synonym fiobj = nat

datatype handler = On_request_json | On_request_plain_text

record ('s, 'r) fio_lib =
  fiobj_str_new :: "string \<Rightarrow> 's \<Rightarrow> fiobj \<times> 's"
  fiobj_dup :: "fiobj \<Rightarrow> 's \<Rightarrow> 's"
  fiobj_free :: "fiobj \<Rightarrow> 's \<Rightarrow> 's"
  fiobj_hash_new2 :: "'s \<Rightarrow> fiobj \<times> 's"
  fiobj_hash_set :: "fiobj \<Rightarrow> fiobj \<Rightarrow> fiobj \<Rightarrow> 's \<Rightarrow> 's"
  fiobj_obj2json :: "fiobj \<Rightarrow> 's \<Rightarrow> fiobj \<times> 's"
  fiobj_obj2cstr :: "fiobj \<Rightarrow> 's \<Rightarrow> string"
  http_mimetype_find :: "string \<Rightarrow> 's \<Rightarrow> fiobj \<times> 's"
  http_set_header :: "fiobj \<Rightarrow> fiobj \<Rightarrow> 's \<Rightarrow> 's"
  http_send_body :: "string \<Rightarrow> 's \<Rightarrow> 's"
  http_send_error :: "nat \<Rightarrow> 's \<Rightarrow> 's"
  HTTP_HEADER_CONTENT_TYPE :: fiobj
  FIO_VERSION_STRING :: string
  fio_router_insert :: "'r \<Rightarrow> nat \<Rightarrow> string \<Rightarrow> handler \<Rightarrow> 'r"
  fio_router_find :: "'r \<Rightarrow> nat \<Rightarrow> string \<Rightarrow> handler option"
  fio_router_free :: "'r \<Rightarrow> 'r"

section \<open>The application\<close>

record 'r app =
  HTTP_HEADER_SERVER :: fiobj
  HTTP_VALUE_SERVER :: fiobj
  JSON_KEY :: fiobj
  JSON_VALUE :: fiobj
  routes :: 'r

definition route_add :: "('s, 'r) fio_lib \<Rightarrow> string \<Rightarrow> handler \<Rightarrow> 'r \<Rightarrow> 'r" where
  "route_add lib path handler r = fio_router_insert lib r (length path) path handler"

text \<open>The beginning of \<^verbatim>\<open>main\<close>: the routes and the objects that every request uses.\<close>

definition setup_app :: "('s, 'r) fio_lib \<Rightarrow> 'r \<Rightarrow> 's \<Rightarrow> 'r app \<times> 's" where
  "setup_app lib no_routes s =
     (let r = route_add lib ''/plaintext'' On_request_plain_text (route_add lib ''/json'' On_request_json no_routes)
      in case fiobj_str_new lib ''server'' s of (header, s) \<Rightarrow>
         (case fiobj_str_new lib (''facil.io '' @ FIO_VERSION_STRING lib) s of (server, s) \<Rightarrow>
          (case fiobj_str_new lib ''message'' s of (jkey, s) \<Rightarrow>
           (case fiobj_str_new lib ''Hello, World!'' s of (jvalue, s) \<Rightarrow>
              (\<lparr>HTTP_HEADER_SERVER = header, HTTP_VALUE_SERVER = server, JSON_KEY = jkey, JSON_VALUE = jvalue, routes = r\<rparr>, s)))))"

definition on_request_json :: "('s, 'r) fio_lib \<Rightarrow> 'r app \<Rightarrow> 's \<Rightarrow> 's" where
  "on_request_json lib app s =
     (case http_mimetype_find lib ''json'' s of (mime, s) \<Rightarrow>
        (let s = http_set_header lib (HTTP_HEADER_CONTENT_TYPE lib) mime s
         in case fiobj_hash_new2 lib s of (hash, s) \<Rightarrow>
            (let s = fiobj_hash_set lib hash (JSON_KEY app) (JSON_VALUE app) (fiobj_dup lib (JSON_VALUE app) s)
             in case fiobj_obj2json lib hash s of (json, s) \<Rightarrow>
                (let s = fiobj_free lib hash s;
                     tmp = fiobj_obj2cstr lib json s;
                     s = http_send_body lib tmp s
                 in fiobj_free lib json s))))"

definition on_request_plain_text :: "('s, 'r) fio_lib \<Rightarrow> 's \<Rightarrow> 's" where
  "on_request_plain_text lib s =
     (case http_mimetype_find lib ''txt'' s of (mime, s) \<Rightarrow>
        http_send_body lib ''Hello, World!'' (http_set_header lib (HTTP_HEADER_CONTENT_TYPE lib) mime s))"

fun run_handler :: "handler \<Rightarrow> ('s, 'r) fio_lib \<Rightarrow> 'r app \<Rightarrow> 's \<Rightarrow> 's" where
  "run_handler On_request_json lib app s = on_request_json lib app s"
| "run_handler On_request_plain_text lib app s = on_request_plain_text lib s"

text \<open>A request for a path.\<close>

definition route_perform :: "('s, 'r) fio_lib \<Rightarrow> 'r app \<Rightarrow> string \<Rightarrow> 's \<Rightarrow> 's" where
  "route_perform lib app path s =
     (let s = http_set_header lib (HTTP_HEADER_SERVER app) (HTTP_VALUE_SERVER app) (fiobj_dup lib (HTTP_VALUE_SERVER app) s)
      in case fio_router_find lib (routes app) (length path) path of
           Some handler \<Rightarrow> run_handler handler lib app s
         | None \<Rightarrow> http_send_error lib 404 s)"

definition route_clear :: "('s, 'r) fio_lib \<Rightarrow> 'r app \<Rightarrow> 'r app" where
  "route_clear lib app = app\<lparr>routes := fio_router_free lib (routes app)\<rparr>"

definition cleanup :: "('s, 'r) fio_lib \<Rightarrow> 'r app \<Rightarrow> 's \<Rightarrow> 'r app \<times> 's" where
  "cleanup lib app s =
     (let s = fiobj_free lib (HTTP_HEADER_SERVER app) s;
          s = fiobj_free lib (HTTP_VALUE_SERVER app) s;
          s = fiobj_free lib (JSON_KEY app) s;
          s = fiobj_free lib (JSON_VALUE app) s
      in (route_clear lib app, s))"

text \<open>The defaults of the command line; the parsed options and the environment are maps.\<close>

definition cli_defaults :: "(string \<Rightarrow> string option) \<Rightarrow> (string \<Rightarrow> string option) \<Rightarrow> string \<Rightarrow> string option" where
  "cli_defaults getenv opts =
     (let opts = (if opts ''-p'' = None then opts(''-p'' \<mapsto> ''8080'', ''-port'' \<mapsto> ''8080'') else opts)
      in if opts ''-db'' = None
         then (let database = (case getenv ''DBHOST'' of None \<Rightarrow> ''localhost'' | Some d \<Rightarrow> d)
               in opts(''-db'' \<mapsto> database, ''-database'' \<mapsto> database))
         else opts)"

section \<open>What the documentation says\<close>

text \<open>
  What is seen of the state of the library: the references that are held, the pairs of a
  hash, the text of a string, the headers set so far, and what was given to it to send.  The header takes
  over the reference to its value and one of its own to the name; an answer gives them back.
  A hash takes over the reference to a value and one of its own to the key.  An answer is a
  body, or an error with its status: what the library makes of an error, a file for the
  status or a text with a header of its own, is left to it, as are the headers it adds to every answer.
\<close>

datatype fio_reply = Body_sent "(string \<times> string) list" string | Error_sent nat "(string \<times> string) list"

record 's fio_view =
  refs :: "'s \<Rightarrow> fiobj multiset"
  pairs :: "'s \<Rightarrow> fiobj \<Rightarrow> (fiobj \<times> fiobj) list"
  string_text :: "'s \<Rightarrow> fiobj \<Rightarrow> string"
  headers :: "'s \<Rightarrow> (fiobj \<times> fiobj) list"
  replies :: "'s \<Rightarrow> fio_reply list"

definition pair_refs :: "(fiobj \<times> fiobj) list \<Rightarrow> fiobj multiset" where
  "pair_refs kvs = mset (map fst kvs) + mset (map snd kvs)"

text \<open>Nothing but the references changes.\<close>

definition same_rest :: "'s fio_view \<Rightarrow> 's \<Rightarrow> 's \<Rightarrow> bool" where
  "same_rest v s s' \<longleftrightarrow> pairs v s' = pairs v s \<and> string_text v s' = string_text v s \<and> headers v s' = headers v s \<and> replies v s' = replies v s"

text \<open>A new object: it had no reference and has one now; the texts of other objects stay.\<close>

definition new_object :: "'s fio_view \<Rightarrow> string \<Rightarrow> 's \<Rightarrow> fiobj \<times> 's \<Rightarrow> bool" where
  "new_object v t s res \<longleftrightarrow> fst res \<notin># refs v s \<and> refs v (snd res) = add_mset (fst res) (refs v s) \<and>
     string_text v (snd res) = (string_text v s)(fst res := t) \<and> pairs v (snd res) = (pairs v s)(fst res := []) \<and>
     headers v (snd res) = headers v s \<and> replies v (snd res) = replies v s"

definition replied :: "'s fio_view \<Rightarrow> ((string \<times> string) list \<Rightarrow> fio_reply) \<Rightarrow> 's \<Rightarrow> 's \<Rightarrow> bool" where
  "replied v reply s s' \<longleftrightarrow> refs v s' = refs v s - pair_refs (headers v s) \<and>
     pairs v s' = pairs v s \<and> string_text v s' = string_text v s \<and> headers v s' = [] \<and>
     replies v s' = replies v s @ [reply (map (\<lambda>h. (string_text v s (fst h), string_text v s (snd h))) (headers v s))]"

text \<open>
  How a string is written in JSON is left to the library too, apart from strings of letters, digits,
  spaces, commas and exclamation marks, which are written as they are.
\<close>

definition json_plain :: "string \<Rightarrow> bool" where
  "json_plain t \<longleftrightarrow> (\<forall>c \<in> set t. c \<in> set ''ABCDEFGHIJKLMNOPQRSTUVWXYZabcdefghijklmnopqrstuvwxyz0123456789 ,!'')"

definition json_of_pair :: "string \<Rightarrow> string \<Rightarrow> string" where
  "json_of_pair k t = ''{'' @ [CHR 0x22] @ k @ [CHR 0x22] @ '':'' @ [CHR 0x22] @ t @ [CHR 0x22] @ ''}''"

definition fio_contract :: "('s, 'r) fio_lib \<Rightarrow> 's fio_view \<Rightarrow> (string \<Rightarrow> string) \<Rightarrow> bool" where
  "fio_contract lib v mime_type \<longleftrightarrow>
     (\<forall>t s. new_object v t s (fiobj_str_new lib t s)) \<and>
     (\<forall>x s. x \<in># refs v s \<longrightarrow> refs v (fiobj_dup lib x s) = add_mset x (refs v s) \<and> same_rest v s (fiobj_dup lib x s)) \<and>
     (\<forall>x s. x \<in># refs v s \<longrightarrow> (\<forall>kv \<in> set (pairs v s x). 1 < count (refs v s) (fst kv) \<and> 1 < count (refs v s) (snd kv)) \<longrightarrow>
        refs v (fiobj_free lib x s) = refs v s - {#x#} - (if count (refs v s) x = 1 then pair_refs (pairs v s x) else {#}) \<and>
        same_rest v s (fiobj_free lib x s)) \<and>
     (\<forall>s. new_object v [] s (fiobj_hash_new2 lib s)) \<and>
     (\<forall>h k x s. h \<in># refs v s \<longrightarrow> k \<in># refs v s \<longrightarrow> x \<in># refs v s \<longrightarrow> pairs v s h = [] \<longrightarrow>
        refs v (fiobj_hash_set lib h k x s) = add_mset k (refs v s) \<and> pairs v (fiobj_hash_set lib h k x s) = (pairs v s)(h := [(k, x)]) \<and>
        string_text v (fiobj_hash_set lib h k x s) = string_text v s \<and> headers v (fiobj_hash_set lib h k x s) = headers v s \<and>
        replies v (fiobj_hash_set lib h k x s) = replies v s) \<and>
     (\<forall>h k x s. h \<in># refs v s \<longrightarrow> pairs v s h = [(k, x)] \<longrightarrow> json_plain (string_text v s k) \<longrightarrow> json_plain (string_text v s x) \<longrightarrow>
        new_object v (json_of_pair (string_text v s k) (string_text v s x)) s (fiobj_obj2json lib h s)) \<and>
     (\<forall>x s. x \<in># refs v s \<longrightarrow> fiobj_obj2cstr lib x s = string_text v s x) \<and>
     (\<forall>e s. refs v (snd (http_mimetype_find lib e s)) = add_mset (fst (http_mimetype_find lib e s)) (refs v s) \<and>
        string_text v s (fst (http_mimetype_find lib e s)) = mime_type e \<and> same_rest v s (snd (http_mimetype_find lib e s))) \<and>
     (\<forall>n x s. n \<in># refs v s \<longrightarrow> x \<in># refs v s \<longrightarrow>
        refs v (http_set_header lib n x s) = add_mset n (refs v s) \<and> pairs v (http_set_header lib n x s) = pairs v s \<and>
        string_text v (http_set_header lib n x s) = string_text v s \<and> headers v (http_set_header lib n x s) = headers v s @ [(n, x)] \<and>
        replies v (http_set_header lib n x s) = replies v s) \<and>
     (\<forall>t s. replied v (\<lambda>hs. Body_sent hs t) s (http_send_body lib t s)) \<and>
     (\<forall>n s. replied v (Error_sent n) s (http_send_error lib n s)) \<and>
     (\<forall>r n k hd n' k'. fio_router_find lib (fio_router_insert lib r n k hd) n' k' =
        (if n' = n \<and> k' = k then Some hd else fio_router_find lib r n' k'))"

section \<open>One request\<close>

text \<open>Between requests: no header is set, and the objects of the application hold their texts.\<close>

definition serving :: "('s, 'r) fio_lib \<Rightarrow> 's fio_view \<Rightarrow> string \<Rightarrow> 'r app \<Rightarrow> 's \<Rightarrow> bool" where
  "serving lib v content_type app s \<longleftrightarrow> headers v s = [] \<and>
     {HTTP_HEADER_SERVER app, HTTP_VALUE_SERVER app, JSON_KEY app, JSON_VALUE app, HTTP_HEADER_CONTENT_TYPE lib} \<subseteq> set_mset (refs v s) \<and>
     string_text v s (HTTP_HEADER_SERVER app) = ''server'' \<and>
     string_text v s (HTTP_VALUE_SERVER app) = ''facil.io '' @ FIO_VERSION_STRING lib \<and>
     string_text v s (JSON_KEY app) = ''message'' \<and> string_text v s (JSON_VALUE app) = ''Hello, World!'' \<and>
     string_text v s (HTTP_HEADER_CONTENT_TYPE lib) = content_type \<and> pairs v s (JSON_KEY app) = [] \<and> pairs v s (JSON_VALUE app) = [] \<and>
     pairs v s (HTTP_HEADER_SERVER app) = [] \<and> pairs v s (HTTP_VALUE_SERVER app) = []"

text \<open>The answer to a path: the headers and the body, or the error.\<close>

definition answer_to :: "('s, 'r) fio_lib \<Rightarrow> string \<Rightarrow> (string \<Rightarrow> string) \<Rightarrow> string \<Rightarrow> fio_reply" where
  "answer_to lib content_type mime_type path =
     (let server = (''server'', ''facil.io '' @ FIO_VERSION_STRING lib)
      in if path = ''/json'' then Body_sent [server, (content_type, mime_type ''json'')] (json_of_pair ''message'' ''Hello, World!'')
         else if path = ''/plaintext'' then Body_sent [server, (content_type, mime_type ''txt'')] ''Hello, World!''
         else Error_sent 404 [server])"

text \<open>What a request leaves behind.\<close>

definition served :: "('s, 'r) fio_lib \<Rightarrow> 's fio_view \<Rightarrow> string \<Rightarrow> 'r app \<Rightarrow> fio_reply \<Rightarrow> 's \<Rightarrow> 's \<Rightarrow> bool" where
  "served lib v content_type app reply s s' \<longleftrightarrow>
     serving lib v content_type app s' \<and> refs v s' = refs v s \<and> replies v s' = replies v s @ [reply]"

text \<open>The clauses of the contract, one call each.\<close>

lemma fio_calls:
  assumes "fio_contract lib v mime_type"
  shows fio_str: "new_object v t s (fiobj_str_new lib t s)"
    and fio_dup: "x \<in># refs v s \<Longrightarrow> refs v (fiobj_dup lib x s) = add_mset x (refs v s) \<and> same_rest v s (fiobj_dup lib x s)"
    and fio_hash: "new_object v [] s (fiobj_hash_new2 lib s)"
    and fio_cstr: "x \<in># refs v s \<Longrightarrow> fiobj_obj2cstr lib x s = string_text v s x"
    and fio_body: "replied v (\<lambda>hs. Body_sent hs t) s (http_send_body lib t s)"
    and fio_error: "replied v (Error_sent n) s (http_send_error lib n s)"
  using assms by (simp_all add: fio_contract_def)

lemma fio_free:
  assumes "fio_contract lib v mime_type" "x \<in># refs v s" "\<forall>kv \<in> set (pairs v s x). 1 < count (refs v s) (fst kv) \<and> 1 < count (refs v s) (snd kv)"
  shows "refs v (fiobj_free lib x s) = refs v s - {#x#} - (if count (refs v s) x = 1 then pair_refs (pairs v s x) else {#})"
    "same_rest v s (fiobj_free lib x s)"
  using assms by (simp_all add: fio_contract_def)

lemma fio_set:
  assumes "fio_contract lib v mime_type" "h \<in># refs v s" "k \<in># refs v s" "x \<in># refs v s" "pairs v s h = []"
    "s' = fiobj_hash_set lib h k x s"
  shows "refs v s' = add_mset k (refs v s)" "pairs v s' = (pairs v s)(h := [(k, x)])"
    "string_text v s' = string_text v s" "headers v s' = headers v s" "replies v s' = replies v s"
  using assms by (simp_all add: fio_contract_def)

lemma fio_json:
  assumes "fio_contract lib v mime_type" "h \<in># refs v s" "pairs v s h = [(k, x)]"
    "json_plain (string_text v s k)" "json_plain (string_text v s x)"
  shows "new_object v (json_of_pair (string_text v s k) (string_text v s x)) s (fiobj_obj2json lib h s)"
  using assms by (simp add: fio_contract_def)

lemma fio_mime:
  assumes "fio_contract lib v mime_type" "http_mimetype_find lib e s = (m, s')"
  shows "refs v s' = add_mset m (refs v s)" "string_text v s m = mime_type e" "same_rest v s s'"
proof -
  have "refs v (snd (http_mimetype_find lib e s)) = add_mset (fst (http_mimetype_find lib e s)) (refs v s) \<and>
        string_text v s (fst (http_mimetype_find lib e s)) = mime_type e \<and> same_rest v s (snd (http_mimetype_find lib e s))"
    using assms(1) by (simp add: fio_contract_def)
  then show "refs v s' = add_mset m (refs v s)" "string_text v s m = mime_type e" "same_rest v s s'"
    using assms(2) by simp_all
qed

lemma fio_header:
  assumes "fio_contract lib v mime_type" "n \<in># refs v s" "x \<in># refs v s" "s' = http_set_header lib n x s"
  shows "refs v s' = add_mset n (refs v s)" "pairs v s' = pairs v s" "string_text v s' = string_text v s"
    "headers v s' = headers v s @ [(n, x)]" "replies v s' = replies v s"
  using assms by (simp_all add: fio_contract_def)

lemma fio_router:
  "fio_contract lib v mime_type \<Longrightarrow> fio_router_find lib (fio_router_insert lib r n k f) n' k' =
     (if n' = n \<and> k' = k then Some f else fio_router_find lib r n' k')"
  by (simp add: fio_contract_def)

text \<open>The header of the server, which every answer has.\<close>

definition server_header :: "('s, 'r) fio_lib \<Rightarrow> 'r app \<Rightarrow> 's \<Rightarrow> 's" where
  "server_header lib app s =
     http_set_header lib (HTTP_HEADER_SERVER app) (HTTP_VALUE_SERVER app) (fiobj_dup lib (HTTP_VALUE_SERVER app) s)"

lemma server_header_set:
  assumes "fio_contract lib v mime_type" "serving lib v content_type app s"
  shows "refs v (server_header lib app s) = refs v s + pair_refs [(HTTP_HEADER_SERVER app, HTTP_VALUE_SERVER app)]"
    "headers v (server_header lib app s) = [(HTTP_HEADER_SERVER app, HTTP_VALUE_SERVER app)]"
    "pairs v (server_header lib app s) = pairs v s" "string_text v (server_header lib app s) = string_text v s"
    "replies v (server_header lib app s) = replies v s"
proof -
  let ?N = "HTTP_HEADER_SERVER app" and ?V = "HTTP_VALUE_SERVER app"
  have m: "?N \<in># refs v s" "?V \<in># refs v s" "headers v s = []" using assms(2) by (simp_all add: serving_def)
  note d = fio_dup [OF assms(1) m(2)]
  have "?N \<in># refs v (fiobj_dup lib ?V s)" "?V \<in># refs v (fiobj_dup lib ?V s)" using d m by simp_all
  note h = fio_header [OF assms(1) this server_header_def]
  show "refs v (server_header lib app s) = refs v s + pair_refs [(?N, ?V)]"
    "headers v (server_header lib app s) = [(?N, ?V)]"
    "pairs v (server_header lib app s) = pairs v s" "string_text v (server_header lib app s) = string_text v s"
    "replies v (server_header lib app s) = replies v s"
    using h d m(3) by (simp_all add: same_rest_def pair_refs_def)
qed

text \<open>The content type as well.\<close>

lemma content_type_set:
  assumes "fio_contract lib v mime_type" "serving lib v content_type app s"
    "http_mimetype_find lib e (server_header lib app s) = (m, s1)" "s2 = http_set_header lib (HTTP_HEADER_CONTENT_TYPE lib) m s1"
  shows "refs v s2 = refs v s + pair_refs (headers v s2)"
    "headers v s2 = [(HTTP_HEADER_SERVER app, HTTP_VALUE_SERVER app), (HTTP_HEADER_CONTENT_TYPE lib, m)]"
    "pairs v s2 = pairs v s" "string_text v s2 = string_text v s" "replies v s2 = replies v s" "string_text v s m = mime_type e"
proof -
  note sh = server_header_set [OF assms(1,2)]
  note mm = fio_mime [OF assms(1,3)]
  have "HTTP_HEADER_CONTENT_TYPE lib \<in># refs v s1" "m \<in># refs v s1" using mm(1) sh(1) assms(2) by (simp_all add: serving_def)
  note h = fio_header [OF assms(1) this assms(4)]
  show "headers v s2 = [(HTTP_HEADER_SERVER app, HTTP_VALUE_SERVER app), (HTTP_HEADER_CONTENT_TYPE lib, m)]"
    "pairs v s2 = pairs v s" "string_text v s2 = string_text v s" "replies v s2 = replies v s" "string_text v s m = mime_type e"
    using h mm sh by (simp_all add: same_rest_def)
  then show "refs v s2 = refs v s + pair_refs (headers v s2)" using h(1) mm(1) sh(1) by (simp add: pair_refs_def)
qed

lemma plain_text_served:
  assumes "fio_contract lib v mime_type" "serving lib v content_type app s"
  shows "served lib v content_type app (answer_to lib content_type mime_type ''/plaintext'') s
    (on_request_plain_text lib (server_header lib app s))"
proof -
  obtain m s1 where m: "http_mimetype_find lib ''txt'' (server_header lib app s) = (m, s1)" by fastforce
  define s2 where "s2 = http_set_header lib (HTTP_HEADER_CONTENT_TYPE lib) m s1"
  note c = content_type_set [OF assms m s2_def]
  have "on_request_plain_text lib (server_header lib app s) = http_send_body lib ''Hello, World!'' s2"
    by (simp add: on_request_plain_text_def m s2_def)
  with fio_body [OF assms(1), of "''Hello, World!''" s2] c assms(2) show ?thesis
    by (simp add: served_def replied_def serving_def answer_to_def Let_def)
qed

lemma not_found_served:
  assumes "fio_contract lib v mime_type" "serving lib v content_type app s" "path \<noteq> ''/json''" "path \<noteq> ''/plaintext''"
  shows "served lib v content_type app (answer_to lib content_type mime_type path) s (http_send_error lib 404 (server_header lib app s))"
  using fio_error [OF assms(1), of 404 "server_header lib app s"] server_header_set [OF assms(1,2)] assms(2-4)
  by (simp add: served_def replied_def serving_def answer_to_def Let_def)

lemma json_plain_texts: "json_plain ''message''" "json_plain ''Hello, World!''"
  by code_simp+

lemma json_served:
  assumes "fio_contract lib v mime_type" "serving lib v content_type app s"
  shows "served lib v content_type app (answer_to lib content_type mime_type ''/json'') s (on_request_json lib app (server_header lib app s))"
proof -
  let ?K = "JSON_KEY app" and ?X = "JSON_VALUE app"
  obtain m s1 where m: "http_mimetype_find lib ''json'' (server_header lib app s) = (m, s1)" by fastforce
  define s2 where "s2 = http_set_header lib (HTTP_HEADER_CONTENT_TYPE lib) m s1"
  note c = content_type_set [OF assms m s2_def]
  obtain h s3 where h: "fiobj_hash_new2 lib s2 = (h, s3)" by fastforce
  define s5 where "s5 = fiobj_hash_set lib h ?K ?X (fiobj_dup lib ?X s3)"
  obtain j s6 where j: "fiobj_obj2json lib h s5 = (j, s6)" by fastforce
  define s7 where "s7 = fiobj_free lib h s6"
  define s8 where "s8 = http_send_body lib (fiobj_obj2cstr lib j s7) s7"
  have run: "on_request_json lib app (server_header lib app s) = fiobj_free lib j s8"
    by (simp add: on_request_json_def m h j s2_def [symmetric] s5_def [symmetric] s7_def s8_def Let_def)
  have base: "?K \<in># refs v s" "?X \<in># refs v s" "string_text v s ?K = ''message''" "string_text v s ?X = ''Hello, World!''"
    using assms(2) by (simp_all add: serving_def)
  have s3: "h \<notin># refs v s2" "refs v s3 = add_mset h (refs v s2)" "string_text v s3 = (string_text v s)(h := [])"
      "pairs v s3 = (pairs v s)(h := [])" "headers v s3 = headers v s2" "replies v s3 = replies v s"
    using fio_hash [OF assms(1), of s2] c by (simp_all add: h new_object_def)
  have in2: "x \<in># refs v s2" if "x \<in># refs v s" for x using that c(1) by simp
  have hn: "x \<noteq> h" if "x \<in># refs v s" for x using in2 [OF that] s3(1) by blast
  have X3: "?X \<in># refs v s3" using in2 [OF base(2)] s3(2) by simp
  note d = fio_dup [OF assms(1) X3]
  have in4: "h \<in># refs v (fiobj_dup lib ?X s3)" "?K \<in># refs v (fiobj_dup lib ?X s3)" "?X \<in># refs v (fiobj_dup lib ?X s3)"
      "pairs v (fiobj_dup lib ?X s3) h = []"
    using d s3 in2 [OF base(1)] by (simp_all add: same_rest_def)
  note s5 = fio_set [OF assms(1) in4 s5_def]
  have s5': "refs v s5 = {#?K, ?X, h#} + refs v s2" "pairs v s5 = (pairs v s)(h := [(?K, ?X)])" "string_text v s5 = (string_text v s)(h := [])"
      "headers v s5 = headers v s2" "replies v s5 = replies v s"
    using s5 d s3 by (simp_all add: same_rest_def ac_simps)
  have "h \<in># refs v s5" "pairs v s5 h = [(?K, ?X)]" "json_plain (string_text v s5 ?K)" "json_plain (string_text v s5 ?X)"
    using s5'(1,2,3) base hn by (simp_all add: json_plain_texts)
  note new = fio_json [OF assms(1) this]
  have body: "json_of_pair (string_text v s5 ?K) (string_text v s5 ?X) = json_of_pair ''message'' ''Hello, World!''"
    using s5'(3) base hn by simp
  have s6: "j \<notin># refs v s5" "refs v s6 = add_mset j (refs v s5)" "string_text v s6 = (string_text v s5)(j := json_of_pair ''message'' ''Hello, World!'')"
      "pairs v s6 = (pairs v s5)(j := [])" "headers v s6 = headers v s2" "replies v s6 = replies v s"
    using new s5'(4,5) unfolding body by (simp_all add: j new_object_def)
  have "h \<noteq> j" using s6(1) s5'(1) by auto
  then have ph: "pairs v s6 h = [(?K, ?X)]" "h \<in># refs v s6" "count (refs v s6) h = 1"
    using s6 s5' s3(1) hn [OF base(1)] hn [OF base(2)] by (auto simp: not_in_iff)
  have "\<forall>kv \<in> set (pairs v s6 h). 1 < count (refs v s6) (fst kv) \<and> 1 < count (refs v s6) (snd kv)"
    using in2 [OF base(1)] in2 [OF base(2)] by (auto simp: ph(1) s6(2) s5'(1) count_greater_zero_iff)
  note f = fio_free [OF assms(1) ph(2) this]
  have s7: "refs v s7 = add_mset j (refs v s2)" "string_text v s7 = string_text v s6" "pairs v s7 = pairs v s6" "headers v s7 = headers v s2"
      "replies v s7 = replies v s"
    using f s6 s5'(1) ph(1,3) by (simp_all add: s7_def same_rest_def pair_refs_def)
  have "fiobj_obj2cstr lib j s7 = json_of_pair ''message'' ''Hello, World!''"
    using fio_cstr [OF assms(1), of j s7] s7 s6(3) by simp
  then have r: "replied v (\<lambda>hs. Body_sent hs (json_of_pair ''message'' ''Hello, World!'')) s7 s8"
    using fio_body [OF assms(1), of "json_of_pair ''message'' ''Hello, World!''" s7] by (simp add: s8_def)
  have j2: "j \<notin># refs v s2" "j \<noteq> h" using s6(1) s5'(1) by auto
  have s8: "refs v s8 = add_mset j (refs v s)" "pairs v s8 j = []"
    using r s7 c(1) s6(4) by (simp_all add: replied_def)
  have "j \<notin># refs v s" using j2(1) in2 by blast
  with s8 have "refs v (fiobj_free lib j s8) = refs v s" "same_rest v s8 (fiobj_free lib j s8)"
    using fio_free [OF assms(1), of j s8] by (simp_all add: not_in_iff pair_refs_def)
  moreover have keep: "string_text v s8 x = string_text v s x \<and> pairs v s8 x = pairs v s x" if "x \<in># refs v s2" for x
  proof -
    have "x \<noteq> h" "x \<noteq> j" using that s3(1) j2(1) by blast+
    then show ?thesis using r s7 s6 s5' by (simp add: replied_def)
  qed
  moreover have "map (\<lambda>hd. (string_text v s7 (fst hd), string_text v s7 (snd hd))) (headers v s2) =
      [(''server'', ''facil.io '' @ FIO_VERSION_STRING lib), (content_type, mime_type ''json'')]"
  proof -
    have "m \<in># refs v s2" using c(1,2) by (simp add: pair_refs_def)
    moreover have "string_text v s7 x = string_text v s x" if "x \<in># refs v s2" for x
      using keep [OF that] r by (simp add: replied_def)
    ultimately show ?thesis using c(2,6) assms(2) in2 by (simp add: serving_def)
  qed
  ultimately show ?thesis
    using r s7(4,5) assms(2) in2 by (simp add: served_def serving_def run same_rest_def replied_def answer_to_def Let_def)
qed

section \<open>The application from start to end\<close>

lemma route_perform_served:
  assumes "fio_contract lib v mime_type" "serving lib v content_type app s"
    "routes app = route_add lib ''/plaintext'' On_request_plain_text (route_add lib ''/json'' On_request_json no_routes)"
    "\<forall>n k. fio_router_find lib no_routes n k = None"
  shows "served lib v content_type app (answer_to lib content_type mime_type path) s (route_perform lib app path s)"
proof -
  have find: "fio_router_find lib (routes app) (length path) path =
      (if path = ''/plaintext'' then Some On_request_plain_text else if path = ''/json'' then Some On_request_json else None)"
    using assms(3,4) by (auto simp: route_add_def fio_router [OF assms(1)])
  show ?thesis
    using json_served [OF assms(1,2)] plain_text_served [OF assms(1,2)] not_found_served [OF assms(1,2), of path] find
    by (auto simp: route_perform_def server_header_def Let_def)
qed

lemma requests_served:
  assumes "fio_contract lib v mime_type" "serving lib v content_type app s"
    "routes app = route_add lib ''/plaintext'' On_request_plain_text (route_add lib ''/json'' On_request_json no_routes)"
    "\<forall>n k. fio_router_find lib no_routes n k = None"
  shows "serving lib v content_type app (fold (route_perform lib app) paths s) \<and>
    refs v (fold (route_perform lib app) paths s) = refs v s \<and>
    replies v (fold (route_perform lib app) paths s) = replies v s @ map (answer_to lib content_type mime_type) paths"
  using assms(2)
proof (induction paths arbitrary: s)
  case (Cons path paths)
  from route_perform_served [OF assms(1) Cons.prems assms(3,4), of path]
  have "serving lib v content_type app (route_perform lib app path s)" "refs v (route_perform lib app path s) = refs v s"
    "replies v (route_perform lib app path s) = replies v s @ [answer_to lib content_type mime_type path]"
    by (simp_all add: served_def)
  with Cons.IH [OF this(1)] show ?case by simp
qed simp

lemma setup_serving:
  assumes "fio_contract lib v mime_type" "setup_app lib no_routes s0 = (app, s1)" "headers v s0 = []"
    "HTTP_HEADER_CONTENT_TYPE lib \<in># refs v s0"
  shows "serving lib v (string_text v s0 (HTTP_HEADER_CONTENT_TYPE lib)) app s1" "replies v s1 = replies v s0"
    "refs v s1 = {#HTTP_HEADER_SERVER app, HTTP_VALUE_SERVER app, JSON_KEY app, JSON_VALUE app#} + refs v s0"
    "routes app = route_add lib ''/plaintext'' On_request_plain_text (route_add lib ''/json'' On_request_json no_routes)"
proof -
  obtain a sa where a: "fiobj_str_new lib ''server'' s0 = (a, sa)" by fastforce
  obtain b sb where b: "fiobj_str_new lib (''facil.io '' @ FIO_VERSION_STRING lib) sa = (b, sb)" by fastforce
  obtain c sc where c: "fiobj_str_new lib ''message'' sb = (c, sc)" by fastforce
  obtain d sd where d: "fiobj_str_new lib ''Hello, World!'' sc = (d, sd)" by fastforce
  note na = fio_str [OF assms(1), of "''server''" s0, unfolded a new_object_def fst_conv snd_conv]
  note nb = fio_str [OF assms(1), of "''facil.io '' @ FIO_VERSION_STRING lib" sa, unfolded b new_object_def fst_conv snd_conv]
  note nc = fio_str [OF assms(1), of "''message''" sb, unfolded c new_object_def fst_conv snd_conv]
  note nd = fio_str [OF assms(1), of "''Hello, World!''" sc, unfolded d new_object_def fst_conv snd_conv]
  have app: "app = \<lparr>HTTP_HEADER_SERVER = a, HTTP_VALUE_SERVER = b, JSON_KEY = c, JSON_VALUE = d,
      routes = route_add lib ''/plaintext'' On_request_plain_text (route_add lib ''/json'' On_request_json no_routes)\<rparr>" "s1 = sd"
    using assms(2) a b c d by (simp_all add: setup_app_def Let_def)
  show refs: "refs v s1 = {#HTTP_HEADER_SERVER app, HTTP_VALUE_SERVER app, JSON_KEY app, JSON_VALUE app#} + refs v s0"
    using na nb nc nd by (simp add: app ac_simps)
  have distinct: "b \<noteq> a" "c \<noteq> a" "c \<noteq> b" "d \<noteq> a" "d \<noteq> b" "d \<noteq> c"
    and ct: "HTTP_HEADER_CONTENT_TYPE lib \<notin> {a, b, c, d}"
    using na nb nc nd assms(4) by auto
  show "serving lib v (string_text v s0 (HTTP_HEADER_CONTENT_TYPE lib)) app s1"
    using na nb nc nd distinct ct assms(3,4) refs by (simp add: serving_def app)
  show "replies v s1 = replies v s0" using na nb nc nd by (simp add: app)
qed (use assms(2) in \<open>auto simp: setup_app_def Let_def split: prod.splits\<close>)

lemma free_string:
  assumes "fio_contract lib v mime_type" "refs v s = add_mset x rs" "pairs v s x = []"
  shows "refs v (fiobj_free lib x s) = rs" "same_rest v s (fiobj_free lib x s)"
  using fio_free [OF assms(1), of x s] assms(2,3) by (simp_all add: pair_refs_def)

lemma cleanup_releases:
  assumes "fio_contract lib v mime_type" "serving lib v content_type app s"
    "refs v s = {#HTTP_HEADER_SERVER app, HTTP_VALUE_SERVER app, JSON_KEY app, JSON_VALUE app#} + rs"
  shows "refs v (snd (cleanup lib app s)) = rs"
proof -
  have p: "pairs v s (HTTP_HEADER_SERVER app) = []" "pairs v s (HTTP_VALUE_SERVER app) = []" "pairs v s (JSON_KEY app) = []"
    "pairs v s (JSON_VALUE app) = []" using assms(2) by (simp_all add: serving_def)
  define s1 where "s1 = fiobj_free lib (HTTP_HEADER_SERVER app) s"
  define s2 where "s2 = fiobj_free lib (HTTP_VALUE_SERVER app) s1"
  define s3 where "s3 = fiobj_free lib (JSON_KEY app) s2"
  have s1: "refs v s1 = {#HTTP_VALUE_SERVER app, JSON_KEY app, JSON_VALUE app#} + rs" "pairs v s1 = pairs v s"
    using free_string [OF assms(1), of s "HTTP_HEADER_SERVER app"] assms(3) p by (simp_all add: s1_def same_rest_def)
  then have s2: "refs v s2 = {#JSON_KEY app, JSON_VALUE app#} + rs" "pairs v s2 = pairs v s"
    using free_string [OF assms(1), of s1 "HTTP_VALUE_SERVER app"] p by (simp_all add: s2_def same_rest_def)
  then have s3: "refs v s3 = {#JSON_VALUE app#} + rs" "pairs v s3 = pairs v s"
    using free_string [OF assms(1), of s2 "JSON_KEY app"] p by (simp_all add: s3_def same_rest_def)
  then have "refs v (fiobj_free lib (JSON_VALUE app) s3) = rs"
    using free_string [OF assms(1), of s3 "JSON_VALUE app" rs] p by simp
  then show ?thesis by (simp add: cleanup_def s1_def s2_def s3_def Let_def)
qed

section \<open>A library\<close>

text \<open>A library that meets the contract, for the witness: the next free number is a new object.\<close>

record sample_fio =
  sf_refs :: "fiobj multiset"
  sf_pairs :: "fiobj \<Rightarrow> (fiobj \<times> fiobj) list"
  sf_text :: "fiobj \<Rightarrow> string"
  sf_headers :: "(fiobj \<times> fiobj) list"
  sf_replies :: "fio_reply list"

text \<open>The objects 0 and 2 are the types of contents; a new object is above every number in use.\<close>

definition sf_string :: "sample_fio \<Rightarrow> fiobj \<Rightarrow> string" where
  "sf_string s = (sf_text s)(0 := ''application/json'', 2 := ''text/plain'')"

definition sf_fresh :: "sample_fio \<Rightarrow> fiobj" where
  "sf_fresh s = Suc (Max (insert 2 (set_mset (sf_refs s))))"

lemma sf_fresh: "sf_fresh s \<notin># sf_refs s" "2 < sf_fresh s"
proof -
  show "2 < sf_fresh s" unfolding sf_fresh_def by (rule le_imp_less_Suc, rule Max_ge) auto
next
  show "sf_fresh s \<notin># sf_refs s"
  proof
    assume "sf_fresh s \<in># sf_refs s"
    then have "sf_fresh s \<le> Max (insert 2 (set_mset (sf_refs s)))" by (intro Max_ge) auto
    then show False by (simp add: sf_fresh_def)
  qed
qed

definition sf_new :: "string \<Rightarrow> sample_fio \<Rightarrow> fiobj \<times> sample_fio" where
  "sf_new t s = (sf_fresh s, s\<lparr>sf_refs := add_mset (sf_fresh s) (sf_refs s), sf_text := (sf_text s)(sf_fresh s := t),
     sf_pairs := (sf_pairs s)(sf_fresh s := [])\<rparr>)"

definition sf_reply :: "((string \<times> string) list \<Rightarrow> fio_reply) \<Rightarrow> sample_fio \<Rightarrow> sample_fio" where
  "sf_reply reply s = s\<lparr>sf_refs := sf_refs s - pair_refs (sf_headers s), sf_headers := [],
     sf_replies := sf_replies s @ [reply (map (\<lambda>h. (sf_string s (fst h), sf_string s (snd h))) (sf_headers s))]\<rparr>"

definition sample_fio_lib :: "(sample_fio, (nat \<times> string \<times> handler) list) fio_lib" where
  "sample_fio_lib =
     \<lparr>fiobj_str_new = sf_new, fiobj_dup = (\<lambda>x s. s\<lparr>sf_refs := add_mset x (sf_refs s)\<rparr>),
      fiobj_free = (\<lambda>x s. s\<lparr>sf_refs := sf_refs s - {#x#} - (if count (sf_refs s) x = 1 then pair_refs (sf_pairs s x) else {#})\<rparr>),
      fiobj_hash_new2 = sf_new [],
      fiobj_hash_set = (\<lambda>h k x s. s\<lparr>sf_refs := add_mset k (sf_refs s), sf_pairs := (sf_pairs s)(h := [(k, x)])\<rparr>),
      fiobj_obj2json = (\<lambda>h s. sf_new (case sf_pairs s h of (k, x) # kvs \<Rightarrow> json_of_pair (sf_string s k) (sf_string s x) | [] \<Rightarrow> []) s),
      fiobj_obj2cstr = (\<lambda>x s. sf_string s x),
      http_mimetype_find = (\<lambda>e s. let m = (if e = ''json'' then 0 else 2) in (m, s\<lparr>sf_refs := add_mset m (sf_refs s)\<rparr>)),
      http_set_header = (\<lambda>n x s. s\<lparr>sf_refs := add_mset n (sf_refs s), sf_headers := sf_headers s @ [(n, x)]\<rparr>),
      http_send_body = (\<lambda>t. sf_reply (\<lambda>hs. Body_sent hs t)), http_send_error = (\<lambda>n. sf_reply (Error_sent n)), HTTP_HEADER_CONTENT_TYPE = 1,
      FIO_VERSION_STRING = ''0.7'',
      fio_router_insert = (\<lambda>r n k f. (n, k, f) # r),
      fio_router_find = (\<lambda>r n k. map_option (\<lambda>x. snd (snd x)) (List.find (\<lambda>x. fst x = n \<and> fst (snd x) = k) r)),
      fio_router_free = (\<lambda>r. [])\<rparr>"

definition sample_view :: "sample_fio fio_view" where
  "sample_view = \<lparr>refs = sf_refs, pairs = sf_pairs, string_text = sf_string, headers = sf_headers, replies = sf_replies\<rparr>"

definition sample_mime :: "string \<Rightarrow> string" where
  "sample_mime e = (if e = ''json'' then ''application/json'' else ''text/plain'')"

lemma sample_view_simps [simp]:
  "refs sample_view = sf_refs" "pairs sample_view = sf_pairs" "string_text sample_view = sf_string"
  "headers sample_view = sf_headers" "replies sample_view = sf_replies"
  by (simp_all add: sample_view_def)

lemma sf_new_object: "new_object sample_view t s (sf_new t s)"
  using sf_fresh [of s] by (auto simp: new_object_def sf_new_def sf_string_def fun_eq_iff)

lemma sf_replied: "replied sample_view reply s (sf_reply reply s)"
  by (simp add: replied_def sf_reply_def sf_string_def)

lemma sample_fio_contract: "fio_contract sample_fio_lib sample_view sample_mime"
  by (simp add: fio_contract_def sample_fio_lib_def sf_new_object sf_replied same_rest_def sf_string_def sample_mime_def Let_def)

definition sample_start :: sample_fio where
  "sample_start = \<lparr>sf_refs = {#1#}, sf_pairs = (\<lambda>_. []), sf_text = (\<lambda>_. ''Content-Type''), sf_headers = [], sf_replies = []\<rparr>"

section \<open>Property\<close>

text \<open>C27. The facil.io application, from its start over any requests to its end, sends exactly one answer for each
  request: for the two paths it knows the body of the test, with the header of the server and
  the type of the content; for every other path the error 404 with the header of the
  server, whose page is left to the library.  No request changes the references that are
  held, and at the end all that it took are given back.\<close>

theorem facil_serves:
  assumes "fio_contract lib v mime_type" "setup_app lib no_routes s0 = (app, s1)" "\<forall>n k. fio_router_find lib no_routes n k = None"
    "headers v s0 = []" "HTTP_HEADER_CONTENT_TYPE lib \<in># refs v s0"
  shows "replies v (fold (route_perform lib app) paths s1) =
      replies v s0 @ map (answer_to lib (string_text v s0 (HTTP_HEADER_CONTENT_TYPE lib)) mime_type) paths \<and>
    refs v (fold (route_perform lib app) paths s1) = refs v s1 \<and>
    refs v (snd (cleanup lib app (fold (route_perform lib app) paths s1))) = refs v s0"
proof -
  note start = setup_serving [OF assms(1,2,4,5)]
  note served = requests_served [OF assms(1) start(1,4) assms(3), of paths]
  have "refs v (snd (cleanup lib app (fold (route_perform lib app) paths s1))) = refs v s0"
    by (rule cleanup_releases [OF assms(1) conjunct1 [OF served]]) (simp add: served start(3))
  with served start(2) show ?thesis by simp
qed

theorem facil_serves_witness:
  "\<exists>app s1. setup_app sample_fio_lib [] sample_start = (app, s1) \<and>
    sf_replies (fold (route_perform sample_fio_lib app) [''/json'', ''/other''] s1) =
      [Body_sent [(''server'', ''facil.io 0.7''), (''Content-Type'', ''application/json'')] (json_of_pair ''message'' ''Hello, World!''),
       Error_sent 404 [(''server'', ''facil.io 0.7'')]] \<and>
    sf_refs (snd (cleanup sample_fio_lib app (fold (route_perform sample_fio_lib app) [''/json'', ''/other''] s1))) = {#1#}"
proof -
  obtain app s1 where s: "setup_app sample_fio_lib [] sample_start = (app, s1)" by fastforce
  have "\<forall>n k. fio_router_find sample_fio_lib [] n k = None" "headers sample_view sample_start = []"
    "HTTP_HEADER_CONTENT_TYPE sample_fio_lib \<in># refs sample_view sample_start"
    by (simp_all add: sample_fio_lib_def sample_view_def sample_start_def)
  from facil_serves [OF sample_fio_contract s this, of "[''/json'', ''/other'']"] s show ?thesis
    by (simp add: sample_view_def sample_start_def sample_fio_lib_def answer_to_def sample_mime_def sf_string_def)
qed

end
