(* ===== verification/Userver_App.thy ===== *)
theory Userver_App
  imports Compare
begin

text \<open>
  The handlers of the userver application (\<^verbatim>\<open>userver_benchmark\<close>): the parameters of
  requests, the queries and answers of each handler, the cache of rows, the page of fortunes, and the
  router of its bare server.  The database, the random numbers and the builder of JSON are parameters.  A
  request that ends with an exception has no response.  The semaphores that bound the number of queries are
  locks of the library.
\<close>

section \<open>Parameters of requests\<close>

text \<open>\<^verbatim>\<open>std::from_chars\<close> for an \<^verbatim>\<open>int\<close>: the value and what follows it.\<close>

definition from_chars :: "string \<Rightarrow> (int \<times> string) option" where
  "from_chars s =
     (let neg = (s \<noteq> [] \<and> hd s = CHR ''-'');
          r = (if neg then tl s else s);
          ds = takeWhile isdigit r;
          v = (if neg then - int (digits_value ds) else int (digits_value ds))
      in if ds = [] \<or> v < - (2 ^ 31) \<or> 2 ^ 31 \<le> v then None else Some (v, dropWhile isdigit r))"

definition ParseFromQueryVal :: "string \<Rightarrow> int" where
  "ParseFromQueryVal query_val =
     (if query_val = [] then 1
      else (case from_chars query_val of
              None \<Rightarrow> 1
            | Some (parse_result, rest) \<Rightarrow> if rest \<noteq> [] then 1 else min 500 (max 1 parse_result)))"

text \<open>\<^verbatim>\<open>find\<close> of a string view.\<close>

fun find_sub :: "string \<Rightarrow> string \<Rightarrow> nat option" where
  "find_sub name [] = (if name = [] then Some 0 else None)"
| "find_sub name (c # s) = (if take (length name) (c # s) = name then Some 0 else map_option Suc (find_sub name s))"

text \<open>\<^verbatim>\<open>substr\<close> raises an exception when the position is behind the end.\<close>

definition ParseParamFromQuery :: "string \<Rightarrow> string \<Rightarrow> int option" where
  "ParseParamFromQuery url name =
     (case find_sub name url of
        None \<Rightarrow> Some 1
      | Some p \<Rightarrow>
          (let pos = p + (length name + 1)
           in if length url < pos then None else Some (ParseFromQueryVal (takeWhile isdigit (drop pos url)))))"

lemma find_sub_found: "find_sub name s = Some p \<Longrightarrow> p + length name \<le> length s \<and> take (length name) (drop p s) = name"
proof (induction s arbitrary: p)
  case (Cons c s)
  show ?case
  proof (cases "take (length name) (c # s) = name")
    case True
    then have "length name \<le> length (c # s)" by (metis length_take min.cobounded1)
    then show ?thesis using True Cons.prems by simp
  qed (use Cons in auto)
qed (simp split: if_splits)

lemma find_sub_prefix: "find_sub name (name @ s) = Some 0"
proof (cases "name @ s")
  case (Cons c t)
  have "take (length name) (c # t) = name" unfolding Cons [symmetric] by simp
  then show ?thesis unfolding Cons by simp
qed simp

lemma ParseFromQueryVal_bounds: "1 \<le> ParseFromQueryVal v \<and> ParseFromQueryVal v \<le> 500"
  by (auto simp: ParseFromQueryVal_def split: option.splits)

lemma takeWhile_dec: "takeWhile isdigit (dec n) = dec n"
  using dec_digits by (auto simp: takeWhile_eq_all_conv)

text \<open>The value of a numeral: clamped, and one when an \<^verbatim>\<open>int\<close> cannot hold it.\<close>

lemma ParseFromQueryVal_dec: "ParseFromQueryVal (dec n) = (if n < 2 ^ 31 then min 500 (max 1 (int n)) else 1)"
proof -
  have ds: "takeWhile isdigit (dec n) = dec n" "dropWhile isdigit (dec n) = []" using dec_digits by (auto simp: takeWhile_eq_all_conv)
  have "hd (dec n) \<noteq> CHR ''-''" using hd_dec_not_sign(1) [of n "[]"] by simp
  moreover have "digits_value (dec n) = n" by (simp add: digits_value_def digits_value_dec)
  ultimately show ?thesis by (simp add: ParseFromQueryVal_def from_chars_def ds Let_def)
qed

section \<open>Rows and their JSON\<close>

record WorldTableRow =
  us_id :: int
  random_number :: int

datatype sb_event = Sb_object | Sb_object_end | Sb_array | Sb_array_end | Sb_key string | Sb_int int

definition WriteToStream :: "WorldTableRow \<Rightarrow> sb_event list" where
  "WriteToStream row = [Sb_object, Sb_key ''id'', Sb_int (us_id row), Sb_key ''randomNumber'', Sb_int (random_number row), Sb_object_end]"

definition write_rows_to_stream :: "WorldTableRow list \<Rightarrow> sb_event list" where
  "write_rows_to_stream rs = [Sb_array] @ concat (map WriteToStream rs) @ [Sb_array_end]"

section \<open>Library and database\<close>

text \<open>A command of a queue of queries with its arguments: reading the row with an id, and the update, which has two arrays.\<close>

datatype us_cmd = Select_row int | Update_rows "int list" "int list"

definition kMaxWorldRows :: int where "kMaxWorldRows = 10000"

record 'd us_lib =
  RandRange :: "nat \<Rightarrow> int \<Rightarrow> int \<Rightarrow> int"
  GetString :: "sb_event list \<Rightarrow> string"
  Collect :: "us_cmd list \<Rightarrow> 'd \<Rightarrow> WorldTableRow list list option \<times> 'd"
  Select_fortunes :: "'d \<Rightarrow> (int \<times> string) list option \<times> 'd"
  sort_ints :: "int list \<Rightarrow> int list"
  sort_messages :: "(int \<times> string) list \<Rightarrow> (int \<times> string) list"

record 'd us_state =
  cluster :: 'd
  randoms :: nat

definition GenerateRandomId :: "'d us_lib \<Rightarrow> nat \<Rightarrow> int" where
  "GenerateRandomId lib k = RandRange lib k 1 (kMaxWorldRows + 1)"

definition GenerateRandomValue :: "'d us_lib \<Rightarrow> nat \<Rightarrow> int" where
  "GenerateRandomValue lib k = RandRange lib k 1 (kMaxWorldRows + 1)"

text \<open>The results of the queue as single rows; another number of rows raises an exception.\<close>

fun single_rows :: "WorldTableRow list list \<Rightarrow> nat \<Rightarrow> WorldTableRow list option" where
  "single_rows results 0 = Some []"
| "single_rows results (Suc n) =
     (case results of
        [row] # rest \<Rightarrow> map_option (\<lambda>rows. row # rows) (single_rows rest n)
      | _ \<Rightarrow> None)"

section \<open>Handlers\<close>

definition single_query_response :: "'d us_lib \<Rightarrow> 'd us_state \<Rightarrow> string option \<times> 'd us_state" where
  "single_query_response lib s =
     (let (results, d) = Collect lib [Select_row (GenerateRandomId lib (randoms s))] (cluster s)
      in (Option.bind results (\<lambda>rs. map_option (\<lambda>rows. GetString lib (WriteToStream (hd rows))) (single_rows rs 1)),
          s\<lparr>cluster := d, randoms := randoms s + 1\<rparr>))"

definition multiple_queries_response :: "'d us_lib \<Rightarrow> nat \<Rightarrow> 'd us_state \<Rightarrow> string option \<times> 'd us_state" where
  "multiple_queries_response lib queries s =
     (let ids = map (\<lambda>c. GenerateRandomId lib (randoms s + c)) [0..<queries];
          (results, d) = Collect lib (map Select_row ids) (cluster s)
      in (Option.bind results (\<lambda>rs. map_option (\<lambda>rows. GetString lib (write_rows_to_stream rows)) (single_rows rs queries)),
          s\<lparr>cluster := d, randoms := randoms s + queries\<rparr>))"

definition updates_response :: "'d us_lib \<Rightarrow> nat \<Rightarrow> 'd us_state \<Rightarrow> string option \<times> 'd us_state" where
  "updates_response lib queries s =
     (let ids = sort_ints lib (map (\<lambda>c. GenerateRandomId lib (randoms s + c)) [0..<queries]);
          vals = map (\<lambda>c. GenerateRandomValue lib (randoms s + queries + c)) [0..<queries];
          (results, d) = Collect lib (map Select_row ids @ [Update_rows ids vals]) (cluster s)
      in (Option.bind results (\<lambda>rs. map_option (\<lambda>rows. GetString lib (write_rows_to_stream rows)) (single_rows rs queries)),
          s\<lparr>cluster := d, randoms := randoms s + 2 * queries\<rparr>))"

subsection \<open>The cache of rows\<close>

text \<open>Reading outside the vector is undefined.\<close>

definition insert_or_assign :: "nat \<Rightarrow> WorldTableRow \<Rightarrow> WorldTableRow list \<Rightarrow> WorldTableRow list" where
  "insert_or_assign key row data =
     (let data = (if length data \<le> key then data @ replicate (key + 1 - length data) \<lparr>us_id = 0, random_number = 0\<rparr> else data)
      in data[key := row])"

definition cache_at :: "int \<Rightarrow> WorldTableRow list \<Rightarrow> WorldTableRow option" where
  "cache_at ind data = (if 0 \<le> ind \<and> nat ind < length data then Some (data ! nat ind) else None)"

definition cached_queries_response :: "'d us_lib \<Rightarrow> WorldTableRow list \<Rightarrow> nat \<Rightarrow> 'd us_state \<Rightarrow> string option \<times> 'd us_state" where
  "cached_queries_response lib cache queries s =
     (map_option (\<lambda>rows. GetString lib (write_rows_to_stream rows))
        (those (map (\<lambda>c. cache_at (GenerateRandomId lib (randoms s + c)) cache) [0..<queries])),
      s\<lparr>randoms := randoms s + queries\<rparr>)"

subsection \<open>Fortunes\<close>

definition kResultingHtmlHeader :: string where
  "kResultingHtmlHeader = ''<!DOCTYPE html><html><head><title>Fortunes</title></head><body><table><tr><th>id</th><th>message</th></tr>''"
definition kResultingHtmlFooter :: string where "kResultingHtmlFooter = ''</table></body></html>''"

text \<open>
  The loop over the message: how many characters in front need no escape, the message that is left, and the
  page.
\<close>

definition special :: "char \<Rightarrow> string option" where
  "special c =
     (if c = CHR 0x22 then Some ''&quot;'' else if c = CHR ''&'' then Some ''&amp;'' else if c = CHR ''<'' then Some ''&lt;''
      else if c = CHR ''>'' then Some ''&gt;'' else None)"

function append_message :: "nat \<Rightarrow> string \<Rightarrow> string \<Rightarrow> string" where
  "append_message unescaped_len message page =
     (if unescaped_len < length message
      then (case special (message ! unescaped_len) of
              Some escaped \<Rightarrow> append_message 0 (drop (unescaped_len + 1) message) (page @ take unescaped_len message @ escaped)
            | None \<Rightarrow> append_message (unescaped_len + 1) message page)
      else page @ message)"
  by pat_completeness auto
termination
  by (relation "measures [\<lambda>(n, m, p). length m, \<lambda>(n, m, p). length m - n]") auto

declare append_message.simps [simp del]

definition AppendFortune :: "string \<Rightarrow> int \<times> string \<Rightarrow> string" where
  "AppendFortune page fortune =
     append_message 0 (snd fortune) (page @ ''<tr><td>'' @ dec_int (fst fortune) @ ''</td><td>'') @ ''</td></tr>''"

definition FormatFortunes :: "(int \<times> string) list \<Rightarrow> string" where
  "FormatFortunes fortunes = fold (\<lambda>f page. AppendFortune page f) fortunes kResultingHtmlHeader @ kResultingHtmlFooter"

definition fortunes_response :: "'d us_lib \<Rightarrow> 'd us_state \<Rightarrow> string option \<times> 'd us_state" where
  "fortunes_response lib s =
     (let (rows, d) = Select_fortunes lib (cluster s)
      in (map_option (\<lambda>fs. FormatFortunes (sort_messages lib (fs @ [(0, ''Additional fortune added at request time.'')]))) rows, s\<lparr>cluster := d\<rparr>))"

definition plaintext_response :: string where "plaintext_response = ''Hello, World!''"

text \<open>\<^verbatim>\<open>message_object\<close> is how the library writes an object with one key, the message.\<close>

definition json_response :: "(string \<Rightarrow> string) \<Rightarrow> string" where
  "json_response message_object = message_object ''Hello, World!''"

subsection \<open>Requests to the handlers of the framework\<close>

text \<open>
  The other server is the one of the framework, which reads the parameter of the request, \<^verbatim>\<open>arg\<close>;
  a handler gives the body and the content type.
\<close>

definition single_query_handler :: "'d us_lib \<Rightarrow> 'd us_state \<Rightarrow> (string option \<times> 'd us_state) \<times> string" where
  "single_query_handler lib s = (single_query_response lib s, ''application/json'')"

definition multiple_queries_handler :: "'d us_lib \<Rightarrow> string \<Rightarrow> 'd us_state \<Rightarrow> (string option \<times> 'd us_state) \<times> string" where
  "multiple_queries_handler lib arg s = (multiple_queries_response lib (nat (ParseFromQueryVal arg)) s, ''application/json'')"

definition updates_handler :: "'d us_lib \<Rightarrow> string \<Rightarrow> 'd us_state \<Rightarrow> (string option \<times> 'd us_state) \<times> string" where
  "updates_handler lib arg s = (updates_response lib (nat (ParseFromQueryVal arg)) s, ''application/json'')"

definition cached_queries_handler ::
    "'d us_lib \<Rightarrow> WorldTableRow list \<Rightarrow> string \<Rightarrow> 'd us_state \<Rightarrow> (string option \<times> 'd us_state) \<times> string" where
  "cached_queries_handler lib cache arg s = (cached_queries_response lib cache (nat (ParseFromQueryVal arg)) s, ''application/json'')"

definition fortunes_handler :: "'d us_lib \<Rightarrow> 'd us_state \<Rightarrow> (string option \<times> 'd us_state) \<times> string" where
  "fortunes_handler lib s = (fortunes_response lib s, ''text/html; charset=utf-8'')"

definition plaintext_handler :: "string \<times> string" where
  "plaintext_handler = (plaintext_response, ''text/plain'')"

definition json_handler :: "(string \<Rightarrow> string) \<Rightarrow> string \<times> string" where
  "json_handler message_object = (json_response message_object, ''application/json'')"

section \<open>The router of the bare server\<close>

definition StartsWith :: "string \<Rightarrow> string \<Rightarrow> bool" where
  "StartsWith source pattern \<longleftrightarrow> take (length pattern) source = pattern"

definition RouteRequest ::
    "'d us_lib \<Rightarrow> (string \<Rightarrow> string) \<Rightarrow> WorldTableRow list \<Rightarrow> string \<Rightarrow> 'd us_state \<Rightarrow> (string \<times> string) option \<times> 'd us_state" where
  "RouteRequest lib message_object cache url s =
     (let with_type = (\<lambda>t (body, s). (map_option (\<lambda>b. (b, t)) body, s));
          with_param = (\<lambda>name n f. case ParseParamFromQuery (drop n url) name of None \<Rightarrow> (None, s) | Some q \<Rightarrow> f (nat q))
      in if StartsWith url ''/plaintext'' then (Some (plaintext_response, ''text/plain''), s)
         else if StartsWith url ''/json'' then (Some (json_response message_object, ''application/json''), s)
         else if StartsWith url ''/db'' then with_type ''application/json'' (single_query_response lib s)
         else if StartsWith url ''/queries''
         then with_param ''queries'' (length ''/queries'') (\<lambda>q. with_type ''application/json'' (multiple_queries_response lib q s))
         else if StartsWith url ''/updates''
         then with_param ''queries'' (length ''/queries'') (\<lambda>q. with_type ''application/json'' (updates_response lib q s))
         else if StartsWith url ''/cached-queries''
         then with_param ''count'' (length ''/cached-queries'') (\<lambda>q. with_type ''application/json'' (cached_queries_response lib cache q s))
         else if StartsWith url ''/fortunes'' then with_type ''text/html; charset=utf-8'' (fortunes_response lib s)
         else (None, s))"

section \<open>Facts about the handlers\<close>

text \<open>Escaping, one character after the other.\<close>

definition html_escape :: "string \<Rightarrow> string" where
  "html_escape m = concat (map (\<lambda>c. case special c of Some e \<Rightarrow> e | None \<Rightarrow> [c]) m)"

lemma append_message_eq:
  "\<forall>c \<in> set (take n m). special c = None \<Longrightarrow> append_message n m page = page @ html_escape m"
proof (induction n m page rule: append_message.induct)
  case (1 n m page)
  have plain: "concat (map (\<lambda>c. case special c of Some e \<Rightarrow> e | None \<Rightarrow> [c]) xs) = xs" if "\<forall>c \<in> set xs. special c = None" for xs
    using that by (induction xs) auto
  show ?case
  proof (cases "n < length m")
    case True
    then have m: "m = take n m @ m ! n # drop (n + 1) m" by (simp add: id_take_nth_drop)
    show ?thesis
    proof (cases "special (m ! n)")
      case None
      have "\<forall>c \<in> set (take (n + 1) m). special c = None" using 1(3) None True by (simp add: take_Suc_conv_app_nth)
      then show ?thesis using 1(1) [OF True None] True None by (subst append_message.simps) simp
    next
      case (Some e)
      have "html_escape m = take n m @ e @ html_escape (drop (n + 1) m)"
        using plain [OF 1(3)] Some by (subst m) (simp add: html_escape_def)
      then show ?thesis using 1(2) [OF True Some] True Some by (subst append_message.simps) simp
    qed
  next
    case False
    then have "html_escape m = m" using 1(3) plain [of m] by (simp add: html_escape_def)
    then show ?thesis using False by (subst append_message.simps) simp
  qed
qed

lemma AppendFortune_eq: "AppendFortune page f = page @ ''<tr><td>'' @ dec_int (fst f) @ ''</td><td>'' @ html_escape (snd f) @ ''</td></tr>''"
  by (simp add: AppendFortune_def append_message_eq)

lemma fold_fortunes:
  "fold (\<lambda>f page. AppendFortune page f) fs page =
     page @ concat (map (\<lambda>f. ''<tr><td>'' @ dec_int (fst f) @ ''</td><td>'' @ html_escape (snd f) @ ''</td></tr>'') fs)"
  by (induction fs arbitrary: page) (simp_all add: AppendFortune_eq)

text \<open>The page of fortunes, without the loop.\<close>

lemma FormatFortunes_eq:
  "FormatFortunes fs = kResultingHtmlHeader @
     concat (map (\<lambda>f. ''<tr><td>'' @ dec_int (fst f) @ ''</td><td>'' @ html_escape (snd f) @ ''</td></tr>'') fs) @ kResultingHtmlFooter"
  by (simp add: FormatFortunes_def fold_fortunes)

text \<open>
  What is asked of the library: random numbers in their range, sorting, and a queue of queries that runs in its
  order on a table.  When the ids of an update have duplicates, one of their values is stored.
\<close>

definition run_update :: "int list \<Rightarrow> int list \<Rightarrow> (int \<Rightarrow> int) \<Rightarrow> (int \<Rightarrow> int) \<Rightarrow> bool" where
  "run_update ids vals t t' \<longleftrightarrow>
     (\<forall>i. if i \<in> set ids then (\<exists>c < length ids. ids ! c = i \<and> t' i = vals ! c) else t' i = t i)"

definition us_table :: "'d us_lib \<Rightarrow> ('d \<Rightarrow> int \<Rightarrow> int) \<Rightarrow> bool" where
  "us_table lib table \<longleftrightarrow>
     (\<forall>k lo hi. lo < hi \<longrightarrow> lo \<le> RandRange lib k lo hi \<and> RandRange lib k lo hi < hi) \<and>
     (\<forall>xs. mset (sort_ints lib xs) = mset xs \<and> sorted (sort_ints lib xs)) \<and>
     (\<forall>ids d. \<exists>d'. Collect lib (map Select_row ids) d = (Some (map (\<lambda>i. [\<lparr>us_id = i, random_number = table d i\<rparr>]) ids), d') \<and>
        table d' = table d) \<and>
     (\<forall>ids vals d. length vals = length ids \<longrightarrow>
        (\<exists>d'. Collect lib (map Select_row ids @ [Update_rows ids vals]) d =
            (Some (map (\<lambda>i. [\<lparr>us_id = i, random_number = table d i\<rparr>]) ids @ [[]]), d') \<and> run_update ids vals (table d) (table d')))"

lemma run_update_cases:
  "run_update ids vals t t' \<Longrightarrow> (i \<in> set ids \<and> (\<exists>c < length ids. ids ! c = i \<and> t' i = vals ! c)) \<or> (i \<notin> set ids \<and> t' i = t i)"
  by (auto simp: run_update_def split: if_splits)

lemma single_rows_map: "single_rows (map (\<lambda>i. [f i]) ids @ rest) (length ids) = Some (map f ids)"
  by (induction ids) auto

lemma random_ids:
  assumes "us_table lib table"
  shows "1 \<le> GenerateRandomId lib k \<and> GenerateRandomId lib k \<le> 10000" "1 \<le> GenerateRandomValue lib k \<and> GenerateRandomValue lib k \<le> 10000"
proof -
  have "1 \<le> RandRange lib k 1 10001" "RandRange lib k 1 10001 < 10001" using assms by (simp_all add: us_table_def)
  then show "1 \<le> GenerateRandomId lib k \<and> GenerateRandomId lib k \<le> 10000" "1 \<le> GenerateRandomValue lib k \<and> GenerateRandomValue lib k \<le> 10000"
    unfolding GenerateRandomId_def GenerateRandomValue_def kMaxWorldRows_def by simp_all
qed

section \<open>Properties\<close>

text \<open>C39. The parameter of a request to the bare server: whatever follows the name, the number of queries is from 1 to
  500; a numeral is clamped to these bounds, unless an \<^verbatim>\<open>int\<close> cannot hold it, when it counts as one; and
  reading the parameter raises an exception exactly when the url ends with the first occurrence of the name.\<close>

theorem userver_parameter:
  "(ParseParamFromQuery url name = None \<longleftrightarrow> (\<exists>pre. url = pre @ name \<and> find_sub name url = Some (length pre))) \<and>
   (\<forall>v. ParseParamFromQuery url name = Some v \<longrightarrow> 1 \<le> v \<and> v \<le> 500) \<and>
   (\<forall>pre c n rest. url = pre @ name @ c # dec n @ rest \<and> find_sub name url = Some (length pre) \<and> (rest = [] \<or> \<not> isdigit (hd rest)) \<longrightarrow>
      ParseParamFromQuery url name = Some (if n < 2 ^ 31 then min 500 (max 1 (int n)) else 1))"
proof (intro conjI allI impI)
  show "ParseParamFromQuery url name = None \<longleftrightarrow> (\<exists>pre. url = pre @ name \<and> find_sub name url = Some (length pre))"
  proof (cases "find_sub name url")
    case (Some p)
    from find_sub_found [OF Some] have p: "p + length name \<le> length url" "take (length name) (drop p url) = name" by simp_all
    have "length url < p + (length name + 1) \<longleftrightarrow> url = take p url @ name"
    proof
      assume "length url < p + (length name + 1)"
      then have "drop p url = name" using p by simp
      then show "url = take p url @ name" by (metis append_take_drop_id)
    next
      assume u: "url = take p url @ name"
      have "length url = p + length name" using p(1) by (subst u) simp
      then show "length url < p + (length name + 1)" by simp
    qed
    then show ?thesis using Some p(1) by (auto simp: ParseParamFromQuery_def Let_def)
  qed (simp add: ParseParamFromQuery_def)
next
  fix v assume "ParseParamFromQuery url name = Some v"
  then show "1 \<le> v" "v \<le> 500" using ParseFromQueryVal_bounds
    by (auto simp: ParseParamFromQuery_def Let_def split: option.splits if_splits)
next
  fix pre c n rest
  assume a: "url = pre @ name @ c # dec n @ rest \<and> find_sub name url = Some (length pre) \<and> (rest = [] \<or> \<not> isdigit (hd rest))"
  then have "drop (length pre + (length name + 1)) url = dec n @ rest" by simp
  moreover have "takeWhile isdigit (dec n @ rest) = dec n"
    using a dec_digits by (cases rest) (auto simp: takeWhile_append)
  ultimately show "ParseParamFromQuery url name = Some (if n < 2 ^ 31 then min 500 (max 1 (int n)) else 1)"
    using a ParseFromQueryVal_dec [of n] takeWhile_dec [of n] unfolding ParseParamFromQuery_def Let_def
    by (auto split: option.splits simp del: takeWhile_eq_all_conv)
qed

theorem userver_parameter_witness:
  "ParseParamFromQuery ''?queries'' ''queries'' = None \<and> ParseParamFromQuery ''?queries=7&x'' ''queries'' = Some 7"
proof
  show "ParseParamFromQuery ''?queries'' ''queries'' = None"
    using userver_parameter [of "''?queries''" "''queries''"] by auto
  have "dec 7 = ''7''" by code_simp
  then show "ParseParamFromQuery ''?queries=7&x'' ''queries'' = Some 7"
    using userver_parameter [of "''?queries=7&x''" "''queries''", THEN conjunct2, THEN conjunct2, rule_format, of "''?''" "CHR ''=''" 7 "''&x''"]
    by (simp add: isdigit_def)
qed

text \<open>The cache, filled with the rows of a table, has each row at its id.\<close>

lemma cache_filled:
  assumes "\<And>r. r \<in> set rs \<Longrightarrow> 0 \<le> us_id r" and "i \<in> us_id ` set rs"
  shows "\<exists>r \<in> set rs. us_id r = i \<and> cache_at i (fold (\<lambda>r. insert_or_assign (nat (us_id r)) r) rs []) = Some r"
  using assms
proof (induction rs rule: rev_induct)
  case (snoc r rs)
  let ?data = "fold (\<lambda>r. insert_or_assign (nat (us_id r)) r) rs []"
  have k: "0 \<le> us_id r" using snoc.prems(1) by simp
  show ?case
  proof (cases "us_id r = i")
    case True
    then show ?thesis using k by (auto simp: insert_or_assign_def cache_at_def Let_def intro!: bexI [of _ r])
  next
    case False
    then have "i \<in> us_id ` set rs" using snoc.prems(2) by auto
    then obtain q where q: "q \<in> set rs" "us_id q = i" "cache_at i ?data = Some q" using snoc by auto
    then have i: "0 \<le> i" "nat i < length ?data" "?data ! nat i = q" by (simp_all add: cache_at_def split: if_splits)
    then have "cache_at i (insert_or_assign (nat (us_id r)) r ?data) = Some q"
      using False k by (auto simp: insert_or_assign_def cache_at_def Let_def nth_append nth_list_update nat_eq_iff)
    then show ?thesis using q by auto
  qed
qed simp

theorem userver_cached:
  assumes "us_table lib table" and "us_id ` set rs = {1..10000}" and "\<And>r. r \<in> set rs \<Longrightarrow> random_number r = t (us_id r)"
  shows "\<exists>ids s'. cached_queries_response lib (fold (\<lambda>r. insert_or_assign (nat (us_id r)) r) rs []) queries s =
      (Some (GetString lib (write_rows_to_stream (map (\<lambda>i. \<lparr>us_id = i, random_number = t i\<rparr>) ids))), s') \<and>
    length ids = queries \<and> set ids \<subseteq> {1..10000}"
proof -
  define ids where "ids = map (\<lambda>c. GenerateRandomId lib (randoms s + c)) [0..<queries]"
  have ids: "set ids \<subseteq> {1..10000}" using random_ids(1) [OF assms(1)] by (auto simp: ids_def)
  let ?cache = "fold (\<lambda>r. insert_or_assign (nat (us_id r)) r) rs []"
  have at: "cache_at i ?cache = Some \<lparr>us_id = i, random_number = t i\<rparr>" if i: "i \<in> {1..10000}" for i
  proof -
    have pos: "0 \<le> us_id r" if "r \<in> set rs" for r
    proof -
      have "us_id r \<in> {1..10000}" using that assms(2) by blast
      then show ?thesis by simp
    qed
    obtain r where r: "r \<in> set rs" "us_id r = i" "cache_at i ?cache = Some r" using cache_filled [of rs i] pos i assms(2) by blast
    have "r = \<lparr>us_id = i, random_number = t i\<rparr>" using r(2) assms(3) [OF r(1)] by simp
    then show ?thesis using r(3) by (simp only:)
  qed
  have "those (map (\<lambda>i. cache_at i ?cache) is) = Some (map (\<lambda>i. \<lparr>us_id = i, random_number = t i\<rparr>) is)" if "set is \<subseteq> {1..10000}" for "is"
    using that at by (induction "is") simp_all
  from this [OF ids] have "cached_queries_response lib ?cache queries s =
      (Some (GetString lib (write_rows_to_stream (map (\<lambda>i. \<lparr>us_id = i, random_number = t i\<rparr>) ids))), s\<lparr>randoms := randoms s + queries\<rparr>)"
    by (simp add: cached_queries_response_def ids_def o_def)
  then show ?thesis using ids by (intro exI [of _ ids] exI conjI) (simp_all add: ids_def)
qed

text \<open>C40. A request for updates to the userver application answers the rows as they were before the update: sorted by
  their ids, as many as asked for, with the old numbers; the update is done nevertheless, and gives each
  row whose id was drawn a number from 1 to 10000 and leaves all others.\<close>

theorem userver_updates:
  assumes "us_table lib table"
  shows "\<exists>ids s'. updates_response lib queries s =
      (Some (GetString lib (write_rows_to_stream (map (\<lambda>i. \<lparr>us_id = i, random_number = table (cluster s) i\<rparr>) ids))), s') \<and>
    length ids = queries \<and> sorted ids \<and> set ids \<subseteq> {1..10000} \<and>
    (\<forall>i. if i \<in> set ids then 1 \<le> table (cluster s') i \<and> table (cluster s') i \<le> 10000 else table (cluster s') i = table (cluster s) i)"
proof -
  define ids where "ids = sort_ints lib (map (\<lambda>c. GenerateRandomId lib (randoms s + c)) [0..<queries])"
  define vals where "vals = map (\<lambda>c. GenerateRandomValue lib (randoms s + queries + c)) [0..<queries]"
  have m: "mset ids = mset (map (\<lambda>c. GenerateRandomId lib (randoms s + c)) [0..<queries])" "sorted ids"
    using assms by (simp_all add: us_table_def ids_def)
  have len: "length ids = queries" "length vals = length ids" using mset_eq_length [OF m(1)] by (simp_all add: vals_def)
  have "set ids = set (map (\<lambda>c. GenerateRandomId lib (randoms s + c)) [0..<queries])" using m(1) by (rule mset_eq_setD)
  then have ids: "set ids \<subseteq> {1..10000}" using random_ids(1) [OF assms] by auto
  from assms len(2) obtain d where
    d: "Collect lib (map Select_row ids @ [Update_rows ids vals]) (cluster s) =
        (Some (map (\<lambda>i. [\<lparr>us_id = i, random_number = table (cluster s) i\<rparr>]) ids @ [[]]), d)"
      "run_update ids vals (table (cluster s)) (table d)"
    unfolding us_table_def by meson
  have "1 \<le> vals ! c \<and> vals ! c \<le> 10000" if "c < length ids" for c
    using random_ids(2) [OF assms] that len by (simp add: vals_def)
  then have "\<forall>i. if i \<in> set ids then 1 \<le> table d i \<and> table d i \<le> 10000 else table d i = table (cluster s) i"
    using run_update_cases [OF d(2)] by metis
  moreover have "updates_response lib queries s =
      (Some (GetString lib (write_rows_to_stream (map (\<lambda>i. \<lparr>us_id = i, random_number = table (cluster s) i\<rparr>) ids))),
       s\<lparr>cluster := d, randoms := randoms s + 2 * queries\<rparr>)"
    using d(1) single_rows_map [of "\<lambda>i. \<lparr>us_id = i, random_number = table (cluster s) i\<rparr>" ids "[[]]"] len(1)
    unfolding updates_response_def ids_def [symmetric] vals_def [symmetric] Let_def by simp
  ultimately show ?thesis using ids len(1) m(2)
    by (intro exI [of _ ids] exI [of _ "s\<lparr>cluster := d, randoms := randoms s + 2 * queries\<rparr>"] conjI) simp_all
qed

text \<open>A library for examples, with a table in memory.\<close>

definition sample_collect :: "us_cmd list \<Rightarrow> (int \<Rightarrow> int) \<Rightarrow> WorldTableRow list list option \<times> (int \<Rightarrow> int)" where
  "sample_collect cmds d =
     (Some (map (\<lambda>c. case c of Select_row i \<Rightarrow> [\<lparr>us_id = i, random_number = d i\<rparr>] | Update_rows _ _ \<Rightarrow> []) cmds),
      fold (\<lambda>c t. case c of Select_row _ \<Rightarrow> t | Update_rows ids vals \<Rightarrow> fold (\<lambda>(i, v) t. t(i := v)) (zip ids vals) t) cmds d)"

definition sample_us :: "(int \<Rightarrow> int) us_lib" where
  "sample_us = \<lparr>RandRange = (\<lambda>k lo hi. lo + (3 * int k) mod (hi - lo)), GetString = (\<lambda>es. ''json''), Collect = sample_collect,
     Select_fortunes = (\<lambda>d. (Some [], d)), sort_ints = sort, sort_messages = qsort (\<lambda>f g. if bytes_le (snd f) (snd g) then -1 else 1)\<rparr>"

lemma fold_select: "fold (\<lambda>c t. case c of Select_row _ \<Rightarrow> t | Update_rows ids vals \<Rightarrow> f ids vals t) (map Select_row ids) t = t"
  by (induction ids) auto

lemma run_update_zip: "length vals = length ids \<Longrightarrow> run_update ids vals t (fold (\<lambda>(i, v) t. t(i := v)) (zip ids vals) t)"
proof (induction ids arbitrary: vals rule: rev_induct)
  case (snoc j ids)
  then obtain us v where v: "vals = us @ [v]" "length us = length ids" by (metis length_append_singleton length_Suc_conv_rev)
  have u: "run_update ids us t (fold (\<lambda>(i, v) t. t(i := v)) (zip ids us) t)" by (rule snoc.IH [OF v(2)])
  show ?case unfolding run_update_def
  proof
    fix i
    have zip: "fold (\<lambda>(i, v) t. t(i := v)) (zip (ids @ [j]) vals) t = (fold (\<lambda>(i, v) t. t(i := v)) (zip ids us) t)(j := v)"
      using v by simp
    show "if i \<in> set (ids @ [j])
      then \<exists>c < length (ids @ [j]). (ids @ [j]) ! c = i \<and> fold (\<lambda>(i, v) t. t(i := v)) (zip (ids @ [j]) vals) t i = vals ! c
      else fold (\<lambda>(i, v) t. t(i := v)) (zip (ids @ [j]) vals) t i = t i"
    proof (cases "i = j")
      case True
      then show ?thesis unfolding zip using v by (auto simp: nth_append intro!: exI [of _ "length ids"])
    next
      case False
      from run_update_cases [OF u, of i] show ?thesis
      proof
        assume "i \<in> set ids \<and> (\<exists>c < length ids. ids ! c = i \<and> fold (\<lambda>(i, v) t. t(i := v)) (zip ids us) t i = us ! c)"
        then obtain c where "c < length ids" "ids ! c = i" "fold (\<lambda>(i, v) t. t(i := v)) (zip ids us) t i = us ! c" by blast
        then show ?thesis unfolding zip using v False by (auto simp: nth_append intro!: exI [of _ c])
      qed (use zip False in simp)
    qed
  qed
qed (simp add: run_update_def)

lemma sample_range: "(lo::int) < hi \<Longrightarrow> lo + x mod (hi - lo) < hi"
  using pos_mod_bound [of "hi - lo" x] by linarith

lemma sample_us_table: "us_table sample_us (\<lambda>d. d)"
  by (auto simp: us_table_def sample_us_def sample_collect_def fold_select run_update_zip o_def sample_range)

theorem userver_updates_witness:
  "\<exists>ids s'. updates_response sample_us 3 \<lparr>cluster = (\<lambda>i. 7 * i), randoms = 0\<rparr> =
      (Some (GetString sample_us (write_rows_to_stream (map (\<lambda>i. \<lparr>us_id = i, random_number = 7 * i\<rparr>) ids))), s') \<and>
    length ids = 3 \<and> sorted ids"
  using userver_updates [OF sample_us_table, of 3 "\<lparr>cluster = (\<lambda>i. 7 * i), randoms = 0\<rparr>"] by fastforce

end
