(* ===== verification/Userver_Connection.thy ===== *)
theory Userver_Connection
  imports Userver_App
begin

text \<open>
  A connection of the bare server of the userver application (\<^verbatim>\<open>bare/simple_connection.cpp\<close>): the
  callbacks of the HTTP parser, the buffers of at most sixteen responses, the date that a thread caches, and the
  loop that receives and answers.  The parser (llhttp), the router, the clock, the format of dates and the
  socket are parameters.  Process runs on one thread here; the calls of other connections on it keep
  what is proved of its date (\<^verbatim>\<open>date_ok\<close>).
\<close>

section \<open>The date of a thread\<close>

record date_cache =
  last_second :: nat
  result_view :: string

text \<open>The clock counts nanoseconds since the epoch.  A date fits the 128 bytes that are kept for it.\<close>

definition GetCachedDate :: "(nat \<Rightarrow> string) \<Rightarrow> nat \<Rightarrow> date_cache \<Rightarrow> string \<times> date_cache" where
  "GetCachedDate MakeHttpDate now d =
     (let now_seconds = now div 10 ^ 9;
          d = (if now_seconds \<noteq> last_second d then \<lparr>last_second = now_seconds, result_view = MakeHttpDate now\<rparr> else d)
      in (result_view d, d))"

definition date_ok :: "(nat \<Rightarrow> string) \<Rightarrow> date_cache \<Rightarrow> bool" where
  "date_ok MakeHttpDate d \<longleftrightarrow> last_second d = 0 \<or> (\<forall>now. now div 10 ^ 9 = last_second d \<longrightarrow> result_view d = MakeHttpDate now)"

section \<open>State and library\<close>

datatype llhttp_event = On_message_begin | On_url string | On_message_complete

record buffered_response =
  br_headers :: string
  br_body :: string

record 'h us_conn =
  parser_url :: string
  responses :: "buffered_response list"
  us_wire :: string
  us_dates :: date_cache
  handled :: nat
  router :: 'h
  us_open :: bool

text \<open>
  The parser: the callbacks that some bytes cause, whether it returns \<^verbatim>\<open>HPE_OK\<close>, and its new state.  The
  router: body and content type, or an exception.  The socket: how many of some bytes it takes.
\<close>

record ('p, 'h) conn_env =
  llhttp_execute :: "'p \<Rightarrow> string \<Rightarrow> llhttp_event list \<times> bool \<times> 'p"
  llhttp_init :: 'p
  HandleRequest :: "string \<Rightarrow> 'h \<Rightarrow> (string \<times> string) option \<times> 'h"
  now_ns :: "nat \<Rightarrow> nat"
  http_date :: "nat \<Rightarrow> string"
  SendAll :: "string \<Rightarrow> string \<Rightarrow> nat"

section \<open>The buffers of responses\<close>

definition kMaxResponses :: nat where "kMaxResponses = 16"

definition response_bytes :: "buffered_response \<Rightarrow> string" where
  "response_bytes r = br_headers r @ br_body r"

text \<open>The first component is false when an exception was raised.\<close>

definition Send :: "('p, 'h) conn_env \<Rightarrow> 'h us_conn \<Rightarrow> bool \<times> 'h us_conn" where
  "Send env c =
     (if responses c = [] then (True, c)
      else (let io_vector = concat (map response_bytes (responses c));
                sent = SendAll env (us_wire c) io_vector;
                c = c\<lparr>us_wire := us_wire c @ take sent io_vector\<rparr>
            in if sent \<noteq> length io_vector then (False, c) else (True, c\<lparr>responses := []\<rparr>)))"

definition Next :: "('p, 'h) conn_env \<Rightarrow> string \<Rightarrow> 'h us_conn \<Rightarrow> bool \<times> 'h us_conn" where
  "Next env body c =
     (let (ok, c) = (if length (responses c) = kMaxResponses then Send env c else (True, c))
      in if ok then (True, c\<lparr>responses := responses c @ [\<lparr>br_headers = '''', br_body = body\<rparr>]\<rparr>) else (False, c))"

section \<open>A request\<close>

definition kCommonHeaders :: string where
  "kCommonHeaders = ''HTTP/1.1 200 OK'' @ [CHR 0x0D, CHR 0x0A] @ ''Server: us'' @ [CHR 0x0D, CHR 0x0A]"

definition kHeadersEnd :: string where
  "kHeadersEnd = [CHR 0x0D, CHR 0x0A, CHR 0x0D, CHR 0x0A]"

definition response_headers :: "string \<Rightarrow> nat \<Rightarrow> string \<Rightarrow> string" where
  "response_headers content_type len date =
     kCommonHeaders @ ''Content-Type: '' @ content_type @ [CHR 0x0D, CHR 0x0A] @ ''Content-Length: '' @ dec len @
     [CHR 0x0D, CHR 0x0A] @ ''Date: '' @ date @ kHeadersEnd"

definition handle_request :: "('p, 'h) conn_env \<Rightarrow> string \<Rightarrow> 'h us_conn \<Rightarrow> bool \<times> 'h us_conn" where
  "handle_request env url c =
     (let (response, h) = HandleRequest env url (router c);
          c = c\<lparr>router := h\<rparr>
      in case response of
           None \<Rightarrow> (False, c)
         | Some (body, content_type) \<Rightarrow>
             (let (ok, c) = Next env body c
              in if \<not> ok then (False, c)
                 else (let (date, dates) = GetCachedDate (http_date env) (now_ns env (handled c)) (us_dates c);
                           r = (last (responses c))\<lparr>br_headers := response_headers content_type (length body) date\<rparr>
                       in (True, c\<lparr>responses := butlast (responses c) @ [r], us_dates := dates, handled := handled c + 1\<rparr>))))"

text \<open>The callbacks, in the order in which the parser makes them.\<close>

fun callbacks :: "('p, 'h) conn_env \<Rightarrow> llhttp_event list \<Rightarrow> 'h us_conn \<Rightarrow> bool \<times> 'h us_conn" where
  "callbacks env [] c = (True, c)"
| "callbacks env (On_message_begin # es) c = callbacks env es (c\<lparr>parser_url := ''''\<rparr>)"
| "callbacks env (On_url d # es) c = callbacks env es (c\<lparr>parser_url := parser_url c @ d\<rparr>)"
| "callbacks env (On_message_complete # es) c =
     (case handle_request env (parser_url c) c of
        (True, c) \<Rightarrow> callbacks env es c
      | (False, c) \<Rightarrow> (False, c))"

section \<open>The loop of a connection\<close>

definition kBufferSize :: nat where "kBufferSize = 4096"

text \<open>
  A receive is whether the socket became readable and the bytes that it has then; no bytes is the end of the
  stream.  After a full buffer the socket is not waited for.  When the receives are used up the task is cancelled.
\<close>

fun Process_loop :: "('p, 'h) conn_env \<Rightarrow> nat \<Rightarrow> (bool \<times> string) list \<Rightarrow> 'p \<Rightarrow> 'h us_conn \<Rightarrow> 'h us_conn" where
  "Process_loop env last_bytes_read [] p c = c"
| "Process_loop env last_bytes_read ((readable, received) # reads) p c =
     (let is_readable = (if last_bytes_read < kBufferSize then readable else True);
          buffer = (if is_readable then received else '''')
      in if buffer = '''' then c
         else (let (events, hpe_ok, p) = llhttp_execute env p buffer;
                   (returned, c) = callbacks env events c
               in if \<not> returned \<or> \<not> hpe_ok then c
                  else (let (sent, c) = Send env c
                        in if sent then Process_loop env (length buffer) reads p c else c)))"

definition Process :: "('p, 'h) conn_env \<Rightarrow> (bool \<times> string) list \<Rightarrow> 'h \<Rightarrow> date_cache \<Rightarrow> 'h us_conn" where
  "Process env reads h dates =
     (Process_loop env 0 reads (llhttp_init env)
        \<lparr>parser_url = '''', responses = [], us_wire = '''', us_dates = dates, handled = 0, router = h, us_open = True\<rparr>)
     \<lparr>us_open := False\<rparr>"

section \<open>The connections of the server\<close>

text \<open>
  The table has a place for each descriptor; a place behind its end is undefined.  A connection that was at the place is
  cancelled, which waits until its Process has closed the socket.
\<close>

definition kMaxFd :: nat where "kMaxFd = 65536"

definition ProcessSocket :: "nat \<Rightarrow> 'c \<Rightarrow> 'c option list \<Rightarrow> 'c option list option" where
  "ProcessSocket fd connection connections = (if fd < length connections then Some (connections[fd := Some connection]) else None)"

lemma ProcessSocket_places:
  "length connections = kMaxFd \<Longrightarrow>
    (ProcessSocket fd c connections = None \<longleftrightarrow> kMaxFd \<le> fd) \<and>
    (\<forall>cs. ProcessSocket fd c connections = Some cs \<longrightarrow> length cs = kMaxFd \<and> cs ! fd = Some c \<and> (\<forall>i. i \<noteq> fd \<longrightarrow> cs ! i = connections ! i))"
  by (auto simp: ProcessSocket_def)

section \<open>What a connection is to send\<close>

text \<open>The urls of the messages that are complete, and the url that is not.\<close>

fun requests_of :: "string \<Rightarrow> llhttp_event list \<Rightarrow> string list" where
  "requests_of u [] = []"
| "requests_of u (On_message_begin # es) = requests_of '''' es"
| "requests_of u (On_url d # es) = requests_of (u @ d) es"
| "requests_of u (On_message_complete # es) = u # requests_of u es"

fun pending_url :: "string \<Rightarrow> llhttp_event list \<Rightarrow> string" where
  "pending_url u [] = u"
| "pending_url u (On_message_begin # es) = pending_url '''' es"
| "pending_url u (On_url d # es) = pending_url (u @ d) es"
| "pending_url u (On_message_complete # es) = pending_url u es"

text \<open>The answers to requests, the first of which is the connection's request number \<^verbatim>\<open>k\<close>, up to an exception.\<close>

fun answers :: "('p, 'h) conn_env \<Rightarrow> nat \<Rightarrow> string list \<Rightarrow> 'h \<Rightarrow> string list" where
  "answers env k [] h = []"
| "answers env k (u # us) h =
     (case HandleRequest env u h of
        (None, h) \<Rightarrow> []
      | (Some (body, content_type), h) \<Rightarrow>
          (response_headers content_type (length body) (http_date env (now_ns env k)) @ body) # answers env (k + 1) us h)"

fun router_after :: "('p, 'h) conn_env \<Rightarrow> string list \<Rightarrow> 'h \<Rightarrow> 'h" where
  "router_after env [] h = h"
| "router_after env (u # us) h =
     (case HandleRequest env u h of (None, h) \<Rightarrow> h | (Some b, h) \<Rightarrow> router_after env us h)"

text \<open>The callbacks that the chunks of a stream cause, up to an error, and the parser after them.\<close>

fun parse_chunks :: "('p, 'h) conn_env \<Rightarrow> 'p \<Rightarrow> string list \<Rightarrow> llhttp_event list \<times> bool \<times> 'p" where
  "parse_chunks env p [] = ([], True, p)"
| "parse_chunks env p (b # bs) =
     (case llhttp_execute env p b of
        (es, False, p) \<Rightarrow> (es, False, p)
      | (es, True, p) \<Rightarrow> (let (fs, ok, p) = parse_chunks env p bs in (es @ fs, ok, p)))"

text \<open>
  What is asked of the library: a clock that is past the first second, dates that count seconds, a socket that
  takes what it is given, and a parser that finds the same urls wherever the stream is cut.
\<close>

definition conn_lib :: "('p, 'h) conn_env \<Rightarrow> bool" where
  "conn_lib env \<longleftrightarrow>
     (\<forall>k. 10 ^ 9 \<le> now_ns env k) \<and>
     (\<forall>a b. a div 10 ^ 9 = b div 10 ^ 9 \<longrightarrow> http_date env a = http_date env b) \<and>
     (\<forall>w b. SendAll env w b = length b)"

definition llhttp_incremental :: "('p, 'h) conn_env \<Rightarrow> bool" where
  "llhttp_incremental env \<longleftrightarrow>
     (\<forall>bs cs. concat bs = concat cs \<longrightarrow>
        requests_of '''' (fst (parse_chunks env (llhttp_init env) bs)) = requests_of '''' (fst (parse_chunks env (llhttp_init env) cs)) \<and>
        fst (snd (parse_chunks env (llhttp_init env) bs)) = fst (snd (parse_chunks env (llhttp_init env) cs)))"

section \<open>Facts about a connection\<close>

lemma requests_of_append: "requests_of u (es @ fs) = requests_of u es @ requests_of (pending_url u es) fs"
  by (induction u es rule: requests_of.induct) auto

lemma pending_url_append: "pending_url u (es @ fs) = pending_url (pending_url u es) fs"
  by (induction u es rule: pending_url.induct) auto

lemma answers_length: "length (answers env k us h) \<le> length us"
  by (induction env k us h rule: answers.induct) (auto split: prod.splits option.splits)

lemma answers_append:
  "answers env k (us @ vs) h =
     answers env k us h @
       (if length (answers env k us h) = length us then answers env (k + length us) vs (router_after env us h) else [])"
  by (induction env k us h rule: answers.induct) (auto split: prod.splits option.splits)

lemma router_after_append:
  "length (answers env k us h) = length us \<Longrightarrow> router_after env (us @ vs) h = router_after env vs (router_after env us h)"
  by (induction env k us h rule: answers.induct) (auto split: prod.splits option.splits)

text \<open>The date is the one of the present second, and stays in order.\<close>

lemma GetCachedDate_ok:
  assumes "date_ok f d" and "10 ^ 9 \<le> now" and "\<And>a b. a div 10 ^ 9 = b div 10 ^ 9 \<Longrightarrow> f a = f b"
  shows "fst (GetCachedDate f now d) = f now \<and> date_ok f (snd (GetCachedDate f now d))"
proof -
  have sec: "now div 10 ^ 9 \<noteq> 0" using assms(2) by (simp add: div_greater_zero_iff)
  show ?thesis
  proof (cases "now div 10 ^ 9 = last_second d")
    case True
    then have "GetCachedDate f now d = (result_view d, d)" by (simp add: GetCachedDate_def)
    moreover have "result_view d = f now" using assms(1) sec True unfolding date_ok_def by metis
    ultimately show ?thesis using assms(1) by simp
  next
    case False
    then have "GetCachedDate f now d = (f now, \<lparr>last_second = now div 10 ^ 9, result_view = f now\<rparr>)"
      by (simp add: GetCachedDate_def Let_def)
    moreover have "date_ok f \<lparr>last_second = now div 10 ^ 9, result_view = f now\<rparr>"
      unfolding date_ok_def using assms(3) [of now] by (metis date_cache.select_convs)
    ultimately show ?thesis by simp
  qed
qed

text \<open>How many responses are buffered after \<^verbatim>\<open>j\<close> more, when there were \<^verbatim>\<open>n\<close>.\<close>

definition buffered :: "nat \<Rightarrow> nat \<Rightarrow> nat" where
  "buffered n j = (if n + j = 0 then 0 else (n + j - 1) mod 16 + 1)"

lemma buffered_simps: "n \<le> 16 \<Longrightarrow> buffered n 0 = n" "buffered (buffered n i) j = buffered n (i + j)"
proof -
  show "n \<le> 16 \<Longrightarrow> buffered n 0 = n" by (cases n) (auto simp: buffered_def)
  show "buffered (buffered n i) j = buffered n (i + j)"
  proof (cases "n + i = 0")
    case False
    then obtain m where m: "n + i = Suc m" by (cases "n + i") auto
    then show ?thesis by (simp add: buffered_def mod_add_left_eq add.assoc [symmetric])
  qed (simp add: buffered_def)
qed

definition all_bytes :: "'h us_conn \<Rightarrow> string" where
  "all_bytes c = us_wire c @ concat (map response_bytes (responses c))"

lemma Send_ok:
  assumes "conn_lib env"
  shows "Send env c = (True, c\<lparr>us_wire := all_bytes c, responses := []\<rparr>)"
proof (cases "responses c = []")
  case True
  then show ?thesis by (cases c) (simp add: Send_def all_bytes_def)
qed (use assms in \<open>simp add: Send_def all_bytes_def conn_lib_def Let_def\<close>)

abbreviation buffered_bytes :: "'h us_conn \<Rightarrow> string list" where
  "buffered_bytes c \<equiv> map response_bytes (responses c)"

lemma suffix_step: "suffix ys (xs @ [a]) \<Longrightarrow> suffix zs (ys @ as) \<Longrightarrow> suffix zs (xs @ a # as)"
proof -
  assume "suffix ys (xs @ [a])" "suffix zs (ys @ as)"
  then obtain us vs where "xs @ [a] = us @ ys" "ys @ as = vs @ zs" by (auto simp: suffix_def)
  then have "xs @ a # as = (us @ vs) @ zs" by (metis append.assoc append_Cons append_Nil)
  then show ?thesis by (rule suffixI)
qed

text \<open>One request: it fails when the router does; otherwise its answer is the last thing buffered.\<close>

lemma handle_request_step:
  assumes "conn_lib env" and "date_ok (http_date env) (us_dates c)" and "length (responses c) \<le> 16"
    and "HandleRequest env u (router c) = (Some (body, t), h)"
  shows "\<exists>c'. handle_request env u c = (True, c') \<and> router c' = h \<and> handled c' = handled c + 1 \<and> parser_url c' = parser_url c \<and>
    date_ok (http_date env) (us_dates c') \<and> length (responses c') = buffered (length (responses c)) 1 \<and>
    suffix (buffered_bytes c') (buffered_bytes c @ [response_headers t (length body) (http_date env (now_ns env (handled c))) @ body]) \<and>
    all_bytes c' = all_bytes c @ response_headers t (length body) (http_date env (now_ns env (handled c))) @ body"
proof -
  have n: "10 ^ 9 \<le> now_ns env (handled c)" "\<And>a b. a div 10 ^ 9 = b div 10 ^ 9 \<Longrightarrow> http_date env a = http_date env b"
    using assms(1) unfolding conn_lib_def by blast+
  have d: "fst (GetCachedDate (http_date env) (now_ns env (handled c)) (us_dates c)) = http_date env (now_ns env (handled c))"
    "date_ok (http_date env) (snd (GetCachedDate (http_date env) (now_ns env (handled c)) (us_dates c)))"
    using GetCachedDate_ok [OF assms(2) n] by blast+
  have b: "length (responses c) < 16 \<Longrightarrow> buffered (length (responses c)) 1 = Suc (length (responses c))" "buffered 16 1 = 1"
    by (simp_all add: buffered_def)
  show ?thesis
  proof (cases "length (responses c) = 16")
    case True
    then show ?thesis using d b assms(4)
      by (simp add: handle_request_def Next_def kMaxResponses_def Send_ok [OF assms(1)] all_bytes_def response_bytes_def split_beta Let_def)
  next
    case False
    then show ?thesis using d b assms(3, 4)
      by (simp add: handle_request_def Next_def kMaxResponses_def all_bytes_def response_bytes_def split_beta Let_def)
  qed
qed

text \<open>All callbacks of a chunk.\<close>

lemma callbacks_ok:
  assumes "conn_lib env" and "date_ok (http_date env) (us_dates c)" and "length (responses c) \<le> 16"
    and "as = answers env (handled c) (requests_of (parser_url c) es) (router c)"
  shows "\<exists>c'. callbacks env es c = (length as = length (requests_of (parser_url c) es), c') \<and>
    all_bytes c' = all_bytes c @ concat as \<and> length (responses c') = buffered (length (responses c)) (length as) \<and>
    suffix (buffered_bytes c') (buffered_bytes c @ as) \<and> date_ok (http_date env) (us_dates c') \<and> handled c' = handled c + length as \<and>
    (length as = length (requests_of (parser_url c) es) \<longrightarrow>
       parser_url c' = pending_url (parser_url c) es \<and> router c' = router_after env (requests_of (parser_url c) es) (router c))"
  using assms(2-)
proof (induction es arbitrary: c as)
  case Nil
  then show ?case by (simp add: buffered_simps)
next
  case (Cons e es)
  show ?case
  proof (cases e)
    case On_message_begin
    then show ?thesis using Cons.IH [of "c\<lparr>parser_url := ''''\<rparr>"] Cons.prems by (simp add: all_bytes_def)
  next
    case (On_url d)
    then show ?thesis using Cons.IH [of "c\<lparr>parser_url := parser_url c @ d\<rparr>"] Cons.prems by (simp add: all_bytes_def)
  next
    case complete: On_message_complete
    obtain r h where r: "HandleRequest env (parser_url c) (router c) = (r, h)" by (cases "HandleRequest env (parser_url c) (router c)")
    show ?thesis
    proof (cases r)
      case None
      then show ?thesis using r complete Cons.prems by (simp add: handle_request_def all_bytes_def buffered_simps)
    next
      case (Some b)
      obtain body t where "b = (body, t)" by (cases b)
      then have r': "HandleRequest env (parser_url c) (router c) = (Some (body, t), h)" using r Some by simp
      from handle_request_step [OF assms(1) Cons.prems(1, 2) r'] obtain c1 where
        c1: "handle_request env (parser_url c) c = (True, c1)" "router c1 = h" "handled c1 = handled c + 1" "parser_url c1 = parser_url c"
          "date_ok (http_date env) (us_dates c1)" "length (responses c1) = buffered (length (responses c)) 1"
          "suffix (buffered_bytes c1) (buffered_bytes c @ [response_headers t (length body) (http_date env (now_ns env (handled c))) @ body])"
          "all_bytes c1 = all_bytes c @ response_headers t (length body) (http_date env (now_ns env (handled c))) @ body" by blast
      have "length (responses c1) \<le> 16" unfolding c1(6) by (simp add: buffered_def)
      from Cons.IH [OF c1(5) this refl] show ?thesis
        using c1 r' complete Cons.prems(3) suffix_step [OF c1(7)] by (auto simp: buffered_simps)
    qed
  qed
qed

text \<open>Chunks without an error or an exception.\<close>

definition reads_of :: "string list \<Rightarrow> (bool \<times> string) list" where
  "reads_of bs = map (Pair True) bs"

lemma Process_loop_chunks:
  assumes "conn_lib env" and "date_ok (http_date env) (us_dates c)" and "responses c = []" and "'''' \<notin> set bs"
    and "parse_chunks env p bs = (es, True, p')" and "us = requests_of (parser_url c) es"
    and "as = answers env (handled c) us (router c)" and "length as = length us"
  shows "\<exists>c' l'. Process_loop env l (reads_of bs @ reads) p c = Process_loop env l' reads p' c' \<and>
    us_wire c' = us_wire c @ concat as \<and> responses c' = [] \<and> date_ok (http_date env) (us_dates c') \<and>
    handled c' = handled c + length as \<and> parser_url c' = pending_url (parser_url c) es \<and> router c' = router_after env us (router c)"
  using assms(2-)
proof (induction bs arbitrary: l p c es us as)
  case Nil
  then show ?case by (auto simp: reads_of_def)
next
  case (Cons b bs)
  obtain es1 p1 where e1: "llhttp_execute env p b = (es1, True, p1)"
    using Cons.prems(4) by (cases "llhttp_execute env p b") (auto split: bool.splits)
  obtain es2 where e2: "parse_chunks env p1 bs = (es2, True, p')" "es = es1 @ es2"
    using Cons.prems(4) e1 by (cases "parse_chunks env p1 bs") auto
  let ?us1 = "requests_of (parser_url c) es1" and ?us2 = "requests_of (pending_url (parser_url c) es1) es2"
  let ?as1 = "answers env (handled c) ?us1 (router c)"
  have us: "us = ?us1 @ ?us2" using Cons.prems(5) e2(2) by (simp add: requests_of_append)
  have l1: "length ?as1 = length ?us1"
  proof (rule ccontr)
    assume "length ?as1 \<noteq> length ?us1"
    then have "as = ?as1" using Cons.prems(6) unfolding us answers_append by simp
    then show False using Cons.prems(7) answers_length [of env "handled c" ?us1 "router c"] \<open>length ?as1 \<noteq> length ?us1\<close> unfolding us by simp
  qed
  let ?as2 = "answers env (handled c + length ?us1) ?us2 (router_after env ?us1 (router c))"
  have as: "as = ?as1 @ ?as2" using Cons.prems(6) l1 unfolding us answers_append by simp
  from callbacks_ok [OF assms(1) Cons.prems(1) _ refl, of es1] Cons.prems(2) l1 obtain c1 where
    c1: "callbacks env es1 c = (True, c1)" "all_bytes c1 = all_bytes c @ concat ?as1" "date_ok (http_date env) (us_dates c1)"
      "handled c1 = handled c + length ?as1" "parser_url c1 = pending_url (parser_url c) es1"
      "router c1 = router_after env ?us1 (router c)" by auto
  let ?c2 = "c1\<lparr>us_wire := all_bytes c1, responses := []\<rparr>"
  have "Process_loop env l (reads_of (b # bs) @ reads) p c = Process_loop env (length b) (reads_of bs @ reads) p1 ?c2"
    using Cons.prems(3) e1 c1(1) Send_ok [OF assms(1), of c1] by (auto simp: reads_of_def Let_def)
  moreover have "length ?as2 = length ?us2" using Cons.prems(7) l1 unfolding us as by simp
  ultimately show ?case
    using Cons.IH [of ?c2 p1 es2 ?us2 ?as2 "length b"] Cons.prems(2, 3) c1 e2 l1 us as
    by (auto simp: all_bytes_def pending_url_append router_after_append)
qed

section \<open>Properties\<close>

lemma suffix_bytes: "suffix ys xs \<Longrightarrow> w @ concat xs = v @ concat ys \<Longrightarrow> v = w @ concat (take (length xs - length ys) xs)"
  by (auto simp: suffix_def)

lemma whole_stream:
  assumes "conn_lib env" and "date_ok (http_date env) dates" and "'''' \<notin> set bs"
    and "parse_chunks env (llhttp_init env) bs = (es, True, p)" and "us = requests_of '''' es"
    and "as = answers env 0 us h" and "length as = length us"
  shows "\<exists>c' l'. us_wire (Process env (reads_of bs @ reads) h dates) = us_wire (Process_loop env l' reads p c') \<and>
    us_wire c' = concat as \<and> responses c' = [] \<and> date_ok (http_date env) (us_dates c') \<and>
    handled c' = length as \<and> parser_url c' = pending_url '''' es \<and> router c' = router_after env us h"
  using Process_loop_chunks [OF assms(1), of "\<lparr>parser_url = '''', responses = [], us_wire = '''', us_dates = dates, handled = 0, router = h, us_open = True\<rparr>"
      bs "llhttp_init env" es p us as 0 reads] assms(2-)
  unfolding Process_def by fastforce

text \<open>C11. A connection to the userver application answers all requests of its stream, each once and in their order, with the
  date of the second in which it was handled, and however the bytes of the stream are cut into receives: when
  they hold no error and no request raises an exception, nothing is kept back in the buffers at the end.\<close>

theorem userver_pipelined:
  assumes "conn_lib env" and "llhttp_incremental env" and "date_ok (http_date env) dates"
    and "'''' \<notin> set bs" and "'''' \<notin> set cs" and "concat cs = concat bs"
    and "fst (snd (parse_chunks env (llhttp_init env) bs))"
    and "us = requests_of '''' (fst (parse_chunks env (llhttp_init env) bs))"
    and "length (answers env 0 us h) = length us"
  shows "us_wire (Process env (reads_of bs @ [(r, '''')]) h dates) = concat (answers env 0 us h) \<and>
    us_wire (Process env (reads_of cs @ [(r, '''')]) h dates) = concat (answers env 0 us h)"
proof -
  have one: "us_wire (Process env (reads_of xs @ [(r, '''')]) h dates) = concat (answers env 0 us h)"
    if "'''' \<notin> set xs" "concat xs = concat bs" for xs
  proof -
    from assms(2) that(2) have "requests_of '''' (fst (parse_chunks env (llhttp_init env) xs)) = us"
      "fst (snd (parse_chunks env (llhttp_init env) xs))"
      using assms(7, 8) unfolding llhttp_incremental_def by metis+
    then obtain es p where "parse_chunks env (llhttp_init env) xs = (es, True, p)" "us = requests_of '''' es"
      by (cases "parse_chunks env (llhttp_init env) xs") auto
    from whole_stream [OF assms(1, 3) that(1) this refl assms(9), of "[(r, '''')]"] show ?thesis by auto
  qed
  show ?thesis using one [OF assms(4) refl] one [OF assms(5, 6)] by simp
qed

text \<open>C12. When a receive holds an error of the protocol, or a request that raises an exception, the connection is closed
  and answers to requests before it are lost: of the j answers that were made since the receives before, only
  the first 16 * ((j - 1) div 16) are sent.\<close>

theorem userver_answers_lost:
  assumes "conn_lib env" and "date_ok (http_date env) dates" and "'''' \<notin> set bs" and "b \<noteq> ''''"
    and "parse_chunks env (llhttp_init env) bs = (es, True, p)" and "us = requests_of '''' es"
    and "length (answers env 0 us h) = length us"
    and "llhttp_execute env p b = (fs, hpe_ok, p')" and "vs = requests_of (pending_url '''' es) fs"
    and "as = answers env 0 (us @ vs) h" and "\<not> hpe_ok \<or> length as \<noteq> length (us @ vs)"
  shows "us_wire (Process env (reads_of (bs @ [b]) @ reads) h dates) =
    concat (take (length us + 16 * ((length as - length us - 1) div 16)) as)"
proof -
  have r: "reads_of (bs @ [b]) @ reads = reads_of bs @ (True, b) # reads" by (simp add: reads_of_def)
  from whole_stream [OF assms(1, 2, 3, 5, 6) refl assms(7), of "(True, b) # reads"] obtain c l where
    c: "us_wire (Process env (reads_of bs @ (True, b) # reads) h dates) = us_wire (Process_loop env l ((True, b) # reads) p c)"
      "us_wire c = concat (answers env 0 us h)" "responses c = []" "date_ok (http_date env) (us_dates c)"
      "handled c = length us" "parser_url c = pending_url '''' es" "router c = router_after env us h"
    unfolding assms(7) by blast
  define bs' where "bs' = answers env (length us) vs (router_after env us h)"
  have as: "as = answers env 0 us h @ bs'" using assms(7) unfolding assms(10) answers_append bs'_def by simp
  have "bs' = answers env (handled c) (requests_of (parser_url c) fs) (router c)" unfolding bs'_def c(5-7) assms(9) ..
  from callbacks_ok [OF assms(1) c(4) _ this] c obtain c1 where
    c1: "callbacks env fs c = (length bs' = length vs, c1)" "all_bytes c1 = all_bytes c @ concat bs'"
      "length (responses c1) = buffered 0 (length bs')" "suffix (buffered_bytes c1) bs'"
    unfolding assms(9) by auto
  have "length bs' \<noteq> length vs \<or> \<not> hpe_ok" using assms(7, 11) as by auto
  then have "Process_loop env l ((True, b) # reads) p c = c1" using assms(4, 8) c1(1) by (simp add: Let_def)
  moreover have "us_wire c1 = us_wire c @ concat (take (length bs' - length (responses c1)) bs')"
    using suffix_bytes [OF c1(4), of "us_wire c" "us_wire c1"] c1(2) c(3) by (simp add: all_bytes_def)
  moreover have "length bs' - length (responses c1) = 16 * ((length bs' - 1) div 16)"
    unfolding c1(3) buffered_def using minus_mod_eq_mult_div [of "length bs' - 1" 16] by (cases "length bs'") auto
  moreover have "length as - length us = length bs'" using as assms(7) by simp
  ultimately show ?thesis using c(1, 2) as assms(7) unfolding r by simp
qed

subsection \<open>A library for examples\<close>

text \<open>A protocol of lines, with an error at an exclamation mark.\<close>

fun sample_events :: "string \<Rightarrow> llhttp_event list \<times> bool" where
  "sample_events [] = ([], True)"
| "sample_events (c # s) =
     (if c = CHR ''!'' then ([], False)
      else let (es, ok) = sample_events s
           in (if c = CHR 0x0A then On_message_complete # On_message_begin # es else On_url [c] # es, ok))"

definition sample_conn :: "(unit, (int \<Rightarrow> int) us_state) conn_env" where
  "sample_conn = \<lparr>llhttp_execute = (\<lambda>p s. (fst (sample_events s), snd (sample_events s), p)), llhttp_init = (),
     HandleRequest = RouteRequest sample_us (\<lambda>m. m) [], now_ns = (\<lambda>k. 10 ^ 9 * (k + 1)),
     http_date = (\<lambda>now. dec (now div 10 ^ 9)), SendAll = (\<lambda>w b. length b)\<rparr>"

definition sample_router :: "(int \<Rightarrow> int) us_state" where
  "sample_router = \<lparr>cluster = (\<lambda>i. i), randoms = 0\<rparr>"

lemma sample_events_append:
  "sample_events (s @ t) =
     (if snd (sample_events s) then (fst (sample_events s) @ fst (sample_events t), snd (sample_events t)) else sample_events s)"
  by (induction s) (auto simp: split_beta Let_def prod_eq_iff)

lemma sample_parse_chunks: "parse_chunks sample_conn () bs = (fst (sample_events (concat bs)), snd (sample_events (concat bs)), ())"
  by (induction bs) (auto simp: sample_conn_def sample_events_append split_beta Let_def split: bool.splits)

lemma sample_conn_lib: "conn_lib sample_conn" "llhttp_incremental sample_conn"
proof -
  show "conn_lib sample_conn" by (simp add: conn_lib_def sample_conn_def)
  have "llhttp_init sample_conn = ()" by simp
  then show "llhttp_incremental sample_conn" unfolding llhttp_incremental_def by (simp only: sample_parse_chunks) simp
qed

lemma sample_routes:
  "RouteRequest sample_us (\<lambda>m. m) [] ''/json'' s = (Some (''Hello, World!'', ''application/json''), s)"
  "RouteRequest sample_us (\<lambda>m. m) [] ''/plaintext'' s = (Some (''Hello, World!'', ''text/plain''), s)"
  by (simp_all add: RouteRequest_def StartsWith_def json_response_def plaintext_response_def Let_def)

definition sample_page :: "string \<Rightarrow> nat \<Rightarrow> string" where
  "sample_page content_type second = response_headers content_type (length ''Hello, World!'') (dec second) @ ''Hello, World!''"

lemma sample_answers:
  "answers sample_conn 0 [''/json'', ''/plaintext''] sample_router = [sample_page ''application/json'' 1, sample_page ''text/plain'' 2]"
  by (simp add: sample_conn_def sample_routes sample_page_def)

theorem userver_pipelined_witness:
  "us_wire (Process sample_conn (reads_of [''/js'', ''on'' @ [CHR 0x0A] @ ''/plaintext'' @ [CHR 0x0A]] @ [(True, '''')]) sample_router \<lparr>last_second = 0, result_view = ''''\<rparr>) =
   sample_page ''application/json'' 1 @ sample_page ''text/plain'' 2"
proof -
  let ?bs = "[''/js'', ''on'' @ [CHR 0x0A] @ ''/plaintext'' @ [CHR 0x0A]]"
  have "fst (snd (parse_chunks sample_conn (llhttp_init sample_conn) ?bs))"
    "[''/json'', ''/plaintext''] = requests_of '''' (fst (parse_chunks sample_conn (llhttp_init sample_conn) ?bs))"
    by (simp_all add: sample_parse_chunks Let_def del: parse_chunks.simps)
  from userver_pipelined [OF sample_conn_lib _ _ _ refl this, of "\<lparr>last_second = 0, result_view = ''''\<rparr>" sample_router True] show ?thesis
    by (simp add: sample_answers date_ok_def del: answers.simps)
qed

theorem userver_answers_lost_witness:
  "us_wire (Process sample_conn (reads_of ([''/json'' @ [CHR 0x0A]] @ [''/plaintext'' @ [CHR 0x0A, CHR ''!'']]) @ []) sample_router \<lparr>last_second = 0, result_view = ''''\<rparr>) =
   sample_page ''application/json'' 1"
proof -
  have p: "parse_chunks sample_conn (llhttp_init sample_conn) [''/json'' @ [CHR 0x0A]] =
      (fst (sample_events (''/json'' @ [CHR 0x0A])), True, ())"
    by (simp add: sample_parse_chunks Let_def del: parse_chunks.simps)
  have e: "llhttp_execute sample_conn () (''/plaintext'' @ [CHR 0x0A, CHR ''!'']) =
      (fst (sample_events (''/plaintext'' @ [CHR 0x0A, CHR ''!''])), False, ())"
    by (simp add: sample_conn_def Let_def)
  have u: "[''/json''] = requests_of '''' (fst (sample_events (''/json'' @ [CHR 0x0A])))"
    "[''/plaintext''] = requests_of (pending_url '''' (fst (sample_events (''/json'' @ [CHR 0x0A])))) (fst (sample_events (''/plaintext'' @ [CHR 0x0A, CHR ''!''])))"
    by (simp_all add: Let_def)
  have one: "length (answers sample_conn 0 [''/json''] sample_router) = length [''/json'']"
    by (simp add: sample_conn_def sample_routes)
  have d: "date_ok (http_date sample_conn) \<lparr>last_second = 0, result_view = ''''\<rparr>" by (simp add: date_ok_def)
  have two: "[sample_page ''application/json'' 1, sample_page ''text/plain'' 2] = answers sample_conn 0 ([''/json''] @ [''/plaintext'']) sample_router"
    using sample_answers by simp
  show ?thesis
    using userver_answers_lost [OF sample_conn_lib(1) d _ _ p u(1) one e u(2) two, of "[]"] by simp
qed

end
