(* ===== verification/Spec2Isabelle.thy ===== *)
theory Spec2Isabelle
  imports Ffead_T2 Ffead_T3 Ffead_T5 Random_Ids Sort_List Db_Pool_Free Json_Descr World_More Fortune Lwan_Main Lwan_Answers Libreactor
    Event_Loop Program Facil Userver_Connection
begin

text \<open>
  A verification development for the C applications of the repository, under
  \<^verbatim>\<open>src/frameworks/C\<close>: the h2o, lwan, libreactor and facil.io applications; and for five of
  its C++ applications, under \<^verbatim>\<open>src/frameworks/C++/ffead-cpp\<close> and
  \<^verbatim>\<open>src/frameworks/C++/userver\<close>.  Each
  is a small HTTP server that answers some of the same tests: a plain text, a JSON object, one row or several rows of the table World, updates of such rows, cached rows, and a page
  with the sorted table Fortune.

  The h2o application.  The main program parses its options (Config: \<^verbatim>\<open>main.c\<close>) and
  starts threads; each runs an event loop that accepts connections and takes messages from the
  other threads until it is shut down (Event_Loop: \<^verbatim>\<open>event_loop.c\<close>,
  \<^verbatim>\<open>thread.c\<close>).  A request reaches a handler, which answers it with a status,
  headers and a body (Http: \<^verbatim>\<open>request_handler.c\<close>, \<^verbatim>\<open>plaintext.c\<close>,
  the parameters of \<^verbatim>\<open>world.c\<close>; Json_Gen: \<^verbatim>\<open>json_serializer.c\<close>
  and the pool of JSON generators of \<^verbatim>\<open>utility.c\<close>).  The handlers of World
  (World, World_Inv, World_More: \<^verbatim>\<open>world.c\<close>) and of Fortune
  (Fortune: \<^verbatim>\<open>fortune.c\<close>) hand queries to the pool of database connections of
  their thread (Db_Pool, Db_Pool_Inv, Db_Pool_Step, Db_Pool_Free: \<^verbatim>\<open>database.c\<close>) and answer in
  its callbacks.  They use random numbers and a bit set (Random_Ids: \<^verbatim>\<open>utility.c\<close>,
  \<^verbatim>\<open>bitset.h\<close>) and a merge sort of linked lists (Sort_List: \<^verbatim>\<open>utility.c\<close>);
  lists and queues of link fields are in Intrusive_List (\<^verbatim>\<open>list.h\<close>).  Shared_Context
  is the protocol between the callback of a query and the disposal of its request.  Setting up the program, its
  threads and the clean-up on every path are in Program (\<^verbatim>\<open>main.c\<close>, \<^verbatim>\<open>thread.c\<close>,
  \<^verbatim>\<open>tls.c\<close>, the registration of the handlers), as lists of resources acquired, used and given
  back; Joined_Threads has the steps of such programs and a check of them that is shown to be sound.

  The lwan application.  Its JSON library has a lexer and a parser (Json_Lexer, Json_Parse:
  \<^verbatim>\<open>json.c\<close>), which no handler uses, and an encoder (Json_Escape, Json_Encode:
  \<^verbatim>\<open>json.c\<close>), which the handlers that answer with JSON use; the macros for descriptors that no handler uses are in
  Json_Descr (\<^verbatim>\<open>json.h\<close>).  The handlers (Lwan_App: \<^verbatim>\<open>techempower.c\<close>)
  read the database through an interface with two drivers, MySQL and SQLite (Lwan_Db:
  \<^verbatim>\<open>database.c\<close>); what they answer is in Lwan_Answers, the start of the program and the
  connection of each thread in Lwan_Main.

  The libreactor application forks one worker per processor, and a worker writes responses
  into the buffer of its connection (Libreactor: \<^verbatim>\<open>helpers.c\<close>,
  \<^verbatim>\<open>libreactor.c\<close>, \<^verbatim>\<open>libreactor-server.c\<close>).  The facil.io
  application routes requests to two handlers (Facil: \<^verbatim>\<open>bench_app.c\<close>).

  The ffead-cpp applications.  Rows, clamped counts, new numbers, the texts of queries and the cache are in
  Ffead_Rows.  Two applications post queries with a callback: \<^verbatim>\<open>t4\<close> answers in the callback
  (Ffead_T4: \<^verbatim>\<open>TeBkUmLpqAsync.cpp\<close>), \<^verbatim>\<open>t5\<close> queues a write in it
  (Ffead_T5: \<^verbatim>\<open>TeBkUmLpqQwAsync.cpp\<close>); what they share is in Ffead_Posts, and Async_Server
  states what such a server promises.  Two applications wait for their results: \<^verbatim>\<open>t3\<close> with
  PostgreSQL (Ffead_T3: \<^verbatim>\<open>TeBkUmLpq.cpp\<close>) and \<^verbatim>\<open>t2\<close> with MongoDB
  (Ffead_T2: \<^verbatim>\<open>TeBkUmMgr.cpp\<close>).  Closures are constructors of a datatype that hold what the
  closure captures, with one function for the body of each.

  The userver application.  Its handlers, the cache of rows, the parameters of requests and the router of its own
  server are in Userver_App (\<^verbatim>\<open>controllers\<close>, \<^verbatim>\<open>db_helpers.cpp\<close>,
  \<^verbatim>\<open>simple_router.cpp\<close>); a connection of that server, with the callbacks of its parser and its
  buffers of responses, is in Userver_Connection (\<^verbatim>\<open>simple_connection.cpp\<close>,
  \<^verbatim>\<open>simple_server.cpp\<close>).

  How the code is modelled.  Every definition has the name of the function, structure or macro it
  models, the bodies of loops have names of their own.  Structures are records, pointers to list
  nodes are addresses into a store of links, machine integers are words where they can
  overflow, and a C string is the list of its characters.  A callback is a function on the
  state of its component; where the environment chooses what happens next, a relation between
  states has one rule per callback, and invariants are proved by induction over it.  Assertions of
  the code set a flag, are recorded, or end the operation without a result; the theorems say which of them always
  hold, and which can fail in the states described with \<^verbatim>\<open>remove_connection_stale_tail\<close>,
  \<^verbatim>\<open>late_connect_error_loses_query\<close> and \<^verbatim>\<open>pool_freed\<close>.  A few fields
  of records are not in the code: they count what was allocated and not yet freed, or remember which queries an
  error dropped, and no operation reads them.  The libraries, which
  are not in the repository, are parameters: libpq, yajl, mustache and
  \<^verbatim>\<open>h2o_htmlescape\<close>, the clients of MySQL and SQLite, the string buffers, the
  template engine and the cache of lwan, the buffers of libreactor, the objects of facil.io, the library of ffead-cpp,
  userver and its HTTP parser.  What
  the code relies on is stated as a contract of each (a predicate such as \<^verbatim>\<open>mysql_contract\<close>), and a
  concrete library that meets it is in the witnesses.

  Interfaces.  A locale states what a client asks of a provider, and is interpreted on the model
  of the provider: total comparison functions (\<^verbatim>\<open>comparator\<close>, with the items of World,
  the fortunes of h2o and those of lwan), contexts shared by a query and a request
  (\<^verbatim>\<open>shared_context\<close>, with the handlers for one row and for the fortunes), drivers of a
  database (\<^verbatim>\<open>db_driver\<close> and \<^verbatim>\<open>db_scan\<close>, with MySQL and SQLite),
  what its statements take and give back (\<^verbatim>\<open>db_ledger\<close>, with both),
  callbacks that append bytes (\<^verbatim>\<open>appender\<close>), decoders of values
  (\<^verbatim>\<open>value_decoder\<close>, and \<^verbatim>\<open>payload_reader\<close> with what they read), queues (\<^verbatim>\<open>fifo_queue\<close>), sets of
  indexes (\<^verbatim>\<open>index_set\<close>), programs that share resources with the threads they wait for
  (\<^verbatim>\<open>joined_threads\<close>, with the h2o program) and servers that answer later
  (\<^verbatim>\<open>async_server\<close>, with \<^verbatim>\<open>t4\<close> and \<^verbatim>\<open>t5\<close>).

  What the theorems show.  Pool: every query that is accepted is waiting, in flight, has had one
  callback, or is one of those that an error of a connection that was already established dropped
  (\<^verbatim>\<open>late_connect_error\<close>); the counters agree with the queues, queries are handed out in order and none is
  forgotten, the idle list is sound, and the assertions at the end of the pool hold
  exactly when no query waits and every connection is on that list and quiet.  These hold in the states that are
  \<^verbatim>\<open>reachable\<close>: all events happen, up to the first state whose idle list links a connection
  that was freed (\<^verbatim>\<open>dangling\<close>); the code reads freed memory from there on, and the theorems
  show what the state before was.  Random numbers: \<^verbatim>\<open>get_random_number\<close> is
  unbiased, ids are distinct.  Sorting: the list is relinked into a stable sorted permutation for
  every total preorder.  World: life and answer of a request for one row or several in every
  order of the callbacks, prepared updates and the layout of their memory.  Fortunes: life,
  answer, and agreement of two applications (below).  JSON: the lexer reads what was written,
  the parser stays inside the memory it may write on every input and reads nothing behind its payload
  but the one byte that \<^verbatim>\<open>decode_num\<close> replaces for a moment, the encoder writes the text that
  the descriptors describe, the escape trick is the escape table.  lwan: answers of the handlers,
  release of statements, their arrays and the blocks of the handlers, bounded waiting.  libreactor: responses byte for byte, one worker on
  each processor.  facil.io: the answers, and every reference given back.  Event loop: counters
  and listening sockets in every reachable state, the
  shutdown reaches every thread, the loop can end.  Configuration: the options mean a table
  look-up, and what they give suits the rest of the application (below).  Program: in every interleaving of the
  threads nothing is used after it was freed, the program can end from every state, and at its end everything is
  given back but the handle of the log, which the code never releases.  ffead-cpp:
  requests are conserved, the answers to requests for rows, bulk updates are well typed, the cache gives rows
  back as they are, updates change the table to what is answered, and how failures are reported.
  userver: the bounds of the parameter, what an update answers and stores, the responses of a connection in order for
  every way to cut its stream, and which of them an error loses.

  Bounds and fuel.  \<^verbatim>\<open>sort_list\<close> runs with fuel twice the length of the list and
  three, which is shown to be enough, as is the fuel of the lexer and the parser, the length of
  the payload; reading the fortunes needs one more than there are rows, and the messages of a
  thread their weight, where a task weighs more than what it sends.  Loops over a random
  generator return when the generator gives values that are accepted; that is a hypothesis.

  Not modelled.  In the h2o application: \<^verbatim>\<open>error.c\<close>, which prints messages, the
  program that loads into the kernel, and what the calls of h2o, OpenSSL and the system do inside.  In
  libreactor the start-up code.  In ffead-cpp: the branches without RapidJSON, and \<^verbatim>\<open>t1\<close>, which
  hands everything to the object-relational mapper of its library.  In userver the list of its components and the
  semaphores that bound the queries at a time.  The other C++ applications are written over
  frameworks that are not in the repository, with classes generated for their databases and vendored headers;
  they and the applications in other languages are left aside.

  The names of theorems at the end of theories, after a claim number, are the main properties; the
  witness behind each applies it to a concrete input.
\<close>

section \<open>Fortunes in two applications\<close>

text \<open>
  Both applications sort the fortunes by the bytes of the messages: h2o a linked list of escaped
  messages, lwan an array of the messages themselves, which its template escapes.
\<close>

definition fortune_messages :: "(int \<times> string) list \<Rightarrow> string set" where
  "fortune_messages fs = insert NEW_FORTUNE_MESSAGE (snd ` set fs)"

text \<open>An escape function that keeps the order of the messages of a table, and the additional one.\<close>

definition escape_keeps_order :: "(string \<Rightarrow> string) \<Rightarrow> (int \<times> string) list \<Rightarrow> bool" where
  "escape_keeps_order escape fs \<longleftrightarrow> escape NEW_FORTUNE_MESSAGE = NEW_FORTUNE_MESSAGE \<and>
     (\<forall>m \<in> fortune_messages fs. \<forall>n \<in> fortune_messages fs. bytes_le (escape m) (escape n) \<longleftrightarrow> bytes_le m n)"

lemma escaped_messages_unique:
  assumes "sorted_wrt (\<lambda>f g. bytes_le (f_message f) (f_message g)) ys"
    "sorted_wrt (\<lambda>x y. strcmp (snd x) (snd y) \<le> 0) zs"
    "mset (map f_message ys) = mset (map (\<lambda>z. escape (snd z)) zs)" "\<forall>z \<in> set zs. NUL \<notin> set (snd z)"
    "\<forall>x \<in> set zs. \<forall>y \<in> set zs. bytes_le (escape (snd x)) (escape (snd y)) \<longleftrightarrow> bytes_le (snd x) (snd y)"
  shows "map f_message ys = map (\<lambda>z. escape (snd z)) zs"
proof (rule sorted_wrt_unique [where le = bytes_le])
  show "sorted_wrt bytes_le (map f_message ys)" using assms(1) by (simp add: sorted_wrt_map)
  have "sorted_wrt (\<lambda>x y. bytes_le (escape (snd x)) (escape (snd y))) zs"
    by (rule sorted_wrt_mono_rel [OF _ assms(2)]) (use assms(4,5) strcmp_le_bytes in auto)
  then show "sorted_wrt bytes_le (map (\<lambda>z. escape (snd z)) zs)" by (simp add: sorted_wrt_map)
qed (use assms(3) bytes_le_antisym in auto)

text \<open>C5. Let both applications read the same rows, with 32-bit ids and messages of fewer than 256 bytes that have
  no zero; let no call to the database and no allocation fail and the request live until its result; let the template
  engines list what they are given and the sort of the library of lwan sort; let the fuel be more than
  there are rows; and let both applications escape with the same function, which leaves the additional message as it
  is and keeps the order of the messages of the table.
  Then the pages of the h2o and the lwan application list the same messages in the same order, one in a
  linked list sorted by merging with \<^verbatim>\<open>memcmp\<close>, the other in an array sorted with
  \<^verbatim>\<open>strcmp\<close>.  The conditions matter: lwan cuts or misreads a longer message, and
  escaping need not keep the order, see below.\<close>

theorem fortune_pages_agree:
  assumes "renders_template mustache_render before behind" "renders_fortune render_section body"
    "db_scan (db_stmt_ops database) scan"
    "db_prepare_stmt database fortune_query r = (Some st, r1)" "scan a b (map (\<lambda>f. [DInt (fst f), DStr (snd f)]) fs) st"
    "\<forall>f \<in> set fs. int32 (fst f) \<and> length (snd f) < 256 \<and> NUL \<notin> set (snd f)" "alloc = (\<lambda>_. (True, True))"
    "\<And>cmp xs. mset (array_sort cmp xs) = mset xs" "\<And>xs. sorted_wrt (\<lambda>x y. fortune_compare x y \<le> 0) (array_sort fortune_compare xs)"
    "length fs < fuel" "escape_keeps_order escape fs" "map snd rows = map snd fs"
  shows "\<exists>ys zs r'.
    fc_req (on_fortune_result now escape mustache_render render_section (Some rows) (Fortune.fortunes seconds True rq)) =
      h2o_call (Send_final (before @ concat (map body ys) @ behind))
        (set_default_response_param now HTML (length (before @ concat (map body ys) @ behind)) rq) \<and>
    fortune_list_generator array_sort database alloc a b fuel mem r = Yields zs r' \<and>
    map f_message ys = map (\<lambda>z. escape (snd z)) zs"
proof -
  let ?new = "\<lparr>f_id = ''0'', f_message = NEW_FORTUNE_MESSAGE\<rparr>"
  have h: "holds (Fortune.fortunes seconds True rq) [0] [?new]" "\<not> fc_cleanup (Fortune.fortunes seconds True rq)"
    "fc_req (Fortune.fortunes seconds True rq) = rq"
    by (simp_all add: Fortune.fortunes_def new_fortune_ctx_def holds_def)
  from fortune_result_renders [OF assms(1,2) h(1) _ h(2), of now escape rows] h(3) obtain ys where
    ys: "sorted_wrt (\<lambda>f g. bytes_le (f_message f) (f_message g)) ys"
      "mset ys = mset (map (\<lambda>r. \<lparr>f_id = fst r, f_message = escape (snd r)\<rparr>) rows) + mset [?new]"
      "fc_req (on_fortune_result now escape mustache_render render_section (Some rows) (Fortune.fortunes seconds True rq)) =
        h2o_call (Send_final (before @ concat (map body ys) @ behind))
          (set_default_response_param now HTML (length (before @ concat (map body ys) @ behind)) rq)"
    by auto
  obtain zs r' where zs: "fortune_list_generator array_sort database alloc a b fuel mem r = Yields zs r'"
    "sorted_wrt (\<lambda>x y. strcmp (snd x) (snd y) \<le> 0) zs" "mset zs = add_mset (0, NEW_FORTUNE_MESSAGE) (mset fs)"
    using fortune_list_sorted [where scan = scan and st = st and ?r1.0 = r1 and array_sort = array_sort and database = database
        and alloc = alloc and a = a and b = b and fuel = fuel and mem = mem and r = r and fs = fs] assms(3-10)
    unfolding NEW_FORTUNE_MESSAGE_def by blast
  have set_zs: "set zs = insert (0, NEW_FORTUNE_MESSAGE) (set fs)"
    using zs(3) by (metis set_mset_add_mset_insert set_mset_mset)
  have m: "map f_message (map (\<lambda>r. \<lparr>f_id = fst r, f_message = escape (snd r)\<rparr>) rows) = map (\<lambda>f. escape (snd f)) fs"
    using arg_cong [OF assms(12), of "map escape"] by (simp add: comp_def)
  have "mset (map f_message ys) = add_mset NEW_FORTUNE_MESSAGE (mset (map (\<lambda>f. escape (snd f)) fs))"
    unfolding mset_map [of f_message ys] ys(2) m [symmetric] by (simp add: multiset.map_comp)
  moreover have "mset (map (\<lambda>z. escape (snd z)) zs) = add_mset NEW_FORTUNE_MESSAGE (mset (map (\<lambda>f. escape (snd f)) fs))"
    using zs(3) assms(11) by (simp add: escape_keeps_order_def)
  moreover have "\<forall>z \<in> set zs. NUL \<notin> set (snd z)" using assms(6) by (auto simp: set_zs NEW_FORTUNE_MESSAGE_def)
  moreover have "\<forall>x \<in> set zs. \<forall>y \<in> set zs. bytes_le (escape (snd x)) (escape (snd y)) \<longleftrightarrow> bytes_le (snd x) (snd y)"
    using assms(11) by (auto simp: set_zs escape_keeps_order_def fortune_messages_def)
  ultimately have "map f_message ys = map (\<lambda>z. escape (snd z)) zs"
    by (intro escaped_messages_unique ys(1) zs(2)) simp_all
  with ys(3) zs(1) show ?thesis by blast
qed

text \<open>The property on a table whose messages have a character to escape.\<close>

definition sample_escape :: "string \<Rightarrow> string" where
  "sample_escape s = concat (map (\<lambda>c. if c = CHR ''<'' then ''&lt;'' else [c]) s)"

lemma sample_escape_keeps: "escape_keeps_order sample_escape [(1, ''<b''), (2, ''a'')]"
  by code_simp

lemma sample_fortunes:
  "\<exists>st r1. db_prepare_stmt (sample_database query) fortune_query no_resources = (Some st, r1) \<and>
     sqlite_scan (sample_sqlite query) query fst (\<lambda>s. fst (snd s)) (\<lambda>s. snd (snd s)) 0 0 (query []) st"
proof -
  obtain st r1 where p: "db_prepare_stmt (sample_database query) fortune_query no_resources = (Some st, r1)"
    by (simp add: sample_database_def db_prepare_stmt_def db_prepare_sqlite_def Let_def)
  with sample_facts(5) [of query fortune_query 0 0, unfolded prepares_def, rule_format, OF p] show ?thesis by auto
qed

theorem fortune_pages_agree_witness:
  "\<exists>(ys :: fortune list) zs r'.
    fc_req (on_fortune_result ''now'' sample_escape sample_template sample_section (Some [(''1'', ''<b''), (''2'', ''a'')])
        (Fortune.fortunes ''1'' True \<lparr>res_status = 0, res_reason = [], res_content_length = 0, res_headers = [], calls = []\<rparr>)) =
      h2o_call (Send_final (''<'' @ concat (map (\<lambda>f. f_id f @ f_message f) ys) @ ''>''))
        (set_default_response_param ''now'' HTML (length (''<'' @ concat (map (\<lambda>f. f_id f @ f_message f) ys) @ ''>''))
          \<lparr>res_status = 0, res_reason = [], res_content_length = 0, res_headers = [], calls = []\<rparr>) \<and>
    fortune_list_generator qsort (sample_database (\<lambda>_. [[DInt 1, DStr ''<b''], [DInt 2, DStr ''a'']]))
      (\<lambda>_. (True, True)) 0 0 3 sample_mem no_resources = Yields zs r' \<and>
    map f_message ys = map (\<lambda>z. sample_escape (snd z)) zs"
proof -
  let ?q = "\<lambda>_ :: db_value list. [[DInt 1, DStr ''<b''], [DInt 2, DStr ''a'']]"
  let ?fs = "[(1, ''<b''), (2, ''a'')] :: fortune_item list"
  from sample_fortunes [of ?q] obtain st r1 where
    p: "db_prepare_stmt (sample_database ?q) fortune_query no_resources = (Some st, r1)"
      "sqlite_scan (sample_sqlite ?q) ?q fst (\<lambda>s. fst (snd s)) (\<lambda>s. snd (snd s)) 0 0 (map (\<lambda>f. [DInt (fst f), DStr (snd f)]) ?fs) st"
    by auto
  note fortune_pages_agree [where mustache_render = sample_template and before = "''<''" and behind = "''>''" and
      render_section = sample_section and body = "\<lambda>f. f_id f @ f_message f" and now = "''now''" and seconds = "''1''" and
      rq = "\<lparr>res_status = 0, res_reason = [], res_content_length = 0, res_headers = [], calls = []\<rparr>" and
      escape = sample_escape and rows = "[(''1'', ''<b''), (''2'', ''a'')]" and
      database = "sample_database ?q" and fs = ?fs and st = st and ?r1.0 = r1 and
      r = no_resources and a = 0 and b = 0 and array_sort = qsort and alloc = "\<lambda>_. (True, True)" and fuel = 3 and mem = sample_mem and
      scan = "sqlite_scan (sample_sqlite ?q) ?q fst (\<lambda>s. fst (snd s)) (\<lambda>s. snd (snd s))"]
  note agree = this [OF sample_renders sample_driver(2) p _ refl mset_qsort fortune_items.qsort_sorted _ sample_escape_keeps]
  show ?thesis by (rule agree) (simp_all add: int32_def)
qed

text \<open>
  Without that condition the orders differ: a less-than sign is greater than a digit, its escaped
  form begins with a smaller byte.
\<close>

theorem fortune_orders_differ:
  "fortune_compare (1, ''5'') (2, ''<'') < 0 \<and>
   compare_fortunes (\<lambda>a. \<lparr>f_id = ''1'', f_message = sample_escape ([''5'', ''<''] ! a)\<rparr>) 0 1 > 0"
  by code_simp

section \<open>The configuration and its users\<close>

text \<open>C31. A configuration that the command line gives satisfies what the rest of the h2o application assumes: a
  request starts at least one query and at most all of its queries, however large the configured
  numbers are; an accept callback of a thread that is not shutting down takes a connection when
  one waits; and the signal is sent on to exactly the other threads.\<close>

theorem configuration_suits:
  assumes "parse_options numproc opts = Some c" "0 < numproc" "numproc < 2 ^ 64"
  shows "(0 < n \<longrightarrow> 1 \<le> in_progress_limit (max_db_conn_num c) (max_pipeline_query_num c) n \<and>
      in_progress_limit (max_db_conn_num c) (max_pipeline_query_num c) n \<le> n) \<and>
    (\<not> shutdown l \<longrightarrow> (\<exists>rest l'. accept_connection c False (sock # waiting) l = (rest, l') \<and>
      h2o_accepts l' \<noteq> h2o_accepts l \<and> length rest \<le> length waiting)) \<and>
    mset (fst (shutdown_server c False l)) = image_mset (\<lambda>i. (i, SHUTDOWN)) (mset_set {1..<unat (thread_num c)}) \<and> 0 < thread_num c"
proof -
  have "unat (word_of_nat numproc :: 64 word) = numproc"
    using assms(3) by (simp add: unsigned_of_nat take_bit_eq_mod)
  then have np: "(word_of_nat numproc :: 64 word) \<noteq> 0" using assms(2) by auto
  note positive = parse_options_positive [OF assms(1)]
  have "mset (fst (shutdown_server c False l)) = image_mset (\<lambda>i. (i, SHUTDOWN)) (mset_set {1..<unat (thread_num c)}) \<and> 0 < thread_num c"
    using shutdown_messages [of c l] positive(8) [OF np] by (simp add: word_gt_0)
  moreover have "\<exists>rest l'. accept_connection c False (sock # waiting) l = (rest, l') \<and> h2o_accepts l' \<noteq> h2o_accepts l \<and> length rest \<le> length waiting"
    if "\<not> shutdown l"
    using accept_connection_progress [OF _ that positive(1)] by (metis surj_pair)
  ultimately show ?thesis using in_progress_limit_bounds [OF positive(2,3), of n] by blast
qed

theorem configuration_suits_witness:
  "\<exists>c. parse_options 4 [(CHR ''m'', ''16''), (CHR ''e'', ''-1''), (CHR ''t'', ''3'')] = Some c \<and>
     in_progress_limit (max_db_conn_num c) (max_pipeline_query_num c) 20 \<le> 20 \<and>
     mset (fst (shutdown_server c False (lp (initial_world None 1 2)))) = {#(1, SHUTDOWN), (2, SHUTDOWN)#}"
proof -
  let ?opts = "[(CHR ''m'', ''16''), (CHR ''e'', ''-1''), (CHR ''t'', ''3'')]"
  have "map_option thread_num (parse_options 4 ?opts) = Some 3" by code_simp
  then obtain c where c: "parse_options 4 ?opts = Some c" "thread_num c = 3" by (cases "parse_options 4 ?opts") auto
  have "{1..<3} = {1, 2 :: nat}" by auto
  with configuration_suits [OF c(1), of 20 "lp (initial_world None 1 2)"] c show ?thesis
    by (intro exI [of _ c]) simp
qed

end
